(* ===== verification/Prelude.thy ===== *)
theory Prelude
  imports Main "HOL-Library.Word" "HOL-Library.Monad_Syntax"
begin

text \<open>
  Shared vocabulary of the development: the machine integer types of the C++ sources, the
  byte type (a \<^typ>\<open>char\<close>, as in \<^verbatim>\<open>std::fstream\<close>), the two list operations every file access
  is made of (\<open>get_range\<close> reads a range, \<open>put_range\<close> overwrites a range and pads a gap with zero
  bytes), and the lemmas about ranges that the storage components use.
\<close>

named_theorems range_simps \<open>reading a range of a list after overwriting another range\<close>

type_synonym u32 = "32 word"
type_synonym byte = char
type_synonym bytes = "char list"

abbreviation NUL :: byte where
  "NUL \<equiv> CHR 0x00"

subsection \<open>Ranges of a list\<close>

definition get_range :: "'a list \<Rightarrow> nat \<Rightarrow> nat \<Rightarrow> 'a list" where
  "get_range xs p n = take n (drop p xs)"

definition pad_to :: "nat \<Rightarrow> bytes \<Rightarrow> bytes" where
  "pad_to n xs = xs @ replicate (n - length xs) NUL"

definition put_range :: "bytes \<Rightarrow> nat \<Rightarrow> bytes \<Rightarrow> bytes" where
  "put_range xs p bs = take p (pad_to p xs) @ bs @ drop (p + length bs) xs"

lemma length_get_range [simp]: "length (get_range xs p n) = min n (length xs - p)"
  by (simp add: get_range_def)

lemma length_pad_to [simp]: "length (pad_to n xs) = max n (length xs)"
  by (simp add: pad_to_def)

lemma length_put_range [simp]: "length (put_range xs p bs) = max (length xs) (p + length bs)"
  by (auto simp: put_range_def)

lemma nth_pad_to: "i < max n (length xs) \<Longrightarrow> pad_to n xs ! i = (if i < length xs then xs ! i else NUL)"
  by (auto simp: pad_to_def nth_append)

lemma nth_put_range:
  "i < max (length xs) (p + length bs) \<Longrightarrow>
   put_range xs p bs ! i =
     (if i < p then (if i < length xs then xs ! i else NUL)
      else if i < p + length bs then bs ! (i - p)
      else xs ! i)"
  by (auto simp: put_range_def nth_append nth_pad_to min_def)

lemma nth_get_range: "i < n \<Longrightarrow> p + i < length xs \<Longrightarrow> get_range xs p n ! i = xs ! (p + i)"
  by (simp add: get_range_def)

lemma get_put_inside [range_simps]:
  assumes "p \<le> q" "q + n \<le> p + length bs"
  shows "get_range (put_range xs p bs) q n = get_range bs (q - p) n"
  using assms by (auto intro!: nth_equalityI simp: nth_get_range nth_put_range)

lemma get_put_before [range_simps]:
  assumes "q + n \<le> p" "q + n \<le> length xs"
  shows "get_range (put_range xs p bs) q n = get_range xs q n"
  using assms by (auto intro!: nth_equalityI simp: nth_get_range nth_put_range)

lemma get_put_after [range_simps]:
  assumes "p + length bs \<le> q"
  shows "get_range (put_range xs p bs) q n = get_range xs q n"
  using assms by (auto intro!: nth_equalityI simp: nth_get_range nth_put_range)

lemma get_range_all [simp]: "length xs \<le> n \<Longrightarrow> get_range xs 0 n = xs"
  by (simp add: get_range_def)

lemma get_range_get_range: "p + n \<le> m \<Longrightarrow> get_range (get_range xs q m) p n = get_range xs (q + p) n"
  by (simp add: get_range_def drop_take min_def add.commute)

lemma put_put_append:
  "put_range (put_range xs p bs) (p + length bs) cs = put_range xs p (bs @ cs)"
  by (auto intro!: nth_equalityI simp: nth_put_range nth_append)

lemma put_range_Nil [simp]: "p \<le> length xs \<Longrightarrow> put_range xs p [] = xs"
  by (simp add: put_range_def pad_to_def)

lemma put_range_at_end: "put_range xs (length xs) bs = xs @ bs"
  by (simp add: put_range_def pad_to_def)

lemma put_range_append_right:
  "length xs \<le> p \<Longrightarrow> put_range (xs @ ys) p bs = xs @ put_range ys (p - length xs) bs"
  by (auto intro!: nth_equalityI simp: nth_put_range nth_append)

lemma put_range_append_left:
  "p + length bs \<le> length xs \<Longrightarrow> put_range (xs @ ys) p bs = put_range xs p bs @ ys"
  by (auto intro!: nth_equalityI simp: nth_put_range nth_append)

lemma get_range_append_right: "length xs \<le> p \<Longrightarrow> get_range (xs @ ys) p n = get_range ys (p - length xs) n"
  by (simp add: get_range_def)

lemma get_range_append_left: "p + n \<le> length xs \<Longrightarrow> get_range (xs @ ys) p n = get_range xs p n"
  by (simp add: get_range_def)

end
