(* ===== verification/Ordered_Map.thy ===== *)
theory Ordered_Map
  imports Prelude "HOL-Library.List_Lexorder" "HOL-Library.Char_ord"
begin

text \<open>
  \<^verbatim>\<open>std::map\<close>: the list of the entries in ascending order of the keys. Strings are compared as in C++,
  character by character.
\<close>

fun map_put :: "'k::linorder \<Rightarrow> 'v \<Rightarrow> ('k \<times> 'v) list \<Rightarrow> ('k \<times> 'v) list" where
  "map_put k v [] = [(k, v)]"
| "map_put k v ((k', v') # m) =
     (if k < k' then (k, v) # (k', v') # m
      else if k = k' then (k, v) # m
      else (k', v') # map_put k v m)"

definition ordered :: "('k::linorder \<times> 'v) list \<Rightarrow> bool" where
  "ordered m \<longleftrightarrow> sorted_wrt (<) (map fst m)"

lemma map_put_keys: "fst ` set (map_put k v m) = insert k (fst ` set m)"
  by (induction k v m rule: map_put.induct) auto

lemma ordered_map_put [intro]: "ordered m \<Longrightarrow> ordered (map_put k v m)"
proof (induction k v m rule: map_put.induct)
  case (2 k v k' v' m)
  then have IH: "k' < k \<Longrightarrow> ordered (map_put k v m)" by (auto simp: ordered_def)
  have "\<forall>x\<in>fst ` set (map_put k v m). k' < x" if "k' < k"
    using 2(2) that by (auto simp: map_put_keys ordered_def)
  with 2(2) IH show ?case by (auto simp: ordered_def)
qed (simp add: ordered_def)

lemma ordered_distinct: "ordered m \<Longrightarrow> distinct (map fst m)"
  unfolding ordered_def by (induction m) auto

lemma map_put_lookup: "ordered m \<Longrightarrow> map_of (map_put k v m) = (map_of m)(k \<mapsto> v)"
proof (induction k v m rule: map_put.induct)
  case (2 k v k' v' m)
  then show ?case by (auto simp: ordered_def fun_eq_iff)
qed simp

lemma map_put_last: "\<forall>x\<in>fst ` set m. x < k \<Longrightarrow> map_put k v m = m @ [(k, v)]"
  by (induction k v m rule: map_put.induct) auto

lemma ordered_append:
  "ordered (m @ es) \<longleftrightarrow> ordered m \<and> ordered es \<and> (\<forall>x\<in>fst ` set m. \<forall>y\<in>fst ` set es. x < y)"
  by (simp add: ordered_def sorted_wrt_append)

lemma fold_map_put:
  assumes "ordered (m @ map (\<lambda>(k, v). (k, f v)) es)"
  shows "fold (\<lambda>(k, v) m. map_put k (f v) m) es m = m @ map (\<lambda>(k, v). (k, f v)) es"
  using assms
proof (induction es arbitrary: m)
  case (Cons e es)
  obtain k v where e: "e = (k, v)" by fastforce
  have "map_put k (f v) m = m @ [(k, f v)]"
    using Cons.prems by (intro map_put_last) (auto simp: e ordered_append)
  with Cons.IH [of "m @ [(k, f v)]"] Cons.prems show ?case by (simp add: e)
qed simp

lemma ordered_map_values: "ordered (map (\<lambda>(k, v). (k, f v)) es) \<longleftrightarrow> ordered es"
proof -
  have "map fst (map (\<lambda>(k, v). (k, f v)) es) = map fst es" by (simp add: case_prod_beta)
  then show ?thesis unfolding ordered_def by (simp only:)
qed

end
