(* ===== verification/Cpp_Runtime.thy ===== *)
theory Cpp_Runtime
  imports Prelude
begin

text \<open>
  The part of the C++ standard library that the storage code rests on.

  \<^item> \<open>fstream\<close>: a binary file stream as its content, its single position (the get and the put
    position of a \<^verbatim>\<open>std::basic_filebuf\<close> are one) and its state. A short read sets the fail bit,
    and no storage code ever calls \<^verbatim>\<open>clear()\<close>, so a failed stream refuses every later access.
    A write past the end leaves a gap of zero bytes. The medium itself never fails.
  \<^item> the little-endian image of an \<^verbatim>\<open>unsigned int\<close>, which is what
    \<^verbatim>\<open>reinterpret_cast<char*>\<close> writes and reads;
  \<^item> fixed-size character buffers and the C string functions on them;
  \<^item> \<^verbatim>\<open>std::to_string\<close> and \<^verbatim>\<open>std::stoul\<close>.

  A computation that leaves the defined behaviour of C++ (an indeterminate value is used, a
  buffer is overrun, a null pointer is dereferenced), that ends in an exception nobody
  catches, or that never ends, has the result \<^const>\<open>None\<close>.
\<close>

subsection \<open>File streams\<close>

record fstream =
  content :: bytes
  pos :: nat
  good :: bool

definition fresh_stream :: fstream where
  "fresh_stream = \<lparr>content = [], pos = 0, good = True\<rparr>"

definition open_stream :: "bytes \<Rightarrow> fstream" where
  "open_stream bs = \<lparr>content = bs, pos = 0, good = True\<rparr>"

definition seek :: "nat \<Rightarrow> fstream \<Rightarrow> fstream" where
  "seek p f = (if good f then f\<lparr>pos := p\<rparr> else f)"

definition fwrite :: "bytes \<Rightarrow> fstream \<Rightarrow> fstream" where
  "fwrite bs f =
     (if good f
      then f\<lparr>content := put_range (content f) (pos f) bs, pos := pos f + length bs\<rparr>
      else f)"

definition fread :: "nat \<Rightarrow> fstream \<Rightarrow> bytes option \<times> fstream" where
  "fread n f =
     (if good f \<and> pos f + n \<le> length (content f)
      then (Some (get_range (content f) (pos f) n), f\<lparr>pos := pos f + n\<rparr>)
      else (None, f\<lparr>good := False\<rparr>))"

text \<open>A read whose failure is only logged: the buffer is used although it was never filled.\<close>

definition fread_unchecked :: "nat \<Rightarrow> fstream \<Rightarrow> (bytes \<times> fstream) option" where
  "fread_unchecked n f =
     (case fread n f of (Some bs, f') \<Rightarrow> Some (bs, f') | (None, f') \<Rightarrow> None)"

text \<open>Writes each of which is checked: the first failure ends the sequence.\<close>

fun fwrite_checked :: "bytes list \<Rightarrow> fstream \<Rightarrow> bool \<times> fstream" where
  "fwrite_checked [] f = (True, f)"
| "fwrite_checked (bs # bss) f =
     (let f' = fwrite bs f in if good f' then fwrite_checked bss f' else (False, f'))"

text \<open>Reads each of which is checked: the first failure ends the sequence.\<close>

fun fread_checked :: "nat list \<Rightarrow> fstream \<Rightarrow> bytes list option \<times> fstream" where
  "fread_checked [] f = (Some [], f)"
| "fread_checked (n # ns) f =
     (case fread n f of
        (None, f') \<Rightarrow> (None, f')
      | (Some bs, f') \<Rightarrow>
          (case fread_checked ns f' of
             (None, f'') \<Rightarrow> (None, f'')
           | (Some bss, f'') \<Rightarrow> (Some (bs # bss), f'')))"

lemma content_seek [simp]: "content (seek p f) = content f"
  and good_seek [simp]: "good (seek p f) = good f"
  and pos_seek: "good f \<Longrightarrow> pos (seek p f) = p"
  by (simp_all add: seek_def)

lemma good_fwrite [simp]: "good (fwrite bs f) = good f"
  by (simp add: fwrite_def)

lemma content_fwrite: "good f \<Longrightarrow> content (fwrite bs f) = put_range (content f) (pos f) bs"
  and pos_fwrite: "good f \<Longrightarrow> pos (fwrite bs f) = pos f + length bs"
  by (simp_all add: fwrite_def)

lemma fwrite_fwrite: "fwrite cs (fwrite bs f) = fwrite (bs @ cs) f"
  by (simp add: fwrite_def put_put_append add.assoc)

lemma fwrite_checked_good: "good f \<Longrightarrow> fwrite_checked (bs # bss) f = (True, fwrite (concat (bs # bss)) f)"
  by (induction bss arbitrary: f bs) (auto simp: Let_def fwrite_fwrite)

lemma fwrite_checked_bad: "\<not> good f \<Longrightarrow> bss \<noteq> [] \<Longrightarrow> fwrite_checked bss f = (False, f)"
  by (cases bss) (auto simp: fwrite_def)

lemma fread_good:
  "good f \<Longrightarrow> pos f + n \<le> length (content f) \<Longrightarrow>
   fread n f = (Some (get_range (content f) (pos f) n), f\<lparr>pos := pos f + n\<rparr>)"
  by (simp add: fread_def)

lemma fread_unchecked_good:
  "good f \<Longrightarrow> pos f + n \<le> length (content f) \<Longrightarrow>
   fread_unchecked n f = Some (get_range (content f) (pos f) n, f\<lparr>pos := pos f + n\<rparr>)"
  by (simp add: fread_unchecked_def fread_good)

lemma fread_content [simp]: "content (snd (fread n f)) = content f"
  by (simp add: fread_def)

fun ranges_from :: "bytes \<Rightarrow> nat \<Rightarrow> nat list \<Rightarrow> bytes list" where
  "ranges_from c p [] = []"
| "ranges_from c p (n # ns) = get_range c p n # ranges_from c (p + n) ns"

lemma fread_checked_good:
  "good f \<Longrightarrow> pos f + sum_list ns \<le> length (content f) \<Longrightarrow>
   fread_checked ns f = (Some (ranges_from (content f) (pos f) ns), f\<lparr>pos := pos f + sum_list ns\<rparr>)"
proof (induction ns arbitrary: f)
  case Nil
  then show ?case by simp
next
  case (Cons n ns)
  then have "fread n f = (Some (get_range (content f) (pos f) n), f\<lparr>pos := pos f + n\<rparr>)"
    by (simp add: fread_good)
  with Cons show ?case by (simp add: add.assoc)
qed

subsection \<open>Machine words in a file\<close>

definition enc32 :: "u32 \<Rightarrow> bytes" where
  "enc32 w = [char_of (unat w), char_of (unat w div 256),
              char_of (unat w div 65536), char_of (unat w div 16777216)]"

definition dec32 :: "bytes \<Rightarrow> u32" where
  "dec32 bs = of_nat (of_char (bs ! 0) + 256 * of_char (bs ! 1)
                      + 65536 * of_char (bs ! 2) + 16777216 * of_char (bs ! 3))"

lemma length_enc32 [simp]: "length (enc32 w) = 4"
  by (simp add: enc32_def)

lemma enc32_0: "enc32 0 = [NUL, NUL, NUL, NUL]"
  by (simp add: enc32_def char_of_def)

lemma base256_digits:
  fixes n :: nat
  assumes "n < 2 ^ 32"
  shows "n mod 256 + 256 * (n div 256 mod 256) + 65536 * (n div 65536 mod 256)
         + 16777216 * (n div 16777216 mod 256) = n"
proof -
  define q r s where "q = n div 256" and "r = q div 256" and "s = r div 256"
  have "n div 65536 = r" "n div 16777216 = s"
    by (simp_all add: q_def r_def s_def div_mult2_eq [symmetric])
  moreover have "s < 256"
    using assms by (simp add: q_def r_def s_def div_mult2_eq [symmetric] less_mult_imp_div_less)
  moreover have "n = n mod 256 + 256 * q" "q = q mod 256 + 256 * r" "r = r mod 256 + 256 * s"
    by (simp_all add: q_def r_def s_def)
  ultimately show ?thesis by (simp flip: q_def)
qed

lemma dec32_enc32 [simp]: "dec32 (enc32 w) = w"
proof -
  have "unat w < 2 ^ 32" using unsigned_less [of w] by simp
  note digits = base256_digits [OF this]
  have "dec32 (enc32 w) = of_nat (unat w mod 256 + 256 * (unat w div 256 mod 256)
          + 65536 * (unat w div 65536 mod 256) + 16777216 * (unat w div 16777216 mod 256))"
    by (simp add: dec32_def enc32_def del: of_nat_add of_nat_mult)
  then show ?thesis unfolding digits by simp
qed

lemma enc32_inject: "enc32 v = enc32 w \<longleftrightarrow> v = w"
  by (metis dec32_enc32)

subsection \<open>Character buffers and C strings\<close>

text \<open>The bytes of \<^verbatim>\<open>s.c_str()\<close> up to its terminator: an embedded zero byte ends them.\<close>

definition c_str :: "string \<Rightarrow> string" where
  "c_str s = takeWhile (\<lambda>c. c \<noteq> NUL) s"

text \<open>\<^verbatim>\<open>std::string(buf)\<close> and \<^verbatim>\<open>strlen(buf)\<close>: undefined without a terminator in the buffer.\<close>

definition string_of_buf :: "bytes \<Rightarrow> string option" where
  "string_of_buf buf = (if NUL \<in> set buf then Some (c_str buf) else None)"

text \<open>\<^verbatim>\<open>strcpy\<close> into a zeroed buffer of \<open>n\<close> bytes: undefined when the terminator does not fit.\<close>

definition strcpy_buf :: "nat \<Rightarrow> string \<Rightarrow> bytes option" where
  "strcpy_buf n s = (if length (c_str s) < n then Some (pad_to n (c_str s)) else None)"

text \<open>\<^verbatim>\<open>strncpy(buf, s, n - 1)\<close> into a buffer of \<open>n\<close> bytes whose last byte is zero.\<close>

definition strncpy_buf :: "nat \<Rightarrow> string \<Rightarrow> bytes" where
  "strncpy_buf n s = pad_to n (take (n - 1) (c_str s))"

lemma NUL_notin_c_str [simp]: "NUL \<notin> set (c_str s)"
  by (auto simp: c_str_def dest: set_takeWhileD)

lemma c_str_id: "NUL \<notin> set s \<Longrightarrow> c_str s = s"
  by (auto simp: c_str_def takeWhile_eq_all_conv)

lemma c_str_idem [simp]: "c_str (c_str s) = c_str s"
  by (simp add: c_str_id)

lemma c_str_pad_to:
  assumes "NUL \<notin> set s"
  shows "c_str (pad_to n s) = s"
proof -
  have "\<And>x. x \<in> set s \<Longrightarrow> x \<noteq> NUL" using assms by auto
  then show ?thesis by (simp add: c_str_def pad_to_def takeWhile_append2 takeWhile_replicate)
qed

lemma NUL_in_pad_to: "length s < n \<Longrightarrow> NUL \<in> set (pad_to n s)"
  by (simp add: pad_to_def)

lemma string_of_strcpy_buf: "strcpy_buf n s = Some b \<Longrightarrow> string_of_buf b = Some (c_str s)"
  by (auto simp: strcpy_buf_def string_of_buf_def c_str_pad_to NUL_in_pad_to split: if_splits)

lemma length_strcpy_buf: "strcpy_buf n s = Some b \<Longrightarrow> length b = n"
  by (auto simp: strcpy_buf_def split: if_splits)

lemma length_strncpy_buf [simp]: "0 < n \<Longrightarrow> length (strncpy_buf n s) = n"
  by (simp add: strncpy_buf_def)

lemma strncpy_buf_short:
  "length (c_str s) < n \<Longrightarrow> strcpy_buf n s = Some (strncpy_buf n s)"
  by (simp add: strcpy_buf_def strncpy_buf_def)

lemma NUL_notin_take_c_str: "NUL \<notin> set (take k (c_str s))"
  by (metis NUL_notin_c_str in_set_takeD)

lemma string_of_strncpy_buf: "0 < n \<Longrightarrow> string_of_buf (strncpy_buf n s) = Some (take (n - 1) (c_str s))"
  by (simp add: string_of_buf_def strncpy_buf_def c_str_pad_to NUL_notin_take_c_str NUL_in_pad_to)

end
