(* ===== verification/Cpp_Numbers.thy ===== *)
theory Cpp_Numbers
  imports Cpp_Runtime
begin

text \<open>
  \<^verbatim>\<open>std::to_string\<close>, \<^verbatim>\<open>std::stoul\<close>, \<^verbatim>\<open>std::stol\<close> and \<^verbatim>\<open>std::stoi\<close>, the conversions between node
  identifiers as text and as numbers. The parsers skip leading white space, take an optional
  sign and the longest run of decimal digits, and ignore what follows; \<^const>\<open>None\<close> is
  \<^verbatim>\<open>std::invalid_argument\<close> or \<^verbatim>\<open>std::out_of_range\<close>.
\<close>

definition is_space :: "char \<Rightarrow> bool" where
  "is_space c \<longleftrightarrow> (let n = (of_char c :: nat) in n = 32 \<or> (9 \<le> n \<and> n \<le> 13))"

definition is_digit :: "char \<Rightarrow> bool" where
  "is_digit c \<longleftrightarrow> (let n = (of_char c :: nat) in 48 \<le> n \<and> n \<le> 57)"

fun to_string :: "nat \<Rightarrow> string" where
  "to_string n =
     (if n < 10 then [char_of (48 + n)] else to_string (n div 10) @ [char_of (48 + n mod 10)])"

declare to_string.simps [simp del]

definition to_string_int :: "int \<Rightarrow> string" where
  "to_string_int i = (if i < 0 then CHR ''-'' # to_string (nat (- i)) else to_string (nat i))"

definition digits_value :: "string \<Rightarrow> nat" where
  "digits_value ds = foldl (\<lambda>a c. 10 * a + (of_char c - 48)) 0 ds"

text \<open>The sign and the digits that a conversion consumes.\<close>

definition scan_number :: "string \<Rightarrow> (bool \<times> nat) option" where
  "scan_number s =
     (let t = dropWhile is_space s;
          neg = (t \<noteq> [] \<and> hd t = CHR ''-'');
          u = (if t \<noteq> [] \<and> (hd t = CHR ''-'' \<or> hd t = CHR ''+'') then tl t else t);
          ds = takeWhile is_digit u
      in if ds = [] then None else Some (neg, digits_value ds))"

definition stoul :: "string \<Rightarrow> nat option" where
  "stoul s =
     (case scan_number s of
        None \<Rightarrow> None
      | Some (neg, v) \<Rightarrow>
          if 2 ^ 64 \<le> v then None
          else Some (if neg then (2 ^ 64 - v) mod 2 ^ 64 else v))"

definition signed_value :: "bool \<times> nat \<Rightarrow> int" where
  "signed_value r = (if fst r then - int (snd r) else int (snd r))"

definition stol :: "string \<Rightarrow> int option" where
  "stol s =
     (case scan_number s of
        None \<Rightarrow> None
      | Some r \<Rightarrow>
          if - (2 ^ 63) \<le> signed_value r \<and> signed_value r < 2 ^ 63 then Some (signed_value r) else None)"

definition stoi :: "string \<Rightarrow> int option" where
  "stoi s =
     (case scan_number s of
        None \<Rightarrow> None
      | Some r \<Rightarrow>
          if - (2 ^ 31) \<le> signed_value r \<and> signed_value r < 2 ^ 31 then Some (signed_value r) else None)"

lemma of_char_digit: "d < 10 \<Longrightarrow> of_char (char_of (48 + d) :: char) = (48 + d :: nat)"
  by simp

lemma is_digit_char_of: "(d :: nat) < 10 \<Longrightarrow> is_digit (char_of (48 + d))"
  by (simp add: is_digit_def)

lemma all_digits_to_string: "c \<in> set (to_string n) \<Longrightarrow> is_digit c"
proof (induction n rule: to_string.induct)
  case (1 n)
  then show ?case
    by (cases "n < 10") (auto simp: to_string.simps [of n] is_digit_char_of)
qed

lemma to_string_not_Nil [simp]: "to_string n \<noteq> []"
  by (subst to_string.simps) simp

lemma digit_not_space: "is_digit c \<Longrightarrow> \<not> is_space c"
  by (simp add: is_digit_def is_space_def Let_def)

lemma digit_not_sign: "is_digit c \<Longrightarrow> c \<noteq> CHR ''-'' \<and> c \<noteq> CHR ''+'' \<and> c \<noteq> NUL"
  by (auto simp: is_digit_def)

lemma digits_value_snoc: "digits_value (ds @ [c]) = 10 * digits_value ds + (of_char c - 48)"
  by (simp add: digits_value_def)

lemma digits_value_to_string: "digits_value (to_string n) = n"
proof (induction n rule: to_string.induct)
  case (1 n)
  show ?case
  proof (cases "n < 10")
    case True
    then show ?thesis by (simp add: to_string.simps [of n] digits_value_def)
  next
    case False
    with "1.IH" have "digits_value (to_string (n div 10)) = n div 10" by simp
    with False show ?thesis
      by (simp add: to_string.simps [of n] digits_value_snoc of_char_digit del: of_char_of)
  qed
qed

lemma scan_to_string: "scan_number (to_string n) = Some (False, n)"
proof -
  have all: "\<And>c. c \<in> set (to_string n) \<Longrightarrow> is_digit c" by (rule all_digits_to_string)
  obtain c cs where eq: "to_string n = c # cs" by (cases "to_string n") auto
  have c: "is_digit c" using all [of c] eq by simp
  have spaces: "dropWhile is_space (to_string n) = to_string n"
    using digit_not_space [OF c] by (simp add: eq)
  have digits: "takeWhile is_digit (to_string n) = to_string n"
    using all by (simp add: takeWhile_eq_all_conv)
  have "hd (to_string n) \<noteq> CHR ''-''" "hd (to_string n) \<noteq> CHR ''+''"
    using digit_not_sign [OF c] by (simp_all add: eq)
  then show ?thesis by (simp add: scan_number_def Let_def spaces digits digits_value_to_string)
qed

lemma stoul_to_string: "n < 2 ^ 64 \<Longrightarrow> stoul (to_string n) = Some n"
  by (simp add: stoul_def scan_to_string)

lemma stol_to_string: "n < 2 ^ 63 \<Longrightarrow> stol (to_string n) = Some (int n)"
  by (simp add: stol_def scan_to_string signed_value_def)

lemma stoi_to_string: "n < 2 ^ 31 \<Longrightarrow> stoi (to_string n) = Some (int n)"
  by (simp add: stoi_def scan_to_string signed_value_def)

lemma to_string_inject: "to_string m = to_string n \<longleftrightarrow> m = n"
  by (metis digits_value_to_string)

lemma NUL_notin_to_string [simp]: "NUL \<notin> set (to_string n)"
  using all_digits_to_string digit_not_sign by blast

lemma to_string_nonempty [simp]: "to_string n \<noteq> []"
  by (subst to_string.simps) auto

lemma length_to_string: "n < 10 ^ k \<Longrightarrow> 0 < k \<Longrightarrow> length (to_string n) \<le> k"
proof (induction n arbitrary: k rule: to_string.induct)
  case (1 n)
  show ?case
  proof (cases "n < 10")
    case True
    then show ?thesis using "1.prems" by (simp add: to_string.simps [of n])
  next
    case False
    then obtain j where k: "k = Suc j" "0 < j"
      using "1.prems" by (cases k; cases "k - 1") auto
    have "n div 10 < 10 ^ j"
      using "1.prems" k by (simp add: less_mult_imp_div_less mult.commute)
    then show ?thesis using "1.IH" [of j] False k by (simp add: to_string.simps [of n])
  qed
qed

lemma length_to_string_u32: "length (to_string (unat (w :: u32))) \<le> 10"
proof -
  have "unat w < 2 ^ 32" using unsigned_less [of w] by simp
  then show ?thesis by (intro length_to_string) simp_all
qed

lemma scan_to_string_int: "scan_number (to_string_int i) = Some (i < 0, nat \<bar>i\<bar>)"
proof (cases "i < 0")
  case True
  let ?ds = "to_string (nat (- i))"
  have "takeWhile is_digit ?ds = ?ds" using all_digits_to_string by (simp add: takeWhile_eq_all_conv)
  then have "scan_number (CHR ''-'' # ?ds) = Some (True, nat (- i))"
    by (simp add: scan_number_def Let_def is_space_def digits_value_to_string del: takeWhile_eq_all_conv)
  then show ?thesis using True by (simp add: to_string_int_def)
qed (simp add: to_string_int_def scan_to_string)

lemma signed_value_int: "signed_value (i < 0, nat \<bar>i\<bar>) = i"
  by (simp add: signed_value_def)

lemma to_string_int_inject: "to_string_int i = to_string_int j \<longleftrightarrow> i = j"
  using scan_to_string_int [of i] scan_to_string_int [of j] signed_value_int by (metis option.inject)

lemma stoi_to_string_int: "- (2 ^ 31) \<le> i \<Longrightarrow> i < 2 ^ 31 \<Longrightarrow> stoi (to_string_int i) = Some i"
  by (simp add: stoi_def scan_to_string_int signed_value_int)

lemma stol_to_string_int: "- (2 ^ 63) \<le> i \<Longrightarrow> i < 2 ^ 63 \<Longrightarrow> stol (to_string_int i) = Some i"
  by (simp add: stol_def scan_to_string_int signed_value_int)

lemma set_to_string_int: "c \<in> set (to_string_int i) \<Longrightarrow> is_digit c \<or> c = CHR ''-''"
  using all_digits_to_string by (auto simp: to_string_int_def split: if_splits)

lemma length_to_string_int: "nat \<bar>i\<bar> < 10 ^ k \<Longrightarrow> 0 < k \<Longrightarrow> length (to_string_int i) \<le> Suc k"
  using length_to_string [of "nat \<bar>i\<bar>" k] by (auto simp: to_string_int_def)

end
