(* ===== verification/Partition_Allocation.thy ===== *)
theory Partition_Allocation
  imports Ordered_Map Cpp_Numbers
begin

text \<open>
  The choice of a worker for every partition before a triangle count
  (\<^verbatim>\<open>frontend/core/executor/impl/TriangleCountExecutor.cpp\<close>, \<^verbatim>\<open>allocate\<close> to \<^verbatim>\<open>filter_partitions\<close>). A partition
  is kept by several workers, and a worker takes partitions up to a load of 3. \<^verbatim>\<open>alloc_plan\<close> searches an
  allocation; if partitions remain, \<^verbatim>\<open>reallocate_parts\<close> decides which ones have to be copied, \<^verbatim>\<open>scale_up\<close>
  starts workers, and \<^verbatim>\<open>alloc_net_plan\<close> plans the copying.

  \<^verbatim>\<open>std::set<int>\<close> is a sorted list. \<^verbatim>\<open>std::sort\<close> leaves the order of equivalent elements open: the sorting
  functions are arguments.
\<close>

subsection \<open>The search for an allocation\<close>

record allocation =
  alloc :: "(int \<times> string) list"
  remain :: "int list"
  p_avail :: "(int \<times> string list) list"
  loads :: "(string \<times> int) list"

text \<open>\<^verbatim>\<open>operator[]\<close> of a map reads a missing entry as the default value.\<close>

definition avail_of :: "(int \<times> string list) list \<Rightarrow> int \<Rightarrow> string list" where
  "avail_of m p = (case map_of m p of None \<Rightarrow> [] | Some ws \<Rightarrow> ws)"

definition load_of :: "(string \<times> int) list \<Rightarrow> string \<Rightarrow> int" where
  "load_of m w = (case map_of m w of None \<Rightarrow> 0 | Some n \<Rightarrow> n)"

definition map_erase :: "'k \<Rightarrow> ('k \<times> 'v) list \<Rightarrow> ('k \<times> 'v) list" where
  "map_erase k m = filter (\<lambda>e. fst e \<noteq> k) m"

definition allocate :: "int \<Rightarrow> string \<Rightarrow> allocation \<Rightarrow> allocation" where
  "allocate p w st =
    (let lds = map_put w (load_of (loads st) w + 1) (loads st); av = map_erase p (p_avail st)
     in st\<lparr>alloc := map_put p w (alloc st), remain := removeAll p (remain st),
         p_avail := (if load_of lds w \<ge> 3 then map (\<lambda>(q, ws). (q, remove1 w ws)) av else av), loads := lds\<rparr>)"

fun min_partition_loop :: "(int \<times> string list) list \<Rightarrow> int list \<Rightarrow> int \<Rightarrow> int \<Rightarrow> int" where
  "min_partition_loop av [] p0 minimum = p0"
| "min_partition_loop av (q # ps) p0 minimum =
    (let n = int (length (avail_of av q))
     in if 0 < n \<and> n < minimum then min_partition_loop av ps q n
        else min_partition_loop av ps p0 minimum)"

definition get_min_partition :: "int list \<Rightarrow> (int \<times> string list) list \<Rightarrow> int option" where
  "get_min_partition rem av =
    (case rem of [] \<Rightarrow> None | p0 # _ \<Rightarrow> Some (min_partition_loop av rem p0 1000000000))"

definition LOAD_PREFERENCE :: "int list" where
  "LOAD_PREFERENCE = [2, 3, 1, 0]"

text \<open>
  The first loop of \<^verbatim>\<open>alloc_plan\<close>: a partition with exactly one worker goes there. The loop does not end if
  the name of the worker is empty.
\<close>

fun find_single :: "(int \<times> string list) list \<Rightarrow> int list \<Rightarrow> (int \<times> string) option" where
  "find_single av [] = None"
| "find_single av (p # ps) = (case avail_of av p of [w] \<Rightarrow> Some (p, w) | _ \<Rightarrow> find_single av ps)"

lemma find_single_Some:
  "find_single av ps = Some (p, w) \<Longrightarrow> p \<in> set ps \<and> avail_of av p = [w]"
  by (induction ps) (auto split: list.splits)

lemma remain_allocate [simp]: "remain (allocate p w st) = removeAll p (remain st)"
  by (simp add: allocate_def Let_def)

function allocate_singles :: "allocation \<Rightarrow> allocation option" where
  "allocate_singles st =
    (case find_single (p_avail st) (remain st) of
      None \<Rightarrow> Some st
    | Some (p, w) \<Rightarrow> if w = [] then None else allocate_singles (allocate p w st))"
  by pat_completeness auto
termination
  by (relation "measure (\<lambda>st. length (remain st))")
    (auto dest: find_single_Some simp: length_removeAll_less)

declare allocate_singles.simps [simp del]

lemma allocate_singles_length: "allocate_singles st = Some st' \<Longrightarrow> length (remain st') \<le> length (remain st)"
proof (induction st rule: allocate_singles.induct)
  case (1 st)
  show ?case
  proof (cases "find_single (p_avail st) (remain st)")
    case None
    then show ?thesis using 1(2) by (simp add: allocate_singles.simps [of st])
  next
    case (Some e)
    obtain p w where e: "e = (p, w)" by fastforce
    have "length (remain st') \<le> length (removeAll p (remain st))"
      using 1(1) [OF Some, of p w] 1(2) Some by (simp add: allocate_singles.simps [of st] e split: if_splits)
    also have "\<dots> \<le> length (remain st)"
      by (simp add: removeAll_filter_not_eq)
    finally show ?thesis .
  qed
qed

lemma get_min_partition_in:
  assumes "get_min_partition rem av = Some p"
  shows "p \<in> set rem"
proof -
  have "min_partition_loop av ps p0 m \<in> insert p0 (set ps)" for ps p0 m
    by (induction av ps p0 m rule: min_partition_loop.induct) (auto simp: Let_def)
  from this [of rem "hd rem" 1000000000] show ?thesis
    using assms by (cases rem) (auto simp: get_min_partition_def)
qed

text \<open>
  \<^verbatim>\<open>map::insert\<close> of a range keeps the entries that exist. The comparison of the sort reads
  \<^verbatim>\<open>LOAD_PREFERENCE[loads[w]]\<close>, which is undefined for other loads than 0 to 3 and adds missing workers.
\<close>

definition insert_range :: "('k::linorder \<times> 'v) list \<Rightarrow> ('k \<times> 'v) list \<Rightarrow> ('k \<times> 'v) list" where
  "insert_range es m = fold (\<lambda>(k, v) m. if map_of m k = None then map_put k v m else m) es m"

definition preference :: "(string \<times> int) list \<Rightarrow> string \<Rightarrow> int" where
  "preference lds w = LOAD_PREFERENCE ! nat (load_of lds w)"

definition sort_workers ::
  "((string \<Rightarrow> int) \<Rightarrow> string list \<Rightarrow> string list) \<Rightarrow> int \<Rightarrow> allocation \<Rightarrow> allocation option" where
  "sort_workers srt p0 st =
    (let ws = avail_of (p_avail st) p0
     in if list_all (\<lambda>w. 0 \<le> load_of (loads st) w \<and> load_of (loads st) w \<le> 3) ws
        then Some (st\<lparr>p_avail := map_put p0 (srt (preference (loads st)) ws) (p_avail st),
          loads := insert_range (map (\<lambda>w. (w, 0)) ws) (loads st)\<rparr>)
        else None)"

definition take_success :: "allocation \<Rightarrow> allocation \<Rightarrow> allocation" where
  "take_success st st2 = st\<lparr>alloc := insert_range (alloc st2) (alloc st), remain := [], p_avail := [],
    loads := insert_range (loads st2) (loads st)\<rparr>"

definition take_best :: "allocation \<Rightarrow> allocation \<Rightarrow> allocation" where
  "take_best st best = st\<lparr>alloc := insert_range (alloc best) (alloc st), remain := remain best,
    p_avail := p_avail best, loads := loads best\<rparr>"

fun try_workers ::
  "(allocation \<Rightarrow> (nat \<times> allocation) option) \<Rightarrow> allocation \<Rightarrow> int \<Rightarrow> string list \<Rightarrow> nat \<Rightarrow> allocation \<Rightarrow>
    (nat \<times> allocation) option" where
  "try_workers plan st p0 [] best_rem best = Some (best_rem, take_best st best)"
| "try_workers plan st p0 (w # ws) best_rem best = do {
     (rem, st2) \<leftarrow> plan (allocate p0 w st);
     if rem = 0 then Some (0, take_success st st2)
     else if rem < best_rem then try_workers plan st p0 ws rem st2
     else try_workers plan st p0 ws best_rem best
   }"

lemma try_workers_cong [fundef_cong]:
  assumes "st = st'" "p0 = p0'" "ws = ws'" "n = n'" "best = best'"
    and "\<And>w. w \<in> set ws' \<Longrightarrow> plan (allocate p0' w st') = plan' (allocate p0' w st')"
  shows "try_workers plan st p0 ws n best = try_workers plan' st' p0' ws' n' best'"
  unfolding assms(1-5) using assms(6)
proof (induction ws' arbitrary: n' best')
  case (Cons w ws)
  have "plan (allocate p0' w st') = plan' (allocate p0' w st')"
    by (rule Cons.prems) simp
  moreover have "try_workers plan st' p0' ws n best = try_workers plan' st' p0' ws n best" for n best
    using Cons by simp
  ultimately show ?case by (simp cong: if_cong)
qed simp

lemma sort_workers_remain: "sort_workers srt p0 st = Some st1 \<Longrightarrow> remain st1 = remain st"
  by (auto simp: sort_workers_def Let_def split: if_splits)

function alloc_plan ::
  "((string \<Rightarrow> int) \<Rightarrow> string list \<Rightarrow> string list) \<Rightarrow> allocation \<Rightarrow> (nat \<times> allocation) option" where
  "alloc_plan srt st0 = do {
     st \<leftarrow> allocate_singles st0;
     (case get_min_partition (remain st) (p_avail st) of
       None \<Rightarrow> Some (0, st)
     | Some p0 \<Rightarrow>
         if avail_of (p_avail st) p0 = [] then Some (length (remain st), st)
         else do {
           st1 \<leftarrow> sort_workers srt p0 st;
           try_workers (alloc_plan srt) st1 p0 (avail_of (p_avail st1) p0) (length (remain st1)) st1
         })
   }"
  by pat_completeness auto
termination
proof (relation "measure (\<lambda>(srt, st). length (remain st))", goal_cases)
  case (2 srt st0 st p0 st1 w)
  have "length (remain (allocate p0 w st1)) < length (remain st)"
    using 2(2,4) by (simp add: sort_workers_remain get_min_partition_in length_removeAll_less)
  then show ?case
    using allocate_singles_length [OF 2(1)] by simp
qed simp

declare alloc_plan.simps [simp del]

end
