(* ===== verification/Partition_Transfer.thy ===== *)
theory Partition_Transfer
  imports Partition_Allocation
begin

text \<open>
  The second half of \<^verbatim>\<open>filter_partitions\<close> (\<^verbatim>\<open>TriangleCountExecutor.cpp\<close>): the partitions that no worker can
  take are exchanged or copied to other workers.
\<close>

subsection \<open>Exchanging partitions\<close>

text \<open>
  \<^verbatim>\<open>remain_l\<close> is used as a stack and kept with its last element first. \<open>find_victim\<close> is the loop over
  \<^verbatim>\<open>PARTITIONS\<close>: a partition that is kept by fewer workers, and whose worker also keeps the new one.
\<close>

definition count_of :: "(int \<times> string list) list \<Rightarrow> int \<Rightarrow> nat" where
  "count_of P_AVAIL p = length (avail_of P_AVAIL p)"

fun find_victim ::
  "(int \<times> string list) list \<Rightarrow> string list \<Rightarrow> nat \<Rightarrow> (int \<times> string) list \<Rightarrow> int list \<Rightarrow> (int \<times> string) option" where
  "find_victim P_AVAIL ws w_cnt al [] = None"
| "find_victim P_AVAIL ws w_cnt al (p # ps) =
    (if w_cnt \<le> count_of P_AVAIL p then None
     else case map_of al p of
       None \<Rightarrow> find_victim P_AVAIL ws w_cnt al ps
     | Some w \<Rightarrow> if w \<in> set ws then Some (p, w) else find_victim P_AVAIL ws w_cnt al ps)"

lemma find_victim_Some:
  "find_victim P_AVAIL ws n al ps = Some (p, w) \<Longrightarrow>
    count_of P_AVAIL p < n \<and> map_of al p = Some w \<and> w \<in> set ws \<and> p \<in> set ps"
  by (induction ps) (auto split: if_splits option.splits)

function reallocate_loop ::
  "(int \<times> string list) list \<Rightarrow> int list \<Rightarrow> int list \<Rightarrow> (int \<times> string) list \<Rightarrow> int list \<Rightarrow>
    ((int \<times> string) list \<times> int list) option" where
  "reallocate_loop P_AVAIL PARTITIONS [] al copying = Some (al, copying)"
| "reallocate_loop P_AVAIL PARTITIONS (p0 # remain_l) al copying =
    (if count_of P_AVAIL p0 = 1 then reallocate_loop P_AVAIL PARTITIONS remain_l al (copying @ [p0])
     else case map_of P_AVAIL p0 of
       None \<Rightarrow> None
     | Some ws \<Rightarrow>
         (case find_victim P_AVAIL ws (count_of P_AVAIL p0) al PARTITIONS of
           None \<Rightarrow> reallocate_loop P_AVAIL PARTITIONS remain_l al (copying @ [p0])
         | Some (p, w) \<Rightarrow>
             reallocate_loop P_AVAIL PARTITIONS (p # remain_l) (map_put p0 w (map_erase p al)) copying))"
  by pat_completeness auto
termination
  by (relation "measure (\<lambda>(P_AVAIL, PARTITIONS, remain_l, al, copying).
      sum_list (map (count_of P_AVAIL) remain_l) + length remain_l)")
    (auto dest: find_victim_Some)

type_synonym 'a sorter = "('a \<Rightarrow> int) \<Rightarrow> 'a list \<Rightarrow> 'a list"

definition reallocate_parts ::
  "int sorter \<Rightarrow> (int \<times> string) list \<Rightarrow> int list \<Rightarrow> (int \<times> string list) list \<Rightarrow>
    ((int \<times> string) list \<times> int list) option" where
  "reallocate_parts isrt al rem P_AVAIL =
    reallocate_loop P_AVAIL (isrt (\<lambda>p. - int (count_of P_AVAIL p)) (map fst P_AVAIL))
      (rev (isrt (\<lambda>p. int (count_of P_AVAIL p)) rem)) al []"

subsection \<open>New workers\<close>

text \<open>
  \<open>scaleUp\<close> is \<^verbatim>\<open>K8sWorkerController::scaleUp\<close>, which returns the new workers with their addresses. A new
  worker gets the load \<^verbatim>\<open>0.1\<close>, which is 0 as an \<^verbatim>\<open>int\<close>.
\<close>

definition scale_up ::
  "(int \<Rightarrow> (string \<times> string) list) \<Rightarrow> (string \<times> int) list \<Rightarrow> (string \<times> string) list \<Rightarrow> int \<Rightarrow>
    (string \<times> int) list \<times> (string \<times> string) list" where
  "scale_up scaleUp lds workers copy_cnt =
    (let n_cores = copy_cnt + sum_list (map snd lds) - 3 * int (length lds)
     in if n_cores < 0 then (lds, workers)
        else let n_workers = n_cores div 2 + 1 + (if n_cores mod 2 > 0 then 1 else 0); w_new = scaleUp n_workers
          in (fold (\<lambda>(w, a). map_put w 0) w_new lds, fold (\<lambda>(w, a). map_put w a) w_new workers))"

subsection \<open>The plan for the copies\<close>

record net_plan =
  np_alloc :: "(int \<times> string) list"
  transfer :: "(int \<times> string \<times> string) list"
  net_loads :: "(string \<times> int) list"
  np_loads :: "(string \<times> int) list"

definition add_load :: "string \<Rightarrow> (string \<times> int) list \<Rightarrow> (string \<times> int) list" where
  "add_load w m = map_put w (load_of m w + 1) m"

text \<open>The entry that \<^verbatim>\<open>max_element\<close> returns does not exist if there is no worker.\<close>

definition max_load :: "(string \<times> int) list \<Rightarrow> int option" where
  "max_load m = (if m = [] then None else Some (Max (set (map snd m))))"

definition min_load :: "(string \<times> int) list \<Rightarrow> int" where
  "min_load m = fold min (map snd m) 100000000"

definition net_step :: "int \<Rightarrow> string \<Rightarrow> string \<Rightarrow> net_plan \<Rightarrow> net_plan" where
  "net_step p w_from w_to st =
    (let st2 = (if w_from \<noteq> w_to
       then st\<lparr>transfer := map_put p (w_from, w_to) (transfer st), net_loads := add_load w_to (add_load w_from (net_loads st))\<rparr>
       else st)
     in st2\<lparr>np_alloc := map_put p w_to (np_alloc st2), np_loads := add_load w_to (np_loads st2)\<rparr>)"

fun try_pairs ::
  "(net_plan \<Rightarrow> int \<Rightarrow> (int \<times> net_plan) option) \<Rightarrow> int \<Rightarrow> net_plan \<Rightarrow> (string \<times> string) list \<Rightarrow> int \<Rightarrow> net_plan \<Rightarrow>
    (int \<times> net_plan) option" where
  "try_pairs plan p st [] best best_plan = Some (best, best_plan)"
| "try_pairs plan p st ((w_from, w_to) # ps) best best_plan =
    (if load_of (np_loads st) w_to > min_load (np_loads st) then try_pairs plan p st ps best best_plan
     else do {
       (new_net_load, st2) \<leftarrow> plan (net_step p w_from w_to st) best;
       if new_net_load < best then try_pairs plan p st ps new_net_load st2
       else try_pairs plan p st ps best best_plan
     })"

text \<open>
  The comparison of the workers answers \<^verbatim>\<open>true\<close> both ways for two workers with the same load of at least
  3, which leaves \<^verbatim>\<open>std::sort\<close> undefined. Without such a pair it orders the workers, each of which is
  listed once, by load.
\<close>

definition sort_by_load :: "string sorter \<Rightarrow> (string \<times> int) list \<Rightarrow> string list option" where
  "sort_by_load wsrt lds =
    (if distinct (filter (\<lambda>n. 3 \<le> n) (map snd lds)) then Some (wsrt (load_of lds) (map fst lds)) else None)"

text \<open>\<^verbatim>\<open>parts\<close> is used as a stack and kept with its last element first.\<close>

primrec alloc_net_plan ::
  "string sorter \<Rightarrow> (int \<times> string list) list \<Rightarrow> int list \<Rightarrow> net_plan \<Rightarrow> int \<Rightarrow> (int \<times> net_plan) option" where
  "alloc_net_plan wsrt P_AVAIL [] = (\<lambda>st curr_best. do { curr_load \<leftarrow> max_load (net_loads st); Some (curr_load, st) })"
| "alloc_net_plan wsrt P_AVAIL (p # parts) = (\<lambda>st curr_best. do {
     curr_load \<leftarrow> max_load (net_loads st);
     if curr_load \<ge> curr_best then Some (curr_load, st)
     else do {
       wts \<leftarrow> sort_by_load wsrt (np_loads st);
       ws \<leftarrow> map_of P_AVAIL p;
       (best, best_plan) \<leftarrow> try_pairs (alloc_net_plan wsrt P_AVAIL parts) p st (List.product ws wts) curr_best
         (st\<lparr>np_alloc := []\<rparr>);
       Some (best, best_plan\<lparr>transfer := fold (\<lambda>(q, ends). map_put q ends) (transfer best_plan) (transfer st)\<rparr>)
     }
   })"

subsection \<open>The whole\<close>

record filter_env =
  worker_rows :: "(string \<times> string \<times> string) list"
  cpu_map :: "(string \<times> string) list"
  cpu_load :: "string \<Rightarrow> int option"
  scaleUp :: "int \<Rightarrow> (string \<times> string) list"
  worker_sort :: "string sorter"
  partition_sort :: "int sorter"

definition worker_table :: "(string \<times> string \<times> string) list \<Rightarrow> (string \<times> string) list" where
  "worker_table rows = fold (\<lambda>(i, ip, port). map_put i (ip @ '':'' @ port)) rows []"

fun initial_loads :: "filter_env \<Rightarrow> (string \<times> string) list \<Rightarrow> (string \<times> int) list \<Rightarrow> (string \<times> int) list option" where
  "initial_loads env [] lds = Some lds"
| "initial_loads env ((workerId, worker) # ws) lds =
    (case map_of (cpu_map env) worker of
      Some s \<Rightarrow> do { n \<leftarrow> cpu_load env s; initial_loads env ws (map_put workerId n lds) }
    | None \<Rightarrow> initial_loads env ws (map_put workerId 0 lds))"

definition set_insert :: "int \<Rightarrow> int list \<Rightarrow> int list" where
  "set_insert p rem = (if p \<in> set rem then rem else insort p rem)"

fun add_partitions ::
  "string \<Rightarrow> string list \<Rightarrow> (int \<times> string list) list \<times> int list \<Rightarrow> ((int \<times> string list) list \<times> int list) option" where
  "add_partitions worker [] acc = Some acc"
| "add_partitions worker (s # ss) acc = do {
     p \<leftarrow> stoi s;
     add_partitions worker ss (map_put p (avail_of (fst acc) p @ [worker]) (fst acc), set_insert p (snd acc))
   }"

fun availability ::
  "(string \<times> string list) list \<Rightarrow> (int \<times> string list) list \<times> int list \<Rightarrow>
    ((int \<times> string list) list \<times> int list) option" where
  "availability [] acc = Some acc"
| "availability ((worker, partitions) # m) acc = do {
     acc \<leftarrow> add_partitions worker partitions acc;
     availability m acc
   }"

text \<open>
  The loop that takes the fully loaded workers out of \<^verbatim>\<open>p_avail\<close> goes on with the iterator that \<^verbatim>\<open>erase\<close> has
  invalidated: it is undefined as soon as such a worker is found.
\<close>

definition drop_busy :: "(string \<times> int) list \<Rightarrow> (int \<times> string list) list \<Rightarrow> (int \<times> string list) list option" where
  "drop_busy lds av =
    (if list_ex (\<lambda>(w, n). 3 \<le> n \<and> list_ex (\<lambda>(p, ws). w \<in> set ws) av) lds then None else Some av)"

definition workers_of :: "(int \<times> string) list \<Rightarrow> (string \<times> string list) list" where
  "workers_of al = fold (\<lambda>(p, w) m. map_put w ((case map_of m w of None \<Rightarrow> [] | Some ps \<Rightarrow> ps) @ [to_string_int p]) m) al []"

definition plan_copies ::
  "filter_env \<Rightarrow> (string \<times> string) list \<Rightarrow> (int \<times> string list) list \<Rightarrow> allocation \<Rightarrow>
    ((int \<times> string) list \<times> (int \<times> string \<times> string) list) option" where
  "plan_copies env workers P_AVAIL st = do {
     (al, copying) \<leftarrow> reallocate_parts (partition_sort env) (alloc st) (remain st) P_AVAIL;
     let (lds, workers) = scale_up (scaleUp env) (loads st) workers (int (length copying));
     let net = fold (\<lambda>(w, n). map_put w 0) lds [];
     let lds = fold (\<lambda>(w, a) m. if map_of m w = None then map_put w 3 m else m) workers lds;
     (net_load, st2) \<leftarrow> alloc_net_plan (worker_sort env) P_AVAIL (rev copying)
       \<lparr>np_alloc = al, transfer = [], net_loads = net, np_loads = lds\<rparr> 100000000;
     Some (fold (\<lambda>(p, w_from, w_to). map_put p w_to) (transfer st2) (np_alloc st2), transfer st2)
   }"

text \<open>
  The result is the new \<^verbatim>\<open>partitionMap\<close> and the copies that are requested, as partition, source and target;
  the threads that carry them out (\<^verbatim>\<open>Utils::transferPartition\<close>) are not part of the model.
\<close>

definition filter_partitions ::
  "filter_env \<Rightarrow> (string \<times> string list) list \<Rightarrow> ((string \<times> string list) list \<times> (int \<times> string \<times> string) list) option" where
  "filter_partitions env partitionMap = do {
     let workers = worker_table (worker_rows env);
     lds \<leftarrow> initial_loads env workers [];
     (P_AVAIL, rem) \<leftarrow> availability partitionMap ([], []);
     av \<leftarrow> drop_busy lds P_AVAIL;
     (unallocated, st) \<leftarrow> alloc_plan (worker_sort env) \<lparr>alloc = [], remain = rem, p_avail = av, loads = lds\<rparr>;
     (al, copies) \<leftarrow> (if 0 < unallocated then plan_copies env workers P_AVAIL st else Some (alloc st, []));
     Some (workers_of al, copies)
   }"

end
