(* ===== verification/Allocation_Optimal.thy ===== *)
theory Allocation_Optimal
  imports Partition_Allocation "HOL-Library.Multiset"
begin

text \<open>
  \<^verbatim>\<open>alloc_plan\<close> returns an allocation with as few remaining partitions as possible. The search takes a
  partition with the fewest workers and tries all of them; that it never skips the partition is no
  loss, because a plan without it can be exchanged for a plan with it.
\<close>

subsection \<open>Maps\<close>

lemma map_of_erase: "map_of (map_erase k m) j = (if j = k then None else map_of m j)"
  by (induction m) (auto simp: map_erase_def)

lemma ordered_erase: "ordered m \<Longrightarrow> ordered (map_erase k m)"
  unfolding ordered_def map_erase_def by (induction m) auto

lemma load_of_put: "ordered m \<Longrightarrow> load_of (map_put w n m) u = (if u = w then n else load_of m u)"
  by (simp add: load_of_def map_put_lookup)

lemma avail_of_put: "ordered m \<Longrightarrow> avail_of (map_put p ws m) q = (if q = p then ws else avail_of m q)"
  by (simp add: avail_of_def map_put_lookup)

lemma avail_of_erase: "avail_of (map_erase p m) q = (if q = p then [] else avail_of m q)"
  by (simp add: avail_of_def map_of_erase)

lemma avail_of_map: "f [] = [] \<Longrightarrow> avail_of (map (\<lambda>(q, ws). (q, f ws)) m) q = f (avail_of m q)"
  by (auto simp: avail_of_def map_of_map split: option.splits)

lemma insert_range_invariants:
  assumes "ordered m"
  shows "ordered (insert_range es m)" "map_of (insert_range es m) k = (if map_of m k = None then map_of es k else map_of m k)"
proof -
  have "ordered (insert_range es m) \<and>
    (\<forall>k. map_of (insert_range es m) k = (if map_of m k = None then map_of es k else map_of m k))"
    using assms unfolding insert_range_def
  proof (induction es arbitrary: m)
    case (Cons e es)
    obtain j v where e: "e = (j, v)" by fastforce
    show ?case
      using Cons.IH [of "if map_of m j = None then map_put j v m else m"] Cons.prems
      by (auto simp: e map_put_lookup ordered_map_put)
  qed simp
  then show "ordered (insert_range es m)"
    "map_of (insert_range es m) k = (if map_of m k = None then map_of es k else map_of m k)"
    by blast+
qed

lemma load_of_insert_zero:
  "ordered m \<Longrightarrow> load_of (insert_range (map (\<lambda>w. (w, 0)) ws) m) u = load_of m u"
  by (auto simp: load_of_def insert_range_invariants map_of_map_keys dest: map_of_SomeD split: option.splits)

lemma keys_map_of: "fst ` set m = dom (map_of m)"
  by (simp add: dom_map_of_conv_image_fst)

subsection \<open>Allocations that fit\<close>

definition alloc_inv :: "allocation \<Rightarrow> bool" where
  "alloc_inv st \<longleftrightarrow> ordered (alloc st) \<and> ordered (p_avail st) \<and> ordered (loads st) \<and> distinct (remain st) \<and>
    dom (map_of (alloc st)) \<inter> set (remain st) = {} \<and>
    (\<forall>p\<in>set (remain st). distinct (avail_of (p_avail st) p) \<and> length (avail_of (p_avail st) p) < 1000000000 \<and>
      (\<forall>w\<in>set (avail_of (p_avail st) p). w \<noteq> [] \<and> 0 \<le> load_of (loads st) w \<and> load_of (loads st) w < 3))"

definition fits :: "allocation \<Rightarrow> (int \<rightharpoonup> string) \<Rightarrow> bool" where
  "fits st g \<longleftrightarrow> dom g \<subseteq> set (remain st) \<and>
    (\<forall>p w. g p = Some w \<longrightarrow> w \<in> set (avail_of (p_avail st) p)) \<and>
    (\<forall>w\<in>ran g. load_of (loads st) w + int (card {p. g p = Some w}) \<le> 3)"

lemma finite_fits: "fits st g \<Longrightarrow> finite (dom g)"
  unfolding fits_def by (blast intro: finite_subset)

lemma finite_given: "fits st g \<Longrightarrow> finite {p. g p = Some w}"
  by (rule finite_subset [OF _ finite_fits]) auto

lemma allocate_fields:
  assumes "alloc_inv st"
  shows "map_of (alloc (allocate p w st)) = (map_of (alloc st))(p \<mapsto> w)"
    "load_of (loads (allocate p w st)) u = load_of (loads st) u + (if u = w then 1 else 0)"
    "avail_of (p_avail (allocate p w st)) q =
      (if q = p then [] else if load_of (loads st) w + 1 \<ge> 3 then remove1 w (avail_of (p_avail st) q)
       else avail_of (p_avail st) q)"
    "ordered (alloc (allocate p w st))" "ordered (p_avail (allocate p w st))" "ordered (loads (allocate p w st))"
    "dom (map_of (loads (allocate p w st))) = insert w (dom (map_of (loads st)))"
proof -
  have "ordered (alloc st)" "ordered (p_avail st)" "ordered (loads st)"
    using assms by (simp_all add: alloc_inv_def)
  then show "map_of (alloc (allocate p w st)) = (map_of (alloc st))(p \<mapsto> w)"
    "load_of (loads (allocate p w st)) u = load_of (loads st) u + (if u = w then 1 else 0)"
    "avail_of (p_avail (allocate p w st)) q =
      (if q = p then [] else if load_of (loads st) w + 1 \<ge> 3 then remove1 w (avail_of (p_avail st) q)
       else avail_of (p_avail st) q)"
    "ordered (alloc (allocate p w st))" "ordered (p_avail (allocate p w st))" "ordered (loads (allocate p w st))"
    "dom (map_of (loads (allocate p w st))) = insert w (dom (map_of (loads st)))"
    by (simp_all add: allocate_def Let_def map_put_lookup load_of_put avail_of_map avail_of_erase
        ordered_map_put ordered_erase ordered_map_values)
qed

lemma alloc_inv_allocate:
  assumes inv: "alloc_inv st" and p: "p \<in> set (remain st)" "w \<in> set (avail_of (p_avail st) p)"
  shows "alloc_inv (allocate p w st)"
proof -
  let ?av = "avail_of (p_avail (allocate p w st))"
  have w: "0 \<le> load_of (loads st) w"
    using inv p by (simp add: alloc_inv_def)
  have av: "distinct (?av q) \<and> length (?av q) < 1000000000 \<and>
      (\<forall>u\<in>set (?av q). u \<noteq> [] \<and> 0 \<le> load_of (loads (allocate p w st)) u \<and> load_of (loads (allocate p w st)) u < 3)"
    if q: "q \<in> set (remain st)" "q \<noteq> p" for q
  proof -
    let ?ws = "avail_of (p_avail st) q"
    have old: "distinct ?ws" "length ?ws < 1000000000" "\<forall>u\<in>set ?ws. u \<noteq> [] \<and> 0 \<le> load_of (loads st) u \<and> load_of (loads st) u < 3"
      using inv q by (simp_all add: alloc_inv_def)
    show ?thesis
    proof (cases "load_of (loads st) w + 1 \<ge> 3")
      case True
      then have "?av q = remove1 w ?ws" using q by (simp add: allocate_fields [OF inv])
      moreover have "length (remove1 w ?ws) < 1000000000"
        by (rule le_less_trans [OF _ old(2)]) (simp add: length_remove1)
      ultimately show ?thesis
        using old(1,3) by (simp add: allocate_fields [OF inv])
    next
      case False
      then have "?av q = ?ws" using q by (simp add: allocate_fields [OF inv])
      then show ?thesis
        using old False w by (auto simp: allocate_fields [OF inv])
    qed
  qed
  have "distinct (remain st)" "dom (map_of (alloc st)) \<inter> set (remain st) = {}"
    using inv by (simp_all add: alloc_inv_def)
  then show ?thesis
    using av unfolding alloc_inv_def by (auto simp: allocate_fields(1,4-6) [OF inv] distinct_removeAll)
qed

lemma given_update:
  "p \<notin> dom g \<Longrightarrow> {q. (g(p \<mapsto> w)) q = Some u} = (if u = w then insert p {q. g q = Some u} else {q. g q = Some u})"
  by (auto split: if_splits)

lemma fits_extend:
  assumes inv: "alloc_inv st" and p: "p \<in> set (remain st)" "w \<in> set (avail_of (p_avail st) p)"
    and g: "fits (allocate p w st) g"
  shows "p \<notin> dom g" "fits st (g(p \<mapsto> w))"
proof -
  show new: "p \<notin> dom g"
    using g by (auto simp: fits_def)
  have lw: "load_of (loads st) w < 3"
    using inv p by (simp add: alloc_inv_def)
  have fin: "finite {q. g q = Some w}"
    by (rule finite_given [OF g])
  have "load_of (loads st) u + int (card {q. (g(p \<mapsto> w)) q = Some u}) \<le> 3" if "u = w \<or> u \<in> ran g" for u
  proof (cases "u \<in> ran g")
    case True
    then have "load_of (loads st) u + (if u = w then 1 else 0) + int (card {q. g q = Some u}) \<le> 3"
      using g by (simp add: fits_def allocate_fields [OF inv])
    then show ?thesis
      unfolding given_update [OF new] using new fin by (auto simp: domIff)
  next
    case False
    then have "{q. g q = Some u} = {}" "u = w"
      using that by (auto simp: ran_def)
    then show ?thesis
      unfolding given_update [OF new] using lw by simp
  qed
  moreover have "u \<in> set (avail_of (p_avail st) q)" if "(g(p \<mapsto> w)) q = Some u" for q u
  proof (cases "q = p")
    case False
    then have "u \<in> set (avail_of (p_avail (allocate p w st)) q)" using g that by (simp add: fits_def)
    then show ?thesis using False by (auto simp: allocate_fields [OF inv] dest: subsetD [OF set_remove1_subset] split: if_splits)
  qed (use that p in simp)
  moreover have "dom (g(p \<mapsto> w)) \<subseteq> set (remain st)"
    using g p by (auto simp: fits_def)
  ultimately show "fits st (g(p \<mapsto> w))"
    using new unfolding fits_def by (simp add: ran_map_upd domIff)
qed

lemma fits_restrict:
  assumes inv: "alloc_inv st" and g: "fits st g" "g p = Some w"
  shows "fits (allocate p w st) (g(p := None))"
proof -
  have fin: "finite {q. g q = Some u}" for u
    by (rule finite_given [OF g(1)])
  have minus: "{q. (g(p := None)) q = Some u} = {q. g q = Some u} - {p}" for u
    by auto
  have le: "load_of (loads st) u + int (card {q. g q = Some u}) \<le> 3" if "g q = Some u" for q u
    using g(1) that by (auto simp: fits_def ran_def)
  have "load_of (loads st) u + (if u = w then 1 else 0) + int (card ({q. g q = Some u} - {p})) \<le> 3"
    if u: "u \<in> ran (g(p := None))" for u
  proof -
    obtain q where "(g(p := None)) q = Some u" using u unfolding ran_def by blast
    then have q: "g q = Some u" "q \<noteq> p" by (auto split: if_splits)
    show ?thesis
    proof (cases "u = w")
      case True
      then have "card ({q. g q = Some u} - {p}) = card {q. g q = Some u} - 1" "0 < card {q. g q = Some u}"
        using g(2) fin [of u] q(1) by (auto simp: card_gt_0_iff)
      then show ?thesis using le [OF q(1)] True by simp
    next
      case False
      then show ?thesis using le [OF q(1)] g(2) by simp
    qed
  qed
  moreover have "u \<in> set (avail_of (p_avail (allocate p w st)) q)" if "(g(p := None)) q = Some u" for q u
  proof -
    have q: "g q = Some u" "q \<noteq> p" using that by (auto split: if_splits)
    have "load_of (loads st) w + 1 < 3" if "u = w"
    proof -
      have "{p, q} \<subseteq> {q. g q = Some w}" using g(2) q that by auto
      then have "2 \<le> card {q. g q = Some w}" using card_mono [OF fin, of "{p, q}"] q(2) by simp
      then show ?thesis using le [OF g(2)] by simp
    qed
    moreover have "u \<in> set (avail_of (p_avail st) q)"
      using g(1) q(1) by (simp add: fits_def)
    ultimately show ?thesis
      using q(2) by (cases "u = w") (auto simp: allocate_fields [OF inv] in_set_remove1)
  qed
  moreover have "dom (g(p := None)) \<subseteq> set (removeAll p (remain st))"
    using g(1) by (auto simp: fits_def)
  ultimately show ?thesis
    unfolding fits_def allocate_fields [OF inv] minus remain_allocate by simp
qed


lemma exchange:
  assumes inv: "alloc_inv st" and p: "p \<in> set (remain st)" "avail_of (p_avail st) p \<noteq> []" and g: "fits st g"
  shows "\<exists>g' w. fits st g' \<and> g' p = Some w \<and> card (dom g) \<le> card (dom g')"
proof (cases "p \<in> dom g")
  case True
  then show ?thesis using g by blast
next
  case False
  obtain w where w: "w \<in> set (avail_of (p_avail st) p)"
    using p(2) by (cases "avail_of (p_avail st) p") auto
  have lw: "load_of (loads st) w < 3" and fin: "finite {q. g q = Some w}"
    using inv p(1) w finite_given [OF g] by (auto simp: alloc_inv_def)
  have exch: "fits st (h(p \<mapsto> w))" if h: "fits st h" "p \<notin> dom h" "load_of (loads st) w + int (card {q. h q = Some w}) < 3" for h
  proof -
    have "load_of (loads st) u + int (card {q. (h(p \<mapsto> w)) q = Some u}) \<le> 3" if "u = w \<or> u \<in> ran h" for u
      unfolding given_update [OF h(2)] using h that finite_given [OF h(1), of w]
      by (auto simp: fits_def card_insert_if domIff)
    then show ?thesis
      using h(1,2) p(1) w unfolding fits_def by (auto simp: ran_map_upd domIff)
  qed
  show ?thesis
  proof (cases "load_of (loads st) w + int (card {q. g q = Some w}) < 3")
    case True
    have "card (dom g) \<le> card (dom (g(p \<mapsto> w)))"
      using False finite_fits [OF g] by (simp add: card_insert_if)
    then show ?thesis
      using exch [OF g False True] by (meson fun_upd_same)
  next
    case full: False
    then have "0 < card {q. g q = Some w}" using lw by (cases "card {q. g q = Some w}") auto
    then obtain q where q: "g q = Some w" by (auto simp: card_gt_0_iff)
    let ?h = "g(q := None)"
    have minus: "{r. ?h r = Some u} = {r. g r = Some u} - {q}" for u by auto
    have "fits st ?h"
      unfolding fits_def minus
    proof (intro conjI ballI allI impI)
      show "dom ?h \<subseteq> set (remain st)" using g by (auto simp: fits_def)
      show "u \<in> set (avail_of (p_avail st) r)" if "?h r = Some u" for r u
        using g that by (auto simp: fits_def split: if_splits)
      show "load_of (loads st) u + int (card ({r. g r = Some u} - {q})) \<le> 3" if "u \<in> ran ?h" for u
      proof -
        have "u \<in> ran g" using that by (auto simp: ran_def split: if_splits)
        then have "load_of (loads st) u + int (card {r. g r = Some u}) \<le> 3" using g by (simp add: fits_def)
        moreover have "card ({r. g r = Some u} - {q}) \<le> card {r. g r = Some u}"
          by (rule card_mono [OF finite_given [OF g]]) blast
        ultimately show ?thesis by simp
      qed
    qed
    moreover have "p \<notin> dom ?h" using False by auto
    moreover have "load_of (loads st) w + int (card {r. ?h r = Some w}) < 3"
    proof -
      have "w \<in> ran g" using q by (rule ranI)
      then have "load_of (loads st) w + int (card {r. g r = Some w}) \<le> 3" using g by (simp add: fits_def)
      moreover have "card ({r. g r = Some w} - {q}) = card {r. g r = Some w} - 1" "0 < card {r. g r = Some w}"
        using q fin by (auto simp: card_gt_0_iff)
      ultimately show ?thesis unfolding minus by simp
    qed
    ultimately have "fits st (?h(p \<mapsto> w))" by (rule exch)
    moreover have "dom (?h(p \<mapsto> w)) = insert p (dom g - {q})" by auto
    moreover have "card (insert p (dom g - {q})) = card (dom g)"
    proof -
      have "card (insert p (dom g - {q})) = Suc (card (dom g - {q}))"
        using False finite_fits [OF g] by (intro card_insert_disjoint) auto
      then show ?thesis using card_Suc_Diff1 [OF finite_fits [OF g] domI, of q, OF q] by simp
    qed
    ultimately show ?thesis by (metis fun_upd_same order_refl)
  qed
qed

subsection \<open>The search\<close>

definition planned :: "allocation \<Rightarrow> nat \<Rightarrow> allocation \<Rightarrow> bool" where
  "planned st n st' \<longleftrightarrow>
    (\<exists>g. fits st g \<and> dom g = set (remain st) - set (remain st') \<and> map_of (alloc st') = map_of (alloc st) ++ g \<and>
      (0 < n \<longrightarrow> (\<forall>w. load_of (loads st') w = load_of (loads st) w + int (card {p. g p = Some w})))) \<and>
    n = length (remain st') \<and> distinct (remain st') \<and> set (remain st') \<subseteq> set (remain st) \<and>
    ordered (alloc st') \<and> ordered (loads st') \<and> dom (map_of (loads st)) \<subseteq> dom (map_of (loads st'))"

definition optimal :: "allocation \<Rightarrow> nat \<Rightarrow> bool" where
  "optimal st n \<longleftrightarrow> (\<forall>g. fits st g \<longrightarrow> card (dom g) + n \<le> length (remain st))"

lemma planned_refl: "alloc_inv st \<Longrightarrow> planned st (length (remain st)) st"
  unfolding planned_def by (auto simp: alloc_inv_def fits_def intro!: exI [of _ Map.empty])

lemma planned_same:
  assumes "planned st1 n st'" and "\<And>g. fits st1 g \<Longrightarrow> fits st g"
    and "remain st1 = remain st" "alloc st1 = alloc st" "\<And>w. load_of (loads st1) w = load_of (loads st) w"
    and "dom (map_of (loads st)) \<subseteq> dom (map_of (loads st1))"
  shows "planned st n st'"
proof -
  obtain g where "fits st1 g" "dom g = set (remain st1) - set (remain st')" "map_of (alloc st') = map_of (alloc st1) ++ g"
      "0 < n \<longrightarrow> (\<forall>w. load_of (loads st') w = load_of (loads st1) w + int (card {p. g p = Some w}))"
    using assms(1) unfolding planned_def by blast
  then show ?thesis
    using assms(1) assms(2) [of g] assms(6) unfolding planned_def assms(3-5) by blast
qed

lemma planned_allocate:
  assumes inv: "alloc_inv st" and p: "p \<in> set (remain st)" "w \<in> set (avail_of (p_avail st) p)"
    and pl: "planned (allocate p w st) n st'"
  shows "planned st n st'"
proof -
  obtain g where g: "fits (allocate p w st) g" "dom g = set (remain st) - {p} - set (remain st')"
      "map_of (alloc st') = (map_of (alloc st))(p \<mapsto> w) ++ g"
      "0 < n \<Longrightarrow> load_of (loads st') u = load_of (loads st) u + (if u = w then 1 else 0) + int (card {q. g q = Some u})" for u
    using pl unfolding planned_def allocate_fields [OF inv] by auto
  have new: "p \<notin> dom g" using fits_extend(1) [OF inv p g(1)] .
  have sub: "set (remain st') \<subseteq> set (remain st) - {p}" using pl by (simp add: planned_def)
  have "map_of (alloc st') = map_of (alloc st) ++ g(p \<mapsto> w)"
    using new by (simp add: g(3) map_add_upd_left fun_upd_def map_add_def fun_eq_iff domIff)
  moreover have "dom (g(p \<mapsto> w)) = set (remain st) - set (remain st')"
    using g(2) sub p(1) by auto
  moreover have "load_of (loads st') u = load_of (loads st) u + int (card {q. (g(p \<mapsto> w)) q = Some u})" if "0 < n" for u
    unfolding given_update [OF new] using g(4) [OF that, of u] new finite_given [OF g(1), of w] by (simp add: domIff)
  ultimately show ?thesis
    using pl sub fits_extend(2) [OF inv p g(1)] unfolding planned_def
    by (auto simp: allocate_fields(7) [OF inv] intro!: exI [of _ "g(p \<mapsto> w)"])
qed

lemma optimal_choice:
  assumes inv: "alloc_inv st" and p: "p \<in> set (remain st)" "avail_of (p_avail st) p \<noteq> []"
    and all: "\<And>w. w \<in> set (avail_of (p_avail st) p) \<Longrightarrow> \<exists>m\<ge>n. optimal (allocate p w st) m"
  shows "optimal st n"
  unfolding optimal_def
proof (intro allI impI)
  fix g
  assume "fits st g"
  then obtain g' w where g': "fits st g'" "g' p = Some w" "card (dom g) \<le> card (dom g')"
    using exchange [OF inv p] by blast
  have "w \<in> set (avail_of (p_avail st) p)" using g' by (simp add: fits_def)
  then obtain m where m: "n \<le> m" "optimal (allocate p w st) m" using all by blast
  have "card (dom (g'(p := None))) + m \<le> length (removeAll p (remain st))"
    using m(2) [unfolded optimal_def, rule_format, OF fits_restrict [OF inv g'(1,2)]] by simp
  moreover have "card (dom g') = Suc (card (dom (g'(p := None))))"
    using card_Suc_Diff1 [OF finite_fits [OF g'(1)] domI, of p, OF g'(2)] by simp
  moreover have "length (remain st) = Suc (length (removeAll p (remain st)))"
    using inv p(1) by (simp add: alloc_inv_def distinct_remove1_removeAll [symmetric] length_remove1)
      (metis Suc_pred length_pos_if_in_set)
  ultimately show "card (dom g) + n \<le> length (remain st)" using g'(3) m(1) by linarith
qed

lemma allocate_singles_effect:
  assumes "alloc_inv st"
  shows "\<exists>st'. allocate_singles st = Some st' \<and> alloc_inv st' \<and>
    (\<forall>n st''. planned st' n st'' \<longrightarrow> planned st n st'') \<and> (\<forall>n. optimal st' n \<longrightarrow> optimal st n)"
  using assms
proof (induction st rule: allocate_singles.induct)
  case (1 st)
  show ?case
  proof (cases "find_single (p_avail st) (remain st)")
    case None
    then show ?thesis using 1(2) by (simp add: allocate_singles.simps [of st])
  next
    case (Some e)
    obtain p w where e: "e = (p, w)" by fastforce
    have p: "p \<in> set (remain st)" "avail_of (p_avail st) p = [w]"
      using find_single_Some Some unfolding e by blast+
    have w: "w \<noteq> []" "w \<in> set (avail_of (p_avail st) p)"
      using 1(2) p by (auto simp: alloc_inv_def)
    have step: "allocate_singles st = allocate_singles (allocate p w st)"
      using Some w(1) by (simp add: allocate_singles.simps [of st] e)
    have "alloc_inv (allocate p w st)" by (rule alloc_inv_allocate [OF 1(2) p(1) w(2)])
    from 1(1) [OF Some e [symmetric] w(1) this] obtain st' where st': "allocate_singles (allocate p w st) = Some st'" "alloc_inv st'"
        "\<forall>n st''. planned st' n st'' \<longrightarrow> planned (allocate p w st) n st''"
        "\<forall>n. optimal st' n \<longrightarrow> optimal (allocate p w st) n"
      by blast
    have "optimal st n" if "optimal (allocate p w st) n" for n
      using optimal_choice [OF 1(2) p(1), of n] p(2) that by auto
    moreover have "planned st n st''" if "planned (allocate p w st) n st''" for n st''
      by (rule planned_allocate [OF 1(2) p(1) w(2) that])
    ultimately show ?thesis
      using st' step by auto
  qed
qed

lemma min_partition_all_empty:
  assumes "get_min_partition ps av = Some p0" "avail_of av p0 = []"
    and "\<forall>p\<in>set ps. length (avail_of av p) < 1000000000"
  shows "\<forall>p\<in>set ps. avail_of av p = []"
proof -
  have keep: "avail_of av (min_partition_loop av qs p m) \<noteq> []" if "avail_of av p \<noteq> []" for qs p m
    using that by (induction av qs p m rule: min_partition_loop.induct) (auto simp: Let_def)
  have "\<forall>q\<in>set qs. avail_of av q = []"
    if "avail_of av (min_partition_loop av qs p 1000000000) = []" "\<forall>q\<in>set qs. length (avail_of av q) < 1000000000" for qs p
    using that
  proof (induction qs arbitrary: p)
    case (Cons q qs)
    then show ?case using keep [of q qs "int (length (avail_of av q))"] by (auto simp: Let_def split: if_splits)
  qed simp
  from this [of ps "hd ps"] show ?thesis
    using assms by (cases ps) (simp_all add: get_min_partition_def del: min_partition_loop.simps)
qed

text \<open>What is assumed of \<^verbatim>\<open>std::sort\<close>: the elements stay the same.\<close>

definition permutes_lists :: "(('a \<Rightarrow> int) \<Rightarrow> 'a list \<Rightarrow> 'a list) \<Rightarrow> bool" where
  "permutes_lists srt \<longleftrightarrow> (\<forall>key xs. mset (srt key xs) = mset xs)"

lemma permutes_lists_facts:
  assumes "permutes_lists srt"
  shows "set (srt key xs) = set xs" "length (srt key xs) = length xs" "distinct (srt key xs) = distinct xs"
  using assms unfolding permutes_lists_def by (metis mset_eq_setD, metis mset_eq_length, metis mset_eq_imp_distinct_iff)

lemma sort_workers_effect:
  assumes inv: "alloc_inv st" and p: "p \<in> set (remain st)" and srt: "permutes_lists srt"
  shows "\<exists>st1. sort_workers srt p st = Some st1 \<and> alloc_inv st1 \<and> remain st1 = remain st \<and>
    set (avail_of (p_avail st1) p) = set (avail_of (p_avail st) p) \<and>
    (\<forall>n st''. planned st1 n st'' \<longrightarrow> planned st n st'') \<and> (\<forall>n. optimal st1 n \<longrightarrow> optimal st n)"
proof -
  let ?ws = "avail_of (p_avail st) p"
  let ?st1 = "st\<lparr>p_avail := map_put p (srt (preference (loads st)) ?ws) (p_avail st),
    loads := insert_range (map (\<lambda>w. (w, 0)) ?ws) (loads st)\<rparr>"
  have ord: "ordered (p_avail st)" "ordered (loads st)" using inv by (simp_all add: alloc_inv_def)
  have loads: "load_of (loads ?st1) u = load_of (loads st) u" for u
    using load_of_insert_zero [OF ord(2)] by simp
  have av: "set (avail_of (p_avail ?st1) q) = set (avail_of (p_avail st) q)"
      "length (avail_of (p_avail ?st1) q) = length (avail_of (p_avail st) q)"
      "distinct (avail_of (p_avail ?st1) q) = distinct (avail_of (p_avail st) q)" for q
    using permutes_lists_facts [OF srt] by (auto simp: avail_of_put [OF ord(1)])
  have "list_all (\<lambda>w. 0 \<le> load_of (loads st) w \<and> load_of (loads st) w \<le> 3) ?ws"
    using inv p by (fastforce simp: alloc_inv_def list_all_iff)
  then have "sort_workers srt p st = Some ?st1" by (simp add: sort_workers_def Let_def)
  moreover have "alloc_inv ?st1"
    using inv ord unfolding alloc_inv_def av loads
    by (simp add: ordered_map_put insert_range_invariants)
  moreover have fits: "fits ?st1 g = fits st g" for g
    unfolding fits_def av loads by simp
  moreover have "planned st n st''" if "planned ?st1 n st''" for n st''
    by (rule planned_same [OF that]) (use fits loads in \<open>auto simp: insert_range_invariants [OF ord(2)]\<close>)
  moreover have "optimal st n" if "optimal ?st1 n" for n
    using that fits by (simp add: optimal_def)
  ultimately show ?thesis using av(1) by auto
qed

lemma take_planned:
  assumes inv: "alloc_inv st" and pl: "planned st n st'"
  shows "planned st n (take_best st st')" "n = 0 \<Longrightarrow> planned st 0 (take_success st st')"
proof -
  have ord: "ordered (alloc st)" "ordered (loads st)" "dom (map_of (alloc st)) \<inter> set (remain st) = {}"
    using inv by (simp_all add: alloc_inv_def)
  obtain g where g: "fits st g" "dom g = set (remain st) - set (remain st')" "map_of (alloc st') = map_of (alloc st) ++ g"
      "0 < n \<longrightarrow> (\<forall>w. load_of (loads st') w = load_of (loads st) w + int (card {p. g p = Some w}))"
    using pl unfolding planned_def by blast
  have "\<forall>k. g k \<noteq> None \<longrightarrow> map_of (alloc st) k = None"
    using ord(3) g(2) by blast
  then have al: "map_of (insert_range (alloc st') (alloc st)) = map_of (alloc st) ++ g"
    by (intro ext) (auto simp: insert_range_invariants [OF ord(1)] g(3) map_add_def split: option.splits)
  then show "planned st n (take_best st st')"
    using pl g(1,2,4) unfolding planned_def take_best_def
    by (auto simp: insert_range_invariants(1) [OF ord(1)] intro!: exI [of _ g])
  show "planned st 0 (take_success st st')" if "n = 0"
    using pl g(1,2) al that unfolding planned_def take_success_def
    by (auto simp: insert_range_invariants [OF ord(1)] insert_range_invariants [OF ord(2)] intro!: exI [of _ g])
qed

lemma try_workers_effect:
  assumes inv: "alloc_inv st" and p: "p \<in> set (remain st)" "set ws \<subseteq> set (avail_of (p_avail st) p)"
    and plan: "\<And>w. w \<in> set ws \<Longrightarrow> \<exists>n st'. plan (allocate p w st) = Some (n, st') \<and> planned (allocate p w st) n st' \<and>
      optimal (allocate p w st) n"
    and best: "planned st m best"
  shows "\<exists>n st'. try_workers plan st p ws m best = Some (n, st') \<and> planned st n st' \<and> n \<le> m \<and>
    (\<forall>w\<in>set ws. \<exists>k\<ge>n. optimal (allocate p w st) k)"
  using p(2) plan best
proof (induction ws arbitrary: m best)
  case Nil
  then show ?case using take_planned(1) [OF inv] by simp
next
  case (Cons w ws)
  obtain n st' where n: "plan (allocate p w st) = Some (n, st')" "planned (allocate p w st) n st'"
      "optimal (allocate p w st) n"
    using Cons.prems(2) [of w] by auto
  have w: "w \<in> set (avail_of (p_avail st) p)" using Cons.prems(1) by simp
  have pl: "planned st n st'" by (rule planned_allocate [OF inv p(1) w n(2)])
  show ?case
  proof (cases "n = 0")
    case True
    have "\<exists>k\<ge>0. optimal (allocate p u st) k" if "u \<in> set (w # ws)" for u
      using Cons.prems(2) [OF that] by blast
    then show ?thesis
      using n(1) True take_planned(2) [OF inv pl] by auto
  next
    case False
    let ?m = "if n < m then n else m" and ?best = "if n < m then st' else best"
    have "\<exists>k st''. try_workers plan st p ws ?m ?best = Some (k, st'') \<and> planned st k st'' \<and> k \<le> ?m \<and>
        (\<forall>w\<in>set ws. \<exists>j\<ge>k. optimal (allocate p w st) j)"
      using Cons.IH [of ?m ?best] Cons.prems pl by auto
    then obtain k st'' where k: "try_workers plan st p ws ?m ?best = Some (k, st'')" "planned st k st''" "k \<le> ?m"
        "\<forall>w\<in>set ws. \<exists>j\<ge>k. optimal (allocate p w st) j"
      by blast
    have "try_workers plan st p (w # ws) m best = Some (k, st'')"
      using k(1) n(1) False by auto
    moreover have "k \<le> n" "k \<le> m" using k(3) by (auto split: if_splits)
    ultimately show ?thesis
      using k(2,4) n(3) by auto
  qed
qed

lemma alloc_plan_effect:
  assumes "permutes_lists srt" "alloc_inv st"
  shows "\<exists>n st'. alloc_plan srt st = Some (n, st') \<and> planned st n st' \<and> optimal st n"
  using assms
proof (induction srt st rule: alloc_plan.induct)
  case (1 srt st0)
  obtain st where st: "allocate_singles st0 = Some st" "alloc_inv st"
      "\<And>n st''. planned st n st'' \<Longrightarrow> planned st0 n st''" "\<And>n. optimal st n \<Longrightarrow> optimal st0 n"
    using allocate_singles_effect [OF 1(3)] by blast
  have "\<exists>n st'. alloc_plan srt st0 = Some (n, st') \<and> planned st n st' \<and> optimal st n"
  proof (cases "get_min_partition (remain st) (p_avail st)")
    case None
    then have "remain st = []" by (cases "remain st") (simp_all add: get_min_partition_def)
    moreover from this have "optimal st 0" by (auto simp: optimal_def fits_def)
    ultimately show ?thesis
      using None st(1) planned_refl [OF st(2)] by (simp add: alloc_plan.simps [of srt st0])
  next
    case (Some p0)
    have p0: "p0 \<in> set (remain st)" by (rule get_min_partition_in [OF Some])
    show ?thesis
    proof (cases "avail_of (p_avail st) p0 = []")
      case True
      have "\<forall>p\<in>set (remain st). length (avail_of (p_avail st) p) < 1000000000"
        using st(2) unfolding alloc_inv_def by blast
      then have "\<forall>p\<in>set (remain st). avail_of (p_avail st) p = []"
        by (rule min_partition_all_empty [OF Some True])
      then have "g = Map.empty" if "fits st g" for g
        using that by (fastforce simp: fits_def dom_def)
      then have "optimal st (length (remain st))" unfolding optimal_def by (metis add_0 card.empty dom_empty order_refl)
      then show ?thesis
        using True Some st(1) planned_refl [OF st(2)] by (simp add: alloc_plan.simps [of srt st0])
    next
      case False
      obtain st1 where st1: "sort_workers srt p0 st = Some st1" "alloc_inv st1" "remain st1 = remain st"
          "set (avail_of (p_avail st1) p0) = set (avail_of (p_avail st) p0)"
          "\<And>n st''. planned st1 n st'' \<Longrightarrow> planned st n st''" "\<And>n. optimal st1 n \<Longrightarrow> optimal st n"
        using sort_workers_effect [OF st(2) p0 1(2)] by blast
      let ?ws = "avail_of (p_avail st1) p0"
      have p1: "p0 \<in> set (remain st1)" "?ws \<noteq> []" using p0 st1(3,4) False by auto
      have "\<exists>n st'. alloc_plan srt (allocate p0 w st1) = Some (n, st') \<and> planned (allocate p0 w st1) n st' \<and>
          optimal (allocate p0 w st1) n" if "w \<in> set ?ws" for w
        using 1(1) [OF st(1) Some False st1(1) that 1(2) alloc_inv_allocate [OF st1(2) p1(1) that]] .
      from try_workers_effect [OF st1(2) p1(1) subset_refl this planned_refl [OF st1(2)]]
      obtain n st' where n: "try_workers (alloc_plan srt) st1 p0 ?ws (length (remain st1)) st1 = Some (n, st')"
          "planned st1 n st'" "\<forall>w\<in>set ?ws. \<exists>k\<ge>n. optimal (allocate p0 w st1) k"
        by blast
      have "optimal st1 n"
        using optimal_choice [OF st1(2) p1] n(3) by blast
      then show ?thesis
        using n(1,2) st(1) Some False st1 by (simp add: alloc_plan.simps [of srt st0])
    qed
  qed
  then show ?case using st(3,4) by blast
qed

subsection \<open>The property\<close>

text \<open>A concrete sorting function, and two workers for three partitions.\<close>

definition some_sort :: "('a \<Rightarrow> int) \<Rightarrow> 'a list \<Rightarrow> 'a list" where
  "some_sort key = sort_key (\<lambda>x. - key x)"

definition sample_allocation :: allocation where
  "sample_allocation = \<lparr>alloc = [], remain = [0, 1, 2],
     p_avail = [(0, [''a'', ''b'']), (1, [''a'']), (2, [''a'', ''b''])], loads = [(''a'', 2), (''b'', 1)]\<rparr>"

lemma some_sort_permutes: "permutes_lists some_sort"
  by (simp add: permutes_lists_def some_sort_def)

lemma sample_allocation_inv: "alloc_inv sample_allocation"
  by (simp add: alloc_inv_def sample_allocation_def ordered_def avail_of_def load_of_def)

text \<open>
  C16. \<^verbatim>\<open>alloc_plan\<close> returns, whatever the sorting of equally loaded workers, and its allocation is optimal.
  Every newly allocated partition is given to a worker that keeps it, no worker gets a load above 3, the
  other partitions remain, and no such allocation leaves fewer partitions.
\<close>

theorem alloc_plan_optimal:
  assumes "permutes_lists srt" "alloc_inv st"
  shows "\<exists>n st' g. alloc_plan srt st = Some (n, st') \<and> n = length (remain st') \<and>
    map_of (alloc st') = map_of (alloc st) ++ g \<and> dom g = set (remain st) - set (remain st') \<and> fits st g \<and>
    (\<forall>h. fits st h \<longrightarrow> card (dom h) \<le> card (dom g))"
proof -
  obtain n st' where n: "alloc_plan srt st = Some (n, st')" "planned st n st'" "optimal st n"
    using alloc_plan_effect [OF assms] by blast
  obtain g where g: "fits st g" "dom g = set (remain st) - set (remain st')" "map_of (alloc st') = map_of (alloc st) ++ g"
    using n(2) unfolding planned_def by blast
  have r: "distinct (remain st)" "distinct (remain st')" "set (remain st') \<subseteq> set (remain st)" "n = length (remain st')"
    using assms(2) n(2) by (simp_all add: alloc_inv_def planned_def)
  have "card (dom g) = card (set (remain st)) - card (set (remain st'))" "card (set (remain st')) \<le> card (set (remain st))"
    unfolding g(2) using r(3) by (auto intro: card_Diff_subset card_mono)
  then have "card (dom g) + n = length (remain st)"
    using r(1,2,4) by (simp add: distinct_card)
  then have "\<forall>h. fits st h \<longrightarrow> card (dom h) \<le> card (dom g)"
    using n(3) unfolding optimal_def by (metis add_le_cancel_right)
  then show ?thesis
    using n(1) g r(4) by blast
qed

theorem alloc_plan_optimal_witness:
  "\<exists>n st' g. alloc_plan some_sort sample_allocation = Some (n, st') \<and> n = length (remain st') \<and>
    map_of (alloc st') = map_of (alloc sample_allocation) ++ g \<and>
    dom g = set (remain sample_allocation) - set (remain st') \<and> fits sample_allocation g \<and>
    (\<forall>h. fits sample_allocation h \<longrightarrow> card (dom h) \<le> card (dom g))"
  by (rule alloc_plan_optimal [OF some_sort_permutes sample_allocation_inv])

end
