(* ===== verification/Allocation_Filter.thy ===== *)
theory Allocation_Filter
  imports Partition_Transfer Allocation_Optimal
begin

text \<open>
  \<^verbatim>\<open>filter_partitions\<close> as a whole: every partition of the graph is given to exactly one worker, and that worker
  keeps the partition or a copy of it from a worker that does is requested.
\<close>

subsection \<open>Exchanging partitions\<close>

definition kept :: "(int \<times> string list) list \<Rightarrow> (int \<times> string) list \<Rightarrow> bool" where
  "kept P_AVAIL al \<longleftrightarrow> (\<forall>p w. map_of al p = Some w \<longrightarrow> w \<in> set (avail_of P_AVAIL p))"

definition divided :: "(int \<times> string list) list \<Rightarrow> int set \<Rightarrow> (int \<times> string) list \<Rightarrow> int list \<Rightarrow> bool" where
  "divided P_AVAIL X al ps \<longleftrightarrow> ordered al \<and> kept P_AVAIL al \<and> distinct ps \<and> dom (map_of al) \<inter> set ps = {} \<and>
    dom (map_of al) \<union> set ps = X"

lemma avail_dom: "w \<in> set (avail_of m p) \<Longrightarrow> p \<in> dom (map_of m)"
  by (cases "map_of m p") (auto simp: avail_of_def)

lemma divided_exchange:
  assumes d: "divided P_AVAIL X al (p0 # ps)" and v: "map_of al p = Some w" "w \<in> set (avail_of P_AVAIL p0)"
  shows "divided P_AVAIL X (map_put p0 w (map_erase p al)) (p # ps)"
proof -
  let ?al = "map_put p0 w (map_erase p al)"
  have oe: "ordered (map_erase p al)" using d by (simp add: divided_def ordered_erase)
  have look: "map_of ?al q = (if q = p0 then Some w else if q = p then None else map_of al q)" for q
    by (simp add: map_put_lookup [OF oe] map_of_erase)
  have dom: "dom (map_of ?al) = insert p0 (dom (map_of al) - {p})" by (auto simp: look split: if_splits)
  have "p \<in> dom (map_of al)" using v(1) by blast
  moreover have "kept P_AVAIL ?al" using d v(2) unfolding divided_def kept_def look by auto
  ultimately show ?thesis
    using d ordered_map_put [OF oe] unfolding divided_def dom by auto
qed

lemma reallocate_loop_effect:
  assumes "divided P_AVAIL X al (stack @ copying)" "set stack \<subseteq> dom (map_of P_AVAIL)"
  shows "\<exists>al' copying'. reallocate_loop P_AVAIL PARTITIONS stack al copying = Some (al', copying') \<and>
    divided P_AVAIL X al' copying'"
  using assms
proof (induction P_AVAIL PARTITIONS stack al copying rule: reallocate_loop.induct)
  case (1 P_AVAIL PARTITIONS al copying)
  then show ?case by simp
next
  case (2 P_AVAIL PARTITIONS p0 remain_l al copying)
  have moved: "divided P_AVAIL X al (remain_l @ copying @ [p0])" "set remain_l \<subseteq> dom (map_of P_AVAIL)"
    using 2(4,5) by (auto simp: divided_def)
  obtain ws where ws: "map_of P_AVAIL p0 = Some ws" using 2(5) by auto
  show ?case
  proof (cases "count_of P_AVAIL p0 = 1")
    case True
    then show ?thesis using 2(1) [OF True moved] by simp
  next
    case False
    show ?thesis
    proof (cases "find_victim P_AVAIL ws (count_of P_AVAIL p0) al PARTITIONS")
      case None
      then show ?thesis using 2(2) [OF False ws None moved] False ws by simp
    next
      case (Some e)
      obtain p w where e: "e = (p, w)" by fastforce
      have v: "map_of al p = Some w" "w \<in> set (avail_of P_AVAIL p0)"
        using find_victim_Some Some ws unfolding e avail_of_def by auto
      have "divided P_AVAIL X (map_put p0 w (map_erase p al)) ((p # remain_l) @ copying)"
        using divided_exchange [OF _ v] 2(4) by simp
      moreover have "w \<in> set (avail_of P_AVAIL p)" using 2(4) v(1) by (simp add: divided_def kept_def)
      then have "set (p # remain_l) \<subseteq> dom (map_of P_AVAIL)"
        using 2(5) by (simp add: avail_dom)
      ultimately show ?thesis
        using 2(3) [OF False ws Some e [symmetric]] False ws Some e by simp
    qed
  qed
qed

lemma reallocate_parts_effect:
  assumes "permutes_lists isrt" "divided P_AVAIL X al ps" "set ps \<subseteq> dom (map_of P_AVAIL)"
  shows "\<exists>al' copying. reallocate_parts isrt al ps P_AVAIL = Some (al', copying) \<and> divided P_AVAIL X al' copying"
  unfolding reallocate_parts_def
  using assms by (intro reallocate_loop_effect) (simp_all add: divided_def permutes_lists_facts)

subsection \<open>The plan for the copies\<close>


lemma fold_put_all:
  assumes "ordered m" "distinct (map fst es)"
  shows "ordered (fold (\<lambda>(k, v). map_put k v) es m)" "map_of (fold (\<lambda>(k, v). map_put k v) es m) = map_of m ++ map_of es"
proof -
  have "ordered (fold (\<lambda>(k, v). map_put k v) es m) \<and> map_of (fold (\<lambda>(k, v). map_put k v) es m) = map_of m ++ map_of es"
    using assms
  proof (induction es arbitrary: m)
    case (Cons e es)
    obtain k v where e: "e = (k, v)" by fastforce
    have "map_of es k = None" using Cons.prems(2) by (simp add: e map_of_eq_None_iff)
    then have "map_of (map_put k v m) ++ map_of es = map_of m ++ map_of (e # es)"
      by (intro ext) (simp add: e map_put_lookup [OF Cons.prems(1)] map_add_def split: option.splits)
    moreover have "ordered (fold (\<lambda>(k, v). map_put k v) es (map_put k v m)) \<and>
        map_of (fold (\<lambda>(k, v). map_put k v) es (map_put k v m)) = map_of (map_put k v m) ++ map_of es"
      using Cons.prems by (intro Cons.IH) (auto simp: e)
    ultimately show ?case by (simp only: fold_simps e prod.case)
  qed simp
  then show "ordered (fold (\<lambda>(k, v). map_put k v) es m)"
    "map_of (fold (\<lambda>(k, v). map_put k v) es m) = map_of m ++ map_of es" by blast+
qed

lemma load_of_entry: "ordered m \<Longrightarrow> (w, n) \<in> set m \<Longrightarrow> load_of m w = n"
  by (simp add: load_of_def ordered_distinct)

lemma load_of_add: "ordered m \<Longrightarrow> load_of (add_load w m) u = load_of m u + (if u = w then 1 else 0)"
  by (simp add: add_load_def load_of_put)

lemma ordered_add: "ordered m \<Longrightarrow> ordered (add_load w m)" "add_load w m \<noteq> []"
  using map_put_keys [of w "load_of m w + 1" m] by (auto simp: add_load_def ordered_map_put)

lemma max_load_bound:
  assumes "ordered m" "m \<noteq> []" "\<And>w. load_of m w \<le> M"
  shows "\<exists>n\<le>M. max_load m = Some n"
proof -
  have "Max (set (map snd m)) \<in> set (map snd m)" using assms(2) by (intro Max_in) auto
  then obtain w where "(w, Max (set (map snd m))) \<in> set m" by auto
  then have "Max (set (map snd m)) \<le> M" using load_of_entry [OF assms(1)] assms(3) by metis
  then show ?thesis using assms(2) by (simp add: max_load_def)
qed

lemma min_load_attained:
  assumes "ordered m" "m \<noteq> []" "\<And>w. load_of m w \<le> 100000000"
  shows "\<exists>w\<in>set (map fst m). \<not> load_of m w > min_load m"
proof -
  have "fold min xs a \<in> insert a (set xs)" for xs and a :: int
    by (induction xs arbitrary: a) (auto simp: min_def split: if_splits)
  then have "min_load m \<in> insert 100000000 (set (map snd m))" unfolding min_load_def by blast
  then consider "min_load m = 100000000" | w where "(w, min_load m) \<in> set m" by auto
  then show ?thesis
  proof cases
    case 1
    then show ?thesis using assms(2,3) by (cases m) (auto simp: not_less)
  next
    case 2
    then show ?thesis using load_of_entry [OF assms(1) 2] by force
  qed
qed

definition net_inv :: "int \<Rightarrow> int \<Rightarrow> net_plan \<Rightarrow> bool" where
  "net_inv M L st \<longleftrightarrow> ordered (np_alloc st) \<and> ordered (transfer st) \<and> ordered (net_loads st) \<and> ordered (np_loads st) \<and>
    net_loads st \<noteq> [] \<and> np_loads st \<noteq> [] \<and> (\<forall>w. load_of (net_loads st) w \<le> M) \<and> (\<forall>w. load_of (np_loads st) w \<le> L)"

lemma net_inv_step: "net_inv M L st \<Longrightarrow> net_inv (M + 1) (L + 1) (net_step p w_from w_to st)"
  by (auto simp: net_inv_def net_step_def Let_def ordered_map_put ordered_add load_of_add add_increasing2)

definition copies_planned :: "(int \<times> string list) list \<Rightarrow> int list \<Rightarrow> net_plan \<Rightarrow> net_plan \<Rightarrow> bool" where
  "copies_planned P_AVAIL parts st st' \<longleftrightarrow> ordered (np_alloc st') \<and> ordered (transfer st') \<and>
    (\<forall>p. p \<notin> set parts \<longrightarrow> map_of (np_alloc st') p = map_of (np_alloc st) p \<and> map_of (transfer st') p = map_of (transfer st) p) \<and>
    (\<forall>p\<in>set parts. \<exists>w. map_of (np_alloc st') p = Some w \<and>
      (w \<in> set (avail_of P_AVAIL p) \<and> map_of (transfer st') p = map_of (transfer st) p \<or>
       (\<exists>w_from\<in>set (avail_of P_AVAIL p). map_of (transfer st') p = Some (w_from, w))))"

lemma copies_planned_step:
  assumes "copies_planned P_AVAIL parts (net_step p w_from w_to st) st'" "net_inv M L st"
    and "p \<notin> set parts" "w_from \<in> set (avail_of P_AVAIL p)"
  shows "copies_planned P_AVAIL (p # parts) st st'"
proof -
  have look: "map_of (np_alloc (net_step p w_from w_to st)) q = (if q = p then Some w_to else map_of (np_alloc st) q)"
      "map_of (transfer (net_step p w_from w_to st)) q =
        (if q = p \<and> w_from \<noteq> w_to then Some (w_from, w_to) else map_of (transfer st) q)" for q
    using assms(2) by (auto simp: net_step_def Let_def net_inv_def map_put_lookup)
  have *: "map_of (np_alloc st') p = Some w_to"
      "map_of (transfer st') p = (if w_from \<noteq> w_to then Some (w_from, w_to) else map_of (transfer st) p)"
    using assms(1,3) unfolding copies_planned_def look by simp_all
  show ?thesis
    using assms(1,3,4) * unfolding copies_planned_def look by (simp split: if_splits) blast
qed

lemma try_pairs_effect:
  assumes "\<And>w_from w_to b n s. (w_from, w_to) \<in> set ps \<Longrightarrow> plan (net_step p w_from w_to st) b = Some (n, s) \<Longrightarrow>
      (n < b \<longrightarrow> fine s) \<and> (K < b \<longrightarrow> n \<le> K)"
    and "try_pairs plan p st ps b best_plan = Some (n, s)"
  shows "n \<le> b \<and> (n < b \<longrightarrow> fine s) \<and> (n = b \<longrightarrow> s = best_plan) \<and>
    (K < b \<longrightarrow> (\<exists>e\<in>set ps. \<not> load_of (np_loads st) (snd e) > min_load (np_loads st)) \<longrightarrow> n \<le> K)"
  using assms
proof (induction ps arbitrary: b best_plan)
  case (Cons e ps)
  obtain w_from w_to where e: "e = (w_from, w_to)" by fastforce
  have IH: "n \<le> b \<and> (n < b \<longrightarrow> fine s) \<and> (n = b \<longrightarrow> s = best_plan) \<and>
      (K < b \<longrightarrow> (\<exists>e\<in>set ps. \<not> load_of (np_loads st) (snd e) > min_load (np_loads st)) \<longrightarrow> n \<le> K)"
    if "try_pairs plan p st ps b best_plan = Some (n, s)" for b best_plan
    using Cons.IH [OF _ that] Cons.prems(1) by (meson list.set_intros(2))
  show ?case
  proof (cases "load_of (np_loads st) w_to > min_load (np_loads st)")
    case True
    then show ?thesis using IH [of b best_plan] Cons.prems(2) by (simp add: e)
  next
    case False
    then obtain n1 s1 where p1: "plan (net_step p w_from w_to st) b = Some (n1, s1)"
        "(if n1 < b then try_pairs plan p st ps n1 s1 else try_pairs plan p st ps b best_plan) = Some (n, s)"
      using Cons.prems(2) by (auto simp: e bind_eq_Some_conv)
    have n1: "n1 < b \<longrightarrow> fine s1" "K < b \<longrightarrow> n1 \<le> K" using Cons.prems(1) [OF _ p1(1)] by (simp_all add: e)
    show ?thesis
    proof (cases "n1 < b")
      case True
      then show ?thesis using IH [of n1 s1] p1(2) n1 by (cases "n < n1") auto
    next
      case big: False
      then show ?thesis using IH [of b best_plan] p1(2) n1 by auto
    qed
  qed
qed simp

lemma copies_planned_merge:
  assumes "copies_planned P_AVAIL parts st st'" "ordered (transfer st)"
  shows "copies_planned P_AVAIL parts st (st'\<lparr>transfer := fold (\<lambda>(q, ends). map_put q ends) (transfer st') (transfer st)\<rparr>)"
proof -
  have ord: "ordered (transfer st')" using assms(1) by (simp add: copies_planned_def)
  have alt: "map_of (transfer st') p = map_of (transfer st) p \<or> map_of (transfer st') p \<noteq> None" for p
    using assms(1) unfolding copies_planned_def by (cases "p \<in> set parts") force+
  have "(map_of (transfer st) ++ map_of (transfer st')) p = map_of (transfer st') p" for p
    using alt [of p] by (cases "map_of (transfer st') p") (auto simp: map_add_def)
  then show ?thesis
    using assms(1) fold_put_all [OF assms(2) ordered_distinct [OF ord]] unfolding copies_planned_def by simp
qed

lemma sort_by_load_members:
  "permutes_lists wsrt \<Longrightarrow> sort_by_load wsrt lds = Some wts \<Longrightarrow> set wts = set (map fst lds)"
  by (auto simp: sort_by_load_def permutes_lists_facts(1) simp del: set_map split: if_splits)

lemma alloc_net_plan_effect:
  assumes "permutes_lists wsrt" "distinct parts" "\<forall>p\<in>set parts. avail_of P_AVAIL p \<noteq> []"
    and "net_inv M L st" "L + int (length parts) \<le> 100000000" "alloc_net_plan wsrt P_AVAIL parts st b = Some (n, st')"
  shows "(n < b \<longrightarrow> copies_planned P_AVAIL parts st st') \<and> (M + int (length parts) < b \<longrightarrow> n \<le> M + int (length parts))"
  using assms(2-)
proof (induction parts arbitrary: st b M L n st')
  case Nil
  have "\<exists>n\<le>M. max_load (net_loads st) = Some n"
    using Nil(3) by (intro max_load_bound) (auto simp: net_inv_def)
  then show ?case
    using Nil(3,5) by (auto simp: copies_planned_def net_inv_def)
next
  case (Cons p parts)
  obtain c where c: "c \<le> M" "max_load (net_loads st) = Some c"
    using max_load_bound [of "net_loads st" M] Cons.prems(3) by (auto simp: net_inv_def)
  show ?case
  proof (cases "c \<ge> b")
    case True
    then show ?thesis using c Cons.prems(5) by auto
  next
    case False
    let ?ws = "avail_of P_AVAIL p" and ?K = "M + 1 + int (length parts)"
    have ws: "map_of P_AVAIL p = Some ?ws" "?ws \<noteq> []"
      using Cons.prems(2) by (auto simp: avail_of_def split: option.splits)
    from Cons.prems(5) False c(2) ws(1) obtain wts s where n: "sort_by_load wsrt (np_loads st) = Some wts"
        "try_pairs (alloc_net_plan wsrt P_AVAIL parts) p st (List.product ?ws wts) b (st\<lparr>np_alloc := []\<rparr>) = Some (n, s)"
        "st' = s\<lparr>transfer := fold (\<lambda>(q, ends). map_put q ends) (transfer s) (transfer st)\<rparr>"
      by (auto simp: bind_eq_Some_conv)
    have rec: "(n < b' \<longrightarrow> copies_planned P_AVAIL (p # parts) st s) \<and> (?K < b' \<longrightarrow> n \<le> ?K)"
      if "(w_from, w_to) \<in> set (List.product ?ws wts)"
        and r: "alloc_net_plan wsrt P_AVAIL parts (net_step p w_from w_to st) b' = Some (n, s)" for w_from w_to b' n s
    proof -
      have "(n < b' \<longrightarrow> copies_planned P_AVAIL parts (net_step p w_from w_to st) s) \<and> (?K < b' \<longrightarrow> n \<le> ?K)"
        using Cons.IH [OF _ _ net_inv_step [OF Cons.prems(3)] _ r] Cons.prems(1,2,4) by simp
      then show ?thesis
        using copies_planned_step [OF _ Cons.prems(3)] Cons.prems(1) that(1) by fastforce
    qed
    have np: "ordered (np_loads st)" "np_loads st \<noteq> []" "\<And>w. load_of (np_loads st) w \<le> 100000000"
      using Cons.prems(3,4) unfolding net_inv_def by (auto intro: order_trans)
    obtain w where "w \<in> set wts" "\<not> load_of (np_loads st) w > min_load (np_loads st)"
      using min_load_attained [OF np] sort_by_load_members [OF assms(1) n(1)] by auto
    then have light: "\<exists>e\<in>set (List.product ?ws wts). \<not> load_of (np_loads st) (snd e) > min_load (np_loads st)"
      using ws(2) by (intro bexI [of _ "(hd ?ws, w)"]) auto
    have "n \<le> b \<and> (n < b \<longrightarrow> copies_planned P_AVAIL (p # parts) st s) \<and> (n = b \<longrightarrow> s = st\<lparr>np_alloc := []\<rparr>) \<and>
        (?K < b \<longrightarrow> (\<exists>e\<in>set (List.product ?ws wts). \<not> load_of (np_loads st) (snd e) > min_load (np_loads st)) \<longrightarrow> n \<le> ?K)"
      using rec n(2) by (rule try_pairs_effect)
    then have "n < b \<longrightarrow> copies_planned P_AVAIL (p # parts) st s" "?K < b \<longrightarrow> n \<le> ?K" using light by blast+
    moreover have "ordered (transfer st)" using Cons.prems(3) by (simp add: net_inv_def)
    ultimately show ?thesis
      using copies_planned_merge unfolding n(3) by (auto simp: algebra_simps)
  qed
qed

subsection \<open>Reading the partition map\<close>

lemma stoi_range: "stoi s = Some i \<Longrightarrow> - (2 ^ 31) \<le> i \<and> i < 2 ^ 31"
  by (auto simp: stoi_def split: option.splits if_splits)

text \<open>\<open>held m w p\<close>: the worker \<open>w\<close> is listed with the partition \<open>p\<close>.\<close>

definition held :: "(string \<times> string list) list \<Rightarrow> string \<Rightarrow> int \<Rightarrow> bool" where
  "held m w p \<longleftrightarrow> (\<exists>ps. (w, ps) \<in> set m \<and> (\<exists>s\<in>set ps. stoi s = Some p))"

definition read_inv :: "(string \<times> int) set \<Rightarrow> (int \<times> string list) list \<times> int list \<Rightarrow> bool" where
  "read_inv H acc \<longleftrightarrow> ordered (fst acc) \<and> distinct (snd acc) \<and> set (snd acc) = snd ` H \<and>
    (\<forall>p. set (avail_of (fst acc) p) = {w. (w, p) \<in> H}) \<and> (\<forall>p. distinct (avail_of (fst acc) p))"

lemma read_inv_add:
  assumes "read_inv H (av, ps)" "(w, p) \<notin> H"
  shows "read_inv (insert (w, p) H) (map_put p (avail_of av p @ [w]) av, set_insert p ps)"
  using assms
  by (auto simp: read_inv_def avail_of_put ordered_map_put set_insert_def distinct_insort set_insort_key)

lemma add_partitions_effect:
  assumes "read_inv H acc" "\<forall>s\<in>set ss. \<exists>p. stoi s = Some p" "distinct (map stoi ss)"
    and "\<forall>s\<in>set ss. \<forall>p. stoi s = Some p \<longrightarrow> (w, p) \<notin> H"
  shows "\<exists>acc'. add_partitions w ss acc = Some acc' \<and> read_inv (H \<union> {(w, p) |p. \<exists>s\<in>set ss. stoi s = Some p}) acc'"
  using assms
proof (induction ss arbitrary: H acc)
  case (Cons s ss)
  obtain p where p: "stoi s = Some p" using Cons.prems(2) by auto
  obtain av ps where acc: "acc = (av, ps)" by fastforce
  let ?acc = "(map_put p (avail_of av p @ [w]) av, set_insert p ps)"
  have "read_inv (insert (w, p) H) ?acc"
    using Cons.prems(1,4) p by (intro read_inv_add) (auto simp: acc)
  moreover have "\<forall>t\<in>set ss. \<forall>q. stoi t = Some q \<longrightarrow> (w, q) \<notin> insert (w, p) H"
  proof (intro ballI allI impI)
    fix t q
    assume t: "t \<in> set ss" "stoi t = Some q"
    have "stoi s \<notin> stoi ` set ss" using Cons.prems(3) by simp
    then have "q \<noteq> p" using t p by force
    then show "(w, q) \<notin> insert (w, p) H" using Cons.prems(4) t by simp
  qed
  ultimately have "\<exists>acc'. add_partitions w ss ?acc = Some acc' \<and>
      read_inv (insert (w, p) H \<union> {(w, p) |p. \<exists>s\<in>set ss. stoi s = Some p}) acc'"
    using Cons.IH [of "insert (w, p) H" ?acc] Cons.prems(2,3) by simp
  moreover have "insert (w, p) H \<union> {(w, p) |p. \<exists>s\<in>set ss. stoi s = Some p} = H \<union> {(w, p) |p. \<exists>t\<in>set (s # ss). stoi t = Some p}"
    using p by auto
  ultimately show ?case using p by (simp add: acc)
qed simp

definition map_ok :: "(string \<times> string list) list \<Rightarrow> bool" where
  "map_ok m \<longleftrightarrow> distinct (map fst m) \<and>
    (\<forall>(w, ss)\<in>set m. w \<noteq> [] \<and> distinct (map stoi ss) \<and> (\<forall>s\<in>set ss. stoi s \<noteq> None))"

lemma availability_effect:
  assumes "read_inv H acc" "map_ok m" "\<forall>w\<in>fst ` set m. \<forall>p. (w, p) \<notin> H"
  shows "\<exists>acc'. availability m acc = Some acc' \<and> read_inv (H \<union> {(w, p). held m w p}) acc'"
  using assms
proof (induction m arbitrary: H acc)
  case (Cons e m)
  obtain w ss where e: "e = (w, ss)" by fastforce
  let ?H = "H \<union> {(w, p) |p. \<exists>s\<in>set ss. stoi s = Some p}"
  have ok: "distinct (map stoi ss)" "\<forall>s\<in>set ss. \<exists>p. stoi s = Some p" "w \<notin> fst ` set m" "map_ok m"
    using Cons.prems(2) by (simp_all add: map_ok_def e)
  have "\<forall>p. (w, p) \<notin> H" using Cons.prems(3) by (simp add: e)
  then obtain acc1 where a: "add_partitions w ss acc = Some acc1" "read_inv ?H acc1"
    using add_partitions_effect [OF Cons.prems(1) ok(2,1), of w] by blast
  have "(u, p) \<notin> ?H" if "u \<in> fst ` set m" for u p
    using Cons.prems(3) ok(3) that by (auto simp: e)
  then have "\<forall>u\<in>fst ` set m. \<forall>p. (u, p) \<notin> ?H" by blast
  then have "\<exists>acc'. availability m acc1 = Some acc' \<and> read_inv (?H \<union> {(w, p). held m w p}) acc'"
    using Cons.IH [OF a(2) ok(4)] by blast
  moreover have "?H \<union> {(w, p). held m w p} = H \<union> {(w, p). held (e # m) w p}"
    by (auto simp: held_def e)
  ultimately show ?case using a(1) by (simp add: e)
next
  case Nil
  have "{(w, p). held [] w p} = {}" by (auto simp: held_def)
  then show ?case using Nil by simp
qed

subsection \<open>Loads\<close>

definition within :: "int \<Rightarrow> (string \<times> int) list \<Rightarrow> bool" where
  "within L lds \<longleftrightarrow> ordered lds \<and> (\<forall>w. 0 \<le> load_of lds w \<and> load_of lds w \<le> L)"

lemma within_put: "within L lds \<Longrightarrow> 0 \<le> n \<Longrightarrow> n \<le> L \<Longrightarrow> within L (map_put w n lds)"
  by (simp add: within_def ordered_map_put load_of_put)

lemma map_put_nonempty [simp]: "map_put k v m \<noteq> []"
  using map_put_keys [of k v m] by auto

text \<open>The loads that are read from the metrics are not negative and far below the range of an \<^verbatim>\<open>int\<close>.\<close>

definition cpu_ok :: "filter_env \<Rightarrow> bool" where
  "cpu_ok env \<longleftrightarrow> (\<forall>s\<in>snd ` set (cpu_map env). \<exists>n. cpu_load env s = Some n \<and> 0 \<le> n \<and> n \<le> 50000000)"

lemma initial_loads_effect:
  assumes "cpu_ok env" "within 50000000 lds" "ws \<noteq> [] \<or> lds \<noteq> []"
  shows "\<exists>lds'. initial_loads env ws lds = Some lds' \<and> within 50000000 lds' \<and> lds' \<noteq> []"
  using assms(2,3)
proof (induction ws arbitrary: lds)
  case (Cons e ws)
  obtain w a where e: "e = (w, a)" by fastforce
  have put: "\<exists>lds'. initial_loads env ws (map_put w n lds) = Some lds' \<and> within 50000000 lds' \<and> lds' \<noteq> []"
    if "0 \<le> n" "n \<le> 50000000" for n
    using Cons.IH [of "map_put w n lds"] within_put [OF Cons.prems(1) that] by simp
  show ?case
  proof (cases "map_of (cpu_map env) a")
    case None
    then show ?thesis using put [of 0] by (simp add: e)
  next
    case (Some s)
    then obtain n where "cpu_load env s = Some n" "0 \<le> n" "n \<le> 50000000"
      using assms(1) unfolding cpu_ok_def by (metis image_eqI map_of_SomeD snd_conv)
    then show ?thesis using put [of n] Some by (simp add: e)
  qed
qed simp

lemma drop_busy_effect:
  "drop_busy lds av = Some av' \<longleftrightarrow> av' = av \<and> (\<forall>w n. (w, n) \<in> set lds \<longrightarrow> 3 \<le> n \<longrightarrow> (\<forall>p ws. (p, ws) \<in> set av \<longrightarrow> w \<notin> set ws))"
  by (fastforce simp: drop_busy_def list_ex_iff split: if_splits)

lemma drop_busy_light:
  assumes "drop_busy lds av = Some av'" "w \<in> set (avail_of av p)"
  shows "load_of lds w < 3"
proof -
  obtain ws where "(p, ws) \<in> set av" "w \<in> set ws"
    using assms(2) by (cases "map_of av p") (auto simp: avail_of_def dest: map_of_SomeD)
  with assms(1) have "\<not> 3 \<le> n" if "(w, n) \<in> set lds" for n unfolding drop_busy_effect using that by blast
  then show ?thesis by (auto simp: load_of_def not_le dest: map_of_SomeD split: option.splits)
qed

lemma within_new:
  "within L lds \<Longrightarrow> 0 \<le> L \<Longrightarrow> lds \<noteq> [] \<Longrightarrow>
    within L (fold (\<lambda>(w, a). map_put w 0) es lds) \<and> fold (\<lambda>(w, a). map_put w 0) es lds \<noteq> []"
proof (induction es arbitrary: lds)
  case (Cons e es)
  then show ?case by (cases e) (simp add: within_put)
qed simp

lemma within_missing:
  "within L lds \<Longrightarrow> 3 \<le> L \<Longrightarrow> lds \<noteq> [] \<Longrightarrow>
    within L (fold (\<lambda>(w, a) m. if map_of m w = None then map_put w 3 m else m) es lds) \<and>
    fold (\<lambda>(w, a) m. if map_of m w = None then map_put w 3 m else m) es lds \<noteq> []"
proof (induction es arbitrary: lds)
  case (Cons e es)
  then show ?case by (cases e) (simp add: within_put)
qed simp

lemma within_scale_up:
  "within L lds \<Longrightarrow> 0 \<le> L \<Longrightarrow> lds \<noteq> [] \<Longrightarrow> scale_up f lds workers n = (lds', workers') \<Longrightarrow> within L lds' \<and> lds' \<noteq> []"
  using within_new [of L lds] by (auto simp: scale_up_def Let_def split: if_splits)

lemma zero_loads:
  assumes "lds \<noteq> []"
  shows "within 0 (fold (\<lambda>(w, n). map_put w (0::int)) lds []) \<and> fold (\<lambda>(w, n). map_put w (0::int)) lds [] \<noteq> []"
proof -
  obtain w n rest where l: "lds = (w, n) # rest" using assms by (cases lds) auto
  have "within 0 (map_put w 0 [])" by (simp add: within_def ordered_def load_of_def)
  then show ?thesis using within_new [of 0 "map_put w 0 []" rest] by (simp add: l)
qed

subsection \<open>The result\<close>

definition assigned :: "(int \<times> string list) list \<Rightarrow> int set \<Rightarrow> (int \<times> string) list \<Rightarrow> (int \<times> string \<times> string) list \<Rightarrow> bool" where
  "assigned P_AVAIL X al copies \<longleftrightarrow> ordered al \<and> dom (map_of al) = X \<and>
    (\<forall>p w. map_of al p = Some w \<longrightarrow> w \<in> set (avail_of P_AVAIL p) \<or> (\<exists>w_from. (p, w_from, w) \<in> set copies)) \<and>
    (\<forall>(p, w_from, w_to)\<in>set copies. w_from \<in> set (avail_of P_AVAIL p) \<and> map_of al p = Some w_to)"

lemma fold_targets:
  "ordered m \<Longrightarrow> (\<forall>(p, w_from, w_to)\<in>set es. map_of m p = Some w_to) \<Longrightarrow>
    ordered (fold (\<lambda>(p, w_from, w_to). map_put p w_to) es m) \<and>
    map_of (fold (\<lambda>(p, w_from, w_to). map_put p w_to) es m) = map_of m"
proof (induction es arbitrary: m)
  case (Cons e es)
  obtain p w_from w_to where e: "e = (p, w_from, w_to)" by (cases e)
  have same: "map_of (map_put p w_to m) = map_of m"
    using Cons.prems by (simp add: e map_put_lookup fun_upd_idem)
  show ?case
    using Cons.IH [of "map_put p w_to m"] Cons.prems unfolding same by (simp add: e ordered_map_put)
qed simp

lemma plan_copies_effect:
  assumes "permutes_lists (worker_sort env)" "permutes_lists (partition_sort env)"
    and d: "divided P_AVAIL X (alloc st) (remain st)" "\<forall>p\<in>X. avail_of P_AVAIL p \<noteq> []" "finite X" "card X < 49000000"
    and l: "within 50000000 (loads st)" "loads st \<noteq> []" and result: "plan_copies env workers P_AVAIL st = Some (al', copies)"
  shows "assigned P_AVAIL X al' copies"
proof -
  have "set (remain st) \<subseteq> dom (map_of P_AVAIL)"
    using d(1,2) unfolding divided_def by (metis Un_upper2 avail_dom last_in_set subset_iff)
  then obtain al copying where r: "reallocate_parts (partition_sort env) (alloc st) (remain st) P_AVAIL = Some (al, copying)"
      "divided P_AVAIL X al copying"
    using reallocate_parts_effect [OF assms(2) d(1)] by blast
  obtain lds workers' where s: "scale_up (scaleUp env) (loads st) workers (int (length copying)) = (lds, workers')"
    by fastforce
  define net where "net = fold (\<lambda>(w, n). map_put w (0::int)) lds []"
  define lds' where "lds' = fold (\<lambda>(w, a) m. if map_of m w = None then map_put w 3 m else m) workers' lds"
  let ?st = "\<lparr>np_alloc = al, transfer = [], net_loads = net, np_loads = lds'\<rparr>"
  have lds: "within 50000000 lds" "lds \<noteq> []" using within_scale_up [OF l(1) _ l(2) s] by simp_all
  have "within 50000000 lds'" "lds' \<noteq> []" using within_missing [OF lds(1) _ lds(2), of workers'] by (simp_all add: lds'_def)
  moreover have "within 0 net" "net \<noteq> []" using zero_loads [OF lds(2)] by (simp_all add: net_def)
  moreover have "ordered al" "distinct copying" "set copying \<subseteq> X" using r(2) by (auto simp: divided_def)
  ultimately have inv: "net_inv 0 50000000 ?st" by (simp add: net_inv_def within_def ordered_def)
  have c: "distinct (rev copying)" "\<forall>p\<in>set (rev copying). avail_of P_AVAIL p \<noteq> []" "length copying < 49000000"
    using r(2) d(2-4) card_mono [of X "set copying"] by (auto simp: divided_def distinct_card)
  from result r(1) s obtain n st' where n: "alloc_net_plan (worker_sort env) P_AVAIL (rev copying) ?st 100000000 = Some (n, st')"
      "al' = fold (\<lambda>(p, w_from, w_to). map_put p w_to) (transfer st') (np_alloc st')" "copies = transfer st'"
    by (auto simp: plan_copies_def Let_def net_def lds'_def bind_eq_Some_conv)
  have n': "n < 100000000 \<longrightarrow> copies_planned P_AVAIL (rev copying) ?st st'" "int (length copying) < 100000000 \<longrightarrow> n \<le> int (length copying)"
    using alloc_net_plan_effect [OF assms(1) c(1,2) inv _ n(1)] c(3) by auto
  have cp: "copies_planned P_AVAIL (rev copying) ?st st'" using n' c(3) by linarith
  have tr: "(p, w_from, w_to) \<in> set (transfer st') \<longleftrightarrow> map_of (transfer st') p = Some (w_from, w_to)" for p w_from w_to
    using cp by (simp add: copies_planned_def ordered_distinct)
  have new: "\<exists>w. map_of (np_alloc st') p = Some w \<and>
      (w \<in> set (avail_of P_AVAIL p) \<and> map_of (transfer st') p = None \<or>
       (\<exists>w_from\<in>set (avail_of P_AVAIL p). map_of (transfer st') p = Some (w_from, w)))" if "p \<in> set copying" for p
    using cp that by (simp add: copies_planned_def)
  have old: "map_of (np_alloc st') p = map_of al p" "map_of (transfer st') p = None" if "p \<notin> set copying" for p
    using cp that by (simp_all add: copies_planned_def)
  have target: "w_from \<in> set (avail_of P_AVAIL p) \<and> map_of (np_alloc st') p = Some w_to"
    if "(p, w_from, w_to) \<in> set (transfer st')" for p w_from w_to
    using that new [of p] old(2) [of p] unfolding tr by (cases "p \<in> set copying") auto
  let ?al = "fold (\<lambda>(p, w_from, w_to). map_put p w_to) (transfer st') (np_alloc st')"
  have al: "ordered ?al" "map_of ?al = map_of (np_alloc st')"
    using fold_targets [of "np_alloc st'" "transfer st'"] cp target by (auto simp: copies_planned_def)
  have "dom (map_of (np_alloc st')) = X"
  proof -
    have "p \<in> dom (map_of (np_alloc st')) \<longleftrightarrow> p \<in> set copying \<or> p \<in> dom (map_of al)" for p
      unfolding domIff using new [of p] old(1) [of p] by (cases "p \<in> set copying") auto
    then show ?thesis using r(2) unfolding divided_def by blast
  qed
  moreover have "w \<in> set (avail_of P_AVAIL p) \<or> (\<exists>w_from. (p, w_from, w) \<in> set (transfer st'))"
    if "map_of (np_alloc st') p = Some w" for p w
    using that new [of p] old [of p] r(2) unfolding tr divided_def kept_def by (cases "p \<in> set copying") auto
  ultimately have "assigned P_AVAIL X ?al (transfer st')"
    using al target unfolding assigned_def by auto
  then show ?thesis by (simp add: n(2,3))
qed

lemma workers_of_fold:
  fixes m :: "(string \<times> string list) list"
  defines "step \<equiv> \<lambda>(p, w) m. map_put w ((case map_of m w of None \<Rightarrow> [] | Some ps \<Rightarrow> ps) @ [to_string_int p]) m"
  assumes "ordered m"
  shows "ordered (fold step al m) \<and> (case map_of (fold step al m) w of None \<Rightarrow> [] | Some ps \<Rightarrow> ps) =
    (case map_of m w of None \<Rightarrow> [] | Some ps \<Rightarrow> ps) @ map (\<lambda>e. to_string_int (fst e)) (filter (\<lambda>e. snd e = w) al)"
  using assms(2)
proof (induction al arbitrary: m)
  case (Cons e al)
  obtain p u where e: "e = (p, u)" by fastforce
  show ?case
    using Cons.IH [of "step e m"] Cons.prems by (auto simp: e step_def ordered_map_put map_put_lookup)
qed simp

lemma held_workers_of:
  assumes "ordered al" "\<And>p. p \<in> dom (map_of al) \<Longrightarrow> - (2 ^ 31) \<le> p \<and> p < 2 ^ 31"
  shows "held (workers_of al) w p \<longleftrightarrow> map_of al p = Some w"
proof -
  have al: "(q, u) \<in> set al \<longleftrightarrow> map_of al q = Some u" for q u
    using assms(1) by (simp add: ordered_distinct)
  have ord: "ordered (workers_of al)"
      "(case map_of (workers_of al) w of None \<Rightarrow> [] | Some ps \<Rightarrow> ps) = map (\<lambda>e. to_string_int (fst e)) (filter (\<lambda>e. snd e = w) al)"
    using workers_of_fold [of "[]" al w] by (simp_all add: workers_of_def ordered_def)
  have "held (workers_of al) w p \<longleftrightarrow> (\<exists>s\<in>set (case map_of (workers_of al) w of None \<Rightarrow> [] | Some ps \<Rightarrow> ps). stoi s = Some p)"
    unfolding held_def using ordered_distinct [OF ord(1)] by (auto split: option.splits)
  also have "\<dots> \<longleftrightarrow> (\<exists>q. (q, w) \<in> set al \<and> stoi (to_string_int q) = Some p)"
    unfolding ord(2) by auto
  also have "\<dots> \<longleftrightarrow> (p, w) \<in> set al"
    using assms(2) stoi_to_string_int al by (metis domI option.inject)
  finally show ?thesis unfolding al .
qed

lemma start_inv:
  assumes "read_inv {(w, p). held m w p} (av, ps)" "map_ok m" "length m < 1000000000" "within L lds"
    and "drop_busy lds av = Some av'"
  shows "alloc_inv \<lparr>alloc = [], remain = ps, p_avail = av, loads = lds\<rparr>"
proof -
  have av: "ordered av" "distinct ps" "\<And>p. set (avail_of av p) = {w. held m w p}" "\<And>p. distinct (avail_of av p)"
    using assms(1) by (simp_all add: read_inv_def)
  have l: "ordered lds" "\<And>w. 0 \<le> load_of lds w" using assms(4) by (simp_all add: within_def)
  have keys: "w \<in> fst ` set m \<and> w \<noteq> []" if "held m w p" for w p
    using that assms(2) by (force simp: held_def map_ok_def)
  have "length (avail_of av p) < 1000000000" for p
  proof -
    have "length (avail_of av p) = card {w. held m w p}" using distinct_card [OF av(4), of p] av(3) by simp
    also have "\<dots> \<le> card (fst ` set m)" using keys by (intro card_mono) auto
    also have "\<dots> \<le> length m" by (rule order_trans [OF card_image_le]) (simp_all add: card_length)
    finally show ?thesis using assms(3) by simp
  qed
  moreover have "load_of lds w < 3" if "w \<in> set (avail_of av p)" for w p by (rule drop_busy_light [OF assms(5) that])
  moreover have "\<not> held m [] p" for p using keys by blast
  ultimately show ?thesis
    using av l by (auto simp: alloc_inv_def ordered_def [of "[]"])
qed

lemma plan_assigns:
  assumes "permutes_lists (worker_sort env)" "permutes_lists (partition_sort env)"
    and inv: "alloc_inv st0" "alloc st0 = []" and sub: "\<And>p. set (avail_of (p_avail st0) p) \<subseteq> set (avail_of P_AVAIL p)"
    and X: "\<forall>p\<in>set (remain st0). avail_of P_AVAIL p \<noteq> []" "card (set (remain st0)) < 49000000"
    and l: "within 50000000 (loads st0)" "loads st0 \<noteq> []"
    and pl: "planned st0 n st"
    and result: "(if 0 < n then plan_copies env workers P_AVAIL st else Some (alloc st, [])) = Some (al, copies)"
  shows "assigned P_AVAIL (set (remain st0)) al copies"
proof -
  obtain g where g: "fits st0 g" "dom g = set (remain st0) - set (remain st)" "map_of (alloc st) = g"
      "0 < n \<longrightarrow> (\<forall>w. load_of (loads st) w = load_of (loads st0) w + int (card {p. g p = Some w}))"
    using pl unfolding planned_def inv(2) by auto
  have r: "n = length (remain st)" "distinct (remain st)" "set (remain st) \<subseteq> set (remain st0)" "ordered (alloc st)"
      "ordered (loads st)" "dom (map_of (loads st0)) \<subseteq> dom (map_of (loads st))"
    using pl by (simp_all add: planned_def)
  have k: "kept P_AVAIL (alloc st)" using g(1) sub unfolding kept_def g(3) fits_def by blast
  show ?thesis
  proof (cases "0 < n")
    case True
    have "divided P_AVAIL (set (remain st0)) (alloc st) (remain st)"
      unfolding divided_def g(3) g(2) using r k by auto
    moreover have "0 \<le> load_of (loads st) w \<and> load_of (loads st) w \<le> 50000000" for w
    proof -
      have old: "0 \<le> load_of (loads st0) w" "load_of (loads st0) w \<le> 50000000" using l(1) by (simp_all add: within_def)
      have "load_of (loads st0) w + int (card {p. g p = Some w}) \<le> 50000000"
      proof (cases "w \<in> ran g")
        case True
        then have "load_of (loads st0) w + int (card {p. g p = Some w}) \<le> 3" using g(1) by (simp add: fits_def)
        then show ?thesis by simp
      next
        case False
        then have "{p. g p = Some w} = {}" by (auto simp: ran_def)
        then show ?thesis using old(2) by simp
      qed
      then show ?thesis using old(1) g(4) True by simp
    qed
    then have "within 50000000 (loads st)" using r(5) by (simp add: within_def)
    moreover have "loads st \<noteq> []" using r(6) l(2) by (cases "loads st0") (auto simp: dom_def)
    ultimately show ?thesis
      using plan_copies_effect [OF assms(1,2) _ X(1) finite_set X(2)] True result by auto
  next
    case False
    then have "dom (map_of (alloc st)) = set (remain st0)" using r(1) g(2,3) by simp
    then have "assigned P_AVAIL (set (remain st0)) (alloc st) []"
      using r(4) k by (simp add: assigned_def kept_def)
    then show ?thesis using False result by auto
  qed
qed

lemma worker_table_nonempty: "rows \<noteq> [] \<Longrightarrow> worker_table rows \<noteq> []"
  by (cases rows rule: rev_cases) (simp_all add: worker_table_def case_prod_beta)

text \<open>What is asked of the result: every partition is with one worker, which had it or gets a copy of it.\<close>

definition serves ::
  "(string \<times> string list) list \<Rightarrow> (string \<times> string list) list \<Rightarrow> (int \<times> string \<times> string) list \<Rightarrow> bool" where
  "serves partitionMap m copies \<longleftrightarrow>
    (\<forall>p. (\<exists>w. held partitionMap w p) \<longrightarrow> (\<exists>!w. held m w p)) \<and>
    (\<forall>w p. held m w p \<longrightarrow> held partitionMap w p \<or> (\<exists>w_from. (p, w_from, w) \<in> set copies)) \<and>
    (\<forall>(p, w_from, w_to)\<in>set copies. held partitionMap w_from p \<and> held m w_to p)"

lemma assigned_serves:
  assumes "assigned av X al copies" "X = {p. \<exists>w. held m w p}" "\<And>p. set (avail_of av p) = {w. held m w p}"
  shows "serves m (workers_of al) copies"
proof -
  have range: "- (2 ^ 31) \<le> p \<and> p < 2 ^ 31" if "p \<in> dom (map_of al)" for p
    using that assms(1,2) stoi_range unfolding assigned_def held_def by blast
  have m: "held (workers_of al) w p \<longleftrightarrow> map_of al p = Some w" for w p
    by (rule held_workers_of [OF _ range]) (use assms(1) in \<open>simp_all add: assigned_def\<close>)
  show ?thesis
    using assms unfolding serves_def m assigned_def by auto
qed

text \<open>The state in which \<^verbatim>\<open>alloc_plan\<close> starts.\<close>

lemma filter_start:
  assumes "cpu_ok env" "worker_rows env \<noteq> []" "map_ok partitionMap"
  obtains lds av ps where "initial_loads env (worker_table (worker_rows env)) [] = Some lds" "within 50000000 lds" "lds \<noteq> []"
    and "availability partitionMap ([], []) = Some (av, ps)" "read_inv {(w, p). held partitionMap w p} (av, ps)"
    and "set ps = {p. \<exists>w. held partitionMap w p}" "\<And>p. set (avail_of av p) = {w. held partitionMap w p}"
proof -
  have "worker_table (worker_rows env) \<noteq> []"
    by (rule worker_table_nonempty [OF assms(2)])
  then obtain lds where lds: "initial_loads env (worker_table (worker_rows env)) [] = Some lds" "within 50000000 lds" "lds \<noteq> []"
    using initial_loads_effect [OF assms(1), of "[]"] by (auto simp: within_def ordered_def load_of_def)
  have "read_inv {} ([], [])" by (simp add: read_inv_def ordered_def avail_of_def)
  then obtain av ps where av: "availability partitionMap ([], []) = Some (av, ps)" "read_inv {(w, p). held partitionMap w p} (av, ps)"
    using availability_effect [OF _ assms(3)] by fastforce
  then show thesis using lds by (intro that) (auto simp: read_inv_def image_iff)
qed

lemma filter_partitions_result:
  assumes "permutes_lists (worker_sort env)" "permutes_lists (partition_sort env)" "cpu_ok env" "worker_rows env \<noteq> []"
    and "map_ok partitionMap" "length partitionMap < 1000000000" "card {p. \<exists>w. held partitionMap w p} < 49000000"
    and "filter_partitions env partitionMap = Some (m, copies)"
  shows "serves partitionMap m copies"
proof -
  obtain lds av ps where s: "initial_loads env (worker_table (worker_rows env)) [] = Some lds" "within 50000000 lds" "lds \<noteq> []"
      "availability partitionMap ([], []) = Some (av, ps)" "read_inv {(w, p). held partitionMap w p} (av, ps)"
      "set ps = {p. \<exists>w. held partitionMap w p}" "\<And>p. set (avail_of av p) = {w. held partitionMap w p}"
    using filter_start [OF assms(3-5)] by blast
  let ?st = "\<lparr>alloc = [], remain = ps, p_avail = av, loads = lds\<rparr>"
  from assms(8) s(1,4) have busy: "drop_busy lds av = Some av"
    by (auto simp: filter_partitions_def bind_eq_Some_conv drop_busy_effect)
  have inv: "alloc_inv ?st" by (rule start_inv [OF s(5) assms(5,6) s(2) busy])
  obtain n st where pl: "alloc_plan (worker_sort env) ?st = Some (n, st)" "planned ?st n st"
    using alloc_plan_effect [OF assms(1) inv] by blast
  from assms(8) s(1,4) busy pl(1) obtain al where
      al: "(if 0 < n then plan_copies env (worker_table (worker_rows env)) av st else Some (alloc st, [])) = Some (al, copies)"
        "m = workers_of al"
    by (auto simp: filter_partitions_def bind_eq_Some_conv)
  have "avail_of av p \<noteq> []" if p: "p \<in> set ps" for p
    using p s(6) s(7) [of p] by auto
  then have "assigned av (set (remain ?st)) al copies"
    by (intro plan_assigns [OF assms(1,2) inv _ _ _ _ _ _ pl(2) al(1)]) (use s(2,3,6) assms(7) in auto)
  then show ?thesis unfolding al(2) by (rule assigned_serves) (use s(6,7) in simp_all)
qed

lemma filter_partitions_defined:
  assumes "permutes_lists (worker_sort env)" "cpu_ok env" "worker_rows env \<noteq> []" "map_ok partitionMap" "length partitionMap < 1000000000"
    and "initial_loads env (worker_table (worker_rows env)) [] = Some lds"
    and "\<forall>w p. held partitionMap w p \<longrightarrow> load_of lds w < 3"
    and "dom g = {p. \<exists>w. held partitionMap w p}" "\<forall>p w. g p = Some w \<longrightarrow> held partitionMap w p"
    and "\<forall>w\<in>ran g. load_of lds w + int (card {p. g p = Some w}) \<le> 3"
  shows "\<exists>m. filter_partitions env partitionMap = Some (m, [])"
proof -
  obtain lds' av ps where "initial_loads env (worker_table (worker_rows env)) [] = Some lds'" "within 50000000 lds'" "lds' \<noteq> []"
      and s: "availability partitionMap ([], []) = Some (av, ps)" "read_inv {(w, p). held partitionMap w p} (av, ps)"
        "set ps = {p. \<exists>w. held partitionMap w p}" "\<And>p. set (avail_of av p) = {w. held partitionMap w p}"
    by (rule filter_start [OF assms(2-4)], rule that)
  then have l: "within 50000000 lds" using assms(6) by simp
  let ?st = "\<lparr>alloc = [], remain = ps, p_avail = av, loads = lds\<rparr>"
  have av: "ordered av" "distinct ps" using s(2) by (simp_all add: read_inv_def)
  have ord: "ordered lds" using l by (simp add: within_def)
  have "w \<notin> set ws" if "(w, n) \<in> set lds" "3 \<le> n" "(p, ws) \<in> set av" for w n p ws
  proof
    assume "w \<in> set ws"
    moreover have "avail_of av p = ws" using that(3) av(1) by (simp add: avail_of_def ordered_distinct)
    ultimately have "load_of lds w < 3" using s(4) [of p] assms(7) by auto
    then show False using load_of_entry [OF ord that(1)] that(2) by simp
  qed
  then have busy: "drop_busy lds av = Some av" unfolding drop_busy_effect by blast
  obtain n st where pl: "alloc_plan (worker_sort env) ?st = Some (n, st)" "planned ?st n st" "optimal ?st n"
    using alloc_plan_effect [OF assms(1) start_inv [OF s(2) assms(4,5) l busy]] by blast
  have "fits ?st g" using assms(8-10) s(3,4) unfolding fits_def by simp
  then have "card (dom g) + n \<le> length ps" using pl(3) by (simp add: optimal_def)
  moreover have "card (dom g) = length ps" using assms(8) s(3) distinct_card [OF av(2)] by simp
  ultimately have "n = 0" by simp
  then show ?thesis using assms(6) s(1) busy pl(1) by (simp add: filter_partitions_def)
qed

text \<open>
  C17. \<^verbatim>\<open>filter_partitions\<close> serves the whole graph. Whenever it is defined, every partition that the given map
  lists with some worker is listed with exactly one worker afterwards; that worker had the partition before,
  or a copy for it is requested; and every requested copy is taken from a worker that has the partition and
  goes to the worker the partition is given to. This holds whether or not new workers are started, and for
  every order of equally ranked workers and partitions. If no worker with a partition has a load of 3 or more,
  and the partitions can be given to workers that have them without a load above 3, it is defined and
  requests no copy. (It is undefined if a worker with a partition is fully loaded, and if the workers
  considered for a copy include two with the same load of 3 or more.)
\<close>

theorem filter_partitions_serves:
  assumes "permutes_lists (worker_sort env)" "permutes_lists (partition_sort env)" "cpu_ok env" "worker_rows env \<noteq> []"
    and "map_ok partitionMap" "length partitionMap < 1000000000" "card {p. \<exists>w. held partitionMap w p} < 49000000"
  shows "(\<forall>m copies. filter_partitions env partitionMap = Some (m, copies) \<longrightarrow> serves partitionMap m copies) \<and>
    (\<forall>lds g. initial_loads env (worker_table (worker_rows env)) [] = Some lds \<longrightarrow>
      (\<forall>w p. held partitionMap w p \<longrightarrow> load_of lds w < 3) \<longrightarrow>
      dom g = {p. \<exists>w. held partitionMap w p} \<longrightarrow> (\<forall>p w. g p = Some w \<longrightarrow> held partitionMap w p) \<longrightarrow>
      (\<forall>w\<in>ran g. load_of lds w + int (card {p. g p = Some w}) \<le> 3) \<longrightarrow>
      (\<exists>m. filter_partitions env partitionMap = Some (m, []) \<and> serves partitionMap m []))"
proof -
  have result: "serves partitionMap m copies" if "filter_partitions env partitionMap = Some (m, copies)" for m copies
    by (rule filter_partitions_result [OF assms that])
  moreover have "\<exists>m. filter_partitions env partitionMap = Some (m, []) \<and> serves partitionMap m []"
    if "initial_loads env (worker_table (worker_rows env)) [] = Some lds" "\<forall>w p. held partitionMap w p \<longrightarrow> load_of lds w < 3"
      "dom g = {p. \<exists>w. held partitionMap w p}" "\<forall>p w. g p = Some w \<longrightarrow> held partitionMap w p"
      "\<forall>w\<in>ran g. load_of lds w + int (card {p. g p = Some w}) \<le> 3" for lds g
    using filter_partitions_defined [OF assms(1,3-6) that] result by blast
  ultimately show ?thesis by blast
qed

text \<open>One worker with four partitions, of which it can count three; two workers are started, and one of them
  gets a copy. With three partitions it needs no copy.\<close>

definition sample_env :: filter_env where
  "sample_env = \<lparr>worker_rows = [(''a'', ''10.0.0.1'', ''7780'')], cpu_map = [], cpu_load = (\<lambda>s. None),
     scaleUp = (\<lambda>n. [(''b'', ''10.0.0.2:7780''), (''c'', ''10.0.0.3:7780'')]), worker_sort = some_sort, partition_sort = some_sort\<rparr>"

definition sample_map :: "string list \<Rightarrow> (string \<times> string list) list" where
  "sample_map ps = [(''a'', ps)]"

lemma partition_numbers: "stoi ''0'' = Some 0" "stoi ''1'' = Some 1" "stoi ''2'' = Some 2" "stoi ''3'' = Some 3"
  by code_simp+

lemma sample_held:
  "held (sample_map [''0'', ''1'', ''2'', ''3'']) w p \<longleftrightarrow> w = ''a'' \<and> p \<in> {0, 1, 2, 3}"
  "held (sample_map [''0'', ''1'', ''2'']) w p \<longleftrightarrow> w = ''a'' \<and> p \<in> {0, 1, 2}"
  by (auto simp: held_def sample_map_def partition_numbers)

lemma sample_filtered:
  "filter_partitions sample_env (sample_map [''0'', ''1'', ''2'', ''3'']) =
    Some ([(''a'', [''0'', ''1'', ''2'']), (''b'', [''3''])], [(3, ''a'', ''b'')])"
  "initial_loads sample_env (worker_table (worker_rows sample_env)) [] = Some [(''a'', 0)]"
  by code_simp+

lemma sample_env_ok:
  "permutes_lists (worker_sort sample_env)" "permutes_lists (partition_sort sample_env)" "cpu_ok sample_env" "worker_rows sample_env \<noteq> []"
  using some_sort_permutes by (simp_all add: sample_env_def cpu_ok_def)

lemma sample_map_ok:
  "map_ok (sample_map [''0'', ''1'', ''2'', ''3''])" "map_ok (sample_map [''0'', ''1'', ''2''])" "length (sample_map ps) < 1000000000"
  by (simp_all add: map_ok_def sample_map_def partition_numbers)

definition sample_choice :: "int \<Rightarrow> string option" where
  "sample_choice p = (if p \<in> {0, 1, 2} then Some ''a'' else None)"

lemma sample_choice_facts:
  "sample_choice p = Some w \<longleftrightarrow> w = ''a'' \<and> p \<in> {0, 1, 2}" "ran sample_choice = {''a''}" "dom sample_choice = {0, 1, 2}"
  "card {p. sample_choice p = Some ''a''} = 3"
proof -
  show g: "sample_choice p = Some w \<longleftrightarrow> w = ''a'' \<and> p \<in> {0, 1, 2}" for p w
    by (auto simp: sample_choice_def)
  have "{p. sample_choice p = Some ''a''} = {0, 1, 2}" by (auto simp: g)
  then show "card {p. sample_choice p = Some ''a''} = 3" by simp
  show "ran sample_choice = {''a''}" by (auto simp: ran_def g)
  show "dom sample_choice = {0, 1, 2}" by (auto simp: dom_def g)
qed

theorem filter_partitions_serves_witness:
  "serves (sample_map [''0'', ''1'', ''2'', ''3'']) [(''a'', [''0'', ''1'', ''2'']), (''b'', [''3''])] [(3, ''a'', ''b'')] \<and>
    (\<exists>m. filter_partitions sample_env (sample_map [''0'', ''1'', ''2'']) = Some (m, []) \<and>
      serves (sample_map [''0'', ''1'', ''2'']) m [])"
proof
  let ?four = "sample_map [''0'', ''1'', ''2'', ''3'']" and ?three = "sample_map [''0'', ''1'', ''2'']"
  have held: "{p. \<exists>w. held ?four w p} = {0, 1, 2, 3}" "{p. \<exists>w. held ?three w p} = {0, 1, 2}"
    by (auto simp: sample_held)
  have three: "{p :: int. p = 0 \<or> p = 1 \<or> p = 2} = {0, 1, 2}"
    by auto
  show "serves ?four [(''a'', [''0'', ''1'', ''2'']), (''b'', [''3''])] [(3, ''a'', ''b'')]"
    using filter_partitions_serves [OF sample_env_ok sample_map_ok(1,3)] sample_filtered(1) by (simp add: held)
  show "\<exists>m. filter_partitions sample_env ?three = Some (m, []) \<and> serves ?three m []"
    by (rule filter_partitions_serves [OF sample_env_ok sample_map_ok(2,3), THEN conjunct2, rule_format, OF _ sample_filtered(2), of sample_choice])
      (auto simp: held sample_held sample_choice_facts load_of_def three)
qed

end
