(* ===== verification/Property_Link.thy ===== *)
theory Property_Link
  imports Cpp_Numbers
begin

text \<open>
  The four property classes of \<^verbatim>\<open>src/src/nativestore\<close>: \<^verbatim>\<open>PropertyLink\<close> (node properties),
  \<^verbatim>\<open>MetaPropertyLink\<close> (node meta properties), \<^verbatim>\<open>PropertyEdgeLink\<close> (edge properties) and
  \<^verbatim>\<open>MetaPropertyEdgeLink\<close> (edge meta properties). Each keeps a singly linked list of fixed-size
  blocks in a file of its own. A \<open>property_db\<close> holds the static members of one class: the
  stream, the index of the next free block, and the two class mutexes that a failing call
  leaves locked. The operations follow the source; what the bodies share is written once
  (\<open>read_link\<close>, \<open>write_new_block\<close>, \<open>append_link\<close>).
\<close>

record property_link =
  pl_name :: string
  pl_value :: bytes
  blockAddress :: u32
  nextPropAddress :: u32

record property_db =
  pdb :: fstream
  nextPropertyIndex :: u32
  createLock :: bool
  insertLock :: bool

definition MAX_VALUE_SIZE :: nat where
  "MAX_VALUE_SIZE = 400"

definition PropertyLink_MAX_NAME_SIZE :: nat where
  "PropertyLink_MAX_NAME_SIZE = 30"

definition MetaPropertyLink_MAX_NAME_SIZE :: nat where
  "MetaPropertyLink_MAX_NAME_SIZE = 12"

definition block_size :: "nat \<Rightarrow> nat" where
  "block_size nameSize = nameSize + MAX_VALUE_SIZE + 4"

text \<open>\<^verbatim>\<open>memcpy\<close> of a whole value buffer: undefined when the source buffer is shorter.\<close>

definition memcpy_value :: "bytes \<Rightarrow> bytes option" where
  "memcpy_value v = (if MAX_VALUE_SIZE \<le> length v then Some (take MAX_VALUE_SIZE v) else None)"

subsection \<open>What the four classes share\<close>

definition read_link :: "nat \<Rightarrow> u32 \<Rightarrow> property_db \<Rightarrow> (property_link \<times> property_db) option" where
  "read_link nameSize a s =
     do {
       let f = seek (unat a) (pdb s);
       (rawName, f) \<leftarrow> fread_unchecked nameSize f;
       (v, f) \<leftarrow> fread_unchecked MAX_VALUE_SIZE f;
       (nxt, f) \<leftarrow> fread_unchecked 4 f;
       nm \<leftarrow> string_of_buf rawName;
       Some (\<lparr>pl_name = nm, pl_value = v, blockAddress = a, nextPropAddress = dec32 nxt\<rparr>,
             s\<lparr>pdb := f\<rparr>)
     }"

definition write_new_block :: "nat \<Rightarrow> bytes \<Rightarrow> bytes \<Rightarrow> property_db \<Rightarrow> u32 \<times> fstream" where
  "write_new_block nameSize dataName dataValue s =
     (let newAddress = nextPropertyIndex s * of_nat (block_size nameSize);
          f = fwrite dataName (seek (unat newAddress) (pdb s));
          f = fwrite dataValue f;
          f = fwrite (enc32 0) f
      in (newAddress, f))"

definition append_link ::
  "nat \<Rightarrow> property_link \<Rightarrow> bytes \<Rightarrow> bytes \<Rightarrow> property_db \<Rightarrow> (u32 \<times> property_db) option" where
  "append_link nameSize this dataName dataValue s =
     (if insertLock s then None
      else
        let (newAddress, f) = write_new_block nameSize dataName dataValue s
        in if \<not> good f then Some (- 1, s\<lparr>pdb := f, insertLock := True\<rparr>)
           else
             let f = fwrite (enc32 newAddress) (seek (unat (blockAddress this) + nameSize + MAX_VALUE_SIZE) f)
             in if \<not> good f then Some (- 1, s\<lparr>pdb := f, insertLock := True\<rparr>)
                else Some (blockAddress this,
                           s\<lparr>pdb := f, nextPropertyIndex := nextPropertyIndex s + 1\<rparr>))"

definition create_link ::
  "nat \<Rightarrow> string \<Rightarrow> bytes \<Rightarrow> bytes \<Rightarrow> property_db \<Rightarrow> (property_link option \<times> property_db) option" where
  "create_link nameSize name dataName dataValue s =
     (if createLock s then None
      else
        let (newAddress, f) = write_new_block nameSize dataName dataValue s
        in if \<not> good f then Some (None, s\<lparr>pdb := f, createLock := True\<rparr>)
           else Some (Some \<lparr>pl_name = name, pl_value = dataValue, blockAddress = newAddress,
                            nextPropAddress = 0\<rparr>,
                      s\<lparr>pdb := f, nextPropertyIndex := nextPropertyIndex s + 1\<rparr>))"

text \<open>The value of an existing link is overwritten in place (the meta property classes).\<close>

definition overwrite_value :: "nat \<Rightarrow> property_link \<Rightarrow> bytes \<Rightarrow> property_db \<Rightarrow> (u32 \<times> property_db) option" where
  "overwrite_value nameSize this dataValue s =
     (if insertLock s then None
      else Some (blockAddress this,
                 s\<lparr>pdb := fwrite dataValue (seek (unat (blockAddress this) + nameSize) (pdb s))\<rparr>))"

subsection \<open>\<^verbatim>\<open>PropertyLink\<close>\<close>

definition PropertyLink_new :: "u32 \<Rightarrow> property_db \<Rightarrow> (property_link \<times> property_db) option" where
  "PropertyLink_new a s = (if 0 < a then read_link PropertyLink_MAX_NAME_SIZE a s else None)"

definition PropertyLink_next :: "property_link \<Rightarrow> property_db \<Rightarrow> (property_link option \<times> property_db) option" where
  "PropertyLink_next this s =
     (if nextPropAddress this \<noteq> 0
      then map_option (\<lambda>(l, s). (Some l, s)) (PropertyLink_new (nextPropAddress this) s)
      else Some (None, s))"

definition PropertyLink_isEmpty :: "property_link \<Rightarrow> bool" where
  "PropertyLink_isEmpty this \<longleftrightarrow> \<not> (blockAddress this \<noteq> 0)"

definition PropertyLink_get :: "u32 \<Rightarrow> property_db \<Rightarrow> (property_link option \<times> property_db) option" where
  "PropertyLink_get a s =
     (if 0 < a then map_option (\<lambda>(l, s). (Some l, s)) (read_link PropertyLink_MAX_NAME_SIZE a s)
      else Some (None, s))"

definition PropertyLink_create ::
  "string \<Rightarrow> bytes \<Rightarrow> property_db \<Rightarrow> (property_link option \<times> property_db) option" where
  "PropertyLink_create name v s =
     do {
       dataName \<leftarrow> strcpy_buf PropertyLink_MAX_NAME_SIZE name;
       dataValue \<leftarrow> memcpy_value v;
       create_link PropertyLink_MAX_NAME_SIZE name dataName dataValue s
     }"

partial_function (option) PropertyLink_insert ::
  "property_link \<Rightarrow> string \<Rightarrow> bytes \<Rightarrow> property_db \<Rightarrow> (u32 \<times> property_db) option" where
  "PropertyLink_insert this name v s =
     do {
       dataName \<leftarrow> strcpy_buf PropertyLink_MAX_NAME_SIZE name;
       dataValue \<leftarrow> memcpy_value v;
       if pl_name this = name then Some (blockAddress this, s)
       else if nextPropAddress this \<noteq> 0
       then do {
         (l, s) \<leftarrow> PropertyLink_new (nextPropAddress this) s;
         PropertyLink_insert l name v s
       }
       else append_link PropertyLink_MAX_NAME_SIZE this dataName dataValue s
     }"

subsection \<open>\<^verbatim>\<open>MetaPropertyLink\<close>\<close>

text \<open>The guard \<^verbatim>\<open>propertyBlockAddress >= 0\<close> of an unsigned value is always true.\<close>

definition MetaPropertyLink_new :: "u32 \<Rightarrow> property_db \<Rightarrow> (property_link \<times> property_db) option" where
  "MetaPropertyLink_new a s = read_link MetaPropertyLink_MAX_NAME_SIZE a s"

definition MetaPropertyLink_next :: "property_link \<Rightarrow> property_db \<Rightarrow> (property_link option \<times> property_db) option" where
  "MetaPropertyLink_next this s =
     (if nextPropAddress this \<noteq> 0
      then map_option (\<lambda>(l, s). (Some l, s)) (MetaPropertyLink_new (nextPropAddress this) s)
      else Some (None, s))"

definition MetaPropertyLink_get :: "u32 \<Rightarrow> property_db \<Rightarrow> (property_link option \<times> property_db) option" where
  "MetaPropertyLink_get a s =
     map_option (\<lambda>(l, s). (Some l, s)) (read_link MetaPropertyLink_MAX_NAME_SIZE a s)"

definition MetaPropertyLink_create ::
  "string \<Rightarrow> bytes \<Rightarrow> property_db \<Rightarrow> (property_link option \<times> property_db) option" where
  "MetaPropertyLink_create name v s =
     do {
       dataName \<leftarrow> strcpy_buf MetaPropertyLink_MAX_NAME_SIZE name;
       dataValue \<leftarrow> memcpy_value v;
       create_link MetaPropertyLink_MAX_NAME_SIZE name dataName dataValue s
     }"

partial_function (option) MetaPropertyLink_insert ::
  "property_link \<Rightarrow> string \<Rightarrow> bytes \<Rightarrow> property_db \<Rightarrow> (u32 \<times> property_db) option" where
  "MetaPropertyLink_insert this name v s =
     do {
       dataName \<leftarrow> strcpy_buf MetaPropertyLink_MAX_NAME_SIZE name;
       dataValue \<leftarrow> memcpy_value v;
       if pl_name this = name then overwrite_value MetaPropertyLink_MAX_NAME_SIZE this dataValue s
       else if nextPropAddress this \<noteq> 0
       then do {
         (l, s) \<leftarrow> MetaPropertyLink_new (nextPropAddress this) s;
         MetaPropertyLink_insert l name v s
       }
       else append_link MetaPropertyLink_MAX_NAME_SIZE this dataName dataValue s
     }"

subsection \<open>\<^verbatim>\<open>PropertyEdgeLink\<close>\<close>

text \<open>The edge class copies names and values with a length limit instead of \<^verbatim>\<open>strcpy\<close>.\<close>

definition strncpy_value :: "bytes \<Rightarrow> bytes option" where
  "strncpy_value v =
     (if NUL \<in> set v then Some (pad_to MAX_VALUE_SIZE (take (MAX_VALUE_SIZE - 1) (c_str v))) else None)"

definition PropertyEdgeLink_new :: "u32 \<Rightarrow> property_db \<Rightarrow> (property_link \<times> property_db) option" where
  "PropertyEdgeLink_new a s = read_link PropertyLink_MAX_NAME_SIZE a s"

definition PropertyEdgeLink_next :: "property_link \<Rightarrow> property_db \<Rightarrow> (property_link option \<times> property_db) option" where
  "PropertyEdgeLink_next this s =
     (if nextPropAddress this \<noteq> 0
      then map_option (\<lambda>(l, s). (Some l, s)) (PropertyEdgeLink_new (nextPropAddress this) s)
      else Some (None, s))"

definition PropertyEdgeLink_get :: "u32 \<Rightarrow> property_db \<Rightarrow> (property_link option \<times> property_db) option" where
  "PropertyEdgeLink_get a s =
     map_option (\<lambda>(l, s). (Some l, s)) (read_link PropertyLink_MAX_NAME_SIZE a s)"

definition PropertyEdgeLink_create ::
  "string \<Rightarrow> bytes \<Rightarrow> property_db \<Rightarrow> (property_link option \<times> property_db) option" where
  "PropertyEdgeLink_create name v s =
     do {
       let dataName = strncpy_buf PropertyLink_MAX_NAME_SIZE name;
       dataValue \<leftarrow> memcpy_value v;
       create_link PropertyLink_MAX_NAME_SIZE name dataName dataValue s
     }"

partial_function (option) PropertyEdgeLink_insert ::
  "property_link \<Rightarrow> string \<Rightarrow> bytes \<Rightarrow> property_db \<Rightarrow> (u32 \<times> property_db) option" where
  "PropertyEdgeLink_insert this name v s =
     do {
       let dataName = strncpy_buf PropertyLink_MAX_NAME_SIZE name;
       dataValue \<leftarrow> strncpy_value v;
       if pl_name this = name then Some (blockAddress this, s)
       else if nextPropAddress this \<noteq> 0
       then do {
         (l, s) \<leftarrow> PropertyEdgeLink_new (nextPropAddress this) s;
         PropertyEdgeLink_insert l name v s
       }
       else append_link PropertyLink_MAX_NAME_SIZE this dataName dataValue s
     }"

subsection \<open>\<^verbatim>\<open>MetaPropertyEdgeLink\<close>\<close>

definition MetaPropertyEdgeLink_new :: "u32 \<Rightarrow> property_db \<Rightarrow> (property_link \<times> property_db) option" where
  "MetaPropertyEdgeLink_new a s = read_link MetaPropertyLink_MAX_NAME_SIZE a s"

definition MetaPropertyEdgeLink_next :: "property_link \<Rightarrow> property_db \<Rightarrow> (property_link option \<times> property_db) option" where
  "MetaPropertyEdgeLink_next this s =
     (if nextPropAddress this \<noteq> 0
      then map_option (\<lambda>(l, s). (Some l, s)) (MetaPropertyEdgeLink_new (nextPropAddress this) s)
      else Some (None, s))"

definition MetaPropertyEdgeLink_get :: "u32 \<Rightarrow> property_db \<Rightarrow> (property_link option \<times> property_db) option" where
  "MetaPropertyEdgeLink_get a s =
     map_option (\<lambda>(l, s). (Some l, s)) (read_link MetaPropertyLink_MAX_NAME_SIZE a s)"

definition MetaPropertyEdgeLink_create ::
  "string \<Rightarrow> bytes \<Rightarrow> property_db \<Rightarrow> (property_link option \<times> property_db) option" where
  "MetaPropertyEdgeLink_create name v s =
     do {
       dataName \<leftarrow> strcpy_buf MetaPropertyLink_MAX_NAME_SIZE name;
       dataValue \<leftarrow> memcpy_value v;
       create_link MetaPropertyLink_MAX_NAME_SIZE name dataName dataValue s
     }"

partial_function (option) MetaPropertyEdgeLink_insert ::
  "property_link \<Rightarrow> string \<Rightarrow> bytes \<Rightarrow> property_db \<Rightarrow> (u32 \<times> property_db) option" where
  "MetaPropertyEdgeLink_insert this name v s =
     do {
       dataName \<leftarrow> strcpy_buf MetaPropertyLink_MAX_NAME_SIZE name;
       dataValue \<leftarrow> memcpy_value v;
       if pl_name this = name then overwrite_value MetaPropertyLink_MAX_NAME_SIZE this dataValue s
       else if nextPropAddress this \<noteq> 0
       then do {
         (l, s) \<leftarrow> MetaPropertyEdgeLink_new (nextPropAddress this) s;
         MetaPropertyEdgeLink_insert l name v s
       }
       else append_link MetaPropertyLink_MAX_NAME_SIZE this dataName dataValue s
     }"

end
