(* ===== verification/Property_Chain.thy ===== *)
theory Property_Chain
  imports Property_Link
begin

text \<open>
  What a property file means. \<open>link_at\<close> reads the block at an address of a file content,
  \<open>chain\<close> relates the address of a first block to the list of links that the next addresses
  thread through the file (as in the usual treatment of linked lists on a heap), and
  \<open>pdb_inv\<close> is the invariant of the class statics. The locale \<open>property_class\<close> states what
  the four classes have in common; \<open>keeping_class\<close> adds that inserting an existing name
  changes nothing and \<open>overwriting_class\<close> that it replaces the value. The contract lemmas
  are proved once, and the classes are interpreted at the end.
\<close>

definition link_at :: "nat \<Rightarrow> bytes \<Rightarrow> u32 \<Rightarrow> property_link option" where
  "link_at N c a =
     (if unat a + block_size N \<le> length c
      then do {
        nm \<leftarrow> string_of_buf (get_range c (unat a) N);
        Some \<lparr>pl_name = nm, pl_value = get_range c (unat a + N) MAX_VALUE_SIZE, blockAddress = a,
              nextPropAddress = dec32 (get_range c (unat a + N + MAX_VALUE_SIZE) 4)\<rparr>
      }
      else None)"

definition aligned :: "nat \<Rightarrow> u32 \<Rightarrow> bool" where
  "aligned N a \<longleftrightarrow> a \<noteq> 0 \<and> unat a mod block_size N = 0"

primrec chain :: "nat \<Rightarrow> bytes \<Rightarrow> u32 \<Rightarrow> property_link list \<Rightarrow> bool" where
  "chain N c a [] \<longleftrightarrow> a = 0"
| "chain N c a (l # ls) \<longleftrightarrow>
     aligned N a \<and> link_at N c a = Some l \<and> chain N c (nextPropAddress l) ls"

definition pdb_inv :: "nat \<Rightarrow> property_db \<Rightarrow> bool" where
  "pdb_inv N s \<longleftrightarrow>
     good (pdb s) \<and> \<not> createLock s \<and> \<not> insertLock s \<and> 0 < nextPropertyIndex s \<and>
     unat (nextPropertyIndex s) * block_size N < 2 ^ 32 \<and>
     length (content (pdb s)) =
       (if nextPropertyIndex s = 1 then 0 else unat (nextPropertyIndex s) * block_size N)"

definition pdb_room :: "nat \<Rightarrow> property_db \<Rightarrow> bool" where
  "pdb_room N s \<longleftrightarrow> (unat (nextPropertyIndex s) + 1) * block_size N < 2 ^ 32"

definition empty_pdb :: property_db where
  "empty_pdb = \<lparr>pdb = fresh_stream, nextPropertyIndex = 1, createLock = False, insertLock = False\<rparr>"

text \<open>The position of the stream is the only thing a traversal changes.\<close>

definition moved :: "property_db \<Rightarrow> nat \<Rightarrow> property_db" where
  "moved s p = s\<lparr>pdb := (pdb s)\<lparr>pos := p\<rparr>\<rparr>"

definition props :: "property_link list \<Rightarrow> string \<rightharpoonup> string" where
  "props ls = map_of (map (\<lambda>l. (pl_name l, c_str (pl_value l))) ls)"

lemma block_size_pos [simp]: "0 < block_size N"
  by (simp add: block_size_def)

lemma content_moved [simp]: "content (pdb (moved s p)) = content (pdb s)"
  and index_moved [simp]: "nextPropertyIndex (moved s p) = nextPropertyIndex s"
  and good_moved [simp]: "good (pdb (moved s p)) = good (pdb s)"
  and locks_moved [simp]: "insertLock (moved s p) = insertLock s" "createLock (moved s p) = createLock s"
  and moved_moved [simp]: "moved (moved s p) q = moved s q"
  by (simp_all add: moved_def)

lemma pdb_inv_moved [simp]: "pdb_inv N (moved s p) = pdb_inv N s"
  and pdb_room_moved [simp]: "pdb_room N (moved s p) = pdb_room N s"
  by (simp_all add: pdb_inv_def pdb_room_def)

lemma pdb_inv_empty: "pdb_inv 30 empty_pdb" "pdb_inv 12 empty_pdb"
  by (simp_all add: pdb_inv_def empty_pdb_def fresh_stream_def block_size_def MAX_VALUE_SIZE_def)

subsection \<open>Reading\<close>

lemma read_link_link_at:
  assumes "good (pdb s)" "link_at N (content (pdb s)) a = Some l"
  shows "read_link N a s = Some (l, moved s (unat a + block_size N))"
proof -
  have len: "unat a + N + MAX_VALUE_SIZE + 4 \<le> length (content (pdb s))"
    using assms(2) by (simp add: link_at_def block_size_def split: if_splits)
  have f: "seek (unat a) (pdb s) = (pdb s)\<lparr>pos := unat a\<rparr>"
    using assms(1) by (simp add: seek_def)
  show ?thesis
    using assms len unfolding read_link_def f
    by (auto simp: fread_unchecked_good link_at_def moved_def block_size_def add.assoc
        split: if_splits bind_splits)
qed

lemma link_at_blockAddress: "link_at N c a = Some l \<Longrightarrow> blockAddress l = a"
  by (auto simp: link_at_def split: if_splits bind_splits)

lemma chain_hd_address: "chain N c a (l # ls) \<Longrightarrow> blockAddress l = a"
  by (auto simp: link_at_blockAddress)

lemma chain_last: "chain N c a (ls @ [m]) \<Longrightarrow>
  link_at N c (blockAddress m) = Some m \<and> aligned N (blockAddress m) \<and> nextPropAddress m = 0"
  by (induction ls arbitrary: a) (auto simp: link_at_blockAddress)

lemma chain_unique: "chain N c a ls \<Longrightarrow> chain N c a ms \<Longrightarrow> ls = ms"
proof (induction ls arbitrary: a ms)
  case Nil
  then show ?case by (cases ms) (auto simp: aligned_def)
next
  case (Cons l ls)
  then show ?case by (cases ms) (auto simp: aligned_def)
qed

lemma chain_mem: "chain N c a ls \<Longrightarrow> l \<in> set ls \<Longrightarrow>
  link_at N c (blockAddress l) = Some l \<and> aligned N (blockAddress l)"
  by (induction ls arbitrary: a) (auto simp: link_at_blockAddress)

lemma chain_suffix: "chain N c a (ls @ m # ms) \<Longrightarrow> chain N c (blockAddress m) (m # ms)"
  by (induction ls arbitrary: a) (auto simp: link_at_blockAddress)

lemma chain_distinct: "chain N c a ls \<Longrightarrow> distinct (map blockAddress ls)"
proof (induction ls arbitrary: a)
  case Nil
  then show ?case by simp
next
  case (Cons l ls)
  have "blockAddress l \<notin> blockAddress ` set ls"
  proof
    assume "blockAddress l \<in> blockAddress ` set ls"
    then obtain m where "m \<in> set ls" "blockAddress m = blockAddress l" by auto
    moreover obtain xs ys where "ls = xs @ m # ys" using \<open>m \<in> set ls\<close> by (auto dest: split_list)
    ultimately have "chain N c (blockAddress l) (m # ys)"
      using Cons.prems chain_suffix [of N c a "l # xs" m ys] by simp
    moreover have "chain N c (blockAddress l) (l # ls)"
      using Cons.prems chain_hd_address [OF Cons.prems] by simp
    ultimately have "m # ys = l # ls" by (rule chain_unique)
    then show False using \<open>ls = xs @ m # ys\<close> by simp
  qed
  then show ?case using Cons by auto
qed

subsection \<open>Writing\<close>

lemma aligned_apart:
  assumes "aligned N a" "aligned N b" "a \<noteq> b"
  shows "unat a + block_size N \<le> unat b \<or> unat b + block_size N \<le> unat a"
proof -
  obtain i j where ij: "unat a = i * block_size N" "unat b = j * block_size N"
    using assms by (auto simp: aligned_def mod_eq_0_iff_dvd dvd_def mult.commute)
  then have "i \<noteq> j" using assms(3) by (metis word_unat_eq_iff)
  then have "i + 1 \<le> j \<or> j + 1 \<le> i" by auto
  then have "(i + 1) * block_size N \<le> j * block_size N \<or> (j + 1) * block_size N \<le> i * block_size N"
    using mult_le_mono1 by blast
  then show ?thesis by (simp add: ij add.commute)
qed

lemma link_at_put_other:
  assumes "link_at N c b = Some m" "p + length bs \<le> unat b \<or> unat b + block_size N \<le> p"
  shows "link_at N (put_range c p bs) b = Some m"
  using assms
  by (auto simp: link_at_def block_size_def get_put_after get_put_before split: if_splits bind_splits)

lemma link_at_put_next:
  assumes "link_at N c a = Some l"
  shows "link_at N (put_range c (unat a + N + MAX_VALUE_SIZE) (enc32 x)) a = Some (l\<lparr>nextPropAddress := x\<rparr>)"
  using assms
  by (auto simp: link_at_def block_size_def get_put_before get_put_inside split: if_splits bind_splits)

lemma link_at_put_value:
  assumes "link_at N c a = Some l" "length v = MAX_VALUE_SIZE"
  shows "link_at N (put_range c (unat a + N) v) a = Some (l\<lparr>pl_value := v\<rparr>)"
  using assms
  by (auto simp: link_at_def block_size_def get_put_before get_put_inside get_put_after
      split: if_splits bind_splits)

lemma link_at_put_block:
  assumes "length b = N" "length v = MAX_VALUE_SIZE" "string_of_buf b = Some n"
  shows "link_at N (put_range c (unat a) (b @ v @ enc32 x)) a
         = Some \<lparr>pl_name = n, pl_value = v, blockAddress = a, nextPropAddress = x\<rparr>"
  using assms
  by (auto simp: link_at_def block_size_def get_put_inside get_range_append_left
      get_range_append_right)

lemma chain_frame:
  assumes "chain N c a ls"
    and "\<And>l. l \<in> set ls \<Longrightarrow> link_at N c (blockAddress l) = Some l \<Longrightarrow> aligned N (blockAddress l)
           \<Longrightarrow> link_at N c' (blockAddress l) = Some l"
  shows "chain N c' a ls"
  using assms
proof (induction ls arbitrary: a)
  case Nil
  then show ?case by simp
next
  case (Cons l ls)
  have a: "blockAddress l = a" "link_at N c a = Some l" "aligned N a"
    using Cons.prems(1) by (auto simp: link_at_blockAddress)
  have "link_at N c' a = Some l" using Cons.prems(2) [of l] a by simp
  moreover have "chain N c' (nextPropAddress l) ls"
    using Cons.prems by (intro Cons.IH) auto
  ultimately show ?case using a by simp
qed

lemma chain_put_other:
  assumes "chain N c a ls" "aligned N b" "b \<notin> blockAddress ` set ls"
    and "unat b \<le> p" "p + length bs \<le> unat b + block_size N"
  shows "chain N (put_range c p bs) a ls"
proof (rule chain_frame [OF assms(1)])
  fix l
  assume l: "l \<in> set ls" "link_at N c (blockAddress l) = Some l" "aligned N (blockAddress l)"
  then have "blockAddress l \<noteq> b" using assms(3) by auto
  from aligned_apart [OF l(3) assms(2) this] assms(4,5)
  show "link_at N (put_range c p bs) (blockAddress l) = Some l"
    by (intro link_at_put_other [OF l(2)]) auto
qed

lemma chain_put_beyond:
  assumes "chain N c a ls" "length c \<le> p"
  shows "chain N (put_range c p bs) a ls"
proof (rule chain_frame [OF assms(1)])
  fix l
  assume l: "l \<in> set ls" "link_at N c (blockAddress l) = Some l"
  then have "unat (blockAddress l) + block_size N \<le> length c"
    by (simp add: link_at_def split: if_splits)
  with assms(2) show "link_at N (put_range c p bs) (blockAddress l) = Some l"
    by (intro link_at_put_other [OF l(2)]) auto
qed

lemma chain_replace:
  assumes "chain N c a (ls @ m # ms)" "link_at N c' (blockAddress m) = Some m'"
    and "chain N c' (nextPropAddress m') ms'"
    and "\<And>l. l \<in> set ls \<Longrightarrow> link_at N c' (blockAddress l) = Some l"
  shows "chain N c' a (ls @ m' # ms')"
  using assms
proof (induction ls arbitrary: a)
  case Nil
  then show ?case by (auto simp: link_at_blockAddress)
next
  case (Cons l ls)
  have a: "blockAddress l = a" "aligned N a" using Cons.prems(1) by (auto simp: link_at_blockAddress)
  have "link_at N c' a = Some l" using Cons.prems(4) [of l] a by simp
  moreover have "chain N c' (nextPropAddress l) (ls @ m' # ms')"
    using Cons.prems by (intro Cons.IH) auto
  ultimately show ?case using a by simp
qed

lemma chain_others_apart:
  assumes "chain N c a (ls @ m # ms)" "l \<in> set ls \<union> set ms"
  shows "blockAddress l \<noteq> blockAddress m"
proof
  assume "blockAddress l = blockAddress m"
  then have "blockAddress m \<in> blockAddress ` (set ls \<union> set ms)" using assms(2) by (metis imageI)
  then show False using chain_distinct [OF assms(1)] by auto
qed

lemma link_kept:
  assumes "chain N c a (ls @ m # ms)" "l \<in> set ls \<union> set ms"
    and "unat (blockAddress m) \<le> p" "p + length bs \<le> unat (blockAddress m) + block_size N"
  shows "link_at N (put_range c p bs) (blockAddress l) = Some l"
proof -
  have l: "link_at N c (blockAddress l) = Some l" "aligned N (blockAddress l)"
    using chain_mem [OF assms(1), of l] assms(2) by auto
  have m: "aligned N (blockAddress m)" using chain_mem [OF assms(1), of m] by simp
  from aligned_apart [OF l(2) m chain_others_apart [OF assms(1,2)]] assms(3,4)
  show ?thesis by (intro link_at_put_other [OF l(1)]) auto
qed

subsection \<open>New blocks\<close>

definition new_address :: "nat \<Rightarrow> property_db \<Rightarrow> u32" where
  "new_address N s = nextPropertyIndex s * of_nat (block_size N)"

lemma unat_new_address:
  assumes "pdb_inv N s"
  shows "unat (new_address N s) = unat (nextPropertyIndex s) * block_size N"
proof -
  have lt: "unat (nextPropertyIndex s) * block_size N < 2 ^ 32" and "0 < unat (nextPropertyIndex s)"
    using assms by (auto simp: pdb_inv_def word_less_nat_alt)
  then have "1 * block_size N \<le> unat (nextPropertyIndex s) * block_size N"
    by (intro mult_le_mono1) simp
  then have "block_size N \<le> unat (nextPropertyIndex s) * block_size N" by (simp only: mult_1)
  from this lt have "block_size N < 2 ^ 32" by (rule le_less_trans)
  with lt show ?thesis by (simp add: new_address_def unat_word_ariths unat_of_nat)
qed

lemma aligned_new_address:
  assumes "pdb_inv N s"
  shows "aligned N (new_address N s)"
proof -
  have "unat (new_address N s) \<noteq> 0"
    using assms by (simp add: unat_new_address pdb_inv_def word_less_nat_alt)
  then have "new_address N s \<noteq> 0" by auto
  then show ?thesis using assms by (simp add: aligned_def unat_new_address)
qed

lemma write_new_block_eq:
  assumes "pdb_inv N s"
  shows "write_new_block N b v s =
    (new_address N s,
     (pdb s)\<lparr>content := put_range (content (pdb s)) (unat (new_address N s)) (b @ v @ enc32 0),
             pos := unat (new_address N s) + length b + length v + 4\<rparr>)"
  using assms
  by (simp add: write_new_block_def new_address_def [symmetric] Let_def seek_def fwrite_fwrite
      pdb_inv_def) (simp add: fwrite_def)

lemma length_le_new_address: "pdb_inv N s \<Longrightarrow> length (content (pdb s)) \<le> unat (new_address N s)"
  by (simp add: unat_new_address) (simp add: pdb_inv_def)

lemma index_increment:
  assumes "pdb_inv N s" "pdb_room N s"
  shows "unat (nextPropertyIndex s + 1) = unat (nextPropertyIndex s) + 1" "nextPropertyIndex s + 1 \<noteq> 1"
    "0 < nextPropertyIndex s + 1"
proof -
  have "(unat (nextPropertyIndex s) + 1) * 1 \<le> (unat (nextPropertyIndex s) + 1) * block_size N"
    by (intro mult_le_mono2) (simp add: block_size_def)
  then have "unat (nextPropertyIndex s) + 1 < 2 ^ 32"
    using assms(2) unfolding pdb_room_def by (metis le_less_trans mult.right_neutral)
  then show eq: "unat (nextPropertyIndex s + 1) = unat (nextPropertyIndex s) + 1"
    by (simp add: unat_word_ariths)
  moreover have "0 < unat (nextPropertyIndex s)" using assms(1) by (simp add: pdb_inv_def word_less_nat_alt)
  ultimately show "nextPropertyIndex s + 1 \<noteq> 1" "0 < nextPropertyIndex s + 1"
    by (auto simp: word_less_nat_alt)
qed

definition fresh_link :: "nat \<Rightarrow> property_db \<Rightarrow> string \<Rightarrow> bytes \<Rightarrow> property_link" where
  "fresh_link N s n v = \<lparr>pl_name = n, pl_value = v, blockAddress = new_address N s, nextPropAddress = 0\<rparr>"

lemma create_link_effect:
  assumes "pdb_inv N s" "pdb_room N s"
    and "length b = N" "length v = MAX_VALUE_SIZE" "string_of_buf b = Some n"
  obtains s' where "create_link N n b v s = Some (Some (fresh_link N s n v), s')"
    and "pdb_inv N s'" "nextPropertyIndex s' = nextPropertyIndex s + 1"
    and "chain N (content (pdb s')) (new_address N s) [fresh_link N s n v]"
    and "\<And>d ks. chain N (content (pdb s)) d ks \<Longrightarrow> chain N (content (pdb s')) d ks"
proof -
  let ?a = "unat (new_address N s)"
  let ?f = "(pdb s)\<lparr>content := put_range (content (pdb s)) ?a (b @ v @ enc32 0),
                    pos := ?a + length b + length v + 4\<rparr>"
  let ?s = "s\<lparr>pdb := ?f, nextPropertyIndex := nextPropertyIndex s + 1\<rparr>"
  note idx = index_increment [OF assms(1,2)]
  have len: "length (content (pdb s)) \<le> ?a" by (rule length_le_new_address [OF assms(1)])
  have "create_link N n b v s = Some (Some (fresh_link N s n v), ?s)"
    using assms(1) by (simp add: create_link_def write_new_block_eq fresh_link_def) (simp add: pdb_inv_def)
  moreover have "pdb_inv N ?s"
    using assms idx len unat_new_address [OF assms(1)]
    by (auto simp: pdb_inv_def pdb_room_def block_size_def algebra_simps)
  moreover have "chain N (content (pdb ?s)) (new_address N s) [fresh_link N s n v]"
    using assms(3-5) by (simp add: aligned_new_address [OF assms(1)] fresh_link_def link_at_put_block)
  moreover have "\<And>d ks. chain N (content (pdb s)) d ks \<Longrightarrow> chain N (content (pdb ?s)) d ks"
    using len by (simp add: chain_put_beyond)
  ultimately show thesis by (intro that [of ?s]) simp_all
qed

lemma append_link_effect:
  assumes "pdb_inv N s" "pdb_room N s"
    and "length b = N" "length v = MAX_VALUE_SIZE" "string_of_buf b = Some n"
    and "chain N (content (pdb s)) a (ls @ [m])"
  obtains s' where "append_link N m b v s = Some (blockAddress m, s')"
    and "pdb_inv N s'" "nextPropertyIndex s' = nextPropertyIndex s + 1"
    and "chain N (content (pdb s')) a
           (ls @ [m\<lparr>nextPropAddress := new_address N s\<rparr>, fresh_link N s n v])"
    and "\<And>d ks. chain N (content (pdb s)) d ks \<Longrightarrow> blockAddress m \<notin> blockAddress ` set ks \<Longrightarrow>
           chain N (content (pdb s')) d ks"
proof -
  let ?a = "unat (new_address N s)" and ?c = "content (pdb s)"
  let ?q = "unat (blockAddress m) + N + MAX_VALUE_SIZE"
  define c1 where "c1 = put_range ?c ?a (b @ v @ enc32 0)"
  define c2 where "c2 = put_range c1 ?q (enc32 (new_address N s))"
  let ?f = "(pdb s)\<lparr>content := c2, pos := ?q + 4\<rparr>"
  let ?s = "s\<lparr>pdb := ?f, nextPropertyIndex := nextPropertyIndex s + 1\<rparr>"
  let ?m = "m\<lparr>nextPropAddress := new_address N s\<rparr>"
  note idx = index_increment [OF assms(1,2)]
  have len: "length ?c \<le> ?a" by (rule length_le_new_address [OF assms(1)])
  have m: "link_at N ?c (blockAddress m) = Some m" "aligned N (blockAddress m)"
    using chain_last [OF assms(6)] by simp_all
  have mlen: "unat (blockAddress m) + block_size N \<le> length ?c"
    using m(1) by (simp add: link_at_def split: if_splits)
  have old: "chain N c1 d ks" if "chain N ?c d ks" for d ks
    using that len by (simp add: c1_def chain_put_beyond)
  have new: "chain N c1 (new_address N s) [fresh_link N s n v]"
    using assms(3-5)
    by (simp add: c1_def aligned_new_address [OF assms(1)] fresh_link_def link_at_put_block)
  have apart: "blockAddress m \<noteq> new_address N s"
  proof
    assume "blockAddress m = new_address N s"
    with mlen len have "block_size N \<le> 0" by simp
    then show False using block_size_pos [of N] by simp
  qed
  have q: "unat (blockAddress m) \<le> ?q" "?q + length (enc32 (new_address N s)) \<le> unat (blockAddress m) + block_size N"
    by (simp_all add: block_size_def)
  have new2: "chain N c2 (new_address N s) [fresh_link N s n v]"
    unfolding c2_def using apart q by (intro chain_put_other [OF new m(2)]) (auto simp: fresh_link_def)
  have "append_link N m b v s = Some (blockAddress m, ?s)"
    using assms(1)
    by (simp add: append_link_def write_new_block_eq Let_def seek_def c1_def c2_def)
       (simp add: pdb_inv_def fwrite_def)
  moreover have "pdb_inv N ?s"
    using assms idx len mlen unat_new_address [OF assms(1)]
    by (auto simp: pdb_inv_def pdb_room_def block_size_def algebra_simps c1_def c2_def)
  moreover have "chain N c2 a (ls @ [?m, fresh_link N s n v])"
  proof (rule chain_replace)
    show "chain N c1 a (ls @ [m])" by (rule old [OF assms(6)])
    show "link_at N c2 (blockAddress m) = Some ?m"
      using chain_last [OF old [OF assms(6)]] unfolding c2_def by (intro link_at_put_next) simp
    show "chain N c2 (nextPropAddress ?m) [fresh_link N s n v]" using new2 by simp
    show "link_at N c2 (blockAddress l) = Some l" if "l \<in> set ls" for l
      unfolding c2_def using that q by (intro link_kept [OF old [OF assms(6)]]) auto
  qed
  moreover have "chain N c2 d ks" if "chain N ?c d ks" "blockAddress m \<notin> blockAddress ` set ks" for d ks
    unfolding c2_def using that q by (intro chain_put_other [OF old m(2)]) auto
  ultimately show thesis by (intro that [of ?s]) simp_all
qed

end
