(* ===== verification/Property_Contract.thy ===== *)
theory Property_Contract
  imports Property_Chain
begin

text \<open>
  The contract of a property class, proved once for any class of the shape of
  \<open>property_class\<close> and interpreted for the four classes of the source. A chain denotes the
  finite map \<open>props\<close> (the first link of a name decides, as in \<^verbatim>\<open>getAllProperties\<close>).
\<close>

lemma props_Cons: "props (l # ls) = (props ls)(pl_name l \<mapsto> c_str (pl_value l))"
  by (simp add: props_def)

lemma dom_props: "dom (props ls) = pl_name ` set ls"
  by (simp add: props_def dom_map_of_conv_image_fst image_image)

lemma props_append_new:
  "n \<notin> pl_name ` set ls \<Longrightarrow> pl_name m = n \<Longrightarrow> props (ls @ [m]) = (props ls)(n \<mapsto> c_str (pl_value m))"
  by (induction ls) (auto simp: props_def)

lemma props_next_update [simp]: "props (ls @ m\<lparr>nextPropAddress := x\<rparr> # ms) = props (ls @ m # ms)"
  by (simp add: props_def)

lemma props_value_update:
  "pl_name m \<notin> pl_name ` set ls \<Longrightarrow>
   props (ls @ m\<lparr>pl_value := v\<rparr> # ms) = (props (ls @ m # ms))(pl_name m \<mapsto> c_str v)"
  by (induction ls) (auto simp: props_def)

lemma first_named:
  assumes "n \<in> pl_name ` set ls"
  obtains ks m ms where "ls = ks @ m # ms" "pl_name m = n" "n \<notin> pl_name ` set ks"
proof -
  have "\<exists>l\<in>set ls. pl_name l = n" using assms by auto
  from split_list_first_prop [OF this]
  obtain ks m ms where "ls = ks @ m # ms" "pl_name m = n" "\<forall>y\<in>set ks. pl_name y \<noteq> n" by metis
  then show thesis by (intro that [of ks m ms]) auto
qed

locale property_class =
  fixes N :: nat
    and new_link :: "u32 \<Rightarrow> property_db \<Rightarrow> (property_link \<times> property_db) option"
    and get :: "u32 \<Rightarrow> property_db \<Rightarrow> (property_link option \<times> property_db) option"
    and create :: "string \<Rightarrow> bytes \<Rightarrow> property_db \<Rightarrow> (property_link option \<times> property_db) option"
    and insert :: "property_link \<Rightarrow> string \<Rightarrow> bytes \<Rightarrow> property_db \<Rightarrow> (u32 \<times> property_db) option"
    and found :: "property_link \<Rightarrow> bytes \<Rightarrow> property_db \<Rightarrow> (u32 \<times> property_db) option"
    and name_buf :: "string \<Rightarrow> bytes option"
    and value_buf :: "bytes \<Rightarrow> bytes option"
  assumes new_link: "a \<noteq> 0 \<Longrightarrow> new_link a s = read_link N a s"
    and get: "a \<noteq> 0 \<Longrightarrow> get a s = map_option (\<lambda>(l, s). (Some l, s)) (read_link N a s)"
    and create: "create n v s =
      do { b \<leftarrow> name_buf n; w \<leftarrow> memcpy_value v; create_link N n b w s }"
    and insert: "insert l n v s =
      do { b \<leftarrow> name_buf n;
           w \<leftarrow> value_buf v;
           if pl_name l = n then found l w s
           else if nextPropAddress l \<noteq> 0
           then do { (k, s) \<leftarrow> new_link (nextPropAddress l) s; insert k n v s }
           else append_link N l b w s }"
    and name_buf_length: "name_buf n = Some b \<Longrightarrow> length b = N"
    and value_buf_length: "value_buf v = Some w \<Longrightarrow> length w = MAX_VALUE_SIZE"
begin

lemma get_chain:
  assumes "good (pdb s)" "chain N (content (pdb s)) a (l # ls)"
  shows "get a s = Some (Some l, moved s (unat a + block_size N))"
  using assms by (simp add: get aligned_def read_link_link_at)

lemma create_chain:
  assumes "pdb_inv N s" "pdb_room N s" "name_buf n = Some b" "string_of_buf b = Some n"
    and "memcpy_value v = Some w"
  obtains s' where "create n v s = Some (Some (fresh_link N s n w), s')"
    and "pdb_inv N s'" "nextPropertyIndex s' = nextPropertyIndex s + 1"
    and "chain N (content (pdb s')) (new_address N s) [fresh_link N s n w]"
    and "\<And>d ks. chain N (content (pdb s)) d ks \<Longrightarrow> chain N (content (pdb s')) d ks"
proof -
  have "length w = MAX_VALUE_SIZE"
    using assms(5) by (auto simp: memcpy_value_def split: if_splits)
  from create_link_effect [OF assms(1,2) name_buf_length [OF assms(3)] this assms(4)]
  show thesis using assms(3,5) that by (auto simp: create)
qed

lemma insert_step:
  assumes "good (pdb s)" "chain N (content (pdb s)) a (l # m # ms)"
    and "name_buf n = Some b" "value_buf v = Some w" "pl_name l \<noteq> n"
  shows "insert l n v s = insert m n v (moved s (unat (blockAddress m) + block_size N))"
proof -
  have m: "nextPropAddress l \<noteq> 0" "link_at N (content (pdb s)) (nextPropAddress l) = Some m"
    using assms(2) by (auto simp: aligned_def)
  then show ?thesis
    using assms(1,3-5) link_at_blockAddress [OF m(2)]
    by (subst insert) (simp add: new_link read_link_link_at)
qed

text \<open>The traversal stops at the first link of the name; only the stream position has moved.\<close>

lemma insert_present:
  assumes "good (pdb s)" "chain N (content (pdb s)) a (ls @ m # ms)"
    and "name_buf n = Some b" "value_buf v = Some w" "pl_name m = n" "n \<notin> pl_name ` set ls"
    and "l = hd (ls @ [m])"
  shows "\<exists>p. insert l n v s = found m w (moved s p)"
  using assms
proof (induction ls arbitrary: a l s)
  case Nil
  have "insert l n v s = found m w s" using Nil.prems by (subst insert) simp
  moreover have "s = moved s (pos (pdb s))" by (simp add: moved_def)
  ultimately show ?case by metis
next
  case (Cons k ls)
  obtain j js where j: "ls @ m # ms = j # js" by (cases "ls @ m # ms") auto
  have hd: "j = hd (ls @ [m])" using j by (cases ls) auto
  let ?s = "moved s (unat (blockAddress j) + block_size N)"
  have "insert l n v s = insert j n v ?s"
    using Cons.prems j by (intro insert_step [where a = a and ms = js]) auto
  moreover have "\<exists>p. insert j n v ?s = found m w (moved ?s p)"
    using Cons.prems j hd by (intro Cons.IH [where a = "nextPropAddress k"]) auto
  ultimately show ?case by auto
qed

lemma insert_absent:
  assumes "good (pdb s)" "chain N (content (pdb s)) a (ls @ [m])"
    and "name_buf n = Some b" "value_buf v = Some w" "n \<notin> pl_name ` set (ls @ [m])"
    and "l = hd (ls @ [m])"
  shows "\<exists>p. insert l n v s = append_link N m b w (moved s p)"
  using assms
proof (induction ls arbitrary: a l s)
  case Nil
  have "insert l n v s = append_link N m b w s" using Nil.prems by (subst insert) auto
  moreover have "s = moved s (pos (pdb s))" by (simp add: moved_def)
  ultimately show ?case by metis
next
  case (Cons k ls)
  obtain j js where j: "ls @ [m] = j # js" by (cases "ls @ [m]") auto
  let ?s = "moved s (unat (blockAddress j) + block_size N)"
  have "insert l n v s = insert j n v ?s"
    using Cons.prems j by (intro insert_step [where a = a and ms = js]) auto
  moreover have "\<exists>p. insert j n v ?s = append_link N m b w (moved ?s p)"
    using Cons.prems j by (intro Cons.IH [where a = "nextPropAddress k"]) auto
  ultimately show ?case by auto
qed

lemma insert_new:
  assumes "pdb_inv N s" "pdb_room N s" "chain N (content (pdb s)) a ls" "ls \<noteq> []"
    and "name_buf n = Some b" "string_of_buf b = Some n" "value_buf v = Some w"
    and "n \<notin> pl_name ` set ls"
  obtains s' ls' where "insert (hd ls) n v s = Some (blockAddress (last ls), s')"
    and "pdb_inv N s'" "chain N (content (pdb s')) a ls'" "props ls' = (props ls)(n \<mapsto> c_str w)"
    and "\<And>d ks. chain N (content (pdb s)) d ks \<Longrightarrow> blockAddress (last ls) \<notin> blockAddress ` set ks \<Longrightarrow>
           chain N (content (pdb s')) d ks"
    and "map blockAddress ls' = map blockAddress ls @ [new_address N s]"
    and "map pl_name ls' = map pl_name ls @ [n]" "map pl_value ls' = map pl_value ls @ [w]"
    and "nextPropertyIndex s' = nextPropertyIndex s + 1"
proof -
  obtain ks m where ls: "ls = ks @ [m]" using assms(4) by (cases ls rule: rev_cases) auto
  have "good (pdb s)" using assms(1) by (simp add: pdb_inv_def)
  then obtain p where p: "insert (hd ls) n v s = append_link N m b w (moved s p)"
    using insert_absent [of s a ks m n b v w "hd ls"] assms ls by auto
  have pre: "pdb_inv N (moved s p)" "pdb_room N (moved s p)" "chain N (content (pdb (moved s p))) a (ks @ [m])"
    using assms ls by simp_all
  obtain s' where s': "append_link N m b w (moved s p) = Some (blockAddress m, s')"
      "pdb_inv N s'" "nextPropertyIndex s' = nextPropertyIndex s + 1"
      "chain N (content (pdb s')) a
         (ks @ [m\<lparr>nextPropAddress := new_address N (moved s p)\<rparr>, fresh_link N (moved s p) n w])"
      "\<And>d ks. chain N (content (pdb s)) d ks \<Longrightarrow> blockAddress m \<notin> blockAddress ` set ks \<Longrightarrow>
         chain N (content (pdb s')) d ks"
    using append_link_effect [OF pre(1,2) name_buf_length [OF assms(5)] value_buf_length [OF assms(7)]
        assms(6) pre(3)] by (metis content_moved index_moved)
  let ?new = "fresh_link N (moved s p) n w"
  have "props (ks @ [m\<lparr>nextPropAddress := new_address N (moved s p)\<rparr>, ?new]) = props ((ks @ [m]) @ [?new])"
    by simp
  also have "\<dots> = (props ls)(n \<mapsto> c_str w)"
    using assms(8) ls by (subst props_append_new) (auto simp: fresh_link_def)
  finally show thesis
    using that [OF _ s'(2) s'(4)] p s' ls by (simp add: fresh_link_def new_address_def)
qed

end

locale keeping_class = property_class +
  assumes found_keeps: "found l w s = Some (blockAddress l, s)"
begin

lemma insert_same:
  assumes "good (pdb s)" "chain N (content (pdb s)) a (ls @ m # ms)"
    and "name_buf n = Some b" "value_buf v = Some w" "pl_name m = n" "n \<notin> pl_name ` set ls"
  shows "\<exists>p. insert (hd (ls @ [m])) n v s = Some (blockAddress m, moved s p)"
  using insert_present [OF assms refl] by (simp add: found_keeps)

text \<open>Inserting keeps the value of a name that is there and adds a name that is not.\<close>

lemma insert_keeps:
  assumes "pdb_inv N s" "pdb_room N s" "chain N (content (pdb s)) a ls" "ls \<noteq> []"
    and "name_buf n = Some b" "string_of_buf b = Some n" "value_buf v = Some w"
  shows "\<exists>r s' ls'. insert (hd ls) n v s = Some (r, s') \<and> pdb_inv N s' \<and> chain N (content (pdb s')) a ls' \<and>
    props ls' = (if n \<in> dom (props ls) then props ls else (props ls)(n \<mapsto> c_str w)) \<and>
    (\<forall>d ks. chain N (content (pdb s)) d ks \<longrightarrow> blockAddress ` set ks \<inter> blockAddress ` set ls = {} \<longrightarrow>
       chain N (content (pdb s')) d ks) \<and> pl_value ` set ls' \<subseteq> {w} \<union> pl_value ` set ls"
proof (cases "n \<in> pl_name ` set ls")
  case True
  then obtain ks m ms where ls: "ls = ks @ m # ms" "pl_name m = n" "n \<notin> pl_name ` set ks"
    by (rule first_named)
  have "hd ls = hd (ks @ [m])" using ls(1) by (cases ks) auto
  then obtain p where "insert (hd ls) n v s = Some (blockAddress m, moved s p)"
    using insert_same [of s a ks m ms n b v w] assms ls by (auto simp: pdb_inv_def)
  then show ?thesis using assms(1,3) True by (intro exI) (auto simp: dom_props)
next
  case False
  obtain s' ls' where s': "insert (hd ls) n v s = Some (blockAddress (last ls), s')" "pdb_inv N s'"
      "chain N (content (pdb s')) a ls'" "props ls' = (props ls)(n \<mapsto> c_str w)"
      "\<And>d ks. chain N (content (pdb s)) d ks \<Longrightarrow> blockAddress (last ls) \<notin> blockAddress ` set ks \<Longrightarrow>
         chain N (content (pdb s')) d ks"
      "map pl_value ls' = map pl_value ls @ [w]"
    using insert_new [OF assms False] by metis
  have vals: "pl_value ` set ls' \<subseteq> {w} \<union> pl_value ` set ls"
    using arg_cong [OF s'(6), of set] by auto
  have "blockAddress (last ls) \<in> blockAddress ` set ls" using assms(4) by simp
  then have "\<forall>d ks. chain N (content (pdb s)) d ks \<longrightarrow> blockAddress ` set ks \<inter> blockAddress ` set ls = {} \<longrightarrow>
      chain N (content (pdb s')) d ks" using s'(5) by (metis disjoint_iff)
  then show ?thesis using s'(1-4) False vals by (intro exI conjI) (auto simp: dom_props)
qed

end

locale overwriting_class = property_class +
  assumes found_overwrites: "found l w s = overwrite_value N l w s"
begin

lemma insert_same:
  assumes "pdb_inv N s" "chain N (content (pdb s)) a (ls @ m # ms)"
    and "name_buf n = Some b" "value_buf v = Some w" "pl_name m = n" "n \<notin> pl_name ` set ls"
  obtains s' where "insert (hd (ls @ [m])) n v s = Some (blockAddress m, s')" "pdb_inv N s'"
    and "chain N (content (pdb s')) a (ls @ m\<lparr>pl_value := w\<rparr> # ms)"
    and "nextPropertyIndex s' = nextPropertyIndex s"
    and "\<And>d ks. chain N (content (pdb s)) d ks \<Longrightarrow> blockAddress m \<notin> blockAddress ` set ks \<Longrightarrow>
           chain N (content (pdb s')) d ks"
proof -
  let ?c = "content (pdb s)" and ?q = "unat (blockAddress m) + N"
  define c' where "c' = put_range ?c ?q w"
  have good: "good (pdb s)" and lock: "\<not> insertLock s" using assms(1) by (simp_all add: pdb_inv_def)
  obtain p where p: "insert (hd (ls @ [m])) n v s = overwrite_value N m w (moved s p)"
    using insert_present [OF good assms(2-6) refl] by (auto simp: found_overwrites)
  let ?s = "s\<lparr>pdb := (pdb s)\<lparr>content := c', pos := ?q + length w\<rparr>\<rparr>"
  have w: "length w = MAX_VALUE_SIZE" by (rule value_buf_length [OF assms(4)])
  have m: "link_at N ?c (blockAddress m) = Some m" "aligned N (blockAddress m)"
    using chain_mem [OF assms(2), of m] by simp_all
  have mlen: "unat (blockAddress m) + block_size N \<le> length ?c"
    using m(1) by (simp add: link_at_def split: if_splits)
  have q: "unat (blockAddress m) \<le> ?q" "?q + length w \<le> unat (blockAddress m) + block_size N"
    using w by (simp_all add: block_size_def)
  have kept: "link_at N c' (blockAddress l) = Some l" if "l \<in> set ls \<union> set ms" for l
    unfolding c'_def using that q by (intro link_kept [OF assms(2)]) auto
  have tail: "chain N c' (nextPropAddress m) ms"
  proof (rule chain_frame)
    show "chain N ?c (nextPropAddress m) ms" using chain_suffix [OF assms(2)] by simp
  qed (use kept in auto)
  have "overwrite_value N m w (moved s p) = Some (blockAddress m, ?s)"
    using lock good by (simp add: overwrite_value_def seek_def fwrite_def c'_def moved_def)
  moreover have "pdb_inv N ?s"
    using assms(1) mlen q(2) by (auto simp: pdb_inv_def c'_def max_def split: if_splits)
  moreover have "chain N c' a (ls @ m\<lparr>pl_value := w\<rparr> # ms)"
    using kept tail link_at_put_value [OF m(1) w]
    by (intro chain_replace [OF assms(2)]) (auto simp: c'_def)
  moreover have "chain N c' d ks" if "chain N ?c d ks" "blockAddress m \<notin> blockAddress ` set ks" for d ks
    unfolding c'_def using that q by (intro chain_put_other [OF that(1) m(2)]) auto
  ultimately show thesis using p by (intro that [of ?s]) simp_all
qed

text \<open>Inserting replaces the value of a name that is there and adds a name that is not.\<close>

lemma insert_overwrites:
  assumes "pdb_inv N s" "pdb_room N s" "chain N (content (pdb s)) a ls" "ls \<noteq> []"
    and "name_buf n = Some b" "string_of_buf b = Some n" "value_buf v = Some w"
  shows "\<exists>r s' ls'. insert (hd ls) n v s = Some (r, s') \<and> pdb_inv N s' \<and> chain N (content (pdb s')) a ls' \<and>
    props ls' = (props ls)(n \<mapsto> c_str w) \<and>
    (\<forall>d ks. chain N (content (pdb s)) d ks \<longrightarrow> blockAddress ` set ks \<inter> blockAddress ` set ls = {} \<longrightarrow>
       chain N (content (pdb s')) d ks) \<and> pl_value ` set ls' \<subseteq> {w} \<union> pl_value ` set ls"
proof (cases "n \<in> pl_name ` set ls")
  case True
  then obtain ks m ms where ls: "ls = ks @ m # ms" "pl_name m = n" "n \<notin> pl_name ` set ks"
    by (rule first_named)
  have hd: "hd ls = hd (ks @ [m])" using ls(1) by (cases ks) auto
  obtain s' where s': "insert (hd ls) n v s = Some (blockAddress m, s')" "pdb_inv N s'"
      "chain N (content (pdb s')) a (ks @ m\<lparr>pl_value := w\<rparr> # ms)"
      "\<And>d ks. chain N (content (pdb s)) d ks \<Longrightarrow> blockAddress m \<notin> blockAddress ` set ks \<Longrightarrow>
         chain N (content (pdb s')) d ks"
    using insert_same [OF assms(1) assms(3) [unfolded ls(1)] assms(5,7) ls(2,3)] hd by metis
  have "props (ks @ m\<lparr>pl_value := w\<rparr> # ms) = (props ls)(n \<mapsto> c_str w)"
    using ls by (simp add: props_value_update)
  moreover have "blockAddress m \<in> blockAddress ` set ls" using ls(1) by simp
  then have "\<forall>d ks. chain N (content (pdb s)) d ks \<longrightarrow> blockAddress ` set ks \<inter> blockAddress ` set ls = {} \<longrightarrow>
      chain N (content (pdb s')) d ks" using s'(4) by (metis disjoint_iff)
  moreover have "pl_value ` set (ks @ m\<lparr>pl_value := w\<rparr> # ms) \<subseteq> {w} \<union> pl_value ` set ls" using ls(1) by auto
  ultimately show ?thesis using s'(1-3) by (intro exI conjI)
next
  case False
  obtain s' ls' where s': "insert (hd ls) n v s = Some (blockAddress (last ls), s')" "pdb_inv N s'"
      "chain N (content (pdb s')) a ls'" "props ls' = (props ls)(n \<mapsto> c_str w)"
      "\<And>d ks. chain N (content (pdb s)) d ks \<Longrightarrow> blockAddress (last ls) \<notin> blockAddress ` set ks \<Longrightarrow>
         chain N (content (pdb s')) d ks"
      "map pl_value ls' = map pl_value ls @ [w]"
    using insert_new [OF assms False] by metis
  have vals: "pl_value ` set ls' \<subseteq> {w} \<union> pl_value ` set ls"
    using arg_cong [OF s'(6), of set] by auto
  have "blockAddress (last ls) \<in> blockAddress ` set ls" using assms(4) by simp
  then have "\<forall>d ks. chain N (content (pdb s)) d ks \<longrightarrow> blockAddress ` set ks \<inter> blockAddress ` set ls = {} \<longrightarrow>
      chain N (content (pdb s')) d ks" using s'(5) by (metis disjoint_iff)
  then show ?thesis using s'(1-4) vals by (intro exI conjI) auto
qed

end

lemma memcpy_value_length: "memcpy_value v = Some w \<Longrightarrow> length w = MAX_VALUE_SIZE"
  by (auto simp: memcpy_value_def split: if_splits)

lemma strncpy_value_length: "strncpy_value v = Some w \<Longrightarrow> length w = MAX_VALUE_SIZE"
  by (auto simp: strncpy_value_def MAX_VALUE_SIZE_def split: if_splits)

interpretation node_props: keeping_class PropertyLink_MAX_NAME_SIZE PropertyLink_new PropertyLink_get
  PropertyLink_create PropertyLink_insert "\<lambda>l w s. Some (blockAddress l, s)"
  "strcpy_buf PropertyLink_MAX_NAME_SIZE" memcpy_value
  by unfold_locales
    (auto simp: PropertyLink_new_def PropertyLink_get_def PropertyLink_create_def word_gt_0
      length_strcpy_buf memcpy_value_length intro: PropertyLink_insert.simps)

interpretation edge_props: keeping_class PropertyLink_MAX_NAME_SIZE PropertyEdgeLink_new PropertyEdgeLink_get
  PropertyEdgeLink_create PropertyEdgeLink_insert "\<lambda>l w s. Some (blockAddress l, s)"
  "\<lambda>n. Some (strncpy_buf PropertyLink_MAX_NAME_SIZE n)" strncpy_value
proof unfold_locales
  show "PropertyEdgeLink_insert l n v s =
    do { b \<leftarrow> Some (strncpy_buf PropertyLink_MAX_NAME_SIZE n);
         w \<leftarrow> strncpy_value v;
         if pl_name l = n then Some (blockAddress l, s)
         else if nextPropAddress l \<noteq> 0
         then do { (k, s) \<leftarrow> PropertyEdgeLink_new (nextPropAddress l) s; PropertyEdgeLink_insert k n v s }
         else append_link PropertyLink_MAX_NAME_SIZE l b w s }" for l n v s
    by (subst PropertyEdgeLink_insert.simps) simp
qed (auto simp: PropertyEdgeLink_new_def PropertyEdgeLink_get_def PropertyEdgeLink_create_def
      PropertyLink_MAX_NAME_SIZE_def strncpy_value_length)

interpretation node_meta_props: overwriting_class MetaPropertyLink_MAX_NAME_SIZE MetaPropertyLink_new
  MetaPropertyLink_get MetaPropertyLink_create MetaPropertyLink_insert
  "overwrite_value MetaPropertyLink_MAX_NAME_SIZE" "strcpy_buf MetaPropertyLink_MAX_NAME_SIZE" memcpy_value
  by unfold_locales
    (auto simp: MetaPropertyLink_new_def MetaPropertyLink_get_def MetaPropertyLink_create_def
      length_strcpy_buf memcpy_value_length intro: MetaPropertyLink_insert.simps)

interpretation edge_meta_props: overwriting_class MetaPropertyLink_MAX_NAME_SIZE MetaPropertyEdgeLink_new
  MetaPropertyEdgeLink_get MetaPropertyEdgeLink_create MetaPropertyEdgeLink_insert
  "overwrite_value MetaPropertyLink_MAX_NAME_SIZE" "strcpy_buf MetaPropertyLink_MAX_NAME_SIZE" memcpy_value
  by unfold_locales
    (auto simp: MetaPropertyEdgeLink_new_def MetaPropertyEdgeLink_get_def MetaPropertyEdgeLink_create_def
      length_strcpy_buf memcpy_value_length intro: MetaPropertyEdgeLink_insert.simps)

end
