(* ===== verification/Node_Block.thy ===== *)
theory Node_Block
  imports Property_Contract
begin

text \<open>
  \<^verbatim>\<open>NodeBlock\<close> of \<^verbatim>\<open>src/src/nativestore\<close>: the 140-byte block of a node. \<open>native_store\<close> collects
  the static members of all storage classes, that is, the open files of one partition and the
  counters that go with them. Operations that change the object return it next to the store.
  The part of the class that follows relation chains is in \<open>Node_Relations\<close>.
\<close>

record native_store =
  nodesDB :: fstream
  nodeProps :: property_db
  nodeMeta :: property_db
  edgeProps :: property_db
  edgeMeta :: property_db
  relationsDB :: fstream
  centralRelationsDB :: fstream
  nextLocalRelationIndex :: u32
  nextCentralRelationIndex :: u32

definition NodeBlock_BLOCK_SIZE :: nat where
  "NodeBlock_BLOCK_SIZE = 140"

definition LABEL_SIZE :: nat where
  "LABEL_SIZE = 118"

definition MAX_TYPE_SIZE :: nat where
  "MAX_TYPE_SIZE = 100"

definition RelationBlock_BLOCK_SIZE :: nat where
  "RelationBlock_BLOCK_SIZE = 4 * 13 + MAX_TYPE_SIZE"

definition RelationBlock_CENTRAL_BLOCK_SIZE :: nat where
  "RelationBlock_CENTRAL_BLOCK_SIZE = 4 * 14 + MAX_TYPE_SIZE"

record node_block =
  nb_addr :: u32
  nb_id :: string
  nb_usage :: bool
  nb_nodeId :: u32
  edgeRef :: u32
  centralEdgeRef :: u32
  edgeRefPID :: byte
  propRef :: u32
  metaPropRef :: u32
  nb_label :: bytes

text \<open>The constructor for a node that is stored for the first time.\<close>

definition NodeBlock_new :: "string \<Rightarrow> u32 \<Rightarrow> u32 \<Rightarrow> node_block" where
  "NodeBlock_new newId node address =
     \<lparr>nb_addr = address, nb_id = newId, nb_usage = True, nb_nodeId = node, edgeRef = 0,
      centralEdgeRef = 0, edgeRefPID = NUL, propRef = 0, metaPropRef = 0,
      nb_label = replicate LABEL_SIZE NUL\<rparr>"

text \<open>The constructor for a node read from the file; its label is copied with \<^verbatim>\<open>strcpy\<close>.\<close>

definition NodeBlock_of_fields ::
  "string \<Rightarrow> u32 \<Rightarrow> u32 \<Rightarrow> u32 \<Rightarrow> u32 \<Rightarrow> u32 \<Rightarrow> u32 \<Rightarrow> byte \<Rightarrow> bytes \<Rightarrow> bool \<Rightarrow> node_block option" where
  "NodeBlock_of_fields i node address pr mpr er cer pid lab u =
     map_option
       (\<lambda>l. \<lparr>nb_addr = address, nb_id = i, nb_usage = u, nb_nodeId = node, edgeRef = er,
             centralEdgeRef = cer, edgeRefPID = pid, propRef = pr, metaPropRef = mpr, nb_label = l\<rparr>)
       (if NUL \<in> set lab then strcpy_buf LABEL_SIZE lab else None)"

definition isInUse :: "node_block \<Rightarrow> bool" where
  "isInUse this \<longleftrightarrow> nb_usage this"

definition getLabel :: "node_block \<Rightarrow> string option" where
  "getLabel this = string_of_buf (nb_label this)"

definition setLabel :: "node_block \<Rightarrow> string \<Rightarrow> node_block" where
  "setLabel this lab = this\<lparr>nb_label := strncpy_buf LABEL_SIZE lab\<rparr>"

definition usage_byte :: "bool \<Rightarrow> byte" where
  "usage_byte u = (if u then CHR 0x01 else NUL)"

text \<open>Offsets of the fields inside a block, in the order \<^verbatim>\<open>save\<close> writes them.\<close>

definition edgeRef_offset :: nat where "edgeRef_offset = 1 + 4"
definition centralEdgeRef_offset :: nat where "centralEdgeRef_offset = 1 + 4 + 4"
definition propRef_offset :: nat where "propRef_offset = 1 + 4 + 4 + 4 + 1"
definition metaPropRef_offset :: nat where "metaPropRef_offset = 1 + 4 + 4 + 4 + 1 + 4"
definition label_offset :: nat where "label_offset = 1 + 4 + 4 + 4 + 1 + 4 + 4"

definition addLabel :: "node_block \<Rightarrow> bytes \<Rightarrow> native_store \<Rightarrow> (node_block \<times> native_store) option" where
  "addLabel this lab s =
     do {
       old \<leftarrow> string_of_buf (nb_label this);
       if old = nb_id this
       then do {
         new \<leftarrow> string_of_buf lab;
         if new \<noteq> []
         then let l = strncpy_buf LABEL_SIZE new
              in Some (this\<lparr>nb_label := l\<rparr>,
                       s\<lparr>nodesDB := fwrite l (seek (unat (nb_addr this) + label_offset) (nodesDB s))\<rparr>)
         else Some (this, s)
       }
       else Some (this, s)
     }"

definition getPropertyHead :: "node_block \<Rightarrow> native_store \<Rightarrow> (property_link option \<times> native_store) option" where
  "getPropertyHead this s =
     do { (l, ps) \<leftarrow> PropertyLink_get (propRef this) (nodeProps s); Some (l, s\<lparr>nodeProps := ps\<rparr>) }"

definition getMetaPropertyHead :: "node_block \<Rightarrow> native_store \<Rightarrow> (property_link option \<times> native_store) option" where
  "getMetaPropertyHead this s =
     do { (l, ps) \<leftarrow> MetaPropertyLink_get (metaPropRef this) (nodeMeta s); Some (l, s\<lparr>nodeMeta := ps\<rparr>) }"

definition addProperty ::
  "node_block \<Rightarrow> string \<Rightarrow> bytes \<Rightarrow> native_store \<Rightarrow> (node_block \<times> native_store) option" where
  "addProperty this name v s =
     (if propRef this = 0
      then do {
        (newLink, ps) \<leftarrow> PropertyLink_create name v (nodeProps s);
        let s = s\<lparr>nodeProps := ps\<rparr>;
        case newLink of
          None \<Rightarrow> Some (this, s)
        | Some l \<Rightarrow>
            let this = this\<lparr>propRef := blockAddress l\<rparr>
            in Some (this,
                     s\<lparr>nodesDB := fwrite (enc32 (propRef this))
                                    (seek (unat (nb_addr this) + propRef_offset) (nodesDB s))\<rparr>)
      }
      else do {
        (head, s) \<leftarrow> getPropertyHead this s;
        case head of
          None \<Rightarrow> None
        | Some l \<Rightarrow>
            do {
              (ref, ps) \<leftarrow> PropertyLink_insert l name v (nodeProps s);
              Some (this\<lparr>propRef := ref\<rparr>, s\<lparr>nodeProps := ps\<rparr>)
            }
      })"

definition addMetaProperty ::
  "node_block \<Rightarrow> string \<Rightarrow> bytes \<Rightarrow> native_store \<Rightarrow> (node_block \<times> native_store) option" where
  "addMetaProperty this name v s =
     (if metaPropRef this = 0
      then do {
        (newLink, ps) \<leftarrow> MetaPropertyLink_create name v (nodeMeta s);
        let s = s\<lparr>nodeMeta := ps\<rparr>;
        case newLink of
          None \<Rightarrow> Some (this, s)
        | Some l \<Rightarrow>
            let this = this\<lparr>metaPropRef := blockAddress l\<rparr>
            in Some (this,
                     s\<lparr>nodesDB := fwrite (enc32 (metaPropRef this))
                                    (seek (unat (nb_addr this) + metaPropRef_offset) (nodesDB s))\<rparr>)
      }
      else do {
        (head, s) \<leftarrow> getMetaPropertyHead this s;
        case head of
          None \<Rightarrow> None
        | Some l \<Rightarrow>
            do {
              (ref, ps) \<leftarrow> MetaPropertyLink_insert l name v (nodeMeta s);
              Some (this\<lparr>metaPropRef := ref\<rparr>, s\<lparr>nodeMeta := ps\<rparr>)
            }
      })"

definition save :: "node_block \<Rightarrow> native_store \<Rightarrow> (node_block \<times> native_store) option" where
  "save this s =
     (let lab = strncpy_buf MAX_VALUE_SIZE (nb_id this);
          isSmallLabel = length (nb_id this) < LABEL_SIZE;
          this = (if isSmallLabel then this\<lparr>nb_label := strncpy_buf LABEL_SIZE (nb_id this)\<rparr> else this);
          f = seek (unat (nb_addr this)) (nodesDB s);
          f = fwrite [usage_byte (nb_usage this)] f;
          f = fwrite (enc32 (nb_nodeId this)) f;
          f = fwrite (enc32 (edgeRef this)) f;
          f = fwrite (enc32 (centralEdgeRef this)) f;
          f = fwrite [edgeRefPID this] f;
          f = fwrite (enc32 (propRef this)) f;
          f = fwrite (enc32 (metaPropRef this)) f;
          f = fwrite (nb_label this) f;
          s = s\<lparr>nodesDB := f\<rparr>
      in if isSmallLabel then Some (this, s) else addProperty this ''label'' lab s)"

text \<open>
  The loop of \<^verbatim>\<open>getAllProperties\<close>: \<^verbatim>\<open>try_emplace\<close> keeps the first value of a name. The step to the
  next link is an argument because the node and the edge class share the loop.
\<close>

partial_function (option) collect_props ::
  "(property_link \<Rightarrow> property_db \<Rightarrow> (property_link option \<times> property_db) option) \<Rightarrow>
   property_link option \<Rightarrow> (string \<rightharpoonup> string) \<Rightarrow> property_db \<Rightarrow> ((string \<rightharpoonup> string) \<times> property_db) option" where
  "collect_props next current m s =
     (case current of
        None \<Rightarrow> Some (m, s)
      | Some l \<Rightarrow>
          do {
            m \<leftarrow> (case m (pl_name l) of
                   Some _ \<Rightarrow> Some m
                 | None \<Rightarrow> map_option (\<lambda>v. m(pl_name l \<mapsto> v)) (string_of_buf (pl_value l)));
            (l', s) \<leftarrow> next l s;
            collect_props next l' m s
          })"

definition getAllProperties :: "node_block \<Rightarrow> native_store \<Rightarrow> ((string \<rightharpoonup> string) \<times> native_store) option" where
  "getAllProperties this s =
     do {
       (head, s) \<leftarrow> getPropertyHead this s;
       (m, ps) \<leftarrow> collect_props PropertyLink_next head Map.empty (nodeProps s);
       Some (m, s\<lparr>nodeProps := ps\<rparr>)
     }"

text \<open>
  The log line for an unaligned edge reference adds the number to a string literal, which is
  pointer arithmetic: it is defined only while the pointer stays inside the literal.
\<close>

definition invalid_edge_message :: string where
  "invalid_edge_message = ''Exception: Invalid edge reference address = ''"

definition NodeBlock_get :: "u32 \<Rightarrow> native_store \<Rightarrow> (node_block \<times> native_store) option" where
  "NodeBlock_get a s =
     do {
       let f = seek (unat a) (nodesDB s);
       (usageBlock, f) \<leftarrow> fread_unchecked 1 f;
       (node, f) \<leftarrow> fread_unchecked 4 f;
       (er, f) \<leftarrow> fread_unchecked 4 f;
       (cer, f) \<leftarrow> fread_unchecked 4 f;
       (pid, f) \<leftarrow> fread_unchecked 1 f;
       (pr, f) \<leftarrow> fread_unchecked 4 f;
       (mpr, f) \<leftarrow> fread_unchecked 4 f;
       (lab, f) \<leftarrow> fread_unchecked LABEL_SIZE f;
       let s = s\<lparr>nodesDB := f\<rparr>;
       txt \<leftarrow> string_of_buf lab;
       let i = (if txt \<noteq> [] then to_string (unat (dec32 node)) else []);
       nb \<leftarrow> NodeBlock_of_fields i (dec32 node) a (dec32 pr) (dec32 mpr) (dec32 er) (dec32 cer)
               (hd pid) lab (usageBlock = [CHR 0x01]);
       (nb, s) \<leftarrow>
         (if nb_id nb = []
          then do {
            (m, s) \<leftarrow> getAllProperties nb s;
            Some (case m ''label'' of
                    Some v \<Rightarrow> if v \<noteq> [] then nb\<lparr>nb_id := v\<rparr> else nb
                  | None \<Rightarrow> nb, s)
          }
          else Some (nb, s));
       if unat (edgeRef nb) mod RelationBlock_BLOCK_SIZE \<noteq> 0 \<and>
          length invalid_edge_message < unat (edgeRef nb)
       then None else Some (nb, s)
     }"

end
