(* ===== verification/Relation_Block.thy ===== *)
theory Relation_Block
  imports Node_Block
begin

text \<open>
  \<^verbatim>\<open>RelationBlock\<close> of \<^verbatim>\<open>src/src/nativestore\<close>: the block of an edge. Edges inside the partition are
  \<open>Local\<close> (\<^verbatim>\<open>relations.db\<close>, 13 records and a type), edges that leave it are \<open>Central\<close>
  (\<^verbatim>\<open>central_relations.db\<close>, 14 records and a type). The source has every function twice, once
  per file; here the shared body takes the \<open>scope\<close>, and the source's names are its instances.

  \<^verbatim>\<open>addLocalRelation\<close> and \<^verbatim>\<open>addCentralRelation\<close> write the memory of the \<^verbatim>\<open>std::string\<close> object
  \<^verbatim>\<open>type\<close> (100 bytes from its address), not its characters. Those bytes are not determined by the
  program: they are the argument \<open>img\<close> of the model. Likewise \<open>tail\<close> stands for the bytes that
  \<^verbatim>\<open>memcpy\<close> reads behind the end of a shorter relationship type.
\<close>

datatype scope = Local | Central

datatype RelationOffsets =
    SOURCE_ID | DESTINATION_ID | SOURCE | DESTINATION | SOURCE_NEXT | SOURCE_NEXT_PID
  | SOURCE_PREVIOUS | SOURCE_PREVIOUS_PID | DESTINATION_NEXT | DESTINATION_NEXT_PID
  | DESTINATION_PREVIOUS | DESTINATION_PREVIOUS_PID | RELATION_PROPS | RELATION_PROPS_META

fun offset_value :: "RelationOffsets \<Rightarrow> nat" where
  "offset_value SOURCE_ID = 0"
| "offset_value DESTINATION_ID = 1"
| "offset_value SOURCE = 2"
| "offset_value DESTINATION = 3"
| "offset_value SOURCE_NEXT = 4"
| "offset_value SOURCE_NEXT_PID = 5"
| "offset_value SOURCE_PREVIOUS = 6"
| "offset_value SOURCE_PREVIOUS_PID = 7"
| "offset_value DESTINATION_NEXT = 8"
| "offset_value DESTINATION_NEXT_PID = 9"
| "offset_value DESTINATION_PREVIOUS = 10"
| "offset_value DESTINATION_PREVIOUS_PID = 11"
| "offset_value RELATION_PROPS = 12"
| "offset_value RELATION_PROPS_META = 13"

record node_relation =
  nr_address :: u32
  nextRelationId :: u32
  nextPid :: u32
  preRelationId :: u32
  prePid :: u32
  nr_nodeId :: u32

definition empty_node_relation :: node_relation where
  "empty_node_relation =
     \<lparr>nr_address = 0, nextRelationId = 0, nextPid = 0, preRelationId = 0, prePid = 0, nr_nodeId = 0\<rparr>"

text \<open>A null or dangling node pointer is \<^const>\<open>None\<close>.\<close>

record relation_block =
  rb_addr :: u32
  rb_source :: node_relation
  rb_destination :: node_relation
  propertyAddress :: u32
  metaPropertyAddress :: u32
  rb_type :: string
  sourceBlock :: "node_block option"
  destinationBlock :: "node_block option"

definition DEFAULT_TYPE :: string where
  "DEFAULT_TYPE = ''DEFAULT''"

definition RECORD_SIZE :: nat where
  "RECORD_SIZE = 4"

fun rel_size :: "scope \<Rightarrow> nat" where
  "rel_size Local = RelationBlock_BLOCK_SIZE"
| "rel_size Central = RelationBlock_CENTRAL_BLOCK_SIZE"

fun rel_records :: "scope \<Rightarrow> nat" where
  "rel_records Local = 13"
| "rel_records Central = 14"

fun relDB :: "scope \<Rightarrow> native_store \<Rightarrow> fstream" where
  "relDB Local s = relationsDB s"
| "relDB Central s = centralRelationsDB s"

fun set_relDB :: "scope \<Rightarrow> fstream \<Rightarrow> native_store \<Rightarrow> native_store" where
  "set_relDB Local f s = s\<lparr>relationsDB := f\<rparr>"
| "set_relDB Central f s = s\<lparr>centralRelationsDB := f\<rparr>"

fun nextRelationIndex :: "scope \<Rightarrow> native_store \<Rightarrow> u32" where
  "nextRelationIndex Local s = nextLocalRelationIndex s"
| "nextRelationIndex Central s = nextCentralRelationIndex s"

fun set_nextRelationIndex :: "scope \<Rightarrow> u32 \<Rightarrow> native_store \<Rightarrow> native_store" where
  "set_nextRelationIndex Local i s = s\<lparr>nextLocalRelationIndex := i\<rparr>"
| "set_nextRelationIndex Central i s = s\<lparr>nextCentralRelationIndex := i\<rparr>"

text \<open>The constructor from two nodes keeps the addresses of its by-value parameters.\<close>

definition RelationBlock_of_nodes :: relation_block where
  "RelationBlock_of_nodes =
     \<lparr>rb_addr = 0, rb_source = empty_node_relation, rb_destination = empty_node_relation,
      propertyAddress = 0, metaPropertyAddress = 0, rb_type = DEFAULT_TYPE,
      sourceBlock = None, destinationBlock = None\<rparr>"

text \<open>The constructors from the fields of a block read both end nodes; the local one leaves the
  meta property address at 0.\<close>

definition RelationBlock_of_fields ::
  "u32 \<Rightarrow> node_relation \<Rightarrow> node_relation \<Rightarrow> u32 \<Rightarrow> u32 \<Rightarrow> string \<Rightarrow> native_store \<Rightarrow>
   (relation_block \<times> native_store) option" where
  "RelationBlock_of_fields a src dst pa mpa t s =
     do {
       (sb, s) \<leftarrow> NodeBlock_get (nr_address src) s;
       (db, s) \<leftarrow> NodeBlock_get (nr_address dst) s;
       Some (\<lparr>rb_addr = a, rb_source = src, rb_destination = dst, propertyAddress = pa,
              metaPropertyAddress = mpa, rb_type = t, sourceBlock = Some sb,
              destinationBlock = Some db\<rparr>, s)
     }"

definition addRelation ::
  "scope \<Rightarrow> relation_block \<Rightarrow> node_block \<Rightarrow> node_block \<Rightarrow> bytes \<Rightarrow> native_store \<Rightarrow>
   (relation_block option \<times> native_store) option" where
  "addRelation sc this src dst img s =
     (let sourceData = empty_node_relation\<lparr>nr_address := nb_addr src\<rparr>;
          destinationData = empty_node_relation\<lparr>nr_address := nb_addr dst\<rparr>;
          relationBlockAddress = unat (nextRelationIndex sc s) * rel_size sc;
          records =
            [enc32 (nb_nodeId src), enc32 (nb_nodeId dst),
             enc32 (nr_address sourceData), enc32 (nr_address destinationData),
             enc32 (nextRelationId sourceData), enc32 (nextPid sourceData),
             enc32 (preRelationId sourceData), enc32 (prePid sourceData),
             enc32 (nextRelationId destinationData), enc32 (nextPid destinationData),
             enc32 (preRelationId destinationData), enc32 (prePid destinationData),
             enc32 (propertyAddress this)]
            @ (if sc = Central then [enc32 (metaPropertyAddress this)] else []) @ [img];
          (ok, f) = fwrite_checked records (seek relationBlockAddress (relDB sc s));
          s = set_relDB sc f s
      in if \<not> ok then Some (None, s)
         else do {
           let s = set_nextRelationIndex sc (nextRelationIndex sc s + 1) s;
           (r, s) \<leftarrow> RelationBlock_of_fields (of_nat relationBlockAddress) sourceData destinationData
                     (propertyAddress this)
                     (if sc = Central then metaPropertyAddress this else 0) (rb_type this) s;
           Some (Some r, s)
         })"

definition RelationBlock_addLocalRelation where
  "RelationBlock_addLocalRelation = addRelation Local"

definition RelationBlock_addCentralRelation where
  "RelationBlock_addCentralRelation = addRelation Central"

text \<open>As for nodes, the log line of an unaligned address does pointer arithmetic.\<close>

definition invalid_relation_message :: string where
  "invalid_relation_message =
     ''Exception: Invalid relation block address !!'' @ [CHR 0x0A] @ '' received address = ''"

definition relation_of_records ::
  "scope \<Rightarrow> u32 \<Rightarrow> bytes list \<Rightarrow> native_store \<Rightarrow> (relation_block \<times> native_store) option" where
  "relation_of_records sc a rs s =
     do {
       let w = (\<lambda>off. dec32 (rs ! offset_value off));
       let src = \<lparr>nr_address = w SOURCE, nextRelationId = w SOURCE_NEXT, nextPid = w SOURCE_NEXT_PID,
                  preRelationId = w SOURCE_PREVIOUS, prePid = w SOURCE_PREVIOUS_PID,
                  nr_nodeId = w SOURCE_ID\<rparr>;
       let dst = \<lparr>nr_address = w DESTINATION, nextRelationId = w DESTINATION_NEXT,
                  nextPid = w DESTINATION_NEXT_PID, preRelationId = w DESTINATION_PREVIOUS,
                  prePid = w DESTINATION_PREVIOUS_PID, nr_nodeId = w DESTINATION_ID\<rparr>;
       t \<leftarrow> string_of_buf (rs ! rel_records sc);
       RelationBlock_of_fields a src dst (w RELATION_PROPS)
         (if sc = Central then w RELATION_PROPS_META else 0) t s
     }"

definition getRelation :: "scope \<Rightarrow> u32 \<Rightarrow> native_store \<Rightarrow> (relation_block option \<times> native_store) option" where
  "getRelation sc a s =
     (if a = 0 then Some (None, s)
      else if unat a mod rel_size sc \<noteq> 0
      then if length invalid_relation_message < unat a then None else Some (None, s)
      else
        let (rs, f) = fread_checked (replicate (rel_records sc) RECORD_SIZE @ [MAX_TYPE_SIZE])
                        (seek (unat a) (relDB sc s));
            s = set_relDB sc f s
        in case rs of
             None \<Rightarrow> Some (None, s)
           | Some rs \<Rightarrow> do { (r, s) \<leftarrow> relation_of_records sc a rs s; Some (Some r, s) })"

definition getLocalRelation where
  "getLocalRelation = getRelation Local"

definition getCentralRelation where
  "getCentralRelation = getRelation Central"

subsection \<open>Following and setting the links\<close>

definition nextSource where
  "nextSource sc this s = getRelation sc (nextRelationId (rb_source this)) s"

definition previousSource where
  "previousSource sc this s = getRelation sc (preRelationId (rb_source this)) s"

definition nextDestination where
  "nextDestination sc this s = getRelation sc (nextRelationId (rb_destination this)) s"

definition previousDestination where
  "previousDestination sc this s = getRelation sc (preRelationId (rb_destination this)) s"

definition updateRelationRecords ::
  "scope \<Rightarrow> relation_block \<Rightarrow> RelationOffsets \<Rightarrow> u32 \<Rightarrow> native_store \<Rightarrow> bool \<times> native_store" where
  "updateRelationRecords sc this recordOffset d s =
     (let dataOffset = RECORD_SIZE * offset_value recordOffset;
          f = seek (unat (rb_addr this + of_nat dataOffset)) (relDB sc s);
          f = fwrite (enc32 d) f;
          s = set_relDB sc f s
      in (good f, s))"

definition updateLocalRelationRecords where
  "updateLocalRelationRecords = updateRelationRecords Local"

definition updateCentralRelationRecords where
  "updateCentralRelationRecords = updateRelationRecords Central"

definition setNextSource ::
  "scope \<Rightarrow> relation_block \<Rightarrow> u32 \<Rightarrow> native_store \<Rightarrow> bool \<times> relation_block \<times> native_store" where
  "setNextSource sc this newAddress s =
     (let (ok, s) = updateRelationRecords sc this SOURCE_NEXT newAddress s
      in (True,
          if ok then this\<lparr>rb_source := (rb_source this)\<lparr>nextRelationId := newAddress\<rparr>\<rparr> else this, s))"

definition setPreviousSource ::
  "scope \<Rightarrow> relation_block \<Rightarrow> u32 \<Rightarrow> native_store \<Rightarrow> bool \<times> relation_block \<times> native_store" where
  "setPreviousSource sc this newAddress s =
     (let (ok, s) = updateRelationRecords sc this SOURCE_PREVIOUS newAddress s
      in (True,
          if ok then this\<lparr>rb_source := (rb_source this)\<lparr>preRelationId := newAddress\<rparr>\<rparr> else this, s))"

definition setNextDestination ::
  "scope \<Rightarrow> relation_block \<Rightarrow> u32 \<Rightarrow> native_store \<Rightarrow> bool \<times> relation_block \<times> native_store" where
  "setNextDestination sc this newAddress s =
     (let (ok, s) = updateRelationRecords sc this DESTINATION_NEXT newAddress s
      in (True,
          if ok then this\<lparr>rb_destination := (rb_destination this)\<lparr>nextRelationId := newAddress\<rparr>\<rparr> else this, s))"

definition setPreviousDestination ::
  "scope \<Rightarrow> relation_block \<Rightarrow> u32 \<Rightarrow> native_store \<Rightarrow> bool \<times> relation_block \<times> native_store" where
  "setPreviousDestination sc this newAddress s =
     (let (ok, s) = updateRelationRecords sc this DESTINATION_PREVIOUS newAddress s
      in (True,
          if ok then this\<lparr>rb_destination := (rb_destination this)\<lparr>preRelationId := newAddress\<rparr>\<rparr> else this, s))"

subsection \<open>Relationship types\<close>

text \<open>\<^verbatim>\<open>memcpy(type, data.c_str(), 100)\<close>: the text, its terminator, and whatever lies behind.\<close>

definition type_buffer :: "string \<Rightarrow> bytes \<Rightarrow> bytes" where
  "type_buffer d tail = take MAX_TYPE_SIZE (d @ [NUL] @ tail)"

text \<open>
  The local version positions the stream of the \<^emph>\<open>central\<close> file and then writes to the local
  file, wherever that stream happens to stand.
\<close>

definition updateLocalRelationshipType ::
  "relation_block \<Rightarrow> nat \<Rightarrow> string \<Rightarrow> bytes \<Rightarrow> native_store \<Rightarrow> bool \<times> native_store" where
  "updateLocalRelationshipType this offset d tail s =
     (let dataOffset = RECORD_SIZE * offset;
          s = s\<lparr>centralRelationsDB := seek (unat (rb_addr this + of_nat dataOffset)) (centralRelationsDB s)\<rparr>;
          f = fwrite (type_buffer d tail) (relationsDB s)
      in (good f, s\<lparr>relationsDB := f\<rparr>))"

definition updateCentralRelationshipType ::
  "relation_block \<Rightarrow> nat \<Rightarrow> string \<Rightarrow> bytes \<Rightarrow> native_store \<Rightarrow> bool \<times> native_store" where
  "updateCentralRelationshipType this offset d tail s =
     (let dataOffset = RECORD_SIZE * offset;
          f = seek (unat (rb_addr this + of_nat dataOffset)) (centralRelationsDB s);
          f = fwrite (type_buffer d tail) f
      in (good f, s\<lparr>centralRelationsDB := f\<rparr>))"

definition LOCAL_RELATIONSHIP_TYPE_OFFSET :: nat where
  "LOCAL_RELATIONSHIP_TYPE_OFFSET = 13"

definition CENTRAL_RELATIONSHIP_TYPE_OFFSET :: nat where
  "CENTRAL_RELATIONSHIP_TYPE_OFFSET = 14"

definition addLocalRelationshipType ::
  "relation_block \<Rightarrow> string \<Rightarrow> bytes \<Rightarrow> native_store \<Rightarrow> native_store" where
  "addLocalRelationshipType this v tail s =
     (if rb_type this = DEFAULT_TYPE
      then snd (updateLocalRelationshipType this LOCAL_RELATIONSHIP_TYPE_OFFSET v tail s)
      else s)"

definition addCentralRelationshipType ::
  "relation_block \<Rightarrow> string \<Rightarrow> bytes \<Rightarrow> native_store \<Rightarrow> native_store" where
  "addCentralRelationshipType this v tail s =
     (if rb_type this = DEFAULT_TYPE
      then snd (updateCentralRelationshipType this CENTRAL_RELATIONSHIP_TYPE_OFFSET v tail s)
      else s)"

text \<open>
  The address is converted to a signed \<^verbatim>\<open>int\<close> first: above \<^verbatim>\<open>INT_MAX\<close> the position is negative,
  which fails the stream.
\<close>

definition seek_signed :: "int \<Rightarrow> fstream \<Rightarrow> fstream" where
  "seek_signed p f = (if p < 0 then f\<lparr>good := False\<rparr> else seek (nat p) f)"

fun type_offset :: "scope \<Rightarrow> nat" where
  "type_offset Local = LOCAL_RELATIONSHIP_TYPE_OFFSET"
| "type_offset Central = CENTRAL_RELATIONSHIP_TYPE_OFFSET"

definition getRelationshipType ::
  "scope \<Rightarrow> relation_block \<Rightarrow> native_store \<Rightarrow> (string \<times> native_store) option" where
  "getRelationshipType sc this s =
     (let address = sint (rb_addr this);
          p = address + int (type_offset sc * RECORD_SIZE)
      in if 2 ^ 31 \<le> p then None
         else
           let (buf, f) = fread MAX_TYPE_SIZE (seek_signed p (relDB sc s));
               s = set_relDB sc f s
           in case buf of
                None \<Rightarrow> Some ([], s)
              | Some b \<Rightarrow> map_option (\<lambda>t. (t, s)) (string_of_buf b))"

definition getLocalRelationshipType where
  "getLocalRelationshipType = getRelationshipType Local"

definition getCentralRelationshipType where
  "getCentralRelationshipType = getRelationshipType Central"

subsection \<open>Properties of an edge\<close>

definition edge_getPropertyHead ::
  "relation_block \<Rightarrow> native_store \<Rightarrow> (property_link option \<times> native_store) option" where
  "edge_getPropertyHead this s =
     do { (l, ps) \<leftarrow> PropertyEdgeLink_get (propertyAddress this) (edgeProps s); Some (l, s\<lparr>edgeProps := ps\<rparr>) }"

definition edge_getMetaPropertyHead ::
  "relation_block \<Rightarrow> native_store \<Rightarrow> (property_link option \<times> native_store) option" where
  "edge_getMetaPropertyHead this s =
     do { (l, ps) \<leftarrow> MetaPropertyEdgeLink_get (metaPropertyAddress this) (edgeMeta s); Some (l, s\<lparr>edgeMeta := ps\<rparr>) }"

definition edge_addProperty ::
  "scope \<Rightarrow> relation_block \<Rightarrow> string \<Rightarrow> bytes \<Rightarrow> native_store \<Rightarrow> (relation_block \<times> native_store) option" where
  "edge_addProperty sc this name v s =
     (if propertyAddress this = 0
      then do {
        (newLink, ps) \<leftarrow> PropertyEdgeLink_create name v (edgeProps s);
        let s = s\<lparr>edgeProps := ps\<rparr>;
        case newLink of
          None \<Rightarrow> Some (this, s)
        | Some l \<Rightarrow>
            let this = this\<lparr>propertyAddress := blockAddress l\<rparr>
            in Some (this, snd (updateRelationRecords sc this RELATION_PROPS (propertyAddress this) s))
      }
      else do {
        (head, s) \<leftarrow> edge_getPropertyHead this s;
        case head of
          None \<Rightarrow> None
        | Some l \<Rightarrow>
            do {
              (ref, ps) \<leftarrow> PropertyEdgeLink_insert l name v (edgeProps s);
              Some (this\<lparr>propertyAddress := ref\<rparr>, s\<lparr>edgeProps := ps\<rparr>)
            }
      })"

definition addLocalProperty where
  "addLocalProperty = edge_addProperty Local"

definition addCentralProperty where
  "addCentralProperty = edge_addProperty Central"

definition edge_addMetaProperty ::
  "relation_block \<Rightarrow> string \<Rightarrow> bytes \<Rightarrow> native_store \<Rightarrow> (relation_block \<times> native_store) option" where
  "edge_addMetaProperty this name v s =
     (if metaPropertyAddress this = 0
      then do {
        (newLink, ps) \<leftarrow> MetaPropertyEdgeLink_create name v (edgeMeta s);
        let s = s\<lparr>edgeMeta := ps\<rparr>;
        case newLink of
          None \<Rightarrow> Some (this, s)
        | Some l \<Rightarrow>
            let this = this\<lparr>metaPropertyAddress := blockAddress l\<rparr>
            in Some (this, snd (updateRelationRecords Central this RELATION_PROPS_META
                                  (metaPropertyAddress this) s))
      }
      else do {
        (head, s) \<leftarrow> edge_getMetaPropertyHead this s;
        case head of
          None \<Rightarrow> None
        | Some l \<Rightarrow>
            do {
              (ref, ps) \<leftarrow> MetaPropertyEdgeLink_insert l name v (edgeMeta s);
              Some (this\<lparr>metaPropertyAddress := ref\<rparr>, s\<lparr>edgeMeta := ps\<rparr>)
            }
      })"

definition edge_getAllProperties ::
  "relation_block \<Rightarrow> native_store \<Rightarrow> ((string \<rightharpoonup> string) \<times> native_store) option" where
  "edge_getAllProperties this s =
     do {
       (head, s) \<leftarrow> edge_getPropertyHead this s;
       (m, ps) \<leftarrow> collect_props PropertyEdgeLink_next head Map.empty (edgeProps s);
       Some (m, s\<lparr>edgeProps := ps\<rparr>)
     }"

definition getSource :: "relation_block \<Rightarrow> node_block option" where
  "getSource this = sourceBlock this"

definition getDestination :: "relation_block \<Rightarrow> node_block option" where
  "getDestination this = destinationBlock this"

definition setSource :: "node_block \<Rightarrow> relation_block \<Rightarrow> relation_block" where
  "setSource src this = this\<lparr>sourceBlock := Some src\<rparr>"

definition setDestination :: "node_block \<Rightarrow> relation_block \<Rightarrow> relation_block" where
  "setDestination dst this = this\<lparr>destinationBlock := Some dst\<rparr>"

end
