(* ===== verification/Node_Relations.thy ===== *)
theory Node_Relations
  imports Relation_Block
begin

text \<open>
  The part of \<^verbatim>\<open>NodeBlock\<close> that works on the relation chains. The relations of a node form a
  list through the relation blocks: from a block the list goes on at the source's next address
  when the node is the source of the block, and at the destination's otherwise. The flag
  \<^verbatim>\<open>isDirected\<close> is false in every object. The loops of the source do not advance on a block that
  belongs to neither end, so they are partial functions.
\<close>

definition isDirected :: bool where
  "isDirected = False"

fun node_ref :: "scope \<Rightarrow> node_block \<Rightarrow> u32" where
  "node_ref Local nb = edgeRef nb"
| "node_ref Central nb = centralEdgeRef nb"

fun set_node_ref :: "scope \<Rightarrow> u32 \<Rightarrow> node_block \<Rightarrow> node_block" where
  "set_node_ref Local a nb = nb\<lparr>edgeRef := a\<rparr>"
| "set_node_ref Central a nb = nb\<lparr>centralEdgeRef := a\<rparr>"

fun ref_offset :: "scope \<Rightarrow> nat" where
  "ref_offset Local = edgeRef_offset"
| "ref_offset Central = centralEdgeRef_offset"

definition getRelationHead ::
  "scope \<Rightarrow> node_block \<Rightarrow> native_store \<Rightarrow> (relation_block option \<times> native_store) option" where
  "getRelationHead sc this s =
     (if node_ref sc this \<noteq> 0 then getRelation sc (node_ref sc this) s else Some (None, s))"

definition getLocalRelationHead where
  "getLocalRelationHead = getRelationHead Local"

definition getCentralRelationHead where
  "getCentralRelationHead = getRelationHead Central"

definition setRelationHead ::
  "scope \<Rightarrow> node_block \<Rightarrow> relation_block \<Rightarrow> native_store \<Rightarrow> bool \<times> node_block \<times> native_store" where
  "setRelationHead sc this newRelation s =
     (let edgeReferenceAddress = rb_addr newRelation;
          f = seek (unat (nb_addr this) + ref_offset sc) (nodesDB s)
      in if \<not> good f then (False, this, s\<lparr>nodesDB := f\<rparr>)
         else
           let f = fwrite (enc32 edgeReferenceAddress) f
           in if \<not> good f then (False, this, s\<lparr>nodesDB := f\<rparr>)
              else (True, set_node_ref sc edgeReferenceAddress this, s\<lparr>nodesDB := f\<rparr>))"

definition setLocalRelationHead where
  "setLocalRelationHead = setRelationHead Local"

definition setCentralRelationHead where
  "setCentralRelationHead = setRelationHead Central"

text \<open>The loop of \<^verbatim>\<open>updateLocalRelation\<close> that appends at the tail of the chain.\<close>

partial_function (option) append_relation ::
  "scope \<Rightarrow> node_block \<Rightarrow> u32 \<Rightarrow> relation_block \<Rightarrow> native_store \<Rightarrow> (bool \<times> native_store) option" where
  "append_relation sc this a current s =
     (if nr_address (rb_source current) = nb_addr this
      then if nextRelationId (rb_source current) = 0
           then (let (ok, _, s) = setNextSource sc current a s in Some (ok, s))
           else do {
             (n, s) \<leftarrow> nextSource sc current s;
             case n of None \<Rightarrow> Some (False, s) | Some r \<Rightarrow> append_relation sc this a r s
           }
      else if \<not> isDirected \<and> nr_address (rb_destination current) = nb_addr this
      then if nextRelationId (rb_destination current) = 0
           then (let (ok, _, s) = setNextDestination sc current a s in Some (ok, s))
           else do {
             (n, s) \<leftarrow> nextDestination sc current s;
             case n of None \<Rightarrow> Some (False, s) | Some r \<Rightarrow> append_relation sc this a r s
           }
      else append_relation sc this a current s)"

text \<open>
  \<^verbatim>\<open>updateLocalRelation\<close> and \<^verbatim>\<open>updateCentralRelation\<close>: put the new relation at the head of the node's
  chain, or, with \<open>relocateHead\<close> false, at its tail. The result is the flag, the node object,
  the relation object (whose links change in memory too) and the store.
\<close>

definition updateRelation ::
  "scope \<Rightarrow> node_block \<Rightarrow> relation_block \<Rightarrow> bool \<Rightarrow> native_store \<Rightarrow>
   (bool \<times> node_block \<times> relation_block \<times> native_store) option" where
  "updateRelation sc this newRelation relocateHead s =
     do {
       let edgeReferenceAddress = rb_addr newRelation;
       let thisAddress = nb_addr this;
       (currentHead, s) \<leftarrow> getRelationHead sc this s;
       if relocateHead
       then
         let (newRelation, s) =
           (case currentHead of
              None \<Rightarrow> (newRelation, s)
            | Some h \<Rightarrow>
                let s = (if thisAddress = nr_address (rb_source h)
                         then snd (snd (setPreviousSource sc h (rb_addr newRelation) s))
                         else if thisAddress = nr_address (rb_destination h)
                         then snd (snd (setPreviousDestination sc h (rb_addr newRelation) s))
                         else s)
                in if thisAddress = nr_address (rb_source newRelation)
                   then snd (setNextSource sc newRelation (rb_addr h) s)
                   else if thisAddress = nr_address (rb_destination newRelation)
                   then snd (setNextDestination sc newRelation (rb_addr h) s)
                   else (newRelation, s));
             (ok, this, s) = setRelationHead sc this newRelation s
         in Some (ok, this, newRelation, s)
       else
         (case currentHead of
            None \<Rightarrow> let (ok, this, s) = setRelationHead sc this newRelation s
                    in Some (ok, this, newRelation, s)
          | Some h \<Rightarrow> do {
              (ok, s) \<leftarrow> append_relation sc this edgeReferenceAddress h s;
              Some (ok, this, newRelation, s)
            })
     }"

definition updateLocalRelation where
  "updateLocalRelation = updateRelation Local"

definition updateCentralRelation where
  "updateCentralRelation = updateRelation Central"

subsection \<open>Searching and listing\<close>

partial_function (option) search_from ::
  "scope \<Rightarrow> node_block \<Rightarrow> u32 \<Rightarrow> relation_block option \<Rightarrow> native_store \<Rightarrow>
   (relation_block option \<times> native_store) option" where
  "search_from sc this withAddr current s =
     (case current of
        None \<Rightarrow> Some (None, s)
      | Some r \<Rightarrow>
          if nr_address (rb_source r) = nb_addr this
          then if nr_address (rb_destination r) = withAddr then Some (Some r, s)
               else do { (n, s) \<leftarrow> nextSource sc r s; search_from sc this withAddr n s }
          else if \<not> isDirected \<and> nr_address (rb_destination r) = nb_addr this
          then if nr_address (rb_source r) = withAddr then Some (Some r, s)
               else do { (n, s) \<leftarrow> nextDestination sc r s; search_from sc this withAddr n s }
          else search_from sc this withAddr current s)"

definition searchChain ::
  "scope \<Rightarrow> node_block \<Rightarrow> node_block \<Rightarrow> native_store \<Rightarrow> (relation_block option \<times> native_store) option" where
  "searchChain sc this withNode s =
     do { (h, s) \<leftarrow> getRelationHead sc this s; search_from sc this (nb_addr withNode) h s }"

definition searchLocalRelation where
  "searchLocalRelation = searchChain Local"

definition searchCentralRelation where
  "searchCentralRelation = searchChain Central"

definition searchRelation :: "node_block \<Rightarrow> node_block \<Rightarrow> native_store \<Rightarrow> (bool \<times> native_store) option" where
  "searchRelation this withNode s =
     do {
       (found_local, s) \<leftarrow> searchLocalRelation this withNode s;
       (found_central, s) \<leftarrow> searchCentralRelation this withNode s;
       Some (found_local \<noteq> None \<or> found_central \<noteq> None, s)
     }"

partial_function (option) edge_nodes_from ::
  "scope \<Rightarrow> node_block \<Rightarrow> relation_block option \<Rightarrow> (node_block \<times> relation_block) list \<Rightarrow> native_store \<Rightarrow>
   ((node_block \<times> relation_block) list \<times> native_store) option" where
  "edge_nodes_from sc this current edges s =
     (case current of
        None \<Rightarrow> Some (edges, s)
      | Some r \<Rightarrow>
          if nr_address (rb_source r) = nb_addr this
          then do {
            (node, s) \<leftarrow> NodeBlock_get (nr_address (rb_destination r)) s;
            (n, s) \<leftarrow> nextSource sc r s;
            edge_nodes_from sc this n (edges @ [(node, r)]) s
          }
          else if nr_address (rb_destination r) = nb_addr this
          then do {
            (node, s) \<leftarrow> NodeBlock_get (nr_address (rb_source r)) s;
            (n, s) \<leftarrow> nextDestination sc r s;
            edge_nodes_from sc this n (edges @ [(node, r)]) s
          }
          else Some (edges, s))"

definition getEdgeNodes ::
  "scope \<Rightarrow> node_block \<Rightarrow> native_store \<Rightarrow> ((node_block \<times> relation_block) list \<times> native_store) option" where
  "getEdgeNodes sc this s =
     do { (h, s) \<leftarrow> getRelationHead sc this s; edge_nodes_from sc this h [] s }"

definition getLocalEdgeNodes where
  "getLocalEdgeNodes = getEdgeNodes Local"

definition getCentralEdgeNodes where
  "getCentralEdgeNodes = getEdgeNodes Central"

definition getAllEdgeNodes ::
  "node_block \<Rightarrow> native_store \<Rightarrow> ((node_block \<times> relation_block) list \<times> native_store) option" where
  "getAllEdgeNodes this s =
     do {
       (localEdges, s) \<leftarrow> getLocalEdgeNodes this s;
       (centralEdges, s) \<leftarrow> getCentralEdgeNodes this s;
       Some (localEdges @ centralEdges, s)
     }"

end
