(* ===== verification/Node_Manager.thy ===== *)
theory Node_Manager
  imports Node_Relations
begin

text \<open>
  \<^verbatim>\<open>NodeManager\<close> of \<^verbatim>\<open>src/src/nativestore\<close>: the index from node identifiers to node blocks and the
  operations that add nodes and edges. The record holds the object's members, the contents of
  the two index files, and the global mutex \<^verbatim>\<open>lockEdgeAdd\<close>. A \<^verbatim>\<open>std::unordered_map\<close> is a map; where
  the code iterates over it, the iteration order is the argument \<open>it\<close> (an enumeration of the
  map), because the standard leaves it open.
\<close>

record graph_config =
  maxLabelSize :: nat
  cfg_graphID :: u32
  cfg_partitionID :: u32
  cfg_openMode :: string

record node_manager =
  nm_graphID :: u32
  nm_partitionID :: u32
  INDEX_KEY_SIZE :: nat
  indexDB :: bytes
  edgeIndexDB :: bytes
  nextEdgeIndex :: nat
  nextNodeIndex :: u32
  nodeIndex :: "string \<rightharpoonup> u32"
  edgeIndex :: "string \<rightharpoonup> u32"
  lockEdgeAdd :: bool

text \<open>The files of one partition, as the constructor finds them.\<close>

record partition_files =
  pf_nodes :: bytes
  pf_properties :: bytes
  pf_meta_properties :: bytes
  pf_edge_properties :: bytes
  pf_meta_edge_properties :: bytes
  pf_relations :: bytes
  pf_central_relations :: bytes
  pf_index :: bytes
  pf_edge_index :: bytes

definition FILE_MODE :: string where
  "FILE_MODE = ''app''"

subsection \<open>Index files\<close>

text \<open>\<^verbatim>\<open>dbSize\<close> returns the size as a signed \<^verbatim>\<open>int\<close>.\<close>

definition dbSize :: "bytes \<Rightarrow> int" where
  "dbSize c = sint (of_nat (length c) :: 32 word)"

fun read_entries :: "nat \<Rightarrow> nat \<Rightarrow> bytes \<Rightarrow> (string \<rightharpoonup> u32) \<Rightarrow> (string \<rightharpoonup> u32) option" where
  "read_entries k 0 c m = Some m"
| "read_entries k (Suc n) c m =
     do {
       key \<leftarrow> string_of_buf (take k c);
       read_entries k n (drop (k + 4) c) (m(key \<mapsto> dec32 (get_range c k 4)))
     }"

text \<open>\<^verbatim>\<open>readNodeIndex\<close> and \<^verbatim>\<open>readEdgeIndex\<close>: the index and the number of its entries.\<close>

definition readIndex :: "nat \<Rightarrow> bytes \<Rightarrow> ((string \<rightharpoonup> u32) \<times> nat) option" where
  "readIndex k c =
     (if dbSize c < 0 then None
      else
        let n = nat (dbSize c) div (k + 4)
        in map_option (\<lambda>m. (m, n)) (read_entries k n c Map.empty))"

definition index_entry :: "nat \<Rightarrow> string \<Rightarrow> u32 \<Rightarrow> bytes" where
  "index_entry k key v = pad_to k key @ enc32 v"

definition persistNodeIndex :: "(string \<times> u32) list \<Rightarrow> node_manager \<Rightarrow> node_manager" where
  "persistNodeIndex it nm =
     nm\<lparr>indexDB :=
          concat (map (\<lambda>(key, v). if INDEX_KEY_SIZE nm \<le> length key then []
                                  else index_entry (INDEX_KEY_SIZE nm) key v) it)\<rparr>"

fun edge_index_bytes :: "nat \<Rightarrow> (string \<times> u32) list \<Rightarrow> bytes option" where
  "edge_index_bytes k [] = Some []"
| "edge_index_bytes k ((key, v) # it) =
     do {
       buf \<leftarrow> strcpy_buf k key;
       rest \<leftarrow> edge_index_bytes k it;
       Some (buf @ enc32 v @ rest)
     }"

definition persistEdgeIndex :: "(string \<times> u32) list \<Rightarrow> node_manager \<Rightarrow> node_manager option" where
  "persistEdgeIndex it nm =
     map_option (\<lambda>c. nm\<lparr>edgeIndexDB := c\<rparr>) (edge_index_bytes (INDEX_KEY_SIZE nm) it)"

definition addNodeIndex :: "string \<Rightarrow> u32 \<Rightarrow> node_manager \<Rightarrow> node_manager option" where
  "addNodeIndex nodeId idx nm =
     do {
       nodeIDC \<leftarrow> strcpy_buf (INDEX_KEY_SIZE nm) nodeId;
       Some (nm\<lparr>nodeIndex := (case nodeIndex nm nodeId of
                                None \<Rightarrow> (nodeIndex nm)(nodeId \<mapsto> nextNodeIndex nm)
                              | Some _ \<Rightarrow> nodeIndex nm),
                indexDB := indexDB nm @ nodeIDC @ enc32 idx\<rparr>)
     }"

definition setIndexKeySize :: "nat \<Rightarrow> node_manager \<Rightarrow> node_manager" where
  "setIndexKeySize newIndexKeySize nm = nm\<lparr>INDEX_KEY_SIZE := newIndexKeySize\<rparr>"

definition close_manager ::
  "(string \<times> u32) list \<Rightarrow> (string \<times> u32) list \<Rightarrow> node_manager \<Rightarrow> node_manager option" where
  "close_manager it eit nm = persistEdgeIndex eit (persistNodeIndex it nm)"

subsection \<open>Opening a partition\<close>

text \<open>The next free block of a file, from its size; block 0 stays unused.\<close>

definition next_index :: "nat \<Rightarrow> bytes \<Rightarrow> u32" where
  "next_index blockSize c = (let k = length c div blockSize in if k = 0 then 1 else of_nat k)"

text \<open>
  The mutexes are global variables of the process: all are free when it starts, and the constructor
  finds them as earlier calls have left them. Of each property class there are the mutex of
  \<^verbatim>\<open>create\<close> and the mutex of \<^verbatim>\<open>insert\<close>.
\<close>

record process_mutexes =
  pm_lockEdgeAdd :: bool
  pm_nodeProps :: "bool \<times> bool"
  pm_nodeMeta :: "bool \<times> bool"
  pm_edgeProps :: "bool \<times> bool"
  pm_edgeMeta :: "bool \<times> bool"

definition free_mutexes :: process_mutexes where
  "free_mutexes = \<lparr>pm_lockEdgeAdd = False, pm_nodeProps = (False, False), pm_nodeMeta = (False, False),
     pm_edgeProps = (False, False), pm_edgeMeta = (False, False)\<rparr>"

definition open_pdb :: "bool \<times> bool \<Rightarrow> nat \<Rightarrow> bytes \<Rightarrow> property_db" where
  "open_pdb locks nameSize c =
     \<lparr>pdb = open_stream c, nextPropertyIndex = next_index (block_size nameSize) c,
      createLock = fst locks, insertLock = snd locks\<rparr>"

definition open_store :: "process_mutexes \<Rightarrow> bool \<Rightarrow> partition_files \<Rightarrow> native_store" where
  "open_store pm trunc pf =
     (let keep = (\<lambda>c. if trunc then [] else c)
      in \<lparr>nodesDB = open_stream (keep (pf_nodes pf)),
          nodeProps = open_pdb (pm_nodeProps pm) PropertyLink_MAX_NAME_SIZE (keep (pf_properties pf)),
          nodeMeta = open_pdb (pm_nodeMeta pm) MetaPropertyLink_MAX_NAME_SIZE (keep (pf_meta_properties pf)),
          edgeProps = open_pdb (pm_edgeProps pm) PropertyLink_MAX_NAME_SIZE (keep (pf_edge_properties pf)),
          edgeMeta = open_pdb (pm_edgeMeta pm) MetaPropertyLink_MAX_NAME_SIZE (keep (pf_meta_edge_properties pf)),
          relationsDB = open_stream (keep (pf_relations pf)),
          centralRelationsDB = open_stream (keep (pf_central_relations pf)),
          nextLocalRelationIndex = next_index RelationBlock_BLOCK_SIZE (keep (pf_relations pf)),
          nextCentralRelationIndex =
            next_index RelationBlock_CENTRAL_BLOCK_SIZE (keep (pf_central_relations pf))\<rparr>)"

definition NodeManager_new ::
  "process_mutexes \<Rightarrow> graph_config \<Rightarrow> partition_files \<Rightarrow> (node_manager \<times> native_store) option" where
  "NodeManager_new pm gc pf =
     (let nm = \<lparr>nm_graphID = cfg_graphID gc, nm_partitionID = cfg_partitionID gc, INDEX_KEY_SIZE = 6,
                indexDB = pf_index pf, edgeIndexDB = pf_edge_index pf, nextEdgeIndex = 0,
                nextNodeIndex = 0, nodeIndex = Map.empty, edgeIndex = Map.empty,
                lockEdgeAdd = pm_lockEdgeAdd pm\<rparr>;
          nm = (if maxLabelSize gc \<noteq> 0 then setIndexKeySize (maxLabelSize gc) nm else nm)
      in if cfg_openMode gc = FILE_MODE
         then do {
           (ni, n) \<leftarrow> readIndex (INDEX_KEY_SIZE nm) (pf_index pf);
           (ei, e) \<leftarrow> readIndex (INDEX_KEY_SIZE nm) (pf_edge_index pf);
           Some (nm\<lparr>nodeIndex := ni, nextNodeIndex := of_nat n, edgeIndex := ei, nextEdgeIndex := e\<rparr>,
                 open_store pm False pf)
         }
         else Some (nm, open_store pm True pf))"

subsection \<open>Nodes\<close>

definition get_by_index :: "u32 \<Rightarrow> string \<Rightarrow> native_store \<Rightarrow> (node_block \<times> native_store) option" where
  "get_by_index idx nodeId s =
     do {
       let a = idx * of_nat NodeBlock_BLOCK_SIZE;
       let f = seek (unat a) (nodesDB s);
       (usageBlock, f) \<leftarrow> fread_unchecked 1 f;
       (node, f) \<leftarrow> fread_unchecked 4 f;
       (er, f) \<leftarrow> fread_unchecked 4 f;
       (cer, f) \<leftarrow> fread_unchecked 4 f;
       (pid, f) \<leftarrow> fread_unchecked 1 f;
       (pr, f) \<leftarrow> fread_unchecked 4 f;
       (mpr, f) \<leftarrow> fread_unchecked 4 f;
       (lab, f) \<leftarrow> fread_unchecked LABEL_SIZE f;
       nb \<leftarrow> NodeBlock_of_fields nodeId (dec32 node) a (dec32 pr) (dec32 mpr) (dec32 er) (dec32 cer)
               (hd pid) lab (usageBlock = [CHR 0x01]);
       Some (nb, s\<lparr>nodesDB := f\<rparr>)
     }"

definition get_node :: "node_manager \<Rightarrow> string \<Rightarrow> native_store \<Rightarrow> (node_block option \<times> native_store) option" where
  "get_node nm nodeId s =
     (case nodeIndex nm nodeId of
        None \<Rightarrow> Some (None, s)
      | Some idx \<Rightarrow> map_option (\<lambda>(nb, s). (Some nb, s)) (get_by_index idx nodeId s))"

text \<open>\<^verbatim>\<open>addNode\<close>: the inner \<^const>\<open>None\<close> is the exception of \<^verbatim>\<open>std::stoul\<close>, which leaves everything as
  it was.\<close>

definition addNode ::
  "string \<Rightarrow> node_manager \<Rightarrow> native_store \<Rightarrow> ((node_block \<times> node_manager \<times> native_store) option) option" where
  "addNode nodeId nm s =
     (case nodeIndex nm nodeId of
        None \<Rightarrow>
          (case stoul nodeId of
             None \<Rightarrow> Some None
           | Some v \<Rightarrow>
               do {
                 let blk = NodeBlock_new nodeId (of_nat v) (nextNodeIndex nm * of_nat NodeBlock_BLOCK_SIZE);
                 nm \<leftarrow> addNodeIndex nodeId (nextNodeIndex nm) nm;
                 let nm = nm\<lparr>nextNodeIndex := nextNodeIndex nm + 1\<rparr>;
                 let blk = setLabel blk nodeId;
                 (blk, s) \<leftarrow> save blk s;
                 Some (Some (blk, nm, s))
               })
      | Some _ \<Rightarrow>
          do {
            (nb, s) \<leftarrow> get_node nm nodeId s;
            nb \<leftarrow> nb;
            Some (Some (nb, nm, s))
          })"

subsection \<open>Edges\<close>

definition manager_addRelation ::
  "scope \<Rightarrow> node_manager \<Rightarrow> node_block \<Rightarrow> node_block \<Rightarrow> bytes \<Rightarrow> native_store \<Rightarrow>
   (relation_block option \<times> native_store) option" where
  "manager_addRelation sc nm src dst img s =
     do {
       (newRelation, s) \<leftarrow> addRelation sc RelationBlock_of_nodes src dst img s;
       case newRelation of
         None \<Rightarrow> Some (None, s)
       | Some r \<Rightarrow>
           do {
             (_, _, r, s) \<leftarrow> updateRelation sc src r True s;
             (_, _, r, s) \<leftarrow> updateRelation sc dst r True s;
             if sc = Local
             then do {
               (_, s) \<leftarrow> get_node nm (to_string (unat (nb_nodeId src))) s;
               (_, s) \<leftarrow> get_node nm (to_string (unat (nb_nodeId dst))) s;
               Some (Some r, s)
             }
             else Some (Some r, s)
           }
     }"

definition NodeManager_addLocalRelation where
  "NodeManager_addLocalRelation = manager_addRelation Local"

definition NodeManager_addCentralRelation where
  "NodeManager_addCentralRelation = manager_addRelation Central"

text \<open>How a call that adds an edge ends: with the new relation, with a null pointer, or with the
  exception of an identifier that is not a number.\<close>

datatype edge_result = Added relation_block | NoRelation | Threw

text \<open>
  \<^verbatim>\<open>addLocalEdge\<close> and \<^verbatim>\<open>addCentralEdge\<close>: the mutex is taken first and given back at the end; an
  exception in between leaves it locked, and a call that finds it locked waits forever.
\<close>

definition addEdge ::
  "scope \<Rightarrow> string \<times> string \<Rightarrow> bytes \<Rightarrow> node_manager \<Rightarrow> native_store \<Rightarrow>
   (edge_result \<times> node_manager \<times> native_store) option" where
  "addEdge sc edge img nm s =
     (if lockEdgeAdd nm then None
      else do {
        let nm = nm\<lparr>lockEdgeAdd := True\<rparr>;
        r1 \<leftarrow> addNode (fst edge) nm s;
        case r1 of
          None \<Rightarrow> Some (Threw, nm, s)
        | Some (sourceNode, nm, s) \<Rightarrow>
            do {
              r2 \<leftarrow> addNode (snd edge) nm s;
              case r2 of
                None \<Rightarrow> Some (Threw, nm, s)
              | Some (destNode, nm, s) \<Rightarrow>
                  do {
                    (newRelation, s) \<leftarrow> manager_addRelation sc nm sourceNode destNode img s;
                    case newRelation of
                      None \<Rightarrow> Some (NoRelation, nm\<lparr>lockEdgeAdd := False\<rparr>, s)
                    | Some r \<Rightarrow>
                        let r = setSource sourceNode (setDestination destNode r);
                            nm = (if sc = Local
                                  then nm\<lparr>nextEdgeIndex := nextEdgeIndex nm + 1\<rparr> else nm)
                        in Some (Added r, nm\<lparr>lockEdgeAdd := False\<rparr>, s)
                  }
            }
      })"

definition NodeManager_addLocalEdge where
  "NodeManager_addLocalEdge = addEdge Local"

definition NodeManager_addCentralEdge where
  "NodeManager_addCentralEdge = addEdge Central"

subsection \<open>Reading the graph\<close>

fun get_nodes :: "node_manager \<Rightarrow> string list \<Rightarrow> native_store \<Rightarrow> (node_block list \<times> native_store) option" where
  "get_nodes nm [] s = Some ([], s)"
| "get_nodes nm (k # ks) s =
     do {
       (nb, s) \<leftarrow> get_node nm k s;
       nb \<leftarrow> nb;
       (nbs, s) \<leftarrow> get_nodes nm ks s;
       Some (nb # nbs, s)
     }"

definition getGraph :: "string list \<Rightarrow> node_manager \<Rightarrow> native_store \<Rightarrow> (node_block list \<times> native_store) option" where
  "getGraph it nm s = get_nodes nm it s"

definition getLimitedGraph ::
  "int \<Rightarrow> string list \<Rightarrow> node_manager \<Rightarrow> native_store \<Rightarrow> (node_block list \<times> native_store) option" where
  "getLimitedGraph limit it nm s = get_nodes nm (take (nat limit) it) s"

fun getCentralGraph :: "string list \<Rightarrow> node_manager \<Rightarrow> native_store \<Rightarrow> (node_block list \<times> native_store) option" where
  "getCentralGraph [] nm s = Some ([], s)"
| "getCentralGraph (k # ks) nm s =
     do {
       (nb, s) \<leftarrow> get_node nm k s;
       nb \<leftarrow> nb;
       (h, s) \<leftarrow> getCentralRelationHead nb s;
       (nbs, s) \<leftarrow> getCentralGraph ks nm s;
       Some (if h \<noteq> None then nb # nbs else nbs, s)
     }"

text \<open>\<^verbatim>\<open>getAdjacencyList\<close> of all nodes: \<^verbatim>\<open>emplace\<close> keeps the first entry of a vertex number.\<close>

fun adjacency_from ::
  "string list \<Rightarrow> node_manager \<Rightarrow> (nat \<rightharpoonup> nat set) \<Rightarrow> native_store \<Rightarrow>
   ((nat \<rightharpoonup> nat set) \<times> native_store) option" where
  "adjacency_from [] nm adj s = Some (adj, s)"
| "adjacency_from (k # ks) nm adj s =
     do {
       (nb, s) \<leftarrow> get_node nm k s;
       nb \<leftarrow> nb;
       (es, s) \<leftarrow> getAllEdgeNodes nb s;
       let neighbors = set (map (\<lambda>e. unat (nb_nodeId (fst e))) es);
       let v = unat (nb_nodeId nb);
       adjacency_from ks nm (case adj v of None \<Rightarrow> adj(v \<mapsto> neighbors) | Some _ \<Rightarrow> adj) s
     }"

definition getAdjacencyList ::
  "string list \<Rightarrow> node_manager \<Rightarrow> native_store \<Rightarrow> ((nat \<rightharpoonup> nat set) \<times> native_store) option" where
  "getAdjacencyList it nm s = adjacency_from it nm Map.empty s"

definition getDistributionMap ::
  "string list \<Rightarrow> node_manager \<Rightarrow> native_store \<Rightarrow> ((nat \<rightharpoonup> nat) \<times> native_store) option" where
  "getDistributionMap it nm s =
     do {
       (adj, s) \<leftarrow> getAdjacencyList it nm s;
       Some (\<lambda>v. map_option card (adj v), s)
     }"

text \<open>\<^verbatim>\<open>getAdjacencyList(bool)\<close>: the stored relations themselves, from the first to the last.\<close>

fun adjacency_of_relations ::
  "scope \<Rightarrow> nat list \<Rightarrow> (int \<rightharpoonup> int set) \<Rightarrow> native_store \<Rightarrow> ((int \<rightharpoonup> int set) \<times> native_store) option" where
  "adjacency_of_relations sc [] adj s = Some (adj, s)"
| "adjacency_of_relations sc (i # is) adj s =
     do {
       (r, s) \<leftarrow> getRelation sc (of_nat (i * rel_size sc)) s;
       r \<leftarrow> r;
       sn \<leftarrow> getSource r;
       src \<leftarrow> stol (nb_id sn);
       dn \<leftarrow> getDestination r;
       dst \<leftarrow> stol (nb_id dn);
       let old = (case adj src of None \<Rightarrow> {} | Some ns \<Rightarrow> ns);
       adjacency_of_relations sc is (adj(src \<mapsto> insert dst old)) s
     }"

definition relation_count :: "scope \<Rightarrow> native_store \<Rightarrow> int" where
  "relation_count sc s = dbSize (content (relDB sc s)) div int (rel_size sc) - 1"

definition getAdjacencyList_of ::
  "scope \<Rightarrow> native_store \<Rightarrow> ((int \<rightharpoonup> int set) \<times> native_store) option" where
  "getAdjacencyList_of sc s =
     adjacency_of_relations sc [1..<Suc (nat (relation_count sc s))] Map.empty s"

end
