(* ===== verification/File_Blocks.thy ===== *)
theory File_Blocks
  imports Cpp_Runtime
begin

text \<open>
  A database file as an array of blocks of a fixed size: what a write inside one block does to
  that block, that it leaves the other blocks alone, and how the 32-bit fields of a block
  (\<open>word_at\<close>) are read back. All invariants of the node and relation files are statements
  about blocks, so their preservation reduces to these lemmas.
\<close>

named_theorems block_simps \<open>reading fields of a block after writing to it\<close>

definition block :: "nat \<Rightarrow> bytes \<Rightarrow> nat \<Rightarrow> bytes" where
  "block B c k = get_range c (k * B) B"

definition word_at :: "bytes \<Rightarrow> nat \<Rightarrow> u32" where
  "word_at c p = dec32 (get_range c p 4)"

lemma block_bound: "k < n \<Longrightarrow> n * B \<le> L \<Longrightarrow> k * B + B \<le> (L :: nat)"
  by (metis Suc_leI add.commute dual_order.trans mult_Suc mult_le_mono1)

lemma length_block: "k * B + B \<le> length c \<Longrightarrow> length (block B c k) = B"
  by (simp add: block_def)

lemma get_range_block: "p + n \<le> B \<Longrightarrow> get_range c (k * B + p) n = get_range (block B c k) p n"
  by (simp add: block_def get_range_get_range)

lemma word_at_block: "p + 4 \<le> B \<Longrightarrow> word_at c (k * B + p) = word_at (block B c k) p"
  by (simp add: word_at_def get_range_block)

lemma block_put_other:
  assumes "j \<noteq> k" "j * B \<le> p" "p + length bs \<le> j * B + B" "k * B + B \<le> length c"
  shows "block B (put_range c p bs) k = block B c k"
proof (cases "k < j")
  case True
  then have "k * B + B \<le> j * B" by (intro block_bound) auto
  with assms show ?thesis by (simp add: block_def get_put_before)
next
  case False
  with assms(1) have "j * B + B \<le> k * B" by (intro block_bound) auto
  with assms show ?thesis by (simp add: block_def get_put_after)
qed

lemma block_put_same:
  assumes "k * B + p + length bs \<le> k * B + B" "k * B + B \<le> length c"
  shows "block B (put_range c (k * B + p) bs) k = put_range (block B c k) p bs"
  using assms
  by (intro nth_equalityI) (auto simp: block_def nth_get_range nth_put_range)

lemma block_put_new: "length bs = B \<Longrightarrow> block B (put_range c (k * B) bs) k = bs"
  by (simp add: block_def get_put_inside)

lemma word_at_put_same [block_simps]: "word_at (put_range c p (enc32 v)) p = v"
  by (simp add: word_at_def get_put_inside)

lemma word_at_put_other [block_simps]:
  "q + 4 \<le> p \<Longrightarrow> q + 4 \<le> length c \<Longrightarrow> word_at (put_range c p bs) q = word_at c q"
  "p + length bs \<le> q \<Longrightarrow> word_at (put_range c p bs) q = word_at c q"
  by (simp_all add: word_at_def get_put_before get_put_after)

lemma word_at_append [block_simps]:
  "word_at (enc32 v @ bs) 0 = v"
  "4 \<le> p \<Longrightarrow> word_at (enc32 v @ bs) p = word_at bs (p - 4)"
  "word_at (b # bs) (Suc q) = word_at bs q"
  by (simp_all add: word_at_def get_range_append_left get_range_append_right)
    (simp add: get_range_def)

lemma ranges_from_block:
  "p + sum_list ns \<le> B \<Longrightarrow> ranges_from c (k * B + p) ns = ranges_from (block B c k) p ns"
proof (induction ns arbitrary: p)
  case Nil
  then show ?case by simp
next
  case (Cons n ns)
  then have "ranges_from c (k * B + (p + n)) ns = ranges_from (block B c k) (p + n) ns"
    by (intro Cons.IH) simp
  with Cons.prems show ?case by (simp add: get_range_block add.assoc)
qed

lemma length_ranges_from [simp]: "length (ranges_from c p ns) = length ns"
  by (induction ns arbitrary: p) auto

lemma nth_ranges_from:
  "i < length ns \<Longrightarrow> ranges_from c p ns ! i = get_range c (p + sum_list (take i ns)) (ns ! i)"
  by (induction ns arbitrary: p i) (auto simp: less_Suc_eq_0_disj add.assoc)

end
