(* ===== verification/Block_Access.thy ===== *)
theory Block_Access
  imports Node_Manager File_Blocks
begin

text \<open>
  What the functions that read a node or a relation return, in terms of the bytes of the block
  they read. Reading moves stream positions and nothing else; \<open>rewind\<close> forgets the positions
  of the three graph files, so \<open>rewind s' = rewind s\<close> says that \<open>s'\<close> stores what \<open>s\<close> stores.
\<close>

definition rewind :: "native_store \<Rightarrow> native_store" where
  "rewind s = s\<lparr>nodesDB := (nodesDB s)\<lparr>pos := 0\<rparr>, relationsDB := (relationsDB s)\<lparr>pos := 0\<rparr>,
                centralRelationsDB := (centralRelationsDB s)\<lparr>pos := 0\<rparr>\<rparr>"

definition node_addr :: "nat \<Rightarrow> u32" where
  "node_addr i = of_nat (i * NodeBlock_BLOCK_SIZE)"

definition rel_addr :: "scope \<Rightarrow> nat \<Rightarrow> u32" where
  "rel_addr sc k = of_nat (Suc k * rel_size sc)"

text \<open>The objects that the bytes of a block stand for.\<close>

definition node_of_block :: "u32 \<Rightarrow> string \<Rightarrow> bytes \<Rightarrow> node_block" where
  "node_of_block a i b =
     \<lparr>nb_addr = a, nb_id = i, nb_usage = (get_range b 0 1 = [CHR 0x01]), nb_nodeId = word_at b 1,
      edgeRef = word_at b 5, centralEdgeRef = word_at b 9, edgeRefPID = hd (get_range b 13 1),
      propRef = word_at b 14, metaPropRef = word_at b 18,
      nb_label = pad_to LABEL_SIZE (c_str (get_range b 22 LABEL_SIZE))\<rparr>"

definition label_ok :: "bytes \<Rightarrow> bool" where
  "label_ok b \<longleftrightarrow> NUL \<in> set (get_range b 22 LABEL_SIZE) \<and> c_str (get_range b 22 LABEL_SIZE) \<noteq> []"

definition node_readable :: "bytes \<Rightarrow> bool" where
  "node_readable b \<longleftrightarrow> label_ok b \<and> unat (word_at b 5) mod RelationBlock_BLOCK_SIZE = 0"

definition nodes_file :: "nat \<Rightarrow> native_store \<Rightarrow> bool" where
  "nodes_file n s \<longleftrightarrow>
     good (nodesDB s) \<and> length (content (nodesDB s)) = n * NodeBlock_BLOCK_SIZE \<and>
     n * NodeBlock_BLOCK_SIZE < 2 ^ 32 \<and>
     (\<forall>i<n. node_readable (block NodeBlock_BLOCK_SIZE (content (nodesDB s)) i))"

abbreviation node_block_at :: "native_store \<Rightarrow> nat \<Rightarrow> bytes" where
  "node_block_at s i \<equiv> block NodeBlock_BLOCK_SIZE (content (nodesDB s)) i"

abbreviation rel_block_at :: "scope \<Rightarrow> native_store \<Rightarrow> nat \<Rightarrow> bytes" where
  "rel_block_at sc s k \<equiv> block (rel_size sc) (content (relDB sc s)) (Suc k)"

lemma rewind_fields:
  assumes "rewind s' = rewind s"
  shows "content (nodesDB s') = content (nodesDB s)" "good (nodesDB s') = good (nodesDB s)"
    and "content (relDB sc s') = content (relDB sc s)" "good (relDB sc s') = good (relDB sc s)"
    and "nextRelationIndex sc s' = nextRelationIndex sc s"
    and "nodeProps s' = nodeProps s" "nodeMeta s' = nodeMeta s"
    and "edgeProps s' = edgeProps s" "edgeMeta s' = edgeMeta s"
proof -
  have "content (nodesDB (rewind s')) = content (nodesDB (rewind s))"
    "good (nodesDB (rewind s')) = good (nodesDB (rewind s))"
    "content (relDB sc (rewind s')) = content (relDB sc (rewind s))"
    "good (relDB sc (rewind s')) = good (relDB sc (rewind s))"
    "nextRelationIndex sc (rewind s') = nextRelationIndex sc (rewind s)"
    "nodeProps (rewind s') = nodeProps (rewind s)" "nodeMeta (rewind s') = nodeMeta (rewind s)"
    "edgeProps (rewind s') = edgeProps (rewind s)" "edgeMeta (rewind s') = edgeMeta (rewind s)"
    using assms by simp_all
  then show "content (nodesDB s') = content (nodesDB s)" "good (nodesDB s') = good (nodesDB s)"
    "content (relDB sc s') = content (relDB sc s)" "good (relDB sc s') = good (relDB sc s)"
    "nextRelationIndex sc s' = nextRelationIndex sc s"
    "nodeProps s' = nodeProps s" "nodeMeta s' = nodeMeta s"
    "edgeProps s' = edgeProps s" "edgeMeta s' = edgeMeta s"
    by (cases sc; simp add: rewind_def)+
qed

lemma nodes_file_rewind: "rewind s' = rewind s \<Longrightarrow> nodes_file n s' = nodes_file n s"
  by (simp add: nodes_file_def rewind_fields [of s' s])

lemma relDB_set_relDB [simp]:
  "relDB sc (set_relDB sc f s) = f"
  "sc' \<noteq> sc \<Longrightarrow> relDB sc' (set_relDB sc f s) = relDB sc' s"
  "relDB sc' (set_nextRelationIndex sc i s) = relDB sc' s"
  "relDB sc' (s\<lparr>nodesDB := g\<rparr>) = relDB sc' s"
  "nextRelationIndex sc (set_nextRelationIndex sc i s) = i"
  "sc' \<noteq> sc \<Longrightarrow> nextRelationIndex sc' (set_nextRelationIndex sc i s) = nextRelationIndex sc' s"
  "nextRelationIndex sc' (set_relDB sc f s) = nextRelationIndex sc' s"
  "nextRelationIndex sc' (s\<lparr>nodesDB := g\<rparr>) = nextRelationIndex sc' s"
  "nodesDB (set_relDB sc f s) = nodesDB s"
  "nodesDB (set_nextRelationIndex sc i s) = nodesDB s"
  "nodeProps (set_relDB sc f s) = nodeProps s" "nodeMeta (set_relDB sc f s) = nodeMeta s"
  "edgeProps (set_relDB sc f s) = edgeProps s" "edgeMeta (set_relDB sc f s) = edgeMeta s"
  "nodeProps (set_nextRelationIndex sc i s) = nodeProps s"
  "nodeMeta (set_nextRelationIndex sc i s) = nodeMeta s"
  "edgeProps (set_nextRelationIndex sc i s) = edgeProps s"
  "edgeMeta (set_nextRelationIndex sc i s) = edgeMeta s"
  by (cases sc; cases sc'; simp)+

lemma rewind_set_relDB_pos: "rewind (set_relDB sc ((relDB sc s)\<lparr>pos := p\<rparr>) s) = rewind s"
  by (cases sc) (simp_all add: rewind_def)

lemma rewind_nodesDB_pos: "rewind (s\<lparr>nodesDB := (nodesDB s)\<lparr>pos := p\<rparr>\<rparr>) = rewind s"
  by (simp add: rewind_def)

lemma rel_size_pos [simp]: "0 < rel_size sc" "0 < NodeBlock_BLOCK_SIZE"
  by (cases sc; simp add: RelationBlock_BLOCK_SIZE_def RelationBlock_CENTRAL_BLOCK_SIZE_def
      NodeBlock_BLOCK_SIZE_def)+

lemma rel_size_records: "rel_size sc = 4 * rel_records sc + MAX_TYPE_SIZE"
  by (cases sc) (simp_all add: RelationBlock_BLOCK_SIZE_def RelationBlock_CENTRAL_BLOCK_SIZE_def)

lemma unat_node_addr: "i * NodeBlock_BLOCK_SIZE < 2 ^ 32 \<Longrightarrow> unat (node_addr i) = i * NodeBlock_BLOCK_SIZE"
  by (simp only: node_addr_def unat_of_nat) (simp add: take_bit_nat_eq_self)

lemma unat_rel_addr: "Suc k * rel_size sc < 2 ^ 32 \<Longrightarrow> unat (rel_addr sc k) = Suc k * rel_size sc"
  by (simp only: rel_addr_def unat_of_nat) (simp add: take_bit_nat_eq_self)

lemma rel_addr_nonzero: "Suc k * rel_size sc < 2 ^ 32 \<Longrightarrow> rel_addr sc k \<noteq> 0"
  by (metis unat_rel_addr rel_size_pos(1) mult_eq_0_iff nat.distinct(2) unat_0 less_irrefl)

lemma node_addr_inject:
  "i * NodeBlock_BLOCK_SIZE < 2 ^ 32 \<Longrightarrow> j * NodeBlock_BLOCK_SIZE < 2 ^ 32 \<Longrightarrow>
   node_addr i = node_addr j \<longleftrightarrow> i = j"
  by (metis unat_node_addr mult_cancel2 rel_size_pos(2) less_irrefl)

subsection \<open>Nodes\<close>

lemma strcpy_label:
  assumes "label_ok b"
  shows "strcpy_buf LABEL_SIZE (get_range b 22 LABEL_SIZE) =
           Some (pad_to LABEL_SIZE (c_str (get_range b 22 LABEL_SIZE)))"
proof -
  let ?l = "get_range b 22 LABEL_SIZE"
  have "length (c_str ?l) < length ?l"
  proof (rule ccontr)
    assume "\<not> length (c_str ?l) < length ?l"
    then have "length (c_str ?l) = length ?l"
      using length_takeWhile_le [of "\<lambda>c. c \<noteq> NUL" ?l] unfolding c_str_def by linarith
    then have "c_str ?l = ?l" unfolding c_str_def by (metis takeWhile_eq_take take_all order_refl)
    then show False using assms NUL_notin_c_str [of ?l] by (simp add: label_ok_def)
  qed
  then show ?thesis by (simp add: strcpy_buf_def)
qed

lemma node_reads:
  assumes "good f" "i * NodeBlock_BLOCK_SIZE + NodeBlock_BLOCK_SIZE \<le> length (content f)"
    and "b = block NodeBlock_BLOCK_SIZE (content f) i" "p + n \<le> NodeBlock_BLOCK_SIZE"
  shows "fread_unchecked n (f\<lparr>pos := i * NodeBlock_BLOCK_SIZE + p\<rparr>) =
           Some (get_range b p n, f\<lparr>pos := i * NodeBlock_BLOCK_SIZE + (p + n)\<rparr>)"
  using assms by (simp add: fread_unchecked_good get_range_block add.assoc)

lemma node_block_reads:
  assumes "good f" "i * NodeBlock_BLOCK_SIZE + NodeBlock_BLOCK_SIZE \<le> length (content f)"
    and "b = block NodeBlock_BLOCK_SIZE (content f) i"
  defines "at \<equiv> (\<lambda>p. f\<lparr>pos := i * NodeBlock_BLOCK_SIZE + p\<rparr>)"
  shows "fread_unchecked 1 (at 0) = Some (get_range b 0 1, at 1)"
    and "fread_unchecked 4 (at 1) = Some (get_range b 1 4, at 5)"
    and "fread_unchecked 4 (at 5) = Some (get_range b 5 4, at 9)"
    and "fread_unchecked 4 (at 9) = Some (get_range b 9 4, at 13)"
    and "fread_unchecked 1 (at 13) = Some (get_range b 13 1, at 14)"
    and "fread_unchecked 4 (at 14) = Some (get_range b 14 4, at 18)"
    and "fread_unchecked 4 (at 18) = Some (get_range b 18 4, at 22)"
    and "fread_unchecked LABEL_SIZE (at 22) = Some (get_range b 22 LABEL_SIZE, at NodeBlock_BLOCK_SIZE)"
  unfolding at_def
  by (subst node_reads [OF assms(1-3)]; simp add: NodeBlock_BLOCK_SIZE_def LABEL_SIZE_def)+

lemma node_readable_label:
  assumes "node_readable b"
  shows "string_of_buf (get_range b 22 LABEL_SIZE) = Some (c_str (get_range b 22 LABEL_SIZE))"
    and "c_str (get_range b 22 LABEL_SIZE) \<noteq> []" "NUL \<in> set (get_range b 22 LABEL_SIZE)"
    and "strcpy_buf LABEL_SIZE (get_range b 22 LABEL_SIZE) =
           Some (pad_to LABEL_SIZE (c_str (get_range b 22 LABEL_SIZE)))"
  using assms by (simp_all add: node_readable_def label_ok_def string_of_buf_def strcpy_label)

lemma NodeBlock_get_moved:
  assumes "good (nodesDB s)" "i * NodeBlock_BLOCK_SIZE < 2 ^ 32"
    and "i * NodeBlock_BLOCK_SIZE + NodeBlock_BLOCK_SIZE \<le> length (content (nodesDB s))"
    and "b = node_block_at s i" "node_readable b"
  shows "NodeBlock_get (node_addr i) s = Some (node_of_block (node_addr i) (to_string (unat (word_at b 1))) b,
    s\<lparr>nodesDB := (nodesDB s)\<lparr>pos := i * NodeBlock_BLOCK_SIZE + NodeBlock_BLOCK_SIZE\<rparr>\<rparr>)"
proof -
  let ?B = NodeBlock_BLOCK_SIZE and ?f = "nodesDB s"
  have f: "seek (unat (node_addr i)) ?f = ?f\<lparr>pos := i * ?B + 0\<rparr>"
    using assms(1,2) by (simp add: seek_def unat_node_addr)
  show ?thesis
    unfolding NodeBlock_get_def f Let_def using assms(5)
    by (simp only: node_block_reads [OF assms(1,3,4)] bind.bind_lunit prod.case)
      (simp add: NodeBlock_of_fields_def word_at_def node_readable_label node_readable_def
        [unfolded word_at_def] node_of_block_def)
qed

lemma NodeBlock_get_block:
  assumes "good (nodesDB s)" "i * NodeBlock_BLOCK_SIZE < 2 ^ 32"
    and "i * NodeBlock_BLOCK_SIZE + NodeBlock_BLOCK_SIZE \<le> length (content (nodesDB s))"
    and "b = node_block_at s i" "node_readable b"
  shows "\<exists>s'. NodeBlock_get (node_addr i) s =
           Some (node_of_block (node_addr i) (to_string (unat (word_at b 1))) b, s') \<and> rewind s' = rewind s"
  using NodeBlock_get_moved [OF assms] by (metis rewind_nodesDB_pos)

lemma get_by_index_block:
  assumes "good (nodesDB s)" "i * NodeBlock_BLOCK_SIZE < 2 ^ 32"
    and "i * NodeBlock_BLOCK_SIZE + NodeBlock_BLOCK_SIZE \<le> length (content (nodesDB s))"
    and "b = node_block_at s i" "node_readable b"
  shows "\<exists>s'. get_by_index (of_nat i) nodeId s = Some (node_of_block (node_addr i) nodeId b, s') \<and>
           rewind s' = rewind s"
proof -
  let ?B = NodeBlock_BLOCK_SIZE and ?f = "nodesDB s"
  have a: "(of_nat i :: u32) * of_nat ?B = node_addr i"
    by (simp add: node_addr_def)
  have f: "seek (unat (node_addr i)) ?f = ?f\<lparr>pos := i * ?B + 0\<rparr>"
    using assms(1,2) by (simp add: seek_def unat_node_addr)
  let ?s = "s\<lparr>nodesDB := ?f\<lparr>pos := i * ?B + ?B\<rparr>\<rparr>"
  have "get_by_index (of_nat i) nodeId s = Some (node_of_block (node_addr i) nodeId b, ?s)"
    unfolding get_by_index_def a f Let_def using assms(5)
    by (simp only: node_block_reads [OF assms(1,3,4)] bind.bind_lunit prod.case)
      (simp add: NodeBlock_of_fields_def word_at_def node_readable_label node_of_block_def)
  then show ?thesis by (metis rewind_nodesDB_pos)
qed

lemma nodes_file_get:
  assumes "nodes_file n s" "i < n"
  shows "\<exists>s'. NodeBlock_get (node_addr i) s =
           Some (node_of_block (node_addr i) (to_string (unat (word_at (node_block_at s i) 1)))
                   (node_block_at s i), s') \<and> rewind s' = rewind s"
    and "\<exists>s'. get_by_index (of_nat i) nodeId s =
           Some (node_of_block (node_addr i) nodeId (node_block_at s i), s') \<and> rewind s' = rewind s"
proof -
  have n: "good (nodesDB s)" "length (content (nodesDB s)) = n * NodeBlock_BLOCK_SIZE"
      "n * NodeBlock_BLOCK_SIZE < 2 ^ 32" "node_readable (node_block_at s i)"
    using assms by (auto simp: nodes_file_def)
  have i: "i * NodeBlock_BLOCK_SIZE + NodeBlock_BLOCK_SIZE \<le> length (content (nodesDB s))"
    using assms(2) n(2) by (intro block_bound) auto
  then have "i * NodeBlock_BLOCK_SIZE < 2 ^ 32" using n(2,3) by linarith
  note i = n(1) this i refl n(4)
  show "\<exists>s'. NodeBlock_get (node_addr i) s =
           Some (node_of_block (node_addr i) (to_string (unat (word_at (node_block_at s i) 1)))
                   (node_block_at s i), s') \<and> rewind s' = rewind s"
    by (rule NodeBlock_get_block [OF i])
  show "\<exists>s'. get_by_index (of_nat i) nodeId s =
           Some (node_of_block (node_addr i) nodeId (node_block_at s i), s') \<and> rewind s' = rewind s"
    by (rule get_by_index_block [OF i])
qed

subsection \<open>Relations\<close>

definition rel_of_block :: "scope \<Rightarrow> u32 \<Rightarrow> bytes \<Rightarrow> node_block \<Rightarrow> node_block \<Rightarrow> relation_block" where
  "rel_of_block sc a b sb db =
     \<lparr>rb_addr = a,
      rb_source = \<lparr>nr_address = word_at b 8, nextRelationId = word_at b 16, nextPid = word_at b 20,
                   preRelationId = word_at b 24, prePid = word_at b 28, nr_nodeId = word_at b 0\<rparr>,
      rb_destination = \<lparr>nr_address = word_at b 12, nextRelationId = word_at b 32, nextPid = word_at b 36,
                        preRelationId = word_at b 40, prePid = word_at b 44, nr_nodeId = word_at b 4\<rparr>,
      propertyAddress = word_at b 48,
      metaPropertyAddress = (if sc = Central then word_at b 52 else 0),
      rb_type = c_str (get_range b (4 * rel_records sc) MAX_TYPE_SIZE),
      sourceBlock = Some sb, destinationBlock = Some db\<rparr>"

lemma relation_ranges:
  fixes sc :: scope and b :: bytes
  defines "rs \<equiv> ranges_from b 0 (replicate (rel_records sc) RECORD_SIZE @ [MAX_TYPE_SIZE])"
  shows "j < rel_records sc \<Longrightarrow> rs ! j = get_range b (4 * j) 4"
    and "rs ! rel_records sc = get_range b (4 * rel_records sc) MAX_TYPE_SIZE"
  unfolding rs_def
  by (simp_all add: nth_ranges_from nth_append RECORD_SIZE_def sum_list_replicate min_def mult.commute)

lemma relation_of_records_block:
  assumes "rs = ranges_from b 0 (replicate (rel_records sc) RECORD_SIZE @ [MAX_TYPE_SIZE])"
    and "NUL \<in> set (get_range b (4 * rel_records sc) MAX_TYPE_SIZE)"
    and "NodeBlock_get (word_at b 8) s = Some (sb, s')" "NodeBlock_get (word_at b 12) s' = Some (db, s'')"
  shows "relation_of_records sc a rs s = Some (rel_of_block sc a b sb db, s'')"
proof -
  have rec: "dec32 (rs ! j) = word_at b (4 * j)" if "j < rel_records sc" for j
    unfolding assms(1) word_at_def using relation_ranges(1) [OF that] by simp
  have ty: "string_of_buf (rs ! rel_records sc) = Some (c_str (get_range b (4 * rel_records sc) MAX_TYPE_SIZE))"
    unfolding assms(1) relation_ranges(2) using assms(2) by (simp add: string_of_buf_def)
  show ?thesis using assms(3,4) ty
    by (cases sc) (simp_all add: relation_of_records_def rec RelationBlock_of_fields_def
        rel_of_block_def)
qed

lemma getRelation_block:
  assumes "good (relDB sc s)" "Suc k * rel_size sc < 2 ^ 32"
    and "Suc k * rel_size sc + rel_size sc \<le> length (content (relDB sc s))"
    and "b = rel_block_at sc s k" "NUL \<in> set (get_range b (4 * rel_records sc) MAX_TYPE_SIZE)"
    and "nodes_file n s" "i < n" "j < n" "word_at b 8 = node_addr i" "word_at b 12 = node_addr j"
  shows "\<exists>s' sb db. getRelation sc (rel_addr sc k) s =
             Some (Some (rel_of_block sc (rel_addr sc k) b sb db), s') \<and> rewind s' = rewind s \<and>
             sb = node_of_block (node_addr i) (to_string (unat (word_at (node_block_at s i) 1))) (node_block_at s i) \<and>
             db = node_of_block (node_addr j) (to_string (unat (word_at (node_block_at s j) 1))) (node_block_at s j)"
proof -
  let ?B = "rel_size sc" and ?ns = "replicate (rel_records sc) RECORD_SIZE @ [MAX_TYPE_SIZE]"
  let ?f = "(relDB sc s)\<lparr>pos := Suc k * ?B\<rparr>"
  define s1 where "s1 = set_relDB sc ((relDB sc s)\<lparr>pos := Suc k * ?B + sum_list ?ns\<rparr>) s"
  have sum: "sum_list ?ns = ?B"
    by (simp add: sum_list_replicate RECORD_SIZE_def rel_size_records)
  have "ranges_from (content (relDB sc s)) (Suc k * ?B + 0) ?ns = ranges_from b 0 ?ns"
    unfolding assms(4) by (rule ranges_from_block) (simp only: sum add_0 order_refl)
  then have read: "fread_checked ?ns ?f = (Some (ranges_from b 0 ?ns), (relDB sc s)\<lparr>pos := Suc k * ?B + sum_list ?ns\<rparr>)"
    using assms(1,3) sum by (subst fread_checked_good) simp_all
  have rw: "rewind s1 = rewind s" unfolding s1_def by (rule rewind_set_relDB_pos)
  then have n1: "nodes_file n s1" using assms(6) nodes_file_rewind [OF rw] by simp
  obtain s2 sb where sb: "NodeBlock_get (node_addr i) s1 = Some (sb, s2)" "rewind s2 = rewind s1"
      "sb = node_of_block (node_addr i) (to_string (unat (word_at (node_block_at s1 i) 1))) (node_block_at s1 i)"
    using nodes_file_get(1) [OF n1 assms(7)] by blast
  have n2: "nodes_file n s2" using n1 nodes_file_rewind [OF sb(2)] by simp
  obtain s3 db where db: "NodeBlock_get (node_addr j) s2 = Some (db, s3)" "rewind s3 = rewind s2"
      "db = node_of_block (node_addr j) (to_string (unat (word_at (node_block_at s2 j) 1))) (node_block_at s2 j)"
    using nodes_file_get(1) [OF n2 assms(8)] by blast
  have rel: "relation_of_records sc (rel_addr sc k) (ranges_from b 0 ?ns) s1 =
          Some (rel_of_block sc (rel_addr sc k) b sb db, s3)"
    using sb(1) db(1) assms(5,9,10) by (intro relation_of_records_block [OF refl]) simp_all
  have "seek (unat (rel_addr sc k)) (relDB sc s) = ?f"
    using assms(1,2) by (simp add: seek_def unat_rel_addr del: mult_Suc)
  moreover have "unat (rel_addr sc k) mod ?B = 0"
    by (simp only: unat_rel_addr [OF assms(2)] mod_mult_self2_is_0)
  ultimately have "getRelation sc (rel_addr sc k) s = Some (Some (rel_of_block sc (rel_addr sc k) b sb db), s3)"
    using rel rel_addr_nonzero [OF assms(2)] read s1_def by (simp add: getRelation_def del: mult_Suc)
  moreover have "rewind s3 = rewind s" using rw sb(2) db(2) by simp
  moreover have "content (nodesDB s1) = content (nodesDB s)" "content (nodesDB s2) = content (nodesDB s)"
    using rewind_fields(1) [OF rw] rewind_fields(1) [OF sb(2)] by simp_all
  ultimately show ?thesis using sb(3) db(3) by auto
qed

end
