(* ===== verification/Graph_Chains.thy ===== *)
theory Graph_Chains
  imports Block_Access
begin

text \<open>
  The relation chains that thread through a partition's files, and the one step that extends
  them: \<^verbatim>\<open>NodeBlock::updateLocalRelation\<close> with head relocation. A partition's edges are a list of
  pairs of node numbers in the order of insertion; the next address of an edge is the address
  of the last earlier edge at the same node (\<open>last_ref\<close>), so the list of edges determines every
  address in the file.
\<close>

definition incident :: "nat \<Rightarrow> nat \<times> nat \<Rightarrow> bool" where
  "incident v e \<longleftrightarrow> v = fst e \<or> v = snd e"

text \<open>The address of the last of the first \<open>k\<close> edges at node \<open>v\<close>, and all of them, last first.\<close>

fun last_ref :: "scope \<Rightarrow> (nat \<times> nat) list \<Rightarrow> nat \<Rightarrow> nat \<Rightarrow> u32" where
  "last_ref sc es 0 v = 0"
| "last_ref sc es (Suc k) v = (if incident v (es ! k) then rel_addr sc k else last_ref sc es k v)"

fun edges_at :: "(nat \<times> nat) list \<Rightarrow> nat \<Rightarrow> nat \<Rightarrow> nat list" where
  "edges_at es 0 v = []"
| "edges_at es (Suc k) v = (if incident v (es ! k) then k # edges_at es k v else edges_at es k v)"

definition rel_fields :: "scope \<Rightarrow> nat \<times> nat \<Rightarrow> u32 \<Rightarrow> u32 \<Rightarrow> bytes \<Rightarrow> bool" where
  "rel_fields sc e x y b \<longleftrightarrow>
     word_at b 8 = node_addr (fst e) \<and> word_at b 12 = node_addr (snd e) \<and>
     word_at b 16 = x \<and> word_at b 32 = y \<and>
     NUL \<in> set (get_range b (4 * rel_records sc) MAX_TYPE_SIZE)"

text \<open>The destination link of a self loop stays unused.\<close>

definition rel_ok :: "scope \<Rightarrow> (nat \<times> nat) list \<Rightarrow> nat \<Rightarrow> bytes \<Rightarrow> bool" where
  "rel_ok sc es k b \<longleftrightarrow>
     rel_fields sc (es ! k) (last_ref sc es k (fst (es ! k)))
       (if fst (es ! k) = snd (es ! k) then 0 else last_ref sc es k (snd (es ! k))) b"

definition rel_file :: "scope \<Rightarrow> nat \<Rightarrow> native_store \<Rightarrow> bool" where
  "rel_file sc m s \<longleftrightarrow>
     good (relDB sc s) \<and> length (content (relDB sc s)) = Suc m * rel_size sc \<and> Suc m * rel_size sc < 2 ^ 32"

definition node_file_is :: "nat \<Rightarrow> (nat \<Rightarrow> u32) \<Rightarrow> (scope \<Rightarrow> nat \<Rightarrow> u32) \<Rightarrow> native_store \<Rightarrow> bool" where
  "node_file_is n vid refs s \<longleftrightarrow>
     nodes_file n s \<and>
     (\<forall>i<n. word_at (node_block_at s i) 1 = vid i \<and>
            word_at (node_block_at s i) 5 = refs Local i \<and> word_at (node_block_at s i) 9 = refs Central i)"

text \<open>What an operation on the relations of one scope leaves alone.\<close>

definition frame :: "scope \<Rightarrow> native_store \<Rightarrow> native_store \<Rightarrow> bool" where
  "frame sc s s' \<longleftrightarrow>
     (\<forall>sc'. sc' \<noteq> sc \<longrightarrow> content (relDB sc' s') = content (relDB sc' s) \<and> good (relDB sc' s') = good (relDB sc' s)) \<and>
     (\<forall>sc'. nextRelationIndex sc' s' = nextRelationIndex sc' s) \<and>
     nodeProps s' = nodeProps s \<and> nodeMeta s' = nodeMeta s \<and> edgeProps s' = edgeProps s \<and> edgeMeta s' = edgeMeta s"

lemma frame_refl: "frame sc s s"
  and frame_trans: "frame sc s t \<Longrightarrow> frame sc t u \<Longrightarrow> frame sc s u"
  by (simp_all add: frame_def)

lemma frame_rewind: "rewind t = rewind s \<Longrightarrow> frame sc s t"
  by (simp add: frame_def rewind_fields [of t s])

lemma frame_set_relDB: "frame sc s (set_relDB sc f s)"
  by (simp add: frame_def)

lemma frame_nodesDB: "frame sc s (s\<lparr>nodesDB := f\<rparr>)"
  by (auto simp: frame_def)

lemma rel_file_rewind: "rewind t = rewind s \<Longrightarrow> rel_file sc m t = rel_file sc m s"
  by (simp add: rel_file_def rewind_fields [of t s])

lemma node_file_is_rewind: "rewind t = rewind s \<Longrightarrow> node_file_is n vid refs t = node_file_is n vid refs s"
  by (simp add: node_file_is_def rewind_fields [of t s] nodes_file_rewind [of t s])

lemma last_ref_cong: "(\<And>j. j < k \<Longrightarrow> es ! j = fs ! j) \<Longrightarrow> last_ref sc es k v = last_ref sc fs k v"
  by (induction k) auto

lemma edges_at_cong: "(\<And>j. j < k \<Longrightarrow> es ! j = fs ! j) \<Longrightarrow> edges_at es k v = edges_at fs k v"
  by (induction k) auto

lemma edges_at_filter: "edges_at es k v = rev (filter (\<lambda>j. incident v (es ! j)) [0..<k])"
  by (induction k) auto

text \<open>An address of a chain is 0, or it is that of an earlier edge at the node.\<close>

lemma last_ref_edges_at:
  "edges_at es k v = [] \<Longrightarrow> last_ref sc es k v = 0"
  "edges_at es k v = j # js \<Longrightarrow>
     last_ref sc es k v = rel_addr sc j \<and> j < k \<and> incident v (es ! j) \<and> js = edges_at es j v"
proof (induction k)
  case (Suc k)
  { case 1 with Suc.IH(1) show ?case by (auto split: if_splits) }
  { case 2 with Suc.IH(2) show ?case by (auto split: if_splits) }
qed simp_all

lemma rel_file_block: "rel_file sc m s \<Longrightarrow> k < m \<Longrightarrow>
  Suc k * rel_size sc + rel_size sc \<le> length (content (relDB sc s)) \<and> Suc k * rel_size sc + rel_size sc < 2 ^ 32"
  using block_bound [of "Suc k" "Suc m" "rel_size sc" "Suc m * rel_size sc"]
  by (simp add: rel_file_def)

lemma rel_size_le: "56 \<le> rel_size sc" "52 \<le> 4 * rel_records sc"
  by (cases sc; simp add: RelationBlock_BLOCK_SIZE_def RelationBlock_CENTRAL_BLOCK_SIZE_def MAX_TYPE_SIZE_def)+

lemma rel_addr_aligned:
  "Suc k * rel_size Local < 2 ^ 32 \<Longrightarrow> unat (rel_addr Local k) mod RelationBlock_BLOCK_SIZE = 0"
  by (simp only: unat_rel_addr rel_size.simps mod_mult_self2_is_0)

subsection \<open>Writing one field\<close>

lemma rel_fields_put:
  assumes "rel_fields sc e x y b" "length b = rel_size sc"
  shows "rel_fields sc e x y (put_range b 24 (enc32 d))"
    and "rel_fields sc e x y (put_range b 40 (enc32 d))"
    and "rel_fields sc e d y (put_range b 16 (enc32 d))"
    and "rel_fields sc e x d (put_range b 32 (enc32 d))"
  using assms rel_size_le [of sc]
  by (simp_all add: rel_fields_def block_simps get_put_after)

lemma updateRelationRecords_effect:
  assumes "rel_file sc m s" "k < m" "rb_addr r = rel_addr sc k"
  obtains s' where "updateRelationRecords sc r off d s = (True, s')" "rel_file sc m s'"
    and "rel_block_at sc s' k = put_range (rel_block_at sc s k) (4 * offset_value off) (enc32 d)"
    and "\<And>j. j < m \<Longrightarrow> j \<noteq> k \<Longrightarrow> rel_block_at sc s' j = rel_block_at sc s j"
    and "frame sc s s'" "nodesDB s' = nodesDB s"
proof -
  let ?B = "rel_size sc" and ?f = "relDB sc s" and ?o = "4 * offset_value off"
  have o: "?o + 4 \<le> 56" by (cases off) auto
  note k = rel_file_block [OF assms(1,2)]
  have "unat (rel_addr sc k + of_nat ?o) = Suc k * ?B + ?o"
    using k o rel_size_le(1) [of sc]
    by (simp only: rel_addr_def of_nat_add [symmetric] unat_of_nat) (simp add: take_bit_nat_eq_self)
  moreover have good: "good ?f" using assms(1) by (simp add: rel_file_def)
  ultimately have eff: "updateRelationRecords sc r off d s =
      (True, set_relDB sc (?f\<lparr>content := put_range (content ?f) (Suc k * ?B + ?o) (enc32 d),
                              pos := Suc k * ?B + ?o + 4\<rparr>) s)"
    using assms(3) by (simp add: updateRelationRecords_def RECORD_SIZE_def seek_def fwrite_def Let_def)
  have in_block: "Suc k * ?B + ?o + length (enc32 d) \<le> Suc k * ?B + ?B"
    using o rel_size_le(1) [of sc] by simp
  show thesis
  proof (rule that [OF eff])
    show "rel_file sc m (set_relDB sc (?f\<lparr>content := put_range (content ?f) (Suc k * ?B + ?o) (enc32 d),
                              pos := Suc k * ?B + ?o + 4\<rparr>) s)"
      using assms(1) k in_block by (simp add: rel_file_def max_def)
  qed (use k in_block frame_set_relDB rel_file_block [OF assms(1)] in
      \<open>auto simp: block_put_same block_put_other [where j = "Suc k"] simp del: mult_Suc\<close>)
qed

lemma setRelationHead_effect:
  assumes "node_file_is n vid refs s" "i < n" "nb_addr this = node_addr i" "rb_addr r = a"
    and "sc = Local \<Longrightarrow> unat a mod RelationBlock_BLOCK_SIZE = 0"
  obtains s' where "setRelationHead sc this r s = (True, set_node_ref sc a this, s')"
    and "node_file_is n vid (refs(sc := (refs sc)(i := a))) s'" "frame sc s s'" "relDB sc s' = relDB sc s"
proof -
  let ?B = NodeBlock_BLOCK_SIZE and ?f = "nodesDB s" and ?o = "ref_offset sc"
  have f: "good ?f" "length (content ?f) = n * ?B" "n * ?B < 2 ^ 32"
    and ok: "\<And>j. j < n \<Longrightarrow> node_readable (node_block_at s j)"
    using assms(1) by (auto simp: node_file_is_def nodes_file_def)
  have bnd: "j * ?B + ?B \<le> length (content ?f)" if "j < n" for j
    using that f(2) by (intro block_bound) auto
  have "i * ?B < 2 ^ 32" using bnd [OF assms(2)] f by linarith
  then have a: "unat (node_addr i) = i * ?B" by (rule unat_node_addr)
  have o: "?o + 4 \<le> 13" by (cases sc) (simp_all add: edgeRef_offset_def centralEdgeRef_offset_def)
  define c where "c = put_range (content ?f) (i * ?B + ?o) (enc32 a)"
  have same: "block ?B c i = put_range (node_block_at s i) ?o (enc32 a)"
    unfolding c_def using bnd [OF assms(2)] o
    by (intro block_put_same) (simp_all add: NodeBlock_BLOCK_SIZE_def)
  have other: "block ?B c j = node_block_at s j" if "j < n" "j \<noteq> i" for j
    unfolding c_def using bnd [OF that(1)] o that(2)
    by (intro block_put_other [where j = i]) (simp_all add: NodeBlock_BLOCK_SIZE_def)
  have lb: "length (node_block_at s i) = ?B" using bnd [OF assms(2)] by (rule length_block)
  have lab: "get_range (put_range (node_block_at s i) ?o (enc32 a)) 22 LABEL_SIZE
               = get_range (node_block_at s i) 22 LABEL_SIZE"
    using o by (simp add: get_put_after)
  let ?b = "put_range (node_block_at s i) ?o (enc32 a)"
  have w: "word_at ?b 1 = word_at (node_block_at s i) 1"
    "word_at ?b 5 = (if sc = Local then a else word_at (node_block_at s i) 5)"
    "word_at ?b 9 = (if sc = Central then a else word_at (node_block_at s i) 9)"
    using lb by (cases sc; simp add: edgeRef_offset_def centralEdgeRef_offset_def block_simps
        NodeBlock_BLOCK_SIZE_def)+
  have "node_readable ?b" using ok [OF assms(2)] assms(5) w(2) lab
    by (auto simp: node_readable_def label_ok_def)
  then have readable: "node_readable (block ?B c j)" if "j < n" for j
    using ok [OF that] same other [OF that] by (cases "j = i") simp_all
  have old: "word_at (node_block_at s j) 1 = vid j \<and> word_at (node_block_at s j) 5 = refs Local j \<and>
      word_at (node_block_at s j) 9 = refs Central j" if "j < n" for j
    using assms(1) that by (simp add: node_file_is_def)
  have words: "word_at (block ?B c j) 1 = vid j \<and>
      word_at (block ?B c j) 5 = (refs(sc := (refs sc)(i := a))) Local j \<and>
      word_at (block ?B c j) 9 = (refs(sc := (refs sc)(i := a))) Central j" if "j < n" for j
    using old [OF that] same other [OF that] w by (cases "j = i"; cases sc) simp_all
  have "length c = n * ?B"
    using f(2) bnd [OF assms(2)] o by (simp add: c_def max_def NodeBlock_BLOCK_SIZE_def)
  then have "node_file_is n vid (refs(sc := (refs sc)(i := a))) (s\<lparr>nodesDB := ?f\<lparr>content := c, pos := p\<rparr>\<rparr>)" for p
    using readable words f(1,3) by (simp only: node_file_is_def nodes_file_def) simp
  then show thesis
    using that [of "s\<lparr>nodesDB := ?f\<lparr>content := c, pos := i * ?B + ?o + 4\<rparr>\<rparr>"] frame_nodesDB f(1) a assms(3,4)
    by (simp add: setRelationHead_def seek_def fwrite_def c_def)
qed

end
