(* ===== verification/Graph_Update.thy ===== *)
theory Graph_Update
  imports Graph_Chains
begin

text \<open>
  Linking a new relation into the chains of its two end nodes. \<open>linking\<close> describes the files
  between the moment the block of edge number \<open>m\<close> has been written and the moment both
  end nodes point to it: the older edges are in order, and the new block has the next addresses
  \<open>x\<close> (at its source) and \<open>y\<close> (at its destination).
\<close>

definition linking ::
  "scope \<Rightarrow> (nat \<times> nat) list \<Rightarrow> nat \<Rightarrow> u32 \<Rightarrow> u32 \<Rightarrow> nat \<Rightarrow> (nat \<Rightarrow> u32) \<Rightarrow> (scope \<Rightarrow> nat \<Rightarrow> u32) \<Rightarrow>
   native_store \<Rightarrow> bool" where
  "linking sc es m x y n vid refs s \<longleftrightarrow>
     rel_file sc (Suc m) s \<and> (\<forall>k<m. rel_ok sc es k (rel_block_at sc s k)) \<and>
     rel_fields sc (es ! m) x y (rel_block_at sc s m) \<and> node_file_is n vid refs s \<and>
     (\<forall>k\<le>m. fst (es ! k) < n \<and> snd (es ! k) < n)"

lemma linking_rewind:
  "rewind t = rewind s \<Longrightarrow> linking sc es m x y n vid refs t = linking sc es m x y n vid refs s"
  by (simp add: linking_def rewind_fields [of t s] rel_file_rewind [of t s] node_file_is_rewind [of t s])

lemma node_file_is_cong:
  "nodesDB t = nodesDB s \<Longrightarrow> node_file_is n vid refs t = node_file_is n vid refs s"
  by (simp add: node_file_is_def nodes_file_def)

text \<open>Reading an edge whose block and end nodes are in order.\<close>

lemma getRelation_ok:
  assumes "rel_file sc m s" "k < m" "rel_fields sc (es ! k) x y (rel_block_at sc s k)"
    and "nodes_file n s" "fst (es ! k) < n" "snd (es ! k) < n"
  obtains r s' where "getRelation sc (rel_addr sc k) s = Some (Some r, s')" "rewind s' = rewind s"
    and "rb_addr r = rel_addr sc k"
    and "nr_address (rb_source r) = node_addr (fst (es ! k))" "nextRelationId (rb_source r) = x"
    and "nr_address (rb_destination r) = node_addr (snd (es ! k))" "nextRelationId (rb_destination r) = y"
    and "sourceBlock r = Some (node_of_block (node_addr (fst (es ! k)))
           (to_string (unat (word_at (node_block_at s (fst (es ! k))) 1))) (node_block_at s (fst (es ! k))))"
    and "destinationBlock r = Some (node_of_block (node_addr (snd (es ! k)))
           (to_string (unat (word_at (node_block_at s (snd (es ! k))) 1))) (node_block_at s (snd (es ! k))))"
proof -
  have f: "good (relDB sc s)" using assms(1) by (simp add: rel_file_def)
  note k = rel_file_block [OF assms(1,2)]
  then have "Suc k * rel_size sc < 2 ^ 32" by linarith
  from getRelation_block [OF f this conjunct1 [OF k] refl _ assms(4-6)] assms(3)
  obtain s' sb db where g: "getRelation sc (rel_addr sc k) s =
      Some (Some (rel_of_block sc (rel_addr sc k) (rel_block_at sc s k) sb db), s')" "rewind s' = rewind s"
    "sb = node_of_block (node_addr (fst (es ! k)))
       (to_string (unat (word_at (node_block_at s (fst (es ! k))) 1))) (node_block_at s (fst (es ! k)))"
    "db = node_of_block (node_addr (snd (es ! k)))
       (to_string (unat (word_at (node_block_at s (snd (es ! k))) 1))) (node_block_at s (snd (es ! k)))"
    by (auto simp: rel_fields_def)
  show thesis
    by (rule that [OF g(1,2)]) (use assms(3) g(3,4) in \<open>simp_all add: rel_of_block_def rel_fields_def\<close>)
qed

lemma linking_length: "linking sc es m x y n vid refs s \<Longrightarrow> k \<le> m \<Longrightarrow>
  length (rel_block_at sc s k) = rel_size sc"
  using rel_file_block [of sc "Suc m" s k] by (simp add: linking_def length_block)

text \<open>A previous address is written into an older block.\<close>

lemma linking_set_previous:
  assumes "linking sc es m x y n vid refs s" "k < m" "rb_addr h = rel_addr sc k"
    and "off \<in> {SOURCE_PREVIOUS, DESTINATION_PREVIOUS}"
  shows "linking sc es m x y n vid refs (snd (updateRelationRecords sc h off d s))"
    and "frame sc s (snd (updateRelationRecords sc h off d s))"
proof -
  have rf: "rel_file sc (Suc m) s" "k < Suc m" using assms(1,2) by (simp_all add: linking_def)
  obtain s' where s': "updateRelationRecords sc h off d s = (True, s')" "rel_file sc (Suc m) s'"
      "rel_block_at sc s' k = put_range (rel_block_at sc s k) (4 * offset_value off) (enc32 d)"
      "\<And>j. j < Suc m \<Longrightarrow> j \<noteq> k \<Longrightarrow> rel_block_at sc s' j = rel_block_at sc s j"
      "frame sc s s'" "nodesDB s' = nodesDB s"
    using updateRelationRecords_effect [OF rf assms(3)] by blast
  have "rel_ok sc es k (rel_block_at sc s' k)"
    using assms(1,2,4) s'(3) linking_length [OF assms(1), of k]
    by (auto simp: linking_def rel_ok_def rel_fields_put)
  then have "rel_ok sc es j (rel_block_at sc s' j)" if "j < m" for j
    using that assms(1) s'(4) [of j] by (cases "j = k") (simp_all add: linking_def)
  then have "linking sc es m x y n vid refs s'"
    using assms(1,2) s'(2) s'(4) [of m] node_file_is_cong [OF s'(6)] by (simp add: linking_def)
  then show "linking sc es m x y n vid refs (snd (updateRelationRecords sc h off d s))"
    "frame sc s (snd (updateRelationRecords sc h off d s))"
    using s'(1,5) by simp_all
qed

text \<open>A next address is written into the new block.\<close>

lemma linking_set_next:
  assumes "linking sc es m x y n vid refs s" "rb_addr r = rel_addr sc m"
  shows "linking sc es m d y n vid refs (snd (updateRelationRecords sc r SOURCE_NEXT d s))"
    and "linking sc es m x d n vid refs (snd (updateRelationRecords sc r DESTINATION_NEXT d s))"
    and "fst (updateRelationRecords sc r off d s)"
    and "frame sc s (snd (updateRelationRecords sc r off d s))"
proof -
  have rf: "rel_file sc (Suc m) s" "m < Suc m" using assms(1) by (simp_all add: linking_def)
  note len = linking_length [OF assms(1) order_refl]
  have eff: "fst (updateRelationRecords sc r off d s) \<and> frame sc s (snd (updateRelationRecords sc r off d s)) \<and>
      (rel_fields sc (es ! m) x' y' (put_range (rel_block_at sc s m) (4 * offset_value off) (enc32 d)) \<longrightarrow>
       linking sc es m x' y' n vid refs (snd (updateRelationRecords sc r off d s)))" for off x' y'
  proof -
    obtain s' where s': "updateRelationRecords sc r off d s = (True, s')" "rel_file sc (Suc m) s'"
        "rel_block_at sc s' m = put_range (rel_block_at sc s m) (4 * offset_value off) (enc32 d)"
        "\<And>j. j < Suc m \<Longrightarrow> j \<noteq> m \<Longrightarrow> rel_block_at sc s' j = rel_block_at sc s j"
        "frame sc s s'" "nodesDB s' = nodesDB s"
      using updateRelationRecords_effect [OF rf assms(2)] by blast
    then show ?thesis
      using assms(1) node_file_is_cong [OF s'(6)] by (auto simp: linking_def)
  qed
  have "rel_fields sc (es ! m) x y (rel_block_at sc s m)" using assms(1) by (simp add: linking_def)
  note put = rel_fields_put [OF this len]
  show "linking sc es m d y n vid refs (snd (updateRelationRecords sc r SOURCE_NEXT d s))"
    using eff [of SOURCE_NEXT d y] put(3) by simp
  show "linking sc es m x d n vid refs (snd (updateRelationRecords sc r DESTINATION_NEXT d s))"
    using eff [of DESTINATION_NEXT x d] put(4) by simp
  show "fst (updateRelationRecords sc r off d s)" "frame sc s (snd (updateRelationRecords sc r off d s))"
    using eff by blast+
qed

text \<open>The node's reference is moved to the new block.\<close>

lemma linking_set_head:
  assumes "linking sc es m x y n vid refs s" "v < n" "nb_addr this = node_addr v"
    and "rb_addr r = rel_addr sc m"
  obtains this' s' where "setRelationHead sc this r s = (True, this', s')"
    and "linking sc es m x y n vid (refs(sc := (refs sc)(v := rel_addr sc m))) s'" "frame sc s s'"
proof -
  have nf: "node_file_is n vid refs s" and rf: "rel_file sc (Suc m) s"
    using assms(1) by (simp_all add: linking_def)
  have al: "unat (rel_addr sc m) mod RelationBlock_BLOCK_SIZE = 0" if "sc = Local"
    using rel_file_block [OF rf, of m] rel_addr_aligned [of m] that by (simp del: mult_Suc)
  obtain s' where s': "setRelationHead sc this r s = (True, set_node_ref sc (rel_addr sc m) this, s')"
    "node_file_is n vid (refs(sc := (refs sc)(v := rel_addr sc m))) s'" "frame sc s s'" "relDB sc s' = relDB sc s"
    using setRelationHead_effect [OF nf assms(2-4) al] by blast
  moreover have "rel_file sc (Suc m) s'" using rf s'(4) by (simp add: rel_file_def)
  ultimately show thesis using assms(1) that by (simp add: linking_def)
qed

text \<open>The objects' links follow the file.\<close>

definition same_ends :: "relation_block \<Rightarrow> relation_block \<Rightarrow> bool" where
  "same_ends r r' \<longleftrightarrow>
     rb_addr r' = rb_addr r \<and> nr_address (rb_source r') = nr_address (rb_source r) \<and>
     nr_address (rb_destination r') = nr_address (rb_destination r)"

lemma same_ends_trans: "same_ends r t \<Longrightarrow> same_ends t u \<Longrightarrow> same_ends r u"
  by (simp add: same_ends_def)

lemma same_ends_set:
  "same_ends r (fst (snd (setNextSource sc r d s)))" "same_ends r (fst (snd (setNextDestination sc r d s)))"
  by (simp_all add: same_ends_def setNextSource_def setNextDestination_def split: prod.splits)

lemma snd_snd_set:
  "snd (snd (setNextSource sc r d s)) = snd (updateRelationRecords sc r SOURCE_NEXT d s)"
  "snd (snd (setNextDestination sc r d s)) = snd (updateRelationRecords sc r DESTINATION_NEXT d s)"
  "snd (snd (setPreviousSource sc r d s)) = snd (updateRelationRecords sc r SOURCE_PREVIOUS d s)"
  "snd (snd (setPreviousDestination sc r d s)) = snd (updateRelationRecords sc r DESTINATION_PREVIOUS d s)"
  by (simp_all add: setNextSource_def setNextDestination_def setPreviousSource_def
      setPreviousDestination_def split: prod.splits)

text \<open>
  \<^verbatim>\<open>updateLocalRelation(newRelation, true)\<close>: the old head of the node becomes the next of the new
  block, on the side on which the node is.
\<close>

lemma updateRelation_links:
  assumes "linking sc es m x y n vid refs s" "incident v (es ! m)"
    and "nb_addr this = node_addr v" "node_ref sc this = last_ref sc es m v"
    and "rb_addr r = rel_addr sc m" "nr_address (rb_source r) = node_addr (fst (es ! m))"
    and "nr_address (rb_destination r) = node_addr (snd (es ! m))"
  obtains this' r' s' where "updateRelation sc this r True s = Some (True, this', r', s')"
    and "linking sc es m
           (if v = fst (es ! m) \<and> last_ref sc es m v \<noteq> 0 then last_ref sc es m v else x)
           (if v \<noteq> fst (es ! m) \<and> last_ref sc es m v \<noteq> 0 then last_ref sc es m v else y)
           n vid (refs(sc := (refs sc)(v := rel_addr sc m))) s'"
    and "frame sc s s'" "same_ends r r'"
proof -
  have n: "fst (es ! m) < n" "snd (es ! m) < n" "nodes_file n s"
    and rf: "rel_file sc (Suc m) s" and small: "n * NodeBlock_BLOCK_SIZE < 2 ^ 32"
    using assms(1) by (auto simp: linking_def node_file_is_def nodes_file_def)
  have v: "v < n" using assms(2) n by (auto simp: incident_def)
  have "i * NodeBlock_BLOCK_SIZE < 2 ^ 32" if "i < n" for i
    using that small by (meson le_less_trans less_imp_le_nat mult_le_mono1)
  then have inj: "node_addr i = node_addr j \<longleftrightarrow> i = j" if "i < n" "j < n" for i j
    using that by (simp add: node_addr_inject)
  show thesis
  proof (cases "edges_at es m v")
    case Nil
    then have zero: "last_ref sc es m v = 0" by (rule last_ref_edges_at)
    obtain this' s' where s': "setRelationHead sc this r s = (True, this', s')"
      "linking sc es m x y n vid (refs(sc := (refs sc)(v := rel_addr sc m))) s'" "frame sc s s'"
      using linking_set_head [OF assms(1) v assms(3,5)] by blast
    have "updateRelation sc this r True s = Some (True, this', r, s')"
      using s'(1) assms(4) zero by (simp add: updateRelation_def getRelationHead_def)
    then show thesis using that s' zero by (simp add: same_ends_def)
  next
    case (Cons k ks)
    from last_ref_edges_at(2) [OF Cons]
    have k: "last_ref sc es m v = rel_addr sc k" "k < m" "incident v (es ! k)" by auto
    have k32: "Suc k * rel_size sc < 2 ^ 32"
      using rel_file_block [OF rf, of k] k(2) by (simp del: mult_Suc)
    have nz: "last_ref sc es m v \<noteq> 0" using k(1) rel_addr_nonzero [OF k32] by simp
    have okk: "rel_fields sc (es ! k) (last_ref sc es k (fst (es ! k)))
       (if fst (es ! k) = snd (es ! k) then 0 else last_ref sc es k (snd (es ! k))) (rel_block_at sc s k)"
      and nk: "fst (es ! k) < n" "snd (es ! k) < n"
      using assms(1) k(2) by (auto simp: linking_def rel_ok_def)
    obtain h s1 where h: "getRelation sc (rel_addr sc k) s = Some (Some h, s1)" "rewind s1 = rewind s"
        "rb_addr h = rel_addr sc k" "nr_address (rb_source h) = node_addr (fst (es ! k))"
        "nr_address (rb_destination h) = node_addr (snd (es ! k))"
      using getRelation_ok [OF rf _ okk n(3) nk] k(2) by (metis less_Suc_eq)
    define s2 where "s2 = (if node_addr v = nr_address (rb_source h)
                         then snd (snd (setPreviousSource sc h (rb_addr r) s1))
                         else if node_addr v = nr_address (rb_destination h)
                         then snd (snd (setPreviousDestination sc h (rb_addr r) s1)) else s1)"
    have l1: "linking sc es m x y n vid refs s1" using assms(1) linking_rewind [OF h(2)] by simp
    have l2: "linking sc es m x y n vid refs s2" "frame sc s1 s2"
      using l1 linking_set_previous [OF l1 k(2) h(3)] frame_refl by (auto simp: s2_def snd_snd_set)
    define upd where "upd = (if v = fst (es ! m) then setNextSource else setNextDestination)"
    let ?r = "fst (snd (upd sc r (rb_addr h) s2))" and ?s = "snd (snd (upd sc r (rb_addr h) s2))"
    have l3: "linking sc es m (if v = fst (es ! m) then rel_addr sc k else x)
        (if v \<noteq> fst (es ! m) then rel_addr sc k else y) n vid refs ?s" "frame sc s2 ?s"
      using linking_set_next [OF l2(1) assms(5)] h(3) by (auto simp: upd_def snd_snd_set)
    have ends: "same_ends r ?r" by (simp add: upd_def same_ends_set)
    have ra: "rb_addr ?r = rel_addr sc m" using ends assms(5) by (simp add: same_ends_def)
    obtain this' s' where s': "setRelationHead sc this ?r ?s = (True, this', s')"
      "linking sc es m (if v = fst (es ! m) then rel_addr sc k else x)
        (if v \<noteq> fst (es ! m) then rel_addr sc k else y) n vid
        (refs(sc := (refs sc)(v := rel_addr sc m))) s'" "frame sc ?s s'"
      using linking_set_head [OF l3(1) v assms(3) ra] by blast
    have side: "node_addr v = nr_address (rb_source r) \<longleftrightarrow> v = fst (es ! m)"
      "v \<noteq> fst (es ! m) \<Longrightarrow> node_addr v = nr_address (rb_destination r)"
      using assms(2,6,7) inj [OF v n(1)] by (auto simp: incident_def)
    have head: "getRelationHead sc this s = Some (Some h, s1)"
      using assms(4) k(1) nz h(1) by (simp add: getRelationHead_def)
    have "updateRelation sc this r True s = Some (True, this', ?r, s')"
      unfolding updateRelation_def head assms(3) Let_def bind.bind_lunit prod.case option.case if_True
        s2_def [symmetric]
      using s'(1) side by (auto simp: upd_def split_beta)
    moreover have "frame sc s s'"
      using frame_rewind [OF h(2)] l2(2) l3(2) s'(3) by (blast intro: frame_trans)
    moreover have "linking sc es m
        (if v = fst (es ! m) \<and> last_ref sc es m v \<noteq> 0 then last_ref sc es m v else x)
        (if v \<noteq> fst (es ! m) \<and> last_ref sc es m v \<noteq> 0 then last_ref sc es m v else y)
        n vid (refs(sc := (refs sc)(v := rel_addr sc m))) s'"
      using s'(2) nz unfolding k(1) [symmetric] by (simp only: simp_thms)
    ultimately show thesis using ends by (intro that)
  qed
qed

end
