(* ===== verification/Graph_Store.thy ===== *)
theory Graph_Store
  imports Graph_Update
begin

text \<open>
  The abstract graph of a partition and its representation in the files. The abstract state is
  the list of node identifiers in the order of their blocks, and for each of the two scopes the
  list of edges in the order of insertion, as pairs of positions in that list. \<open>store_inv\<close> is
  the representation invariant; \<^verbatim>\<open>NodeManager::addLocalEdge\<close> and \<^verbatim>\<open>addCentralEdge\<close> implement the
  abstract operation \<open>graph_add_edge\<close>.
\<close>

record graph =
  g_ids :: "string list"
  g_edges :: "scope \<Rightarrow> (nat \<times> nat) list"

definition empty_graph :: graph where
  "empty_graph = \<lparr>g_ids = [], g_edges = (\<lambda>_. [])\<rparr>"

definition position :: "'a list \<Rightarrow> 'a \<Rightarrow> nat" where
  "position xs x = length (takeWhile (\<lambda>y. y \<noteq> x) xs)"

definition graph_add_node :: "string \<Rightarrow> graph \<Rightarrow> graph" where
  "graph_add_node i g = (if i \<in> set (g_ids g) then g else g\<lparr>g_ids := g_ids g @ [i]\<rparr>)"

definition graph_add_edge :: "scope \<Rightarrow> string \<times> string \<Rightarrow> graph \<Rightarrow> graph" where
  "graph_add_edge sc e g =
     (let g = graph_add_node (snd e) (graph_add_node (fst e) g);
          p = (position (g_ids g) (fst e), position (g_ids g) (snd e))
      in g\<lparr>g_edges := (g_edges g)(sc := g_edges g sc @ [p])\<rparr>)"

text \<open>An identifier that \<^verbatim>\<open>addNode\<close> can store: a number, short enough for the index key and for
  the label of the block.\<close>

definition valid_id :: "nat \<Rightarrow> string \<Rightarrow> bool" where
  "valid_id K i \<longleftrightarrow> NUL \<notin> set i \<and> length i < K \<and> length i < LABEL_SIZE \<and> stoul i \<noteq> None"

definition vertex_number :: "string \<Rightarrow> u32" where
  "vertex_number i = of_nat (the (stoul i))"

definition rel_inv :: "scope \<Rightarrow> (nat \<times> nat) list \<Rightarrow> native_store \<Rightarrow> bool" where
  "rel_inv sc es s \<longleftrightarrow>
     good (relDB sc s) \<and> nextRelationIndex sc s = of_nat (Suc (length es)) \<and>
     Suc (length es) * rel_size sc < 2 ^ 32 \<and>
     length (content (relDB sc s)) = (if es = [] then 0 else Suc (length es) * rel_size sc) \<and>
     (\<forall>k<length es. rel_ok sc es k (rel_block_at sc s k))"

text \<open>The index file has one entry per node, in the order of the node blocks.\<close>

definition index_bytes :: "nat \<Rightarrow> string list \<Rightarrow> bytes" where
  "index_bytes K ids = concat (map (\<lambda>(k, i). index_entry K i (of_nat k)) (enumerate 0 ids))"

definition index_inv :: "string list \<Rightarrow> node_manager \<Rightarrow> bool" where
  "index_inv ids nm \<longleftrightarrow>
     distinct ids \<and> (\<forall>i\<in>set ids. valid_id (INDEX_KEY_SIZE nm) i) \<and>
     nodeIndex nm = (\<lambda>i. if i \<in> set ids then Some (of_nat (position ids i)) else None) \<and>
     nextNodeIndex nm = of_nat (length ids) \<and> indexDB nm = index_bytes (INDEX_KEY_SIZE nm) ids"

definition graph_refs :: "graph \<Rightarrow> scope \<Rightarrow> nat \<Rightarrow> u32" where
  "graph_refs g sc v = last_ref sc (g_edges g sc) (length (g_edges g sc)) v"

definition store_inv :: "graph \<Rightarrow> node_manager \<Rightarrow> native_store \<Rightarrow> bool" where
  "store_inv g nm s \<longleftrightarrow>
     index_inv (g_ids g) nm \<and>
     node_file_is (length (g_ids g)) (\<lambda>i. vertex_number (g_ids g ! i)) (graph_refs g) s \<and>
     (\<forall>sc. rel_inv sc (g_edges g sc) s) \<and>
     (\<forall>sc. \<forall>e\<in>set (g_edges g sc). fst e < length (g_ids g) \<and> snd e < length (g_ids g))"

text \<open>Whether one more node or edge fits into the 32-bit addresses.\<close>

definition nodes_room :: "nat \<Rightarrow> graph \<Rightarrow> bool" where
  "nodes_room k g \<longleftrightarrow> (length (g_ids g) + k) * NodeBlock_BLOCK_SIZE < 2 ^ 32"

definition edges_room :: "scope \<Rightarrow> nat \<Rightarrow> graph \<Rightarrow> bool" where
  "edges_room sc k g \<longleftrightarrow> (Suc (length (g_edges g sc)) + k) * rel_size sc < 2 ^ 32"

definition type_image :: "bytes \<Rightarrow> bool" where
  "type_image img \<longleftrightarrow> length img = MAX_TYPE_SIZE \<and> NUL \<in> set img"

lemma position_less: "x \<in> set xs \<Longrightarrow> position xs x < length xs"
  unfolding position_def by (induction xs) auto

lemma nth_position: "x \<in> set xs \<Longrightarrow> xs ! position xs x = x"
  unfolding position_def by (induction xs) auto

lemma position_nth: "distinct xs \<Longrightarrow> i < length xs \<Longrightarrow> position xs (xs ! i) = i"
  by (metis nth_eq_iff_index_eq nth_mem nth_position position_less)

lemma position_append: "x \<in> set xs \<Longrightarrow> position (xs @ ys) x = position xs x"
  unfolding position_def by (induction xs) auto

lemma position_new: "x \<notin> set xs \<Longrightarrow> position (xs @ [x]) x = length xs"
  unfolding position_def by (induction xs) auto

lemma rel_ok_prefix: "k < length es \<Longrightarrow> rel_ok sc (es @ fs) k b = rel_ok sc es k b"
  by (simp add: rel_ok_def nth_append last_ref_cong [of k "es @ fs" es])

lemma last_ref_prefix: "k \<le> length es \<Longrightarrow> last_ref sc (es @ fs) k v = last_ref sc es k v"
  by (rule last_ref_cong) (simp add: nth_append)

lemma rel_inv_cong:
  assumes "content (relDB sc t) = content (relDB sc s)" "good (relDB sc t) = good (relDB sc s)"
    and "nextRelationIndex sc t = nextRelationIndex sc s"
  shows "rel_inv sc es t = rel_inv sc es s"
  using assms by (simp add: rel_inv_def)

lemma rel_inv_rewind: "rewind t = rewind s \<Longrightarrow> rel_inv sc es t = rel_inv sc es s"
  using rewind_fields(3-5) [of t s sc] by (intro rel_inv_cong) simp_all

lemma store_inv_rewind: "rewind t = rewind s \<Longrightarrow> store_inv g nm t = store_inv g nm s"
  using rel_inv_rewind [of t s] by (simp add: store_inv_def node_file_is_rewind [of t s])

subsection \<open>Writing the block of a new edge\<close>

definition new_relation_records :: "scope \<Rightarrow> node_block \<Rightarrow> node_block \<Rightarrow> bytes \<Rightarrow> bytes list" where
  "new_relation_records sc src dst img =
     [enc32 (nb_nodeId src), enc32 (nb_nodeId dst), enc32 (nb_addr src), enc32 (nb_addr dst),
      enc32 0, enc32 0, enc32 0, enc32 0, enc32 0, enc32 0, enc32 0, enc32 0, enc32 0]
     @ (if sc = Central then [enc32 0] else []) @ [img]"

lemma addRelation_records:
  "addRelation sc RelationBlock_of_nodes src dst img s =
     (let a = unat (nextRelationIndex sc s) * rel_size sc;
          (ok, f) = fwrite_checked (new_relation_records sc src dst img) (seek a (relDB sc s));
          s = set_relDB sc f s
      in if \<not> ok then Some (None, s)
         else do {
           let s = set_nextRelationIndex sc (nextRelationIndex sc s + 1) s;
           (r, s) \<leftarrow> RelationBlock_of_fields (of_nat a) (empty_node_relation\<lparr>nr_address := nb_addr src\<rparr>)
                     (empty_node_relation\<lparr>nr_address := nb_addr dst\<rparr>) 0 0 DEFAULT_TYPE s;
           Some (Some r, s)
         })"
  by (cases sc) (simp_all add: addRelation_def new_relation_records_def RelationBlock_of_nodes_def
      empty_node_relation_def Let_def split: prod.split del: fwrite_checked.simps)

definition new_relation_bytes :: "scope \<Rightarrow> node_block \<Rightarrow> node_block \<Rightarrow> bytes \<Rightarrow> bytes" where
  "new_relation_bytes sc src dst img =
     enc32 (nb_nodeId src) @ enc32 (nb_nodeId dst) @ enc32 (nb_addr src) @ enc32 (nb_addr dst) @
     enc32 0 @ enc32 0 @ enc32 0 @ enc32 0 @ enc32 0 @ enc32 0 @ enc32 0 @ enc32 0 @ enc32 0 @
     (if sc = Central then enc32 0 else []) @ img"

lemma new_relation_bytes_fields:
  assumes "type_image img" "nb_addr src = node_addr a" "nb_addr dst = node_addr b"
  shows "length (new_relation_bytes sc src dst img) = rel_size sc"
    and "rel_fields sc (a, b) 0 0 (new_relation_bytes sc src dst img)"
proof -
  have img: "length img = MAX_TYPE_SIZE" "NUL \<in> set img" using assms(1) by (simp_all add: type_image_def)
  then show "length (new_relation_bytes sc src dst img) = rel_size sc"
    by (cases sc) (simp_all add: new_relation_bytes_def rel_size_records)
  have "get_range (new_relation_bytes sc src dst img) (4 * rel_records sc) MAX_TYPE_SIZE = img"
    using img by (cases sc) (simp_all add: new_relation_bytes_def get_range_append_right)
  then show "rel_fields sc (a, b) 0 0 (new_relation_bytes sc src dst img)"
    using assms(2,3) img by (simp add: rel_fields_def) (simp add: new_relation_bytes_def block_simps)
qed

lemma write_new_relation:
  assumes "rel_inv sc es s" "Suc (Suc (length es)) * rel_size sc < 2 ^ 32"
    and "length bs = rel_size sc" "rel_fields sc e 0 0 bs"
    and "c = put_range (content (relDB sc s)) (Suc (length es) * rel_size sc) bs"
  shows "length c = Suc (Suc (length es)) * rel_size sc"
    and "\<And>k. k < length es \<Longrightarrow> rel_ok sc (es @ [e]) k (block (rel_size sc) c (Suc k))"
    and "rel_fields sc ((es @ [e]) ! length es) 0 0 (block (rel_size sc) c (Suc (length es)))"
proof -
  let ?B = "rel_size sc" and ?c = "content (relDB sc s)"
  have len: "length ?c \<le> Suc (length es) * ?B" using assms(1) by (simp add: rel_inv_def)
  then show "length c = Suc (Suc (length es)) * ?B"
    using assms(3) by (simp add: assms(5) max_def)
  show "rel_fields sc ((es @ [e]) ! length es) 0 0 (block ?B c (Suc (length es)))"
    using assms(3,4) by (simp add: assms(5) block_put_new del: mult_Suc)
  fix k assume k: "k < length es"
  have "length ?c = Suc (length es) * ?B" using assms(1) k by (auto simp: rel_inv_def)
  then have "Suc k * ?B + ?B \<le> length ?c" using k by (intro block_bound [of _ "Suc (length es)"]) auto
  then have "block ?B c (Suc k) = block ?B ?c (Suc k)"
    unfolding assms(5) using k assms(3) by (intro block_put_other [where j = "Suc (length es)"]) auto
  then show "rel_ok sc (es @ [e]) k (block ?B c (Suc k))"
    using assms(1) k by (simp add: rel_ok_prefix rel_inv_def)
qed

lemma addRelation_effect:
  assumes "rel_inv sc es s" "Suc (Suc (length es)) * rel_size sc < 2 ^ 32"
    and "node_file_is n vid refs s" "\<And>e. e \<in> set es \<Longrightarrow> fst e < n \<and> snd e < n" "a < n" "b < n"
    and "nb_addr src = node_addr a" "nb_addr dst = node_addr b" "type_image img"
  obtains r s' where "addRelation sc RelationBlock_of_nodes src dst img s = Some (Some r, s')"
    and "linking sc (es @ [(a, b)]) (length es) 0 0 n vid refs s'"
    and "frame sc (set_nextRelationIndex sc (of_nat (Suc (Suc (length es)))) s) s'"
    and "rb_addr r = rel_addr sc (length es)"
    and "nr_address (rb_source r) = node_addr a" "nr_address (rb_destination r) = node_addr b"
proof -
  let ?B = "rel_size sc" and ?f = "relDB sc s" and ?m = "length es"
  define bs where "bs = new_relation_bytes sc src dst img"
  note bs = new_relation_bytes_fields [OF assms(9,7,8), of sc, folded bs_def]
  define c where "c = put_range (content ?f) (Suc ?m * ?B) bs"
  note c = write_new_relation [OF assms(1,2) bs c_def]
  have good: "good ?f" and idx: "nextRelationIndex sc s = of_nat (Suc ?m)"
    and m32: "Suc ?m * ?B < 2 ^ 32" using assms(1) by (auto simp: rel_inv_def)
  have "Suc ?m * 1 \<le> Suc ?m * ?B" using rel_size_le(1) [of sc] by (intro mult_le_mono2) linarith
  then have "Suc ?m < 2 ^ 32" using m32 by (simp only: mult_1_right)
  then have un: "unat (nextRelationIndex sc s) = Suc ?m"
    unfolding idx unat_of_nat by simp
  define f where "f = ?f\<lparr>content := c, pos := Suc ?m * ?B + ?B\<rparr>"
  define s1 where "s1 = set_nextRelationIndex sc (of_nat (Suc (Suc ?m))) (set_relDB sc f s)"
  have wr: "fwrite_checked (new_relation_records sc src dst img) (seek (Suc ?m * ?B) ?f) = (True, f)"
    unfolding new_relation_records_def append_Cons using good bs(1)
    by (subst fwrite_checked_good)
      (auto simp: seek_def fwrite_def f_def c_def bs_def new_relation_bytes_def simp del: mult_Suc)
  have nf: "node_file_is n vid refs s1"
    using assms(3) node_file_is_cong [of s1 s] by (simp add: s1_def)
  have lk: "linking sc (es @ [(a, b)]) ?m 0 0 n vid refs s1"
    using c good assms(2,4-6) nf unfolding linking_def rel_file_def
    by (auto simp: s1_def f_def nth_append simp del: mult_Suc)
  obtain sb s2 where sb: "NodeBlock_get (node_addr a) s1 = Some (sb, s2)" "rewind s2 = rewind s1"
    using nodes_file_get(1) [of n s1 a] nf assms(5) by (auto simp: node_file_is_def)
  have "nodes_file n s2" using nf nodes_file_rewind [OF sb(2)] by (simp add: node_file_is_def)
  then obtain db s3 where db: "NodeBlock_get (node_addr b) s2 = Some (db, s3)" "rewind s3 = rewind s2"
    using nodes_file_get(1) [of n s2 b] assms(6) by auto
  have rw: "rewind s3 = rewind s1" using sb(2) db(2) by simp
  have "nextRelationIndex sc' s1 = nextRelationIndex sc' (set_nextRelationIndex sc (of_nat (Suc (Suc ?m))) s)" for sc'
    by (cases "sc' = sc") (simp_all add: s1_def)
  then have "frame sc (set_nextRelationIndex sc (of_nat (Suc (Suc ?m))) s) s1"
    unfolding frame_def by (simp add: s1_def)
  then have fr: "frame sc (set_nextRelationIndex sc (of_nat (Suc (Suc ?m))) s) s3"
    using frame_rewind [OF rw] by (rule frame_trans)
  define r where "r = \<lparr>rb_addr = of_nat (Suc ?m * ?B), rb_source = empty_node_relation\<lparr>nr_address := nb_addr src\<rparr>,
    rb_destination = empty_node_relation\<lparr>nr_address := nb_addr dst\<rparr>, propertyAddress = 0, metaPropertyAddress = 0,
    rb_type = DEFAULT_TYPE, sourceBlock = Some sb, destinationBlock = Some db\<rparr>"
  have nx: "nextRelationIndex sc (set_relDB sc f s) + 1 = of_nat (Suc (Suc ?m))" using idx by simp
  have "addRelation sc RelationBlock_of_nodes src dst img s = Some (Some r, s3)"
    using sb(1) db(1) assms(7,8) unfolding addRelation_records Let_def un wr prod.case
    by (simp add: nx [simplified] RelationBlock_of_fields_def r_def empty_node_relation_def
        s1_def [simplified, symmetric] del: mult_Suc)
  then show thesis
    using lk linking_rewind [OF rw] fr assms(7,8) by (intro that) (auto simp: r_def rel_addr_def)
qed

end
