(* ===== verification/Graph_Nodes.thy ===== *)
theory Graph_Nodes
  imports Graph_Store
begin

text \<open>
  \<^verbatim>\<open>NodeManager::addNode\<close>: on an identifier that is in the index it reads the node's block, on a
  new one it appends a block to the node file and an entry to the index file. Either way the
  result is the node of the identifier and the store represents the graph with the node.
\<close>

definition node_for :: "graph \<Rightarrow> string \<Rightarrow> node_block \<Rightarrow> bool" where
  "node_for g i nb \<longleftrightarrow>
     nb_addr nb = node_addr (position (g_ids g) i) \<and> nb_id nb = i \<and> nb_nodeId nb = vertex_number i \<and>
     (\<forall>sc. node_ref sc nb = graph_refs g sc (position (g_ids g) i))"

definition props_same :: "native_store \<Rightarrow> native_store \<Rightarrow> bool" where
  "props_same s t \<longleftrightarrow>
     nodeProps t = nodeProps s \<and> nodeMeta t = nodeMeta s \<and> edgeProps t = edgeProps s \<and> edgeMeta t = edgeMeta s"

lemma props_same_rewind: "rewind t = rewind s \<Longrightarrow> props_same s t"
  by (simp add: props_same_def rewind_fields [of t s])

lemma props_same_trans: "props_same s t \<Longrightarrow> props_same t u \<Longrightarrow> props_same s u"
  by (simp add: props_same_def)

lemma graph_add_node_simps [simp]:
  "g_edges (graph_add_node i g) = g_edges g"
  "set (g_ids (graph_add_node i g)) = insert i (set (g_ids g))"
  "graph_refs (graph_add_node i g) = graph_refs g"
  by (auto simp: graph_add_node_def graph_refs_def fun_eq_iff)

lemma last_ref_none: "(\<And>j. j < k \<Longrightarrow> \<not> incident v (es ! j)) \<Longrightarrow> last_ref sc es k v = 0"
  by (induction k) auto

lemma node_of_stored:
  assumes "store_inv g nm s" "i \<in> set (g_ids g)"
  obtains nb s' where "get_node nm i s = Some (Some nb, s')" "rewind s' = rewind s" "node_for g i nb"
    and "nb = node_of_block (node_addr (position (g_ids g) i)) i (node_block_at s (position (g_ids g) i))"
proof -
  let ?p = "position (g_ids g) i"
  have p: "?p < length (g_ids g)" "g_ids g ! ?p = i"
    using assms(2) by (simp_all add: position_less nth_position)
  have nf: "nodes_file (length (g_ids g)) s" and w: "word_at (node_block_at s ?p) 1 = vertex_number i"
      "word_at (node_block_at s ?p) 5 = graph_refs g Local ?p"
      "word_at (node_block_at s ?p) 9 = graph_refs g Central ?p"
    and idx: "nodeIndex nm i = Some (of_nat ?p)"
    using assms p by (auto simp: store_inv_def node_file_is_def index_inv_def)
  obtain s' where s': "get_by_index (of_nat ?p) i s = Some (node_of_block (node_addr ?p) i (node_block_at s ?p), s')"
    "rewind s' = rewind s" using nodes_file_get(2) [OF nf p(1)] by blast
  have "node_ref sc (node_of_block (node_addr ?p) i (node_block_at s ?p)) = graph_refs g sc ?p" for sc
    using w by (cases sc) (simp_all add: node_of_block_def)
  then have "node_for g i (node_of_block (node_addr ?p) i (node_block_at s ?p))"
    using w by (simp add: node_for_def) (simp add: node_of_block_def)
  then show thesis using s'(1) idx by (intro that [OF _ s'(2)]) (simp_all add: get_node_def)
qed

definition new_node_bytes :: "node_block \<Rightarrow> bytes" where
  "new_node_bytes nb =
     [usage_byte (nb_usage nb)] @ enc32 (nb_nodeId nb) @ enc32 (edgeRef nb) @ enc32 (centralEdgeRef nb) @
     [edgeRefPID nb] @ enc32 (propRef nb) @ enc32 (metaPropRef nb) @ strncpy_buf LABEL_SIZE (nb_id nb)"

lemma new_node_bytes_fields:
  assumes "NUL \<notin> set (nb_id nb)" "nb_id nb \<noteq> []"
  shows "length (new_node_bytes nb) = NodeBlock_BLOCK_SIZE" "label_ok (new_node_bytes nb)"
    and "word_at (new_node_bytes nb) 1 = nb_nodeId nb" "word_at (new_node_bytes nb) 5 = edgeRef nb"
    and "word_at (new_node_bytes nb) 9 = centralEdgeRef nb"
proof -
  show "length (new_node_bytes nb) = NodeBlock_BLOCK_SIZE"
    by (simp add: new_node_bytes_def NodeBlock_BLOCK_SIZE_def LABEL_SIZE_def)
  have "get_range (new_node_bytes nb) 22 LABEL_SIZE = strncpy_buf LABEL_SIZE (nb_id nb)"
    by (simp add: new_node_bytes_def get_range_append_right get_range_def LABEL_SIZE_def)
  moreover have "string_of_buf (strncpy_buf LABEL_SIZE (nb_id nb)) = Some (take (LABEL_SIZE - 1) (nb_id nb))"
    using assms(1) by (simp add: string_of_strncpy_buf c_str_id LABEL_SIZE_def)
  ultimately show "label_ok (new_node_bytes nb)"
    using assms(2) by (auto simp: label_ok_def string_of_buf_def LABEL_SIZE_def split: if_splits)
  show "word_at (new_node_bytes nb) 1 = nb_nodeId nb" "word_at (new_node_bytes nb) 5 = edgeRef nb"
    "word_at (new_node_bytes nb) 9 = centralEdgeRef nb"
    by (simp_all add: new_node_bytes_def word_at_def get_range_def)
qed

text \<open>\<^verbatim>\<open>save\<close> of a node whose identifier fits into the label.\<close>

lemma save_small:
  assumes "length (nb_id nb) < LABEL_SIZE" "good (nodesDB s)"
  defines "f \<equiv> nodesDB s"
  shows "save nb s = Some (nb\<lparr>nb_label := strncpy_buf LABEL_SIZE (nb_id nb)\<rparr>,
           s\<lparr>nodesDB := f\<lparr>content := put_range (content f) (unat (nb_addr nb)) (new_node_bytes nb),
                          pos := unat (nb_addr nb) + length (new_node_bytes nb)\<rparr>\<rparr>)"
  using assms
  by (simp add: save_def Let_def fwrite_fwrite seek_def new_node_bytes_def)
    (simp add: fwrite_def LABEL_SIZE_def)

text \<open>A block appended to the node file.\<close>

lemma append_node:
  assumes "node_file_is n vid refs s" "Suc n * NodeBlock_BLOCK_SIZE < 2 ^ 32"
    and "length bs = NodeBlock_BLOCK_SIZE" "label_ok bs" "word_at bs 1 = v" "word_at bs 5 = 0" "word_at bs 9 = 0"
    and "\<And>sc. refs sc n = 0"
  shows "node_file_is (Suc n) (vid(n := v)) refs
           (s\<lparr>nodesDB := (nodesDB s)\<lparr>content := put_range (content (nodesDB s)) (n * NodeBlock_BLOCK_SIZE) bs,
                                    pos := p\<rparr>\<rparr>)"
proof -
  let ?B = NodeBlock_BLOCK_SIZE and ?c = "content (nodesDB s)"
  define c where "c = put_range ?c (n * ?B) bs"
  have nf: "nodes_file n s" and len: "length ?c = n * ?B" and good: "good (nodesDB s)"
    using assms(1) by (simp_all add: node_file_is_def nodes_file_def)
  have lenc: "length c = Suc n * ?B" using len assms(3) by (simp add: c_def)
  have new: "block ?B c n = bs" unfolding c_def by (rule block_put_new [OF assms(3)])
  have old: "block ?B c j = node_block_at s j" if "j < n" for j
    unfolding c_def using that assms(3) block_bound [of j n ?B "length ?c"] len
    by (intro block_put_other [where j = n]) auto
  have "node_readable (block ?B c j) \<and> word_at (block ?B c j) 1 = (vid(n := v)) j \<and>
      word_at (block ?B c j) 5 = refs Local j \<and> word_at (block ?B c j) 9 = refs Central j" if "j < Suc n" for j
  proof (cases "j = n")
    case True
    then show ?thesis using new assms(4-8) by (simp add: node_readable_def)
  next
    case False
    then have "j < n" using that by simp
    then show ?thesis using assms(1) old [of j] by (simp add: node_file_is_def nodes_file_def)
  qed
  then show ?thesis using lenc good assms(2)
    unfolding node_file_is_def nodes_file_def by (simp add: c_def [symmetric])
qed

lemma index_inv_new:
  assumes "index_inv ids nm" "i \<notin> set ids" "valid_id (INDEX_KEY_SIZE nm) i"
  obtains nm' where "addNodeIndex i (nextNodeIndex nm) nm = Some nm'"
    and "index_inv (ids @ [i]) (nm'\<lparr>nextNodeIndex := nextNodeIndex nm' + 1\<rparr>)"
    and "INDEX_KEY_SIZE nm' = INDEX_KEY_SIZE nm" "nextNodeIndex nm' = nextNodeIndex nm"
    and "lockEdgeAdd nm' = lockEdgeAdd nm" "nextEdgeIndex nm' = nextEdgeIndex nm"
    and "edgeIndex nm' = edgeIndex nm" "edgeIndexDB nm' = edgeIndexDB nm"
proof -
  let ?K = "INDEX_KEY_SIZE nm"
  have i: "NUL \<notin> set i" "length i < ?K" using assms(3) by (simp_all add: valid_id_def)
  have buf: "strcpy_buf ?K i = Some (pad_to ?K i)"
    using i by (simp add: strcpy_buf_def c_str_id)
  have none: "nodeIndex nm i = None" using assms(1,2) by (simp add: index_inv_def)
  let ?nm = "nm\<lparr>nodeIndex := (nodeIndex nm)(i \<mapsto> nextNodeIndex nm),
                indexDB := indexDB nm @ pad_to ?K i @ enc32 (nextNodeIndex nm)\<rparr>"
  have "index_bytes ?K (ids @ [i]) = index_bytes ?K ids @ pad_to ?K i @ enc32 (of_nat (length ids))"
    by (simp add: index_bytes_def enumerate_append_eq index_entry_def)
  then have "index_inv (ids @ [i]) (?nm\<lparr>nextNodeIndex := nextNodeIndex ?nm + 1\<rparr>)"
    using assms by (auto simp: index_inv_def position_append position_new fun_eq_iff)
  then show thesis using buf none by (intro that [of ?nm]) (simp_all add: addNodeIndex_def)
qed

lemma stoul_nonempty: "stoul i \<noteq> None \<Longrightarrow> i \<noteq> []"
  by (auto simp: stoul_def scan_number_def)

lemma edges_below:
  assumes "\<forall>e\<in>set es. fst e < n \<and> snd e < n"
  shows "last_ref sc es (length es) n = 0"
proof (rule last_ref_none)
  fix j assume "j < length es"
  then have "es ! j \<in> set es" by simp
  then have "fst (es ! j) < n \<and> snd (es ! j) < n" using assms by blast
  then show "\<not> incident n (es ! j)" by (auto simp: incident_def)
qed

lemma addNode_new:
  assumes "store_inv g nm s" "i \<notin> set (g_ids g)" "valid_id (INDEX_KEY_SIZE nm) i" "nodes_room 1 g"
  obtains nb nm' s' where "addNode i nm s = Some (Some (nb, nm', s'))"
    and "store_inv (graph_add_node i g) nm' s'" "node_for (graph_add_node i g) i nb" "props_same s s'"
    and "INDEX_KEY_SIZE nm' = INDEX_KEY_SIZE nm" "lockEdgeAdd nm' = lockEdgeAdd nm"
    and "nextEdgeIndex nm' = nextEdgeIndex nm"
    and "edgeIndex nm' = edgeIndex nm" "edgeIndexDB nm' = edgeIndexDB nm"
proof -
  let ?n = "length (g_ids g)" and ?B = NodeBlock_BLOCK_SIZE
  have ii: "index_inv (g_ids g) nm"
    and nf: "node_file_is ?n (\<lambda>j. vertex_number (g_ids g ! j)) (graph_refs g) s"
    and rel: "\<And>sc. rel_inv sc (g_edges g sc) s"
    and bnd: "\<And>sc. \<forall>e\<in>set (g_edges g sc). fst e < ?n \<and> snd e < ?n"
    using assms(1) by (auto simp: store_inv_def)
  have i: "NUL \<notin> set i" "length i < LABEL_SIZE" "stoul i \<noteq> None"
    using assms(3) by (simp_all add: valid_id_def)
  obtain v where v: "stoul i = Some v" using i(3) by auto
  have small: "Suc ?n * ?B < 2 ^ 32" using assms(4) by (simp add: nodes_room_def del: mult_Suc)
  obtain nm1 where nm1: "addNodeIndex i (nextNodeIndex nm) nm = Some nm1"
      "index_inv (g_ids g @ [i]) (nm1\<lparr>nextNodeIndex := nextNodeIndex nm1 + 1\<rparr>)"
      "INDEX_KEY_SIZE nm1 = INDEX_KEY_SIZE nm" "lockEdgeAdd nm1 = lockEdgeAdd nm"
      "nextEdgeIndex nm1 = nextEdgeIndex nm" "edgeIndex nm1 = edgeIndex nm" "edgeIndexDB nm1 = edgeIndexDB nm"
    using index_inv_new [OF ii assms(2,3)] by metis
  define nb where "nb = setLabel (NodeBlock_new i (of_nat v) (node_addr ?n)) i"
  have nb: "nb_id nb = i" "nb_addr nb = node_addr ?n" "nb_nodeId nb = vertex_number i"
    "edgeRef nb = 0" "centralEdgeRef nb = 0"
    using v by (simp_all add: nb_def setLabel_def NodeBlock_new_def vertex_number_def)
  have addr: "nextNodeIndex nm * of_nat ?B = node_addr ?n"
    using ii by (simp add: index_inv_def node_addr_def)
  have un: "unat (node_addr ?n) = ?n * ?B" using small by (intro unat_node_addr) simp
  have "good (nodesDB s)" using nf by (simp add: node_file_is_def nodes_file_def)
  from save_small [OF _ this, of nb] i(2) nb obtain nb' p where sv: "save nb s = Some (nb',
      s\<lparr>nodesDB := (nodesDB s)\<lparr>content := put_range (content (nodesDB s)) (?n * ?B) (new_node_bytes nb),
                              pos := p\<rparr>\<rparr>)" (is "_ = Some (_, ?s)")
      "nb' = nb\<lparr>nb_label := strncpy_buf LABEL_SIZE i\<rparr>"
    by (simp add: un)
  note bytes = new_node_bytes_fields [of nb, unfolded nb(1), OF i(1) stoul_nonempty [OF i(3)]]
  have zero: "graph_refs g sc ?n = 0" for sc
    unfolding graph_refs_def using bnd by (rule edges_below)
  have "((\<lambda>j. vertex_number (g_ids g ! j))(?n := vertex_number i)) j = vertex_number ((g_ids g @ [i]) ! j)"
    if "j < Suc ?n" for j using that by (auto simp: nth_append less_Suc_eq)
  then have nf': "node_file_is (Suc ?n) (\<lambda>j. vertex_number ((g_ids g @ [i]) ! j)) (graph_refs g) ?s"
    using append_node [OF nf small bytes(1,2) _ _ _ zero, of "vertex_number i" p] bytes(3-5) nb
    by (simp add: node_file_is_def)
  have rel': "rel_inv sc (g_edges g sc) ?s" for sc using rel by (subst rel_inv_cong) simp_all
  have g': "graph_add_node i g = g\<lparr>g_ids := g_ids g @ [i]\<rparr>" using assms(2) by (simp add: graph_add_node_def)
  show thesis
  proof (rule that)
    show "addNode i nm s = Some (Some (nb', nm1\<lparr>nextNodeIndex := nextNodeIndex nm1 + 1\<rparr>, ?s))"
      using ii assms(2) v nm1(1) sv(1) addr by (simp add: addNode_def index_inv_def nb_def [symmetric])
    show "store_inv (graph_add_node i g) (nm1\<lparr>nextNodeIndex := nextNodeIndex nm1 + 1\<rparr>) ?s"
      using nm1(2) nf' rel' bnd unfolding store_inv_def g'
      by (auto simp: graph_refs_def [abs_def] less_Suc_eq)
    have "node_ref sc nb' = 0" for sc using nb sv(2) by (cases sc) simp_all
    then show "node_for (graph_add_node i g) i nb'"
      using nb sv(2) zero assms(2) by (simp add: node_for_def g' position_new graph_refs_def)
  qed (simp_all add: props_same_def nm1)
qed

lemma addNode_effect:
  assumes "store_inv g nm s" "valid_id (INDEX_KEY_SIZE nm) i" "nodes_room 1 g"
  obtains nb nm' s' where "addNode i nm s = Some (Some (nb, nm', s'))"
    and "store_inv (graph_add_node i g) nm' s'" "node_for (graph_add_node i g) i nb" "props_same s s'"
    and "INDEX_KEY_SIZE nm' = INDEX_KEY_SIZE nm" "lockEdgeAdd nm' = lockEdgeAdd nm"
    and "nextEdgeIndex nm' = nextEdgeIndex nm"
    and "edgeIndex nm' = edgeIndex nm" "edgeIndexDB nm' = edgeIndexDB nm"
proof (cases "i \<in> set (g_ids g)")
  case True
  obtain nb s' where nb: "get_node nm i s = Some (Some nb, s')" "rewind s' = rewind s" "node_for g i nb"
    using node_of_stored [OF assms(1) True] by blast
  have "nodeIndex nm i \<noteq> None" using assms(1) True by (auto simp: store_inv_def index_inv_def)
  then have "addNode i nm s = Some (Some (nb, nm, s'))" using nb(1) by (auto simp: addNode_def)
  moreover have "graph_add_node i g = g" using True by (simp add: graph_add_node_def)
  ultimately show thesis
    using that nb(3) assms(1) store_inv_rewind [OF nb(2)] props_same_rewind [OF nb(2)] by simp
next
  case False
  then show thesis using addNode_new [OF assms(1) _ assms(2,3)] that by metis
qed

end
