(* ===== verification/Property_Maps.thy ===== *)
theory Property_Maps
  imports Relation_Block
begin

text \<open>
  The property lists as finite maps: what the four \<^verbatim>\<open>insert\<close> functions do to the map of a list,
  what \<^verbatim>\<open>getAllProperties\<close> returns, and how the property reference of a node object moves.
\<close>

lemma collect_props_chain:
  assumes step: "\<And>l t. nxt l t = (if nextPropAddress l \<noteq> 0
      then map_option (\<lambda>(l, t). (Some l, t)) (read_link N (nextPropAddress l) t) else Some (None, t))"
    and "good (pdb s)" "chain N (content (pdb s)) a (l # ls)" "\<forall>k\<in>set (l # ls). NUL \<in> set (pl_value k)"
  shows "\<exists>p. collect_props nxt (Some l) m s = Some (props (l # ls) ++ m, moved s p)"
  using assms(2-4)
proof (induction ls arbitrary: a l m s)
  case Nil
  have "nxt l s = Some (None, s)" using Nil.prems(2) by (simp add: step)
  then have "collect_props nxt (Some l) m s = Some (props [l] ++ m, s)"
    using Nil.prems(3)
    by (subst collect_props.simps)
      (auto simp: collect_props.simps [of nxt None] string_of_buf_def props_def fun_eq_iff map_add_def split: option.splits)
  moreover have "s = moved s (pos (pdb s))" by (simp add: moved_def)
  ultimately show ?case by metis
next
  case (Cons k ks)
  let ?t = "moved s (unat (blockAddress k) + block_size N)"
  define m' where "m' = (case m (pl_name l) of Some _ \<Rightarrow> m | None \<Rightarrow> m(pl_name l \<mapsto> c_str (pl_value l)))"
  have k: "nextPropAddress l \<noteq> 0" "link_at N (content (pdb s)) (nextPropAddress l) = Some k"
    "blockAddress k = nextPropAddress l"
    using Cons.prems(2) by (auto simp: aligned_def link_at_blockAddress)
  then have "nxt l s = Some (Some k, ?t)"
    using read_link_link_at [OF Cons.prems(1) k(2)] by (simp add: step)
  then have "collect_props nxt (Some l) m s = collect_props nxt (Some k) m' ?t"
    using Cons.prems(3) by (subst collect_props.simps) (auto simp: string_of_buf_def m'_def split: option.splits)
  moreover obtain p where "collect_props nxt (Some k) m' ?t = Some (props (k # ks) ++ m', moved ?t p)"
    using Cons.IH [of ?t "nextPropAddress l" k m'] Cons.prems by auto
  moreover have "props (k # ks) ++ m' = props (l # k # ks) ++ m"
    by (auto simp: m'_def props_def fun_eq_iff map_add_def split: option.splits)
  ultimately show ?case by auto
qed

lemma PropertyLink_next_read:
  "PropertyLink_next l t = (if nextPropAddress l \<noteq> 0
      then map_option (\<lambda>(l, t). (Some l, t)) (read_link PropertyLink_MAX_NAME_SIZE (nextPropAddress l) t)
      else Some (None, t))"
  by (simp add: PropertyLink_next_def PropertyLink_new_def word_gt_0)

lemma PropertyEdgeLink_next_read:
  "PropertyEdgeLink_next l t = (if nextPropAddress l \<noteq> 0
      then map_option (\<lambda>(l, t). (Some l, t)) (read_link PropertyLink_MAX_NAME_SIZE (nextPropAddress l) t)
      else Some (None, t))"
  by (simp add: PropertyEdgeLink_next_def PropertyEdgeLink_new_def)

lemma strcpy_buf_name:
  assumes "NUL \<notin> set n" "length n < k"
  shows "strcpy_buf k n = Some (pad_to k n)" "string_of_buf (pad_to k n) = Some n"
  using assms by (simp_all add: strcpy_buf_def string_of_buf_def c_str_id c_str_pad_to NUL_in_pad_to)

lemma strncpy_buf_name:
  assumes "NUL \<notin> set n" "length n < k"
  shows "string_of_buf (strncpy_buf k n) = Some n"
  using assms by (simp add: string_of_strncpy_buf c_str_id)

lemma memcpy_value_full: "length v = MAX_VALUE_SIZE \<Longrightarrow> memcpy_value v = Some v"
  by (simp add: memcpy_value_def)

lemma strncpy_value_text:
  "NUL \<in> set v \<Longrightarrow> \<exists>w. strncpy_value v = Some w \<and> c_str w = take (MAX_VALUE_SIZE - 1) (c_str v)"
  by (simp add: strncpy_value_def c_str_pad_to NUL_notin_take_c_str)

text \<open>A property reference: 0 for no properties, otherwise the address of the first link.\<close>

lemma getAllProperties_chain:
  assumes "pdb_inv PropertyLink_MAX_NAME_SIZE (nodeProps s)"
    and "chain PropertyLink_MAX_NAME_SIZE (content (pdb (nodeProps s))) (propRef this) ls"
    and "\<forall>k\<in>set ls. NUL \<in> set (pl_value k)"
  shows "\<exists>p. getAllProperties this s = Some (props ls, s\<lparr>nodeProps := moved (nodeProps s) p\<rparr>)"
proof (cases ls)
  case Nil
  have "s = s\<lparr>nodeProps := moved (nodeProps s) (pos (pdb (nodeProps s)))\<rparr>" by (simp add: moved_def)
  moreover have "getAllProperties this s = Some (props ls, s)"
    using Nil assms(2) by (simp add: getAllProperties_def getPropertyHead_def PropertyLink_get_def
        collect_props.simps props_def)
  ultimately show ?thesis by metis
next
  case (Cons l ks)
  have good: "good (pdb (nodeProps s))" using assms(1) by (simp add: pdb_inv_def)
  define t where "t = moved (nodeProps s) (unat (propRef this) + block_size PropertyLink_MAX_NAME_SIZE)"
  have t: "good (pdb t)" "chain PropertyLink_MAX_NAME_SIZE (content (pdb t)) (propRef this) (l # ks)"
    using good assms(2) Cons by (simp_all add: t_def)
  obtain p where "collect_props PropertyLink_next (Some l) Map.empty t = Some (props ls, moved t p)"
    using collect_props_chain [OF PropertyLink_next_read t, of Map.empty] assms(3) Cons by auto
  moreover have "PropertyLink_get (propRef this) (nodeProps s) = Some (Some l, t)"
    unfolding t_def using good assms(2) Cons by (intro node_props.get_chain [where ls = ks]) simp_all
  ultimately have "getAllProperties this s = Some (props ls, s\<lparr>nodeProps := moved (nodeProps s) p\<rparr>)"
    by (simp add: getAllProperties_def getPropertyHead_def t_def)
  then show ?thesis by blast
qed

subsection \<open>A file with one property\<close>

definition sample_link :: "nat \<Rightarrow> property_link" where
  "sample_link N = \<lparr>pl_name = ''a'', pl_value = pad_to MAX_VALUE_SIZE ''x'',
     blockAddress = of_nat (block_size N), nextPropAddress = 0\<rparr>"

definition sample_pdb :: "nat \<Rightarrow> property_db" where
  "sample_pdb N =
     \<lparr>pdb = open_stream (replicate (block_size N) NUL @ pad_to N ''a'' @ pad_to MAX_VALUE_SIZE ''x'' @ enc32 0),
      nextPropertyIndex = 2, createLock = False, insertLock = False\<rparr>"

lemma c_str_samples [simp]: "c_str ''a'' = ''a''" "c_str ''x'' = ''x''" "c_str ''y'' = ''y''"
  by (simp_all add: c_str_def)

lemma c_str_pad_samples [simp]:
  "c_str (pad_to k ''a'') = ''a''" "c_str (pad_to k ''x'') = ''x''" "c_str (pad_to k ''y'') = ''y''"
  by (simp_all add: c_str_pad_to)

lemma sample_pdb_chain:
  assumes "N \<in> {30, 12}"
  shows "pdb_inv N (sample_pdb N)" "pdb_room N (sample_pdb N)"
    and "chain N (content (pdb (sample_pdb N))) (of_nat (block_size N)) [sample_link N]"
proof -
  show "pdb_inv N (sample_pdb N)" "pdb_room N (sample_pdb N)"
    using assms by (auto simp: pdb_inv_def pdb_room_def sample_pdb_def open_stream_def block_size_def MAX_VALUE_SIZE_def)
  have un: "unat (of_nat (block_size N) :: u32) = block_size N"
    using assms by (auto simp: block_size_def MAX_VALUE_SIZE_def)
  have "dec32 (enc32 0) = 0" by simp
  moreover have "string_of_buf (pad_to N ''a'') = Some ''a''"
    using assms by (auto simp: string_of_buf_def NUL_in_pad_to)
  ultimately have "link_at N (content (pdb (sample_pdb N))) (of_nat (block_size N)) = Some (sample_link N)"
    using assms by (auto simp: link_at_def un sample_pdb_def open_stream_def sample_link_def block_size_def
        get_range_append_right get_range_append_left MAX_VALUE_SIZE_def)
  then show "chain N (content (pdb (sample_pdb N))) (of_nat (block_size N)) [sample_link N]"
    using un assms by (auto simp: aligned_def sample_link_def block_size_def)
qed

lemma sample_props: "props [sample_link N] = [''a'' \<mapsto> ''x'']"
  by (simp add: props_def sample_link_def)

text \<open>A store whose only file with content is a property file of two linked properties.\<close>

definition sample_links :: "property_link list" where
  "sample_links =
     [\<lparr>pl_name = ''a'', pl_value = pad_to MAX_VALUE_SIZE ''x'', blockAddress = 434, nextPropAddress = 868\<rparr>,
      \<lparr>pl_name = ''b'', pl_value = pad_to MAX_VALUE_SIZE ''y'', blockAddress = 868, nextPropAddress = 0\<rparr>]"

definition sample_store :: native_store where
  "sample_store =
     \<lparr>nodesDB = fresh_stream,
      nodeProps = \<lparr>pdb = open_stream (replicate 434 NUL
                     @ pad_to 30 ''a'' @ pad_to MAX_VALUE_SIZE ''x'' @ enc32 868
                     @ pad_to 30 ''b'' @ pad_to MAX_VALUE_SIZE ''y'' @ enc32 0),
                   nextPropertyIndex = 3, createLock = False, insertLock = False\<rparr>,
      nodeMeta = empty_pdb, edgeProps = empty_pdb, edgeMeta = empty_pdb, relationsDB = fresh_stream,
      centralRelationsDB = fresh_stream, nextLocalRelationIndex = 1, nextCentralRelationIndex = 1\<rparr>"

definition sample_node :: node_block where
  "sample_node = (NodeBlock_new ''7'' 7 0)\<lparr>propRef := 434\<rparr>"

lemma string_of_pad_samples:
  "1 < k \<Longrightarrow> string_of_buf (pad_to k ''a'') = Some ''a''" "1 < k \<Longrightarrow> string_of_buf (pad_to k ''b'') = Some ''b''"
  by (simp_all add: string_of_buf_def NUL_in_pad_to c_str_pad_to)

lemma sample_store_chain:
  "pdb_inv 30 (nodeProps sample_store)" "pdb_room 30 (nodeProps sample_store)"
  "chain 30 (content (pdb (nodeProps sample_store))) (propRef sample_node) sample_links"
proof -
  show "pdb_inv 30 (nodeProps sample_store)" "pdb_room 30 (nodeProps sample_store)"
    by (simp_all add: pdb_inv_def pdb_room_def sample_store_def open_stream_def block_size_def MAX_VALUE_SIZE_def)
  have "link_at 30 (content (pdb (nodeProps sample_store))) 434 = Some (hd sample_links)"
    "link_at 30 (content (pdb (nodeProps sample_store))) 868 = Some (last sample_links)"
    by (simp_all add: link_at_def sample_store_def open_stream_def sample_links_def block_size_def
        get_range_append_right get_range_append_left MAX_VALUE_SIZE_def string_of_pad_samples)
  then show "chain 30 (content (pdb (nodeProps sample_store))) (propRef sample_node) sample_links"
    by (simp add: sample_links_def sample_node_def aligned_def block_size_def MAX_VALUE_SIZE_def)
qed

lemma sample_links_facts:
  "props sample_links = [''a'' \<mapsto> ''x'', ''b'' \<mapsto> ''y'']" "length sample_links = 2" "sample_links \<noteq> []"
  "\<forall>k\<in>set sample_links. NUL \<in> set (pl_value k)" "pl_name (last sample_links) = ''b''"
  by (simp_all add: sample_links_def props_def NUL_in_pad_to MAX_VALUE_SIZE_def fun_eq_iff)

lemmas sample_facts = sample_pdb_chain [of 30, simplified] sample_pdb_chain [of 12, simplified]

subsection \<open>Inserting\<close>

text \<open>
  C32. \<^verbatim>\<open>PropertyLink::insert\<close> on the list of a node: it returns, keeps the file well formed, and
  the map of the list gets the new name with its value; the value of a name that is already
  there is kept (the comment above the function announces an update). No other list of the file changes.
\<close>

theorem PropertyLink_insert_map:
  assumes "pdb_inv PropertyLink_MAX_NAME_SIZE s" "pdb_room PropertyLink_MAX_NAME_SIZE s"
    and "chain PropertyLink_MAX_NAME_SIZE (content (pdb s)) a ls" "ls \<noteq> []"
    and "NUL \<notin> set n" "length n < PropertyLink_MAX_NAME_SIZE" "length v = MAX_VALUE_SIZE"
  shows "\<exists>r s' ls'. PropertyLink_insert (hd ls) n v s = Some (r, s') \<and>
    pdb_inv PropertyLink_MAX_NAME_SIZE s' \<and> chain PropertyLink_MAX_NAME_SIZE (content (pdb s')) a ls' \<and>
    props ls' = (if n \<in> dom (props ls) then props ls else (props ls)(n \<mapsto> c_str v)) \<and>
    (\<forall>d ks. chain PropertyLink_MAX_NAME_SIZE (content (pdb s)) d ks \<longrightarrow>
       blockAddress ` set ks \<inter> blockAddress ` set ls = {} \<longrightarrow>
       chain PropertyLink_MAX_NAME_SIZE (content (pdb s')) d ks)"
  using node_props.insert_keeps [OF assms(1-4) strcpy_buf_name [OF assms(5,6)] memcpy_value_full [OF assms(7)]]
  by (elim exE conjE) (intro exI conjI)

theorem PropertyLink_insert_map_witness:
  "\<exists>r s' ls'. PropertyLink_insert (sample_link 30) ''b'' (pad_to MAX_VALUE_SIZE ''y'') (sample_pdb 30) = Some (r, s') \<and>
    chain 30 (content (pdb s')) (of_nat (block_size 30)) ls' \<and> props ls' = [''a'' \<mapsto> ''x'', ''b'' \<mapsto> ''y'']"
  using PropertyLink_insert_map [of "sample_pdb 30" "of_nat (block_size 30)" "[sample_link 30]" "''b''" "pad_to MAX_VALUE_SIZE ''y''"] sample_facts
  by (auto simp: PropertyLink_MAX_NAME_SIZE_def MAX_VALUE_SIZE_def sample_props NUL_in_pad_to)

text \<open>
  \<^verbatim>\<open>MetaPropertyLink::insert\<close> on the list of a node: the same, but the value of a name that is
  already there is replaced.
\<close>

lemma MetaPropertyLink_insert_map:
  assumes "pdb_inv MetaPropertyLink_MAX_NAME_SIZE s" "pdb_room MetaPropertyLink_MAX_NAME_SIZE s"
    and "chain MetaPropertyLink_MAX_NAME_SIZE (content (pdb s)) a ls" "ls \<noteq> []"
    and "NUL \<notin> set n" "length n < MetaPropertyLink_MAX_NAME_SIZE" "length v = MAX_VALUE_SIZE"
  shows "\<exists>r s' ls'. MetaPropertyLink_insert (hd ls) n v s = Some (r, s') \<and>
    pdb_inv MetaPropertyLink_MAX_NAME_SIZE s' \<and> chain MetaPropertyLink_MAX_NAME_SIZE (content (pdb s')) a ls' \<and>
    props ls' = (props ls)(n \<mapsto> c_str v) \<and>
    (\<forall>d ks. chain MetaPropertyLink_MAX_NAME_SIZE (content (pdb s)) d ks \<longrightarrow>
       blockAddress ` set ks \<inter> blockAddress ` set ls = {} \<longrightarrow>
       chain MetaPropertyLink_MAX_NAME_SIZE (content (pdb s')) d ks)"
  using node_meta_props.insert_overwrites
    [OF assms(1-4) strcpy_buf_name [OF assms(5,6)] memcpy_value_full [OF assms(7)]]
  by (elim exE conjE) (intro exI conjI)

text \<open>
  \<^verbatim>\<open>PropertyEdgeLink::insert\<close> on the list of an edge keeps the value of a name that is there; a
  new value is stored up to its terminator and cut at 399 characters.
\<close>

lemma PropertyEdgeLink_insert_map:
  assumes "pdb_inv PropertyLink_MAX_NAME_SIZE s" "pdb_room PropertyLink_MAX_NAME_SIZE s"
    and "chain PropertyLink_MAX_NAME_SIZE (content (pdb s)) a ls" "ls \<noteq> []"
    and "NUL \<notin> set n" "length n < PropertyLink_MAX_NAME_SIZE" "NUL \<in> set v"
  shows "\<exists>r s' ls'. PropertyEdgeLink_insert (hd ls) n v s = Some (r, s') \<and>
    pdb_inv PropertyLink_MAX_NAME_SIZE s' \<and> chain PropertyLink_MAX_NAME_SIZE (content (pdb s')) a ls' \<and>
    props ls' = (if n \<in> dom (props ls) then props ls
                 else (props ls)(n \<mapsto> take (MAX_VALUE_SIZE - 1) (c_str v))) \<and>
    (\<forall>d ks. chain PropertyLink_MAX_NAME_SIZE (content (pdb s)) d ks \<longrightarrow>
       blockAddress ` set ks \<inter> blockAddress ` set ls = {} \<longrightarrow>
       chain PropertyLink_MAX_NAME_SIZE (content (pdb s')) d ks)"
proof -
  obtain w where w: "strncpy_value v = Some w" "c_str w = take (MAX_VALUE_SIZE - 1) (c_str v)"
    using strncpy_value_text [OF assms(7)] by blast
  show ?thesis unfolding w(2) [symmetric]
    using edge_props.insert_keeps [OF assms(1-4) refl strncpy_buf_name [OF assms(5,6)] w(1)]
    by (elim exE conjE) (intro exI conjI)
qed

text \<open>
  \<^verbatim>\<open>MetaPropertyEdgeLink::insert\<close> on the list of an edge replaces the value of a name that is
  there and appends a name that is not.
\<close>

theorem MetaPropertyEdgeLink_insert_map:
  assumes "pdb_inv MetaPropertyLink_MAX_NAME_SIZE s" "pdb_room MetaPropertyLink_MAX_NAME_SIZE s"
    and "chain MetaPropertyLink_MAX_NAME_SIZE (content (pdb s)) a ls" "ls \<noteq> []"
    and "NUL \<notin> set n" "length n < MetaPropertyLink_MAX_NAME_SIZE" "length v = MAX_VALUE_SIZE"
  shows "\<exists>r s' ls'. MetaPropertyEdgeLink_insert (hd ls) n v s = Some (r, s') \<and>
    pdb_inv MetaPropertyLink_MAX_NAME_SIZE s' \<and> chain MetaPropertyLink_MAX_NAME_SIZE (content (pdb s')) a ls' \<and>
    props ls' = (props ls)(n \<mapsto> c_str v) \<and>
    (\<forall>d ks. chain MetaPropertyLink_MAX_NAME_SIZE (content (pdb s)) d ks \<longrightarrow>
       blockAddress ` set ks \<inter> blockAddress ` set ls = {} \<longrightarrow>
       chain MetaPropertyLink_MAX_NAME_SIZE (content (pdb s')) d ks)"
  using edge_meta_props.insert_overwrites
    [OF assms(1-4) strcpy_buf_name [OF assms(5,6)] memcpy_value_full [OF assms(7)]]
  by (elim exE conjE) (intro exI conjI)

theorem MetaPropertyEdgeLink_insert_map_witness:
  "\<exists>r s' ls'. MetaPropertyEdgeLink_insert (sample_link 12) ''b'' (pad_to MAX_VALUE_SIZE ''y'') (sample_pdb 12) = Some (r, s') \<and>
    chain 12 (content (pdb s')) (of_nat (block_size 12)) ls' \<and> props ls' = [''a'' \<mapsto> ''x'', ''b'' \<mapsto> ''y'']"
  using MetaPropertyEdgeLink_insert_map [of "sample_pdb 12" "of_nat (block_size 12)" "[sample_link 12]" "''b''" "pad_to MAX_VALUE_SIZE ''y''"] sample_facts
  by (auto simp: MetaPropertyLink_MAX_NAME_SIZE_def MAX_VALUE_SIZE_def sample_props NUL_in_pad_to)

subsection \<open>The properties of a node\<close>

lemma addProperty_insert:
  assumes "pdb_inv PropertyLink_MAX_NAME_SIZE (nodeProps s)"
    and "chain PropertyLink_MAX_NAME_SIZE (content (pdb (nodeProps s))) (propRef this) ls" "ls \<noteq> []"
    and "PropertyLink_insert (hd ls) n v
           (moved (nodeProps s) (unat (propRef this) + block_size PropertyLink_MAX_NAME_SIZE)) = Some (r, ps)"
  shows "addProperty this n v s = Some (this\<lparr>propRef := r\<rparr>, s\<lparr>nodeProps := ps\<rparr>)"
proof -
  obtain l ks where ls: "ls = l # ks" using assms(3) by (cases ls) auto
  have "propRef this \<noteq> 0" "good (pdb (nodeProps s))" using assms(1,2) ls by (auto simp: aligned_def pdb_inv_def)
  then show ?thesis
    using node_props.get_chain [of "nodeProps s" "propRef this" l ks] assms(2,4) ls
    by (simp add: addProperty_def getPropertyHead_def)
qed


text \<open>
  \<^verbatim>\<open>addProperty\<close> on either branch: the list that the node's block refers to afterwards, at address \<open>a\<close>, has the
  new map. Only a node without properties gets a new reference, which is written into its block.
\<close>

lemma addProperty_effect:
  assumes "pdb_inv PropertyLink_MAX_NAME_SIZE (nodeProps s)" "pdb_room PropertyLink_MAX_NAME_SIZE (nodeProps s)"
    and "chain PropertyLink_MAX_NAME_SIZE (content (pdb (nodeProps s))) (propRef this) ls"
    and "\<forall>k\<in>set ls. NUL \<in> set (pl_value k)"
    and "NUL \<notin> set n" "length n < PropertyLink_MAX_NAME_SIZE" "length v = MAX_VALUE_SIZE" "NUL \<in> set v"
  obtains this' s' a ls' where "addProperty this n v s = Some (this', s')"
    and "pdb_inv PropertyLink_MAX_NAME_SIZE (nodeProps s')"
    and "chain PropertyLink_MAX_NAME_SIZE (content (pdb (nodeProps s'))) a ls'"
    and "\<forall>k\<in>set ls'. NUL \<in> set (pl_value k)"
    and "props ls' = (if n \<in> dom (props ls) then props ls else (props ls)(n \<mapsto> c_str v))"
    and "\<And>d ks. chain PropertyLink_MAX_NAME_SIZE (content (pdb (nodeProps s))) d ks \<Longrightarrow>
      blockAddress ` set ks \<inter> blockAddress ` set ls = {} \<Longrightarrow>
      chain PropertyLink_MAX_NAME_SIZE (content (pdb (nodeProps s'))) d ks"
    and "propRef this \<noteq> 0 \<and> a = propRef this \<and> nodesDB s' = nodesDB s \<or>
      propRef this = 0 \<and> nodesDB s' = fwrite (enc32 a) (seek (unat (nb_addr this) + propRef_offset) (nodesDB s))"
proof (cases ls)
  case Nil
  let ?N = PropertyLink_MAX_NAME_SIZE
  obtain ps where ps: "PropertyLink_create n v (nodeProps s) = Some (Some (fresh_link ?N (nodeProps s) n v), ps)" "pdb_inv ?N ps"
      "chain ?N (content (pdb ps)) (new_address ?N (nodeProps s)) [fresh_link ?N (nodeProps s) n v]"
      "\<And>d ks. chain ?N (content (pdb (nodeProps s))) d ks \<Longrightarrow> chain ?N (content (pdb ps)) d ks"
    using node_props.create_chain [OF assms(1,2) strcpy_buf_name [OF assms(5,6)] memcpy_value_full [OF assms(7)]] by metis
  show thesis
    by (rule that [of "this\<lparr>propRef := new_address ?N (nodeProps s)\<rparr>" "s\<lparr>nodeProps := ps, nodesDB := fwrite (enc32 (new_address ?N (nodeProps s)))
        (seek (unat (nb_addr this) + propRef_offset) (nodesDB s))\<rparr>" "new_address ?N (nodeProps s)" "[fresh_link ?N (nodeProps s) n v]"])
      (use ps assms(3,8) Nil in \<open>simp_all add: addProperty_def fresh_link_def props_def\<close>)
next
  case (Cons l ks)
  let ?N = PropertyLink_MAX_NAME_SIZE
  let ?t = "moved (nodeProps s) (unat (propRef this) + block_size ?N)"
  have t: "pdb_inv ?N ?t" "pdb_room ?N ?t" "chain ?N (content (pdb ?t)) (propRef this) ls" "ls \<noteq> []"
    using assms(1-3) Cons by simp_all
  obtain r ps ls' where ps: "PropertyLink_insert (hd ls) n v ?t = Some (r, ps)" "pdb_inv ?N ps"
      "chain ?N (content (pdb ps)) (propRef this) ls'"
      "props ls' = (if n \<in> dom (props ls) then props ls else (props ls)(n \<mapsto> c_str v))"
      "\<forall>d ks. chain ?N (content (pdb ?t)) d ks \<longrightarrow> blockAddress ` set ks \<inter> blockAddress ` set ls = {} \<longrightarrow>
        chain ?N (content (pdb ps)) d ks"
      "pl_value ` set ls' \<subseteq> {v} \<union> pl_value ` set ls"
    using node_props.insert_keeps [OF t strcpy_buf_name [OF assms(5,6)] memcpy_value_full [OF assms(7)]]
    by (elim exE conjE)
  have vals: "\<forall>k\<in>set ls'. NUL \<in> set (pl_value k)" using ps(6) assms(4,8) by auto
  have ref: "propRef this \<noteq> 0" using assms(3) Cons by (auto simp: aligned_def)
  show thesis
    by (rule that [OF addProperty_insert [OF assms(1,3) t(4) ps(1)], of "propRef this" ls'])
      (use ps(2-5) vals ref in simp_all)
qed

text \<open>
  \<^verbatim>\<open>addProperty\<close> assigns the result of \<^verbatim>\<open>insert\<close> to the reference of the node object, and \<^verbatim>\<open>insert\<close>
  returns the address of the old last link: with two or more properties the object loses its
  head. Listing the properties through the same object then gives the old last one and the new
  one only.
\<close>

theorem addProperty_loses_head:
  assumes "pdb_inv PropertyLink_MAX_NAME_SIZE (nodeProps s)" "pdb_room PropertyLink_MAX_NAME_SIZE (nodeProps s)"
    and "chain PropertyLink_MAX_NAME_SIZE (content (pdb (nodeProps s))) (propRef this) ls" "2 \<le> length ls"
    and "\<forall>k\<in>set ls. NUL \<in> set (pl_value k)" "n \<notin> dom (props ls)"
    and "NUL \<notin> set n" "length n < PropertyLink_MAX_NAME_SIZE" "length v = MAX_VALUE_SIZE" "NUL \<in> set v"
  shows "\<exists>this' s' m s''. addProperty this n v s = Some (this', s') \<and> propRef this' \<noteq> propRef this \<and>
    getAllProperties this' s' = Some (m, s'') \<and> dom m = {pl_name (last ls), n}"
proof -
  let ?N = PropertyLink_MAX_NAME_SIZE
  let ?t = "moved (nodeProps s) (unat (propRef this) + block_size ?N)"
  have t: "pdb_inv ?N ?t" "pdb_room ?N ?t" "chain ?N (content (pdb ?t)) (propRef this) ls"
    using assms(1-3) by simp_all
  have ne: "ls \<noteq> []" and fresh: "n \<notin> pl_name ` set ls" using assms(4,6) by (auto simp: dom_props)
  obtain ps ls' where ps: "PropertyLink_insert (hd ls) n v ?t = Some (blockAddress (last ls), ps)" "pdb_inv ?N ps"
      "chain ?N (content (pdb ps)) (propRef this) ls'"
      "map blockAddress ls' = map blockAddress ls @ [new_address ?N ?t]"
      "map pl_name ls' = map pl_name ls @ [n]" "map pl_value ls' = map pl_value ls @ [v]"
    using node_props.insert_new
      [OF t ne strcpy_buf_name [OF assms(7,8)] memcpy_value_full [OF assms(9)] fresh] by metis
  obtain ks l where ls: "ls = ks @ [l]" using ne by (cases ls rule: rev_cases) auto
  obtain js k j where ls': "ls' = js @ [k, j]" "map blockAddress js = map blockAddress ks"
      "blockAddress k = blockAddress l" "pl_name k = pl_name l" "pl_name j = n" "pl_value k = pl_value l" "pl_value j = v"
  proof -
    from ps(4) obtain js k j where 1: "ls' = js @ [k, j]" "map blockAddress ks = map blockAddress js"
        "blockAddress l = blockAddress k" unfolding ls by (auto simp: map_eq_append_conv)
    have "pl_name k = pl_name l" "pl_name j = n" "pl_value k = pl_value l" "pl_value j = v"
      using ps(5,6) 1(1) ls by simp_all
    then show thesis using that [of js k j] 1 by simp
  qed
  have ch: "chain ?N (content (pdb ps)) (blockAddress (last ls)) [k, j]"
    using chain_suffix [of ?N _ "propRef this" js k "[j]"] ps(3) ls' ls by simp
  let ?s = "s\<lparr>nodeProps := ps\<rparr>" and ?this = "this\<lparr>propRef := blockAddress (last ls)\<rparr>"
  have "\<exists>p. getAllProperties ?this ?s = Some (props [k, j], ?s\<lparr>nodeProps := moved (nodeProps ?s) p\<rparr>)"
    by (rule getAllProperties_chain) (use ps(2) ch ls' assms(5,10) ls in auto)
  moreover have "dom (props [k, j]) = {pl_name (last ls), n}" using ls' ls by (auto simp: dom_props)
  moreover have "blockAddress (last ls) \<noteq> propRef this"
  proof -
    obtain h hs where h: "ls = h # hs" using ne by (cases ls) auto
    have "blockAddress h = propRef this" using assms(3) h by (auto intro: link_at_blockAddress)
    moreover have "distinct (map blockAddress ls)" using chain_distinct [OF assms(3)] .
    ultimately show ?thesis using h assms(4) by (cases hs rule: rev_cases) auto
  qed
  ultimately show ?thesis using addProperty_insert [OF assms(1,3) ne ps(1)] by fastforce
qed

theorem addProperty_loses_head_witness:
  "\<exists>this' s' m s''. addProperty sample_node ''c'' (pad_to MAX_VALUE_SIZE ''x'') sample_store = Some (this', s') \<and>
    propRef this' \<noteq> 434 \<and> getAllProperties this' s' = Some (m, s'') \<and> dom m = {''b'', ''c''}"
  using addProperty_loses_head [of sample_store sample_node sample_links "''c''" "pad_to MAX_VALUE_SIZE ''x''"]
    sample_store_chain sample_links_facts
  by (auto simp: PropertyLink_MAX_NAME_SIZE_def MAX_VALUE_SIZE_def NUL_in_pad_to sample_node_def)

end
