(* ===== verification/Block_Roundtrips.thy ===== *)
theory Block_Roundtrips
  imports Graph_Nodes Property_Maps
begin

text \<open>
  Writing and reading back single blocks: nodes (\<^verbatim>\<open>save\<close> and \<^verbatim>\<open>get\<close>), relationship types, and the
  property head of an edge that has no properties.
\<close>

lemma new_node_bytes_more:
  "get_range (new_node_bytes nb) 0 1 = [usage_byte (nb_usage nb)]"
  "get_range (new_node_bytes nb) 13 1 = [edgeRefPID nb]"
  "word_at (new_node_bytes nb) 14 = propRef nb" "word_at (new_node_bytes nb) 18 = metaPropRef nb"
  "get_range (new_node_bytes nb) 22 LABEL_SIZE = strncpy_buf LABEL_SIZE (nb_id nb)"
  by (simp_all add: new_node_bytes_def word_at_def get_range_def LABEL_SIZE_def)

lemma pad_c_str_strncpy: "pad_to LABEL_SIZE (c_str (strncpy_buf LABEL_SIZE s)) = strncpy_buf LABEL_SIZE s"
  by (simp add: strncpy_buf_def c_str_pad_to NUL_notin_take_c_str)

text \<open>
  \<^verbatim>\<open>NodeBlock::save\<close> then \<^verbatim>\<open>NodeBlock::get\<close> at the same address: every field of a node whose identifier
  fits into the label comes back, except that the identifier of the object read is the decimal
  text of the vertex number.
\<close>

theorem save_get_node:
  assumes "good (nodesDB s)" "nb_addr nb = node_addr i" "i * NodeBlock_BLOCK_SIZE < 2 ^ 32"
    and "NUL \<notin> set (nb_id nb)" "nb_id nb \<noteq> []" "length (nb_id nb) < LABEL_SIZE"
    and "unat (edgeRef nb) mod RelationBlock_BLOCK_SIZE = 0"
  shows "\<exists>nb' s' s''. save nb s = Some (nb', s') \<and> nb' = nb\<lparr>nb_label := strncpy_buf LABEL_SIZE (nb_id nb)\<rparr> \<and>
    NodeBlock_get (nb_addr nb) s' = Some (nb'\<lparr>nb_id := to_string (unat (nb_nodeId nb))\<rparr>, s'')"
proof -
  let ?bs = "new_node_bytes nb" and ?B = NodeBlock_BLOCK_SIZE
  define s' where "s' = s\<lparr>nodesDB := (nodesDB s)\<lparr>content := put_range (content (nodesDB s)) (i * ?B) ?bs,
                          pos := i * ?B + length ?bs\<rparr>\<rparr>"
  have sv: "save nb s = Some (nb\<lparr>nb_label := strncpy_buf LABEL_SIZE (nb_id nb)\<rparr>, s')"
    using save_small [OF assms(6,1)] assms(2) unat_node_addr [OF assms(3)] by (simp add: s'_def)
  note bytes = new_node_bytes_fields [OF assms(4,5)]
  have blk: "?bs = node_block_at s' i" using bytes(1) by (simp add: s'_def block_put_new)
  have ok: "node_readable ?bs" using bytes(2,4) assms(7) by (simp add: node_readable_def)
  have "i * ?B + ?B \<le> length (content (nodesDB s'))" using bytes(1) by (simp add: s'_def)
  from NodeBlock_get_block [OF _ assms(3) this blk ok] assms(1)
  obtain s'' where "NodeBlock_get (node_addr i) s' =
      Some (node_of_block (node_addr i) (to_string (unat (nb_nodeId nb))) ?bs, s'')"
    using bytes(3) by (auto simp: s'_def)
  moreover have "node_of_block (node_addr i) (to_string (unat (nb_nodeId nb))) ?bs =
      nb\<lparr>nb_label := strncpy_buf LABEL_SIZE (nb_id nb), nb_id := to_string (unat (nb_nodeId nb))\<rparr>"
    unfolding node_of_block_def bytes(3-5) new_node_bytes_more pad_c_str_strncpy using assms(2)
    by (simp add: usage_byte_def)
  ultimately show ?thesis using sv assms(2) by auto
qed

definition blank_store :: native_store where
  "blank_store = sample_store\<lparr>nodeProps := empty_pdb\<rparr>"

theorem save_get_node_witness:
  "\<exists>nb' s' s''. save (NodeBlock_new ''12'' 12 140) blank_store = Some (nb', s') \<and>
    NodeBlock_get 140 s' = Some (nb'\<lparr>nb_id := to_string 12\<rparr>, s'')"
  using save_get_node [of blank_store "NodeBlock_new ''12'' 12 140" 1]
  by (auto simp: blank_store_def sample_store_def fresh_stream_def NodeBlock_new_def node_addr_def
      NodeBlock_BLOCK_SIZE_def LABEL_SIZE_def)

subsection \<open>Properties through the node's block\<close>

text \<open>The node's block after its property reference was written.\<close>

lemma nodes_file_propRef:
  assumes "nodes_file count s" "i < count"
    and "nodesDB s' = fwrite (enc32 a) (seek (unat (node_addr i) + propRef_offset) (nodesDB s))"
  shows "nodes_file count s'" "word_at (node_block_at s' i) 14 = a" "\<And>j. j < count \<Longrightarrow> j \<noteq> i \<Longrightarrow> node_block_at s' j = node_block_at s j"
proof -
  let ?B = NodeBlock_BLOCK_SIZE and ?c = "content (nodesDB s)"
  have f: "good (nodesDB s)" "length ?c = count * ?B" "count * ?B < 2 ^ 32" "\<forall>j<count. node_readable (node_block_at s j)"
    using assms(1) by (simp_all add: nodes_file_def)
  have bound: "j * ?B + ?B \<le> length ?c" if "j < count" for j
    using that f(2) mult_le_mono1 [of "Suc j" count ?B] by simp
  have addr: "unat (node_addr i) = i * ?B" using bound [OF assms(2)] f(2,3) by (intro unat_node_addr) simp
  have s': "nodesDB s' = (nodesDB s)\<lparr>content := put_range ?c (i * ?B + 14) (enc32 a), pos := i * ?B + 14 + 4\<rparr>"
    using f(1) by (simp add: assms(3) fwrite_def seek_def addr propRef_offset_def)
  have same: "node_block_at s' i = put_range (node_block_at s i) 14 (enc32 a)"
    unfolding s' using bound [OF assms(2)] by (simp add: block_put_same NodeBlock_BLOCK_SIZE_def)
  show other: "node_block_at s' j = node_block_at s j" if "j < count" "j \<noteq> i" for j
    unfolding s' using bound [OF that(1)] that(2) by (simp add: block_put_other [of i] NodeBlock_BLOCK_SIZE_def)
  have len: "length (node_block_at s i) = ?B" by (rule length_block) (rule bound [OF assms(2)])
  show "word_at (node_block_at s' i) 14 = a" by (simp add: same word_at_put_same)
  have "node_readable (node_block_at s' i)"
    unfolding same using f(4) assms(2) len
    by (simp add: node_readable_def label_ok_def word_at_put_other get_put_after NodeBlock_BLOCK_SIZE_def)
  then have "node_readable (node_block_at s' j)" if "j < count" for j
    using that other [OF that] f(4) by (cases "j = i") auto
  then show "nodes_file count s'"
    using f bound [OF assms(2)] by (simp add: nodes_file_def s' NodeBlock_BLOCK_SIZE_def)
qed

lemma nodes_file_same: "nodes_file count s \<Longrightarrow> nodesDB s' = (nodesDB s)\<lparr>pos := p\<rparr> \<Longrightarrow> nodes_file count s'"
  by (simp add: nodes_file_def)

lemma nodes_file_ref:
  assumes "nodes_file count s" "i < count" "r = word_at (node_block_at s i) 14"
    and "r \<noteq> 0 \<and> a = r \<and> nodesDB s' = nodesDB s \<or>
      r = 0 \<and> nodesDB s' = fwrite (enc32 a) (seek (unat (node_addr i) + propRef_offset) (nodesDB s))"
  shows "nodes_file count s'" "word_at (node_block_at s' i) 14 = a" "\<forall>j<count. j \<noteq> i \<longrightarrow> node_block_at s' j = node_block_at s j"
proof -
  have "nodes_file count s' \<and> word_at (node_block_at s' i) 14 = a \<and> (\<forall>j<count. j \<noteq> i \<longrightarrow> node_block_at s' j = node_block_at s j)"
    using assms(4)
  proof
    assume "r \<noteq> 0 \<and> a = r \<and> nodesDB s' = nodesDB s"
    then show ?thesis using assms(1,3) by (simp add: nodes_file_def)
  next
    assume "r = 0 \<and> nodesDB s' = fwrite (enc32 a) (seek (unat (node_addr i) + propRef_offset) (nodesDB s))"
    with nodes_file_propRef [OF assms(1,2)] show ?thesis by blast
  qed
  then show "nodes_file count s'" "word_at (node_block_at s' i) 14 = a" "\<forall>j<count. j \<noteq> i \<longrightarrow> node_block_at s' j = node_block_at s j"
    by blast+
qed

lemma nodes_file_get_moved:
  assumes "nodes_file count s" "i < count"
  shows "NodeBlock_get (node_addr i) s = Some (node_of_block (node_addr i) (to_string (unat (word_at (node_block_at s i) 1))) (node_block_at s i),
    s\<lparr>nodesDB := (nodesDB s)\<lparr>pos := i * NodeBlock_BLOCK_SIZE + NodeBlock_BLOCK_SIZE\<rparr>\<rparr>)"
proof -
  have "i * NodeBlock_BLOCK_SIZE + NodeBlock_BLOCK_SIZE \<le> count * NodeBlock_BLOCK_SIZE"
    using assms(2) mult_le_mono1 [of "Suc i" count NodeBlock_BLOCK_SIZE] by simp
  then show ?thesis
    using assms by (intro NodeBlock_get_moved) (simp_all add: nodes_file_def)
qed

text \<open>
  C33. \<^verbatim>\<open>NodeBlock::addProperty\<close> and the files. A node is read from the node file, a property is added to the
  object, and the node is read again: its properties are then the properties that the files held for it, with
  the new one added; the value of a name that was there is kept. This holds for a node without properties,
  whose block gets a reference to a new list, and for a node with any number of them. The blocks of the other
  nodes and the lists of properties that share no link with it do not change.
\<close>

theorem addProperty_read_back:
  assumes "nodes_file count s" "i < count"
    and "pdb_inv PropertyLink_MAX_NAME_SIZE (nodeProps s)" "pdb_room PropertyLink_MAX_NAME_SIZE (nodeProps s)"
    and "chain PropertyLink_MAX_NAME_SIZE (content (pdb (nodeProps s))) (word_at (node_block_at s i) 14) ls"
    and "\<forall>k\<in>set ls. NUL \<in> set (pl_value k)"
    and "NUL \<notin> set n" "length n < PropertyLink_MAX_NAME_SIZE" "length v = MAX_VALUE_SIZE" "NUL \<in> set v"
  shows "\<exists>this s0 this' s1 this'' s2 s3. NodeBlock_get (node_addr i) s = Some (this, s0) \<and>
    addProperty this n v s0 = Some (this', s1) \<and> NodeBlock_get (node_addr i) s1 = Some (this'', s2) \<and>
    getAllProperties this'' s2 = Some (if n \<in> dom (props ls) then props ls else (props ls)(n \<mapsto> c_str v), s3) \<and>
    (\<forall>j<count. j \<noteq> i \<longrightarrow> node_block_at s1 j = node_block_at s j) \<and>
    (\<forall>d ks. chain PropertyLink_MAX_NAME_SIZE (content (pdb (nodeProps s))) d ks \<longrightarrow>
       blockAddress ` set ks \<inter> blockAddress ` set ls = {} \<longrightarrow>
       chain PropertyLink_MAX_NAME_SIZE (content (pdb (nodeProps s1))) d ks)"
proof -
  let ?N = PropertyLink_MAX_NAME_SIZE
  note get = nodes_file_get_moved [OF assms(1,2)]
  define this where "this = node_of_block (node_addr i) (to_string (unat (word_at (node_block_at s i) 1))) (node_block_at s i)"
  define s0 where "s0 = s\<lparr>nodesDB := (nodesDB s)\<lparr>pos := i * NodeBlock_BLOCK_SIZE + NodeBlock_BLOCK_SIZE\<rparr>\<rparr>"
  have s0: "nodes_file count s0" "nodeProps s0 = nodeProps s" "node_block_at s0 j = node_block_at s j" for j
    using nodes_file_same [OF assms(1)] by (simp_all add: s0_def)
  have fields: "propRef this = word_at (node_block_at s i) 14" "nb_addr this = node_addr i" by (simp_all add: this_def node_of_block_def)
  have pre: "pdb_inv ?N (nodeProps s0)" "pdb_room ?N (nodeProps s0)" "chain ?N (content (pdb (nodeProps s0))) (propRef this) ls"
    using assms(3-5) by (simp_all add: s0(2) fields)
  obtain this' s1 a ls' where add: "addProperty this n v s0 = Some (this', s1)" and inv: "pdb_inv ?N (nodeProps s1)"
    and ch: "chain ?N (content (pdb (nodeProps s1))) a ls'" and vals: "\<forall>k\<in>set ls'. NUL \<in> set (pl_value k)"
    and map: "props ls' = (if n \<in> dom (props ls) then props ls else (props ls)(n \<mapsto> c_str v))"
    and lists: "\<And>d ks. chain ?N (content (pdb (nodeProps s0))) d ks \<Longrightarrow> blockAddress ` set ks \<inter> blockAddress ` set ls = {} \<Longrightarrow>
      chain ?N (content (pdb (nodeProps s1))) d ks"
    and ref: "propRef this \<noteq> 0 \<and> a = propRef this \<and> nodesDB s1 = nodesDB s0 \<or>
      propRef this = 0 \<and> nodesDB s1 = fwrite (enc32 a) (seek (unat (nb_addr this) + propRef_offset) (nodesDB s0))"
    by (rule addProperty_effect [OF pre assms(6-10)], rule that)
  have s1: "nodes_file count s1" "word_at (node_block_at s1 i) 14 = a" "\<forall>j<count. j \<noteq> i \<longrightarrow> node_block_at s1 j = node_block_at s j"
    using nodes_file_ref [OF s0(1) assms(2), of "propRef this" a s1] ref s0(3) fields by auto
  let ?t = "node_of_block (node_addr i) (to_string (unat (word_at (node_block_at s1 i) 1))) (node_block_at s1 i)"
  let ?s2 = "s1\<lparr>nodesDB := (nodesDB s1)\<lparr>pos := i * NodeBlock_BLOCK_SIZE + NodeBlock_BLOCK_SIZE\<rparr>\<rparr>"
  have "\<exists>p. getAllProperties ?t ?s2 = Some (props ls', ?s2\<lparr>nodeProps := moved (nodeProps ?s2) p\<rparr>)"
    by (rule getAllProperties_chain) (use inv ch vals s1(2) in \<open>simp_all add: node_of_block_def\<close>)
  then obtain p where "getAllProperties ?t ?s2 = Some (props ls', ?s2\<lparr>nodeProps := moved (nodeProps ?s2) p\<rparr>)" by blast
  moreover have others: "\<forall>d ks. chain ?N (content (pdb (nodeProps s))) d ks \<longrightarrow> blockAddress ` set ks \<inter> blockAddress ` set ls = {} \<longrightarrow>
      chain ?N (content (pdb (nodeProps s1))) d ks"
    using lists [unfolded s0(2)] by simp
  ultimately have "NodeBlock_get (node_addr i) s = Some (this, s0) \<and> addProperty this n v s0 = Some (this', s1) \<and>
      NodeBlock_get (node_addr i) s1 = Some (?t, ?s2) \<and>
      getAllProperties ?t ?s2 = Some (if n \<in> dom (props ls) then props ls else (props ls)(n \<mapsto> c_str v), ?s2\<lparr>nodeProps := moved (nodeProps ?s2) p\<rparr>) \<and>
      (\<forall>j<count. j \<noteq> i \<longrightarrow> node_block_at s1 j = node_block_at s j) \<and>
      (\<forall>d ks. chain ?N (content (pdb (nodeProps s))) d ks \<longrightarrow> blockAddress ` set ks \<inter> blockAddress ` set ls = {} \<longrightarrow>
        chain ?N (content (pdb (nodeProps s1))) d ks)"
    using get [folded this_def s0_def] add nodes_file_get_moved [OF s1(1) assms(2)] s1(3) unfolding map by (intro conjI)
  then show ?thesis by (intro exI)
qed

definition property_store :: "u32 \<Rightarrow> native_store" where
  "property_store a = sample_store\<lparr>nodesDB := open_stream (new_node_bytes ((NodeBlock_new ''7'' 7 0)\<lparr>propRef := a\<rparr>))\<rparr>"

lemma property_store_facts:
  "nodes_file 1 (property_store a)" "word_at (node_block_at (property_store a) 0) 14 = a" "nodeProps (property_store a) = nodeProps sample_store"
proof -
  let ?nb = "(NodeBlock_new ''7'' 7 0)\<lparr>propRef := a\<rparr>"
  have id: "NUL \<notin> set (nb_id ?nb)" "nb_id ?nb \<noteq> []" by (simp_all add: NodeBlock_new_def)
  note bytes = new_node_bytes_fields [OF id]
  have blk: "node_block_at (property_store a) 0 = new_node_bytes ?nb"
    using bytes(1) by (simp add: property_store_def open_stream_def block_def get_range_def)
  show "word_at (node_block_at (property_store a) 0) 14 = a" unfolding blk by (simp add: new_node_bytes_more)
  have "node_readable (new_node_bytes ?nb)"
    using bytes(2,4) by (simp add: node_readable_def NodeBlock_new_def)
  then show "nodes_file 1 (property_store a)"
    using blk bytes(1) by (simp add: nodes_file_def property_store_def open_stream_def NodeBlock_BLOCK_SIZE_def)
qed (simp add: property_store_def)

theorem addProperty_read_back_witness:
  "(\<exists>this s0 this' s1 this'' s2 s3. NodeBlock_get 0 (property_store 434) = Some (this, s0) \<and>
      addProperty this ''c'' (pad_to MAX_VALUE_SIZE ''x'') s0 = Some (this', s1) \<and> NodeBlock_get 0 s1 = Some (this'', s2) \<and>
      getAllProperties this'' s2 = Some ([''a'' \<mapsto> ''x'', ''b'' \<mapsto> ''y'', ''c'' \<mapsto> ''x''], s3)) \<and>
    (\<exists>this s0 this' s1 this'' s2 s3. NodeBlock_get 0 (property_store 0) = Some (this, s0) \<and>
      addProperty this ''c'' (pad_to MAX_VALUE_SIZE ''x'') s0 = Some (this', s1) \<and> NodeBlock_get 0 s1 = Some (this'', s2) \<and>
      getAllProperties this'' s2 = Some ([''c'' \<mapsto> ''x''], s3))"
proof -
  let ?v = "pad_to MAX_VALUE_SIZE ''x''"
  have v: "NUL \<notin> set ''c''" "length ''c'' < PropertyLink_MAX_NAME_SIZE" "length ?v = MAX_VALUE_SIZE" "NUL \<in> set ?v" "node_addr 0 = 0"
    by (simp_all add: PropertyLink_MAX_NAME_SIZE_def MAX_VALUE_SIZE_def NUL_in_pad_to node_addr_def)
  have N: "PropertyLink_MAX_NAME_SIZE = 30" by (simp add: PropertyLink_MAX_NAME_SIZE_def)
  have "chain 30 (content (pdb (nodeProps (property_store 434)))) (word_at (node_block_at (property_store 434) 0) 14) sample_links"
    "chain 30 (content (pdb (nodeProps (property_store 0)))) (word_at (node_block_at (property_store 0) 0) 14) []"
    using sample_store_chain(3) by (simp_all add: property_store_facts sample_node_def)
  note ch = this [folded N]
  have "\<exists>this s0 this' s1 this'' s2 s3. NodeBlock_get 0 (property_store 434) = Some (this, s0) \<and>
      addProperty this ''c'' ?v s0 = Some (this', s1) \<and> NodeBlock_get 0 s1 = Some (this'', s2) \<and>
      getAllProperties this'' s2 = Some ([''a'' \<mapsto> ''x'', ''b'' \<mapsto> ''y'', ''c'' \<mapsto> ''x''], s3)"
    using addProperty_read_back [OF property_store_facts(1) _ _ _ ch(1) _ v(1-4)] sample_store_chain(1,2) sample_links_facts v(5)
    by (simp add: property_store_facts(3) N) blast
  moreover have "\<exists>this s0 this' s1 this'' s2 s3. NodeBlock_get 0 (property_store 0) = Some (this, s0) \<and>
      addProperty this ''c'' ?v s0 = Some (this', s1) \<and> NodeBlock_get 0 s1 = Some (this'', s2) \<and>
      getAllProperties this'' s2 = Some ([''c'' \<mapsto> ''x''], s3)"
    using addProperty_read_back [OF property_store_facts(1) _ _ _ ch(2) _ v(1-4)] sample_store_chain(1,2) v(5)
    by (simp add: property_store_facts(3) N props_def) blast
  ultimately show ?thesis by blast
qed

subsection \<open>Relationship types\<close>

lemma type_buffer_text:
  assumes "NUL \<notin> set t" "length t < MAX_TYPE_SIZE" "MAX_TYPE_SIZE \<le> length tail"
  shows "length (type_buffer t tail) = MAX_TYPE_SIZE" "string_of_buf (type_buffer t tail) = Some t"
proof -
  show "length (type_buffer t tail) = MAX_TYPE_SIZE" using assms by (simp add: type_buffer_def)
  obtain rest where "type_buffer t tail = t @ NUL # rest"
    using assms(2) by (cases "MAX_TYPE_SIZE - length t") (auto simp: type_buffer_def)
  moreover have "\<And>x. x \<in> set t \<Longrightarrow> x \<noteq> NUL" using assms(1) by auto
  ultimately show "string_of_buf (type_buffer t tail) = Some t"
    by (simp add: string_of_buf_def c_str_def takeWhile_append2)
qed

lemma type_position:
  assumes "unat (rb_addr r) < 2 ^ 31 - 100"
  shows "sint (rb_addr r) = int (unat (rb_addr r))" "k \<le> 56 \<Longrightarrow> unat (rb_addr r + of_nat k) = unat (rb_addr r) + k"
proof -
  have u: "uint (rb_addr r) = int (unat (rb_addr r))" by (rule uint_nat)
  have small: "signed_take_bit 31 (int n) = int n" if "n < 2 ^ 31" for n
    using that by (intro signed_take_bit_int_eq_self) simp_all
  have "sint (rb_addr r) = signed_take_bit 31 (uint (rb_addr r))" by (simp add: sint_uint)
  also have "\<dots> = int (unat (rb_addr r))"
    unfolding u using assms by (intro small) simp
  finally show "sint (rb_addr r) = int (unat (rb_addr r))" .
  show "unat (rb_addr r + of_nat k) = unat (rb_addr r) + k" if "k \<le> 56"
  proof -
    have "unat (of_nat k :: u32) = k" using that by (simp add: unat_of_nat)
    then show ?thesis using assms that by (subst unat_add_lem [THEN iffD1]) simp_all
  qed
qed

lemma getRelationshipType_read:
  assumes "unat (rb_addr r) < 2 ^ 31 - 100" "good (relDB sc u)" "p = unat (rb_addr r) + 4 * type_offset sc"
    and "p + MAX_TYPE_SIZE \<le> length (content (relDB sc u))"
  shows "getRelationshipType sc r u =
    map_option (\<lambda>t. (t, set_relDB sc ((relDB sc u)\<lparr>pos := p + MAX_TYPE_SIZE\<rparr>) u))
      (string_of_buf (get_range (content (relDB sc u)) p MAX_TYPE_SIZE))"
proof -
  obtain n where n: "unat (rb_addr r) = n" "sint (rb_addr r) = int n" using type_position(1) [OF assms(1)] by blast
  have o: "4 * type_offset sc \<le> 56"
    by (cases sc) (simp_all add: LOCAL_RELATIONSHIP_TYPE_OFFSET_def CENTRAL_RELATIONSHIP_TYPE_OFFSET_def)
  have "int n + int (type_offset sc * RECORD_SIZE) = int p"
    using assms(3) n(1) by (simp add: RECORD_SIZE_def)
  moreover have "int p < 2 ^ 31" using assms(1,3) n(1) o by simp
  ultimately show ?thesis using assms(2,4) n(2)
    by (simp add: getRelationshipType_def Let_def seek_signed_def seek_def fread_def not_le split: option.split)
qed

text \<open>
  \<^verbatim>\<open>addCentralRelationshipType\<close> then \<^verbatim>\<open>getCentralRelationshipType\<close>: a type of fewer than 100 characters
  given to a central relation that still has the default type is read back. (\<open>tail\<close> stands for
  the bytes behind the type's text, which the copy includes.)
\<close>

theorem central_type_roundtrip:
  assumes "good (centralRelationsDB s)" "rb_type r = DEFAULT_TYPE" "unat (rb_addr r) < 2 ^ 31 - 100"
    and "NUL \<notin> set t" "length t < MAX_TYPE_SIZE" "MAX_TYPE_SIZE \<le> length tail"
  shows "\<exists>s'. getCentralRelationshipType r (addCentralRelationshipType r t tail s) = Some (t, s')"
proof -
  let ?p = "unat (rb_addr r) + 56" and ?f = "centralRelationsDB s" and ?b = "type_buffer t tail"
  note b = type_buffer_text [OF assms(4-6)]
  have w: "addCentralRelationshipType r t tail s =
      s\<lparr>centralRelationsDB := ?f\<lparr>content := put_range (content ?f) ?p ?b, pos := ?p + MAX_TYPE_SIZE\<rparr>\<rparr>"
    using assms(1,2) b(1) type_position(2) [OF assms(3), of 56]
    by (simp add: addCentralRelationshipType_def updateCentralRelationshipType_def RECORD_SIZE_def
        CENTRAL_RELATIONSHIP_TYPE_OFFSET_def seek_def fwrite_def Let_def)
  have "get_range (put_range (content ?f) ?p ?b) ?p MAX_TYPE_SIZE = ?b"
    using b(1) by (simp add: get_put_inside)
  then show ?thesis
    using assms(1) b unfolding w getCentralRelationshipType_def
    by (subst getRelationshipType_read [OF assms(3) _ refl])
      (simp_all add: CENTRAL_RELATIONSHIP_TYPE_OFFSET_def)
qed

theorem central_type_roundtrip_witness:
  "\<exists>s'. getCentralRelationshipType (RelationBlock_of_nodes\<lparr>rb_addr := 156\<rparr>)
     (addCentralRelationshipType (RelationBlock_of_nodes\<lparr>rb_addr := 156\<rparr>) ''KNOWS'' (replicate 100 NUL) blank_store)
     = Some (''KNOWS'', s')"
  using central_type_roundtrip [of blank_store "RelationBlock_of_nodes\<lparr>rb_addr := 156\<rparr>" "''KNOWS''" "replicate 100 NUL"]
  by (simp add: blank_store_def sample_store_def fresh_stream_def RelationBlock_of_nodes_def MAX_TYPE_SIZE_def)

text \<open>
  C37. \<^verbatim>\<open>addLocalRelationshipType\<close> positions the central stream and writes to the local one. Unless the
  local stream happens to stand at the type field, the type is lost: with the stream anywhere
  before the field and out of its way, \<^verbatim>\<open>getLocalRelationshipType\<close> returns what it returned before,
  while 100 bytes at the stream's position are overwritten.
\<close>

theorem local_type_is_lost:
  assumes "good (relationsDB s)" "rb_type r = DEFAULT_TYPE" "unat (rb_addr r) < 2 ^ 31 - 100"
    and "NUL \<notin> set t" "length t < MAX_TYPE_SIZE" "MAX_TYPE_SIZE \<le> length tail"
    and "pos (relationsDB s) + MAX_TYPE_SIZE \<le> unat (rb_addr r) + 52"
    and "unat (rb_addr r) + 52 + MAX_TYPE_SIZE \<le> length (content (relationsDB s))"
  shows "map_option fst (getLocalRelationshipType r (addLocalRelationshipType r t tail s)) =
      map_option fst (getLocalRelationshipType r s) \<and>
    get_range (content (relationsDB (addLocalRelationshipType r t tail s))) (pos (relationsDB s)) MAX_TYPE_SIZE =
      type_buffer t tail"
proof -
  define s1 where "s1 = addLocalRelationshipType r t tail s"
  let ?f = "relationsDB s" and ?b = "type_buffer t tail" and ?p = "unat (rb_addr r) + 52"
  note b = type_buffer_text [OF assms(4-6)]
  have w: "relationsDB s1 = ?f\<lparr>content := put_range (content ?f) (pos ?f) ?b, pos := pos ?f + MAX_TYPE_SIZE\<rparr>"
    using assms(1,2) b(1) unfolding s1_def
    by (simp add: addLocalRelationshipType_def updateLocalRelationshipType_def fwrite_def Let_def)
  then have "get_range (content (relationsDB s1)) (pos (relationsDB s)) MAX_TYPE_SIZE = ?b"
    using b(1) by (simp add: get_put_inside)
  moreover have "get_range (content (relationsDB s1)) ?p MAX_TYPE_SIZE = get_range (content ?f) ?p MAX_TYPE_SIZE"
    using w b(1) assms(7) by (simp add: get_put_after)
  moreover have "map_option fst (getLocalRelationshipType r u) =
      string_of_buf (get_range (content (relationsDB u)) ?p MAX_TYPE_SIZE)"
    if "good (relationsDB u)" "?p + MAX_TYPE_SIZE \<le> length (content (relationsDB u))" for u
    using that unfolding getLocalRelationshipType_def
    by (subst getRelationshipType_read [OF assms(3) _ refl])
      (simp_all add: LOCAL_RELATIONSHIP_TYPE_OFFSET_def option.map_comp comp_def option.map_ident)
  moreover have "good (relationsDB s1)" "?p + MAX_TYPE_SIZE \<le> length (content (relationsDB s1))"
    using w assms(1,8) by simp_all
  ultimately show ?thesis using assms(1,8) unfolding s1_def [symmetric] by simp
qed

theorem local_type_is_lost_witness:
  "map_option fst (getLocalRelationshipType (RelationBlock_of_nodes\<lparr>rb_addr := 152\<rparr>)
     (addLocalRelationshipType (RelationBlock_of_nodes\<lparr>rb_addr := 152\<rparr>) ''KNOWS'' (replicate 100 NUL)
       (blank_store\<lparr>relationsDB := open_stream (replicate 304 NUL)\<rparr>))) = Some []"
proof -
  let ?r = "RelationBlock_of_nodes\<lparr>rb_addr := 152\<rparr>" and ?s = "blank_store\<lparr>relationsDB := open_stream (replicate 304 NUL)\<rparr>"
  have "map_option fst (getLocalRelationshipType ?r ?s) = Some []"
    by (simp add: getLocalRelationshipType_def getRelationshipType_read [OF _ _ refl] RelationBlock_of_nodes_def
        open_stream_def LOCAL_RELATIONSHIP_TYPE_OFFSET_def MAX_TYPE_SIZE_def get_range_def string_of_buf_def c_str_def)
  then show ?thesis
    using local_type_is_lost [of ?s ?r "''KNOWS''" "replicate 100 NUL"]
    by (simp add: RelationBlock_of_nodes_def open_stream_def MAX_TYPE_SIZE_def)
qed

subsection \<open>An edge without properties\<close>

text \<open>
  The check \<^verbatim>\<open>propertyBlockAddress >= 0\<close> of an unsigned value never fails, so \<^verbatim>\<open>getAllProperties\<close> of a
  relation that has no properties reads block 0 of the edge property file: on a file that holds
  any property (its first block is a gap of zero bytes) the relation appears to have a property
  with the empty name and the empty value.
\<close>

theorem phantom_edge_property:
  assumes "good (pdb (edgeProps s))" "propertyAddress r = 0"
    and "content (pdb (edgeProps s)) = replicate (block_size PropertyLink_MAX_NAME_SIZE) NUL @ rest"
  shows "\<exists>s'. edge_getAllProperties r s = Some ([[] \<mapsto> []], s')"
proof -
  let ?N = PropertyLink_MAX_NAME_SIZE and ?c = "content (pdb (edgeProps s))"
  have zero: "get_range ?c p n = replicate n NUL" if "p + n \<le> block_size ?N" for p n
    using that by (simp add: assms(3) get_range_def)
  define l where "l = \<lparr>pl_name = [], pl_value = replicate MAX_VALUE_SIZE NUL, blockAddress = 0, nextPropAddress = 0\<rparr>"
  have "dec32 (replicate 4 NUL) = 0" using dec32_enc32 [of 0] by (simp add: enc32_0 numeral_eq_Suc)
  moreover have "block_size ?N \<le> length ?c" by (simp add: assms(3))
  moreover have "?N \<noteq> 0" "c_str (replicate n NUL) = []" for n
    by (simp add: PropertyLink_MAX_NAME_SIZE_def, cases n, simp_all add: c_str_def)
  ultimately have "link_at ?N ?c 0 = Some l"
    by (simp add: link_at_def zero block_size_def string_of_buf_def l_def)
  from read_link_link_at [OF assms(1) this]
  have "PropertyEdgeLink_get 0 (edgeProps s) = Some (Some l, moved (edgeProps s) (block_size ?N))"
    by (simp add: PropertyEdgeLink_get_def)
  moreover have "collect_props PropertyEdgeLink_next (Some l) Map.empty t = Some ([[] \<mapsto> []], t)" for t
    by (simp add: collect_props.simps [of _ "Some _"] collect_props.simps [of _ None] l_def string_of_buf_def
        c_str_def PropertyEdgeLink_next_def MAX_VALUE_SIZE_def)
  ultimately show ?thesis using assms(2) by (simp add: edge_getAllProperties_def edge_getPropertyHead_def)
qed

theorem phantom_edge_property_witness:
  "\<exists>s'. edge_getAllProperties RelationBlock_of_nodes (blank_store\<lparr>edgeProps := sample_pdb 30\<rparr>) = Some ([[] \<mapsto> []], s')"
  using phantom_edge_property [of "blank_store\<lparr>edgeProps := sample_pdb 30\<rparr>" RelationBlock_of_nodes]
  by (simp add: sample_pdb_def open_stream_def RelationBlock_of_nodes_def PropertyLink_MAX_NAME_SIZE_def)

end
