(* ===== verification/Graph_Edges.thy ===== *)
theory Graph_Edges
  imports Graph_Nodes
begin

text \<open>
  \<^verbatim>\<open>NodeManager::addLocalEdge\<close> and \<^verbatim>\<open>addCentralEdge\<close> implement \<open>graph_add_edge\<close>: on a store that
  represents a graph they return, give the mutex back, and leave a store that represents the
  graph with the new edge. Sequences of such calls are runs of the abstract operation.
\<close>

lemma get_node_total:
  assumes "store_inv g nm s"
  shows "\<exists>nb s'. get_node nm i s = Some (nb, s') \<and> rewind s' = rewind s"
proof (cases "i \<in> set (g_ids g)")
  case True
  then show ?thesis using node_of_stored [OF assms] by metis
next
  case False
  then have "nodeIndex nm i = None" using assms by (simp add: store_inv_def index_inv_def)
  then show ?thesis by (simp add: get_node_def)
qed

text \<open>The files after both end nodes have been linked represent the longer list of edges.\<close>

lemma linked_rel_inv:
  assumes "linking sc (es @ [e]) (length es) (last_ref sc es (length es) (fst e))
             (if fst e = snd e then 0 else last_ref sc es (length es) (snd e)) n vid refs s"
    and "nextRelationIndex sc s = of_nat (Suc (Suc (length es)))"
  shows "rel_inv sc (es @ [e]) s"
proof -
  have "rel_ok sc (es @ [e]) k (rel_block_at sc s k)" if "k < Suc (length es)" for k
    using that assms(1) by (auto simp: linking_def rel_ok_def less_Suc_eq last_ref_prefix)
  then show ?thesis using assms by (auto simp: rel_inv_def linking_def rel_file_def)
qed

lemma graph_refs_new_edge:
  assumes "es = g_edges g sc"
  shows "graph_refs (g\<lparr>g_edges := (g_edges g)(sc := es @ [(a, b)])\<rparr>) =
    (graph_refs g)(sc := ((graph_refs g sc)(a := rel_addr sc (length es)))(b := rel_addr sc (length es)))"
  using assms
  by (auto simp: graph_refs_def fun_eq_iff incident_def last_ref_prefix nth_append)

lemma manager_addRelation_effect:
  assumes "store_inv g nm s" "edges_room sc 1 g" "type_image img"
    and "a \<in> set (g_ids g)" "node_for g a src" "b \<in> set (g_ids g)" "node_for g b dst"
  defines "e \<equiv> (position (g_ids g) a, position (g_ids g) b)"
  obtains r s' where "manager_addRelation sc nm src dst img s = Some (Some r, s')"
    and "store_inv (g\<lparr>g_edges := (g_edges g)(sc := g_edges g sc @ [e])\<rparr>) nm s'" "props_same s s'"
    and "rb_addr r = rel_addr sc (length (g_edges g sc))"
    and "nr_address (rb_source r) = nb_addr src" "nr_address (rb_destination r) = nb_addr dst"
proof -
  let ?es = "g_edges g sc" and ?n = "length (g_ids g)" and ?vid = "\<lambda>i. vertex_number (g_ids g ! i)"
  let ?m = "length ?es" and ?a = "position (g_ids g) a" and ?b = "position (g_ids g) b"
  let ?g = "g\<lparr>g_edges := (g_edges g)(sc := ?es @ [e])\<rparr>"
  have ii: "index_inv (g_ids g) nm" and nf: "node_file_is ?n ?vid (graph_refs g) s"
    and rel: "\<And>sc. rel_inv sc (g_edges g sc) s"
    and bnd: "\<And>sc e. e \<in> set (g_edges g sc) \<Longrightarrow> fst e < ?n \<and> snd e < ?n"
    using assms(1) by (auto simp: store_inv_def)
  have ab: "?a < ?n" "?b < ?n" using assms(4,6) by (simp_all add: position_less)
  have src: "nb_addr src = node_addr ?a" "node_ref sc src = last_ref sc (?es @ [e]) ?m ?a"
    and dst: "nb_addr dst = node_addr ?b" "node_ref sc dst = last_ref sc (?es @ [e]) ?m ?b"
    using assms(5,7) by (simp_all add: node_for_def graph_refs_def last_ref_prefix)
  have room: "Suc (Suc ?m) * rel_size sc < 2 ^ 32"
    using assms(2) by (simp add: edges_room_def del: mult_Suc)
  obtain r s1 where s1: "addRelation sc RelationBlock_of_nodes src dst img s = Some (Some r, s1)"
      "linking sc (?es @ [e]) ?m 0 0 ?n ?vid (graph_refs g) s1"
      "frame sc (set_nextRelationIndex sc (of_nat (Suc (Suc ?m))) s) s1"
      "rb_addr r = rel_addr sc ?m" "nr_address (rb_source r) = node_addr ?a"
      "nr_address (rb_destination r) = node_addr ?b"
    using addRelation_effect [OF rel room nf bnd [where sc = sc] ab src(1) dst(1) assms(3)] unfolding e_def by blast
  have at: "(?es @ [e]) ! ?m = e" "fst e = ?a" "snd e = ?b" by (simp_all add: e_def)
  note upd = updateRelation_links [where es = "?es @ [e]" and m = ?m, unfolded at]
  define L where "L = last_ref sc (?es @ [e]) ?m"
  have inc: "incident ?a e" "incident ?b e" by (simp_all add: incident_def e_def)
  have "linking sc (?es @ [e]) ?m (if ?a = ?a \<and> L ?a \<noteq> 0 then L ?a else 0)
      (if ?a \<noteq> ?a \<and> L ?a \<noteq> 0 then L ?a else 0) n' v' rf t = linking sc (?es @ [e]) ?m (L ?a) 0 n' v' rf t"
    for n' v' rf t by simp
  from upd [OF s1(2) inc(1) src s1(4-6), folded L_def, unfolded this]
  obtain x r1 s2 where s2: "updateRelation sc src r True s1 = Some (True, x, r1, s2)"
      "linking sc (?es @ [e]) ?m (L ?a) 0 ?n ?vid
         ((graph_refs g)(sc := (graph_refs g sc)(?a := rel_addr sc ?m))) s2" "frame sc s1 s2" "same_ends r r1"
    by blast
  have r1: "rb_addr r1 = rel_addr sc ?m" "nr_address (rb_source r1) = node_addr ?a"
    "nr_address (rb_destination r1) = node_addr ?b" using s2(4) s1(4-6) by (simp_all add: same_ends_def)
  have "(if ?b = ?a \<and> L ?b \<noteq> 0 then L ?b else L ?a) = L ?a"
    "(if ?b \<noteq> ?a \<and> L ?b \<noteq> 0 then L ?b else 0) = (if ?a = ?b then 0 else L ?b)"
    by (auto split: if_splits)
  from upd [OF s2(2) inc(2) dst r1, folded L_def, unfolded this]
  obtain y r2 s3 where s3: "updateRelation sc dst r1 True s2 = Some (True, y, r2, s3)"
      "linking sc (?es @ [e]) ?m (L ?a) (if ?a = ?b then 0 else L ?b) ?n ?vid
         ((graph_refs g)(sc := ((graph_refs g sc)(?a := rel_addr sc ?m))(?b := rel_addr sc ?m))) s3"
      "frame sc s2 s3" "same_ends r1 r2"
    by (auto simp: fun_upd_same)
  have fr: "frame sc (set_nextRelationIndex sc (of_nat (Suc (Suc ?m))) s) s3"
    using s1(3) s2(3) s3(3) by (blast intro: frame_trans)
  have "rel_inv sc (?es @ [e]) s3"
    by (rule linked_rel_inv [OF s3(2) [unfolded L_def last_ref_prefix [OF order_refl], folded at(2,3)]])
      (use fr in \<open>simp add: frame_def\<close>)
  moreover have "rel_inv sc' (g_edges g sc') s3" if "sc' \<noteq> sc" for sc'
    using rel [of sc'] fr that by (subst rel_inv_cong [where s = s]) (simp_all add: frame_def)
  moreover have "node_file_is ?n ?vid (graph_refs ?g) s3"
    using s3(2) unfolding graph_refs_new_edge [OF refl] e_def by (simp add: linking_def)
  ultimately have inv: "store_inv ?g nm s3"
    using ii bnd ab by (auto simp: store_inv_def e_def)
  obtain nb4 s4 where s4: "get_node nm (to_string (unat (nb_nodeId src))) s3 = Some (nb4, s4)" "rewind s4 = rewind s3"
    using get_node_total [OF inv] by blast
  have inv4: "store_inv ?g nm s4" using inv store_inv_rewind [OF s4(2)] by simp
  obtain nb5 s5 where s5: "get_node nm (to_string (unat (nb_nodeId dst))) s4 = Some (nb5, s5)" "rewind s5 = rewind s4"
    using get_node_total [OF inv4] by blast
  have inv5: "store_inv ?g nm s5" using inv4 store_inv_rewind [OF s5(2)] by simp
  have "manager_addRelation sc nm src dst img s = Some (Some r2, if sc = Local then s5 else s3)"
    using s1(1) s2(1) s3(1) s4(1) s5(1) by (simp add: manager_addRelation_def)
  moreover have "props_same s s3" using fr by (simp add: props_same_def frame_def)
  then have "props_same s (if sc = Local then s5 else s3)"
    using props_same_rewind [OF s4(2)] props_same_rewind [OF s5(2)] by (auto intro: props_same_trans)
  ultimately show thesis
    using inv inv5 r1 s3(4) src(1) dst(1)
    by (intro that [of r2 "if sc = Local then s5 else s3"]) (auto simp: same_ends_def)
qed

lemma index_inv_lock [simp]:
  "index_inv ids (nm\<lparr>lockEdgeAdd := l\<rparr>) = index_inv ids nm"
  "index_inv ids (nm\<lparr>nextEdgeIndex := k\<rparr>) = index_inv ids nm"
  "index_inv ids (nm\<lparr>nextEdgeIndex := k, lockEdgeAdd := l\<rparr>) = index_inv ids nm"
  by (simp_all add: index_inv_def)

lemma store_inv_lock [simp]:
  "store_inv g (nm\<lparr>lockEdgeAdd := l\<rparr>) s = store_inv g nm s"
  "store_inv g (nm\<lparr>nextEdgeIndex := k\<rparr>) s = store_inv g nm s"
  "store_inv g (nm\<lparr>nextEdgeIndex := k, lockEdgeAdd := l\<rparr>) s = store_inv g nm s"
  by (simp_all add: store_inv_def)

lemma length_graph_add_node: "length (g_ids (graph_add_node i g)) \<le> Suc (length (g_ids g))"
  by (simp add: graph_add_node_def)

lemma nodes_room_mono:
  assumes "nodes_room k g" "length (g_ids h) + l \<le> length (g_ids g) + k"
  shows "nodes_room l h"
  using assms unfolding nodes_room_def by (meson le_less_trans mult_le_mono1)

lemma edges_room_mono:
  assumes "edges_room sc k g" "length (g_edges h sc) + l \<le> length (g_edges g sc) + k"
  shows "edges_room sc l h"
proof -
  have "(Suc (length (g_edges h sc)) + l) * rel_size sc \<le> (Suc (length (g_edges g sc)) + k) * rel_size sc"
    using assms(2) by (intro mult_le_mono1) simp
  then show ?thesis using assms(1) unfolding edges_room_def by (rule le_less_trans)
qed

lemma position_add_node: "j \<in> set (g_ids g) \<Longrightarrow> position (g_ids (graph_add_node i g)) j = position (g_ids g) j"
  by (simp add: graph_add_node_def position_append)

lemma node_for_add_node: "j \<in> set (g_ids g) \<Longrightarrow> node_for (graph_add_node i g) j nb = node_for g j nb"
  by (simp add: node_for_def position_add_node)

lemma addEdge_effect:
  assumes "store_inv g nm s" "\<not> lockEdgeAdd nm" "type_image img"
    and "valid_id (INDEX_KEY_SIZE nm) a" "valid_id (INDEX_KEY_SIZE nm) b"
    and "nodes_room 2 g" "edges_room sc 1 g"
  obtains r nm' s' where "addEdge sc (a, b) img nm s = Some (Added r, nm', s')"
    and "store_inv (graph_add_edge sc (a, b) g) nm' s'" "\<not> lockEdgeAdd nm'" "props_same s s'"
    and "INDEX_KEY_SIZE nm' = INDEX_KEY_SIZE nm"
    and "nextEdgeIndex nm' = nextEdgeIndex nm + (if sc = Local then 1 else 0)"
    and "edgeIndex nm' = edgeIndex nm" "edgeIndexDB nm' = edgeIndexDB nm"
    and "rb_addr r = rel_addr sc (length (g_edges g sc))"
proof -
  let ?nm = "nm\<lparr>lockEdgeAdd := True\<rparr>"
  let ?g1 = "graph_add_node a g" and ?g2 = "graph_add_node b (graph_add_node a g)"
  have r1: "nodes_room 1 g" and r2: "nodes_room 1 ?g1" and r3: "edges_room sc 1 ?g2"
    using length_graph_add_node [of a g]
    by (auto intro: nodes_room_mono [OF assms(6)] edges_room_mono [OF assms(7)])
  obtain nb1 nm1 s1 where s1: "addNode a ?nm s = Some (Some (nb1, nm1, s1))" "store_inv ?g1 nm1 s1"
      "node_for ?g1 a nb1" "props_same s s1" "INDEX_KEY_SIZE nm1 = INDEX_KEY_SIZE nm"
      "nextEdgeIndex nm1 = nextEdgeIndex nm" "edgeIndex nm1 = edgeIndex nm" "edgeIndexDB nm1 = edgeIndexDB nm"
    by (rule addNode_effect [of g ?nm s a]) (use assms(1,4) r1 in auto)
  have "valid_id (INDEX_KEY_SIZE nm1) b" using assms(5) s1(5) by simp
  from addNode_effect [OF s1(2) this r2]
  obtain nb2 nm2 s2 where s2: "addNode b nm1 s1 = Some (Some (nb2, nm2, s2))" "store_inv ?g2 nm2 s2"
      "node_for ?g2 b nb2" "props_same s1 s2" "INDEX_KEY_SIZE nm2 = INDEX_KEY_SIZE nm"
      "nextEdgeIndex nm2 = nextEdgeIndex nm" "edgeIndex nm2 = edgeIndex nm" "edgeIndexDB nm2 = edgeIndexDB nm"
    using s1(5-8) by metis
  have n1: "node_for ?g2 a nb1" using s1(3) by (simp add: node_for_add_node)
  let ?e = "(position (g_ids ?g2) a, position (g_ids ?g2) b)"
  obtain r s3 where s3: "manager_addRelation sc nm2 nb1 nb2 img s2 = Some (Some r, s3)"
      "store_inv (?g2\<lparr>g_edges := (g_edges ?g2)(sc := g_edges ?g2 sc @ [?e])\<rparr>) nm2 s3" "props_same s2 s3"
      "rb_addr r = rel_addr sc (length (g_edges ?g2 sc))"
    by (rule manager_addRelation_effect [OF s2(2) r3 assms(3) _ n1 _ s2(3)]) auto
  have g: "graph_add_edge sc (a, b) g = ?g2\<lparr>g_edges := (g_edges ?g2)(sc := g_edges ?g2 sc @ [?e])\<rparr>"
    by (simp add: graph_add_edge_def Let_def)
  let ?nm3 = "(if sc = Local then nm2\<lparr>nextEdgeIndex := nextEdgeIndex nm2 + 1\<rparr> else nm2)\<lparr>lockEdgeAdd := False\<rparr>"
  have "addEdge sc (a, b) img nm s = Some (Added (setSource nb1 (setDestination nb2 r)), ?nm3, s3)"
    using assms(2) s1(1) s2(1) s3(1) by (simp add: addEdge_def Let_def)
  then show thesis
    by (rule that) (use s1(4) s2(4-8) s3(2-4) g in \<open>auto simp: setSource_def setDestination_def
        intro: props_same_trans\<close>)
qed

subsection \<open>Sequences of edges\<close>

fun add_edges ::
  "(scope \<times> (string \<times> string) \<times> bytes) list \<Rightarrow> node_manager \<Rightarrow> native_store \<Rightarrow> (node_manager \<times> native_store) option" where
  "add_edges [] nm s = Some (nm, s)"
| "add_edges ((sc, e, img) # es) nm s =
     do {
       (res, nm, s) \<leftarrow> addEdge sc e img nm s;
       case res of Added _ \<Rightarrow> add_edges es nm s | NoRelation \<Rightarrow> None | Threw \<Rightarrow> None
     }"

fun graph_add_edges :: "(scope \<times> (string \<times> string) \<times> bytes) list \<Rightarrow> graph \<Rightarrow> graph" where
  "graph_add_edges [] g = g"
| "graph_add_edges ((sc, e, img) # es) g = graph_add_edges es (graph_add_edge sc e g)"

fun valid_edges :: "nat \<Rightarrow> (scope \<times> (string \<times> string) \<times> bytes) list \<Rightarrow> bool" where
  "valid_edges K [] \<longleftrightarrow> True"
| "valid_edges K ((sc, (a, b), img) # es) \<longleftrightarrow>
     valid_id K a \<and> valid_id K b \<and> type_image img \<and> valid_edges K es"

lemma length_graph_add_edge:
  "length (g_ids (graph_add_edge sc (a, b) g)) \<le> length (g_ids g) + 2"
  "length (g_edges (graph_add_edge sc (a, b) g) sc') \<le> Suc (length (g_edges g sc'))"
  using length_graph_add_node [of a g] length_graph_add_node [of b "graph_add_node a g"]
  by (auto simp: graph_add_edge_def Let_def)

lemma add_edges_effect:
  assumes "store_inv g nm s" "\<not> lockEdgeAdd nm" "valid_edges (INDEX_KEY_SIZE nm) es"
    and "nodes_room (2 * length es) g" "\<And>sc. edges_room sc (length es) g"
  shows "\<exists>nm' s'. add_edges es nm s = Some (nm', s') \<and> store_inv (graph_add_edges es g) nm' s' \<and>
    \<not> lockEdgeAdd nm' \<and> props_same s s' \<and> INDEX_KEY_SIZE nm' = INDEX_KEY_SIZE nm \<and>
    edgeIndex nm' = edgeIndex nm \<and> edgeIndexDB nm' = edgeIndexDB nm"
  using assms
proof (induction es arbitrary: g nm s)
  case Nil
  then show ?case by (simp add: props_same_def)
next
  case (Cons x es)
  obtain sc a b img where x: "x = (sc, (a, b), img)" by (metis prod.exhaust)
  have v: "valid_id (INDEX_KEY_SIZE nm) a" "valid_id (INDEX_KEY_SIZE nm) b" "type_image img"
      "valid_edges (INDEX_KEY_SIZE nm) es" using Cons.prems(3) x by auto
  have room: "nodes_room 2 g" "edges_room sc 1 g"
    by (auto intro: nodes_room_mono [OF Cons.prems(4)] edges_room_mono [OF Cons.prems(5)])
  obtain r nm1 s1 where s1: "addEdge sc (a, b) img nm s = Some (Added r, nm1, s1)"
      "store_inv (graph_add_edge sc (a, b) g) nm1 s1" "\<not> lockEdgeAdd nm1" "props_same s s1"
      "INDEX_KEY_SIZE nm1 = INDEX_KEY_SIZE nm" "edgeIndex nm1 = edgeIndex nm" "edgeIndexDB nm1 = edgeIndexDB nm"
    using addEdge_effect [OF Cons.prems(1,2) v(3,1,2) room] by metis
  have "nodes_room (2 * length es) (graph_add_edge sc (a, b) g)"
    using length_graph_add_edge(1) [of sc a b g] by (intro nodes_room_mono [OF Cons.prems(4)]) simp
  moreover have "edges_room sc' (length es) (graph_add_edge sc (a, b) g)" for sc'
    using length_graph_add_edge(2) [of sc a b g sc'] by (intro edges_room_mono [OF Cons.prems(5)]) simp
  ultimately obtain nm2 s2 where "add_edges es nm1 s1 = Some (nm2, s2)"
      "store_inv (graph_add_edges es (graph_add_edge sc (a, b) g)) nm2 s2" "\<not> lockEdgeAdd nm2"
      "props_same s1 s2" "INDEX_KEY_SIZE nm2 = INDEX_KEY_SIZE nm1"
      "edgeIndex nm2 = edgeIndex nm1" "edgeIndexDB nm2 = edgeIndexDB nm1"
    using Cons.IH [OF s1(2,3)] v(4) s1(5) by metis
  then show ?case using s1 x by (auto intro: props_same_trans)
qed

end
