(* ===== verification/Graph_Query.thy ===== *)
theory Graph_Query
  imports Graph_Edges
begin

text \<open>
  What the operations that follow the chains return on a store that represents a graph: the
  neighbours of a node, the search for an edge, and the adjacency lists. The loops of the source
  end because an edge links only to earlier edges.
\<close>

definition other_end :: "nat \<Rightarrow> nat \<times> nat \<Rightarrow> nat" where
  "other_end v e = (if fst e = v then snd e else fst e)"

lemma getRelation_0 [simp]: "getRelation sc 0 s = Some (None, s)"
  by (simp add: getRelation_def)

lemma getRelationHead_getRelation: "getRelationHead sc nb s = getRelation sc (node_ref sc nb) s"
  by (simp add: getRelationHead_def)

text \<open>One edge of a represented graph as the relation object that reading it gives.\<close>

definition relation_for :: "graph \<Rightarrow> scope \<Rightarrow> nat \<Rightarrow> relation_block \<Rightarrow> bool" where
  "relation_for g sc k r \<longleftrightarrow>
     (let es = g_edges g sc; e = es ! k
      in rb_addr r = rel_addr sc k \<and>
         nr_address (rb_source r) = node_addr (fst e) \<and> nr_address (rb_destination r) = node_addr (snd e) \<and>
         nextRelationId (rb_source r) = last_ref sc es k (fst e) \<and>
         (fst e \<noteq> snd e \<longrightarrow> nextRelationId (rb_destination r) = last_ref sc es k (snd e)) \<and>
         (\<exists>sb db. sourceBlock r = Some sb \<and> destinationBlock r = Some db \<and>
            nb_id sb = to_string (unat (vertex_number (g_ids g ! fst e))) \<and>
            nb_id db = to_string (unat (vertex_number (g_ids g ! snd e)))))"

lemma store_inv_ends:
  assumes "store_inv g nm s" "k < length (g_edges g sc)"
  shows "fst (g_edges g sc ! k) < length (g_ids g)" "snd (g_edges g sc ! k) < length (g_ids g)"
proof -
  have "\<forall>e\<in>set (g_edges g sc). fst e < length (g_ids g) \<and> snd e < length (g_ids g)"
    using assms(1) by (simp add: store_inv_def)
  then show "fst (g_edges g sc ! k) < length (g_ids g)" "snd (g_edges g sc ! k) < length (g_ids g)"
    using nth_mem [OF assms(2)] by blast+
qed

lemma relation_read:
  assumes "store_inv g nm s" "k < length (g_edges g sc)"
  obtains r s' where "getRelation sc (rel_addr sc k) s = Some (Some r, s')" "rewind s' = rewind s"
    and "relation_for g sc k r"
proof -
  let ?es = "g_edges g sc" and ?n = "length (g_ids g)"
  have ri: "rel_inv sc ?es s" and nf: "nodes_file ?n s"
    and vid: "\<And>i. i < ?n \<Longrightarrow> word_at (node_block_at s i) 1 = vertex_number (g_ids g ! i)"
    using assms(1) by (auto simp: store_inv_def node_file_is_def)
  note e = store_inv_ends [OF assms]
  have rf: "rel_file sc (length ?es) s" using ri assms(2) by (auto simp: rel_inv_def rel_file_def)
  have "rel_ok sc ?es k (rel_block_at sc s k)" using ri assms(2) by (simp add: rel_inv_def)
  from getRelation_ok [OF rf assms(2) this [unfolded rel_ok_def] nf e]
  obtain r s' where r: "getRelation sc (rel_addr sc k) s = Some (Some r, s')" "rewind s' = rewind s"
    "rb_addr r = rel_addr sc k" "nr_address (rb_source r) = node_addr (fst (?es ! k))"
    "nextRelationId (rb_source r) = last_ref sc ?es k (fst (?es ! k))"
    "nr_address (rb_destination r) = node_addr (snd (?es ! k))"
    "nextRelationId (rb_destination r) =
       (if fst (?es ! k) = snd (?es ! k) then 0 else last_ref sc ?es k (snd (?es ! k)))"
    "sourceBlock r = Some (node_of_block (node_addr (fst (?es ! k)))
       (to_string (unat (word_at (node_block_at s (fst (?es ! k))) 1))) (node_block_at s (fst (?es ! k))))"
    "destinationBlock r = Some (node_of_block (node_addr (snd (?es ! k)))
       (to_string (unat (word_at (node_block_at s (snd (?es ! k))) 1))) (node_block_at s (snd (?es ! k))))"
    by blast
  then have "relation_for g sc k r"
    using vid [OF e(1)] vid [OF e(2)] unfolding relation_for_def Let_def
    by (auto simp: node_of_block_def)
  with r(1,2) show thesis by (rule that)
qed

lemma store_inv_addr_inject:
  assumes "store_inv g nm s" "i < length (g_ids g)" "j < length (g_ids g)"
  shows "node_addr i = node_addr j \<longleftrightarrow> i = j"
proof -
  have small: "length (g_ids g) * NodeBlock_BLOCK_SIZE < 2 ^ 32"
    using assms(1) by (simp add: store_inv_def node_file_is_def nodes_file_def)
  have "l * NodeBlock_BLOCK_SIZE < 2 ^ 32" if "l < length (g_ids g)" for l
    using that small by (meson le_less_trans less_imp_le_nat mult_le_mono1)
  then show ?thesis using assms(2,3) by (intro node_addr_inject) auto
qed

text \<open>Reading the node at a position.\<close>

lemma node_read:
  assumes "store_inv g nm s" "i < length (g_ids g)"
  obtains nb s' where "NodeBlock_get (node_addr i) s = Some (nb, s')" "rewind s' = rewind s"
    and "nb_addr nb = node_addr i" "nb_nodeId nb = vertex_number (g_ids g ! i)"
proof -
  have nf: "nodes_file (length (g_ids g)) s"
    and vid: "word_at (node_block_at s i) 1 = vertex_number (g_ids g ! i)"
    using assms by (auto simp: store_inv_def node_file_is_def)
  show thesis using nodes_file_get(1) [OF nf assms(2)] vid that by (auto simp: node_of_block_def)
qed

subsection \<open>Neighbours\<close>

text \<open>One step of a traversal: the next address belongs to the node's last earlier edge.\<close>

lemma relation_for_next:
  assumes "relation_for g sc k r" "store_inv g nm s" "k < length (g_edges g sc)"
    and "incident v (g_edges g sc ! k)" "v < length (g_ids g)"
  shows "nr_address (rb_source r) = node_addr v \<longleftrightarrow> v = fst (g_edges g sc ! k)"
    and "nr_address (rb_destination r) = node_addr v \<longleftrightarrow> v = snd (g_edges g sc ! k)"
    and "v = fst (g_edges g sc ! k) \<Longrightarrow> nextSource sc r t = getRelation sc (last_ref sc (g_edges g sc) k v) t"
    and "v \<noteq> fst (g_edges g sc ! k) \<Longrightarrow>
           nextDestination sc r t = getRelation sc (last_ref sc (g_edges g sc) k v) t"
  using assms store_inv_ends [OF assms(2,3)] store_inv_addr_inject [OF assms(2)]
  by (auto simp: relation_for_def Let_def nextSource_def nextDestination_def incident_def)

definition neighbour_entry :: "graph \<Rightarrow> scope \<Rightarrow> nat \<Rightarrow> nat \<Rightarrow> node_block \<times> relation_block \<Rightarrow> bool" where
  "neighbour_entry g sc v k x \<longleftrightarrow>
     relation_for g sc k (snd x) \<and> nb_addr (fst x) = node_addr (other_end v (g_edges g sc ! k)) \<and>
     nb_nodeId (fst x) = vertex_number (g_ids g ! other_end v (g_edges g sc ! k))"

lemma edge_nodes_traversal:
  assumes "store_inv g nm s" "k \<le> length (g_edges g sc)" "v < length (g_ids g)" "nb_addr this = node_addr v"
  shows "\<exists>xs s'. Option.bind (getRelation sc (last_ref sc (g_edges g sc) k v) s)
             (\<lambda>(h, t). edge_nodes_from sc this h acc t) = Some (acc @ xs, s') \<and> rewind s' = rewind s \<and>
           list_all2 (neighbour_entry g sc v) (edges_at (g_edges g sc) k v) xs"
  using assms(1,2)
proof (induction "edges_at (g_edges g sc) k v" arbitrary: k acc s)
  case Nil
  then have "last_ref sc (g_edges g sc) k v = 0" by (metis last_ref_edges_at(1))
  then show ?case using Nil.hyps by (simp add: edge_nodes_from.simps)
next
  case (Cons j js)
  let ?es = "g_edges g sc"
  from last_ref_edges_at(2) [OF Cons.hyps(2) [symmetric]]
  have j: "last_ref sc ?es k v = rel_addr sc j" "j < k" "incident v (?es ! j)" "js = edges_at ?es j v" by auto
  have jl: "j < length ?es" using j(2) Cons.prems(2) by simp
  obtain r s1 where r: "getRelation sc (rel_addr sc j) s = Some (Some r, s1)" "rewind s1 = rewind s"
    "relation_for g sc j r" using relation_read [OF Cons.prems(1) jl] by blast
  have inv1: "store_inv g nm s1" using Cons.prems(1) store_inv_rewind [OF r(2)] by simp
  note nx = relation_for_next [OF r(3) inv1 jl j(3) assms(3)]
  let ?w = "other_end v (?es ! j)"
  have w: "?w < length (g_ids g)" using store_inv_ends [OF inv1 jl] by (simp add: other_end_def)
  obtain nb s2 where nb: "NodeBlock_get (node_addr ?w) s1 = Some (nb, s2)" "rewind s2 = rewind s1"
      "nb_addr nb = node_addr ?w" "nb_nodeId nb = vertex_number (g_ids g ! ?w)"
    using node_read [OF inv1 w] by blast
  have inv2: "store_inv g nm s2" using inv1 store_inv_rewind [OF nb(2)] by simp
  have ends: "nr_address (rb_source r) = node_addr (fst (?es ! j))"
    "nr_address (rb_destination r) = node_addr (snd (?es ! j))"
    using r(3) by (simp_all add: relation_for_def Let_def)
  obtain xs s' where xs: "Option.bind (getRelation sc (last_ref sc ?es j v) s2)
        (\<lambda>(h, t). edge_nodes_from sc this h (acc @ [(nb, r)]) t) = Some ((acc @ [(nb, r)]) @ xs, s')"
      "rewind s' = rewind s2" "list_all2 (neighbour_entry g sc v) (edges_at ?es j v) xs"
    using Cons.hyps(1) [OF j(4) inv2] jl by fastforce
  have "edge_nodes_from sc this (Some r) acc s1 = Option.bind (getRelation sc (last_ref sc ?es j v) s2)
        (\<lambda>(h, t). edge_nodes_from sc this h (acc @ [(nb, r)]) t)"
  proof (cases "v = fst (?es ! j)")
    case True
    then show ?thesis using nx(1,3) nb(1) assms(4) ends
      by (subst edge_nodes_from.simps) (simp add: other_end_def)
  next
    case False
    moreover have "v = snd (?es ! j)" using j(3) False by (simp add: incident_def)
    ultimately show ?thesis using nx(1,2,4) nb(1) assms(4) ends
      by (subst edge_nodes_from.simps) (simp add: other_end_def)
  qed
  moreover have "neighbour_entry g sc v j (nb, r)" using r(3) nb(3,4) by (simp add: neighbour_entry_def)
  ultimately have "Option.bind (getRelation sc (last_ref sc ?es k v) s)
             (\<lambda>(h, t). edge_nodes_from sc this h acc t) = Some (acc @ ((nb, r) # xs), s')"
    "list_all2 (neighbour_entry g sc v) (edges_at ?es k v) ((nb, r) # xs)"
    using xs r(1) j(1,4) Cons.hyps(2) [symmetric] by simp_all
  moreover have "rewind s' = rewind s" using xs(2) nb(2) r(2) by simp
  ultimately show ?case by blast
qed

lemma getEdgeNodes_effect:
  assumes "store_inv g nm s" "i \<in> set (g_ids g)" "node_for g i nb"
  obtains xs s' where "getEdgeNodes sc nb s = Some (xs, s')" "rewind s' = rewind s"
    and "list_all2 (neighbour_entry g sc (position (g_ids g) i))
           (edges_at (g_edges g sc) (length (g_edges g sc)) (position (g_ids g) i)) xs"
proof -
  have "node_ref sc nb = last_ref sc (g_edges g sc) (length (g_edges g sc)) (position (g_ids g) i)"
    and "nb_addr nb = node_addr (position (g_ids g) i)"
    using assms(3) by (simp_all add: node_for_def graph_refs_def)
  then show thesis
    using edge_nodes_traversal [OF assms(1) order_refl position_less [OF assms(2)], of nb sc "[]"] that
    by (auto simp: getEdgeNodes_def getRelationHead_getRelation)
qed

subsection \<open>Search\<close>

lemma search_traversal:
  assumes "store_inv g nm s" "k \<le> length (g_edges g sc)" "v < length (g_ids g)" "nb_addr this = node_addr v"
    and "w < length (g_ids g)"
  shows "\<exists>res s'. Option.bind (getRelation sc (last_ref sc (g_edges g sc) k v) s)
             (\<lambda>(h, t). search_from sc this (node_addr w) h t) = Some (res, s') \<and> rewind s' = rewind s \<and>
           rel_option (relation_for g sc)
             (find (\<lambda>j. other_end v (g_edges g sc ! j) = w) (edges_at (g_edges g sc) k v)) res"
  using assms(1,2)
proof (induction "edges_at (g_edges g sc) k v" arbitrary: k s)
  case Nil
  then have "last_ref sc (g_edges g sc) k v = 0" by (metis last_ref_edges_at(1))
  then show ?case using Nil.hyps [symmetric] by (simp add: search_from.simps)
next
  case (Cons j js)
  let ?es = "g_edges g sc"
  from last_ref_edges_at(2) [OF Cons.hyps(2) [symmetric]]
  have j: "last_ref sc ?es k v = rel_addr sc j" "j < k" "incident v (?es ! j)" "js = edges_at ?es j v" by auto
  have jl: "j < length ?es" using j(2) Cons.prems(2) by simp
  obtain r s1 where r: "getRelation sc (rel_addr sc j) s = Some (Some r, s1)" "rewind s1 = rewind s"
    "relation_for g sc j r" using relation_read [OF Cons.prems(1) jl] by blast
  have inv1: "store_inv g nm s1" using Cons.prems(1) store_inv_rewind [OF r(2)] by simp
  note nx = relation_for_next [OF r(3) inv1 jl j(3) assms(3)]
  have ends: "nr_address (rb_source r) = node_addr (fst (?es ! j))"
    "nr_address (rb_destination r) = node_addr (snd (?es ! j))"
    using r(3) by (simp_all add: relation_for_def Let_def)
  have hit: "node_addr (fst (?es ! j)) = node_addr w \<longleftrightarrow> fst (?es ! j) = w"
    "node_addr (snd (?es ! j)) = node_addr w \<longleftrightarrow> snd (?es ! j) = w"
    using store_inv_addr_inject [OF inv1 _ assms(5)] store_inv_ends [OF inv1 jl] by simp_all
  have snd: "v = snd (?es ! j)" if "v \<noteq> fst (?es ! j)" using j(3) that by (simp add: incident_def)
  have step: "search_from sc this (node_addr w) (Some r) s1 =
      (if other_end v (?es ! j) = w then Some (Some r, s1)
       else Option.bind (getRelation sc (last_ref sc ?es j v) s1)
              (\<lambda>(h, t). search_from sc this (node_addr w) h t))"
  proof (cases "v = fst (?es ! j)")
    case True
    then show ?thesis using nx(1,3) hit assms(4) ends
      by (subst search_from.simps) (simp add: other_end_def)
  next
    case False
    then show ?thesis using nx(1,2,4) hit assms(4) ends snd
      by (subst search_from.simps) (simp add: other_end_def isDirected_def)
  qed
  show ?case
  proof (cases "other_end v (?es ! j) = w")
    case True
    then show ?thesis using step r j(1) Cons.hyps(2) [symmetric] by auto
  next
    case False
    obtain res s' where "Option.bind (getRelation sc (last_ref sc ?es j v) s1)
          (\<lambda>(h, t). search_from sc this (node_addr w) h t) = Some (res, s')" "rewind s' = rewind s1"
        "rel_option (relation_for g sc) (find (\<lambda>j. other_end v (?es ! j) = w) (edges_at ?es j v)) res"
      using Cons.hyps(1) [OF j(4) inv1] jl by fastforce
    then show ?thesis using False step r(1,2) j(1,4) Cons.hyps(2) [symmetric] by auto
  qed
qed

lemma searchChain_effect:
  assumes "store_inv g nm s" "i \<in> set (g_ids g)" "node_for g i nb" "l \<in> set (g_ids g)" "node_for g l nb'"
  obtains res s' where "searchChain sc nb nb' s = Some (res, s')" "rewind s' = rewind s"
    and "rel_option (relation_for g sc)
           (find (\<lambda>j. other_end (position (g_ids g) i) (g_edges g sc ! j) = position (g_ids g) l)
             (edges_at (g_edges g sc) (length (g_edges g sc)) (position (g_ids g) i))) res"
proof -
  have "node_ref sc nb = last_ref sc (g_edges g sc) (length (g_edges g sc)) (position (g_ids g) i)"
    and "nb_addr nb = node_addr (position (g_ids g) i)" "nb_addr nb' = node_addr (position (g_ids g) l)"
    using assms(3,5) by (simp_all add: node_for_def graph_refs_def)
  then show thesis
    using search_traversal [OF assms(1) order_refl position_less [OF assms(2)] _ position_less [OF assms(4)], of nb sc] that
    by (auto simp: searchChain_def getRelationHead_getRelation)
qed

definition adjacent :: "graph \<Rightarrow> scope \<Rightarrow> string \<Rightarrow> string \<Rightarrow> bool" where
  "adjacent g sc i j \<longleftrightarrow>
     (\<exists>e\<in>set (g_edges g sc). e = (position (g_ids g) i, position (g_ids g) j) \<or>
                            e = (position (g_ids g) j, position (g_ids g) i))"

lemma find_edge:
  "find (\<lambda>j. other_end v (es ! j) = w) (edges_at es (length es) v) \<noteq> None \<longleftrightarrow>
   (\<exists>e\<in>set es. e = (v, w) \<or> e = (w, v))"
proof -
  have "find (\<lambda>j. other_end v (es ! j) = w) (edges_at es (length es) v) \<noteq> None \<longleftrightarrow>
        (\<exists>j<length es. incident v (es ! j) \<and> other_end v (es ! j) = w)"
    by (auto simp: edges_at_filter find_None_iff)
  also have "\<dots> \<longleftrightarrow> (\<exists>e\<in>set es. incident v e \<and> other_end v e = w)"
    by (metis in_set_conv_nth)
  also have "\<dots> \<longleftrightarrow> (\<exists>e\<in>set es. e = (v, w) \<or> e = (w, v))"
    by (intro bex_cong) (auto simp: incident_def other_end_def split: if_splits)
  finally show ?thesis .
qed

subsection \<open>Adjacency lists\<close>

definition number :: "string \<Rightarrow> nat" where
  "number i = unat (vertex_number i)"

definition neighbour_numbers :: "graph \<Rightarrow> scope \<Rightarrow> string \<Rightarrow> nat set" where
  "neighbour_numbers g sc i =
     (let v = position (g_ids g) i
      in {number (g_ids g ! other_end v e) | e. e \<in> set (g_edges g sc) \<and> incident v e})"

lemma neighbour_entries:
  assumes "list_all2 (neighbour_entry g sc (position (g_ids g) i))
      (edges_at (g_edges g sc) (length (g_edges g sc)) (position (g_ids g) i)) xs"
  shows "set (map (\<lambda>e. unat (nb_nodeId (fst e))) xs) = neighbour_numbers g sc i"
proof -
  let ?v = "position (g_ids g) i" and ?es = "g_edges g sc"
  have "map (\<lambda>e. unat (nb_nodeId (fst e))) xs =
      map (\<lambda>k. number (g_ids g ! other_end ?v (?es ! k))) (edges_at ?es (length ?es) ?v)"
    using assms by induction (auto simp: neighbour_entry_def number_def)
  then have "set (map (\<lambda>e. unat (nb_nodeId (fst e))) xs) =
      (\<lambda>k. number (g_ids g ! other_end ?v (?es ! k))) ` {k. k < length ?es \<and> incident ?v (?es ! k)}"
    by (auto simp: edges_at_filter)
  also have "\<dots> = neighbour_numbers g sc i"
    unfolding neighbour_numbers_def Let_def in_set_conv_nth image_def mem_Collect_eq by blast
  finally show ?thesis .
qed

lemma adjacency_effect:
  assumes "store_inv g nm s" "set it \<subseteq> set (g_ids g)"
  shows "\<exists>s'. adjacency_from it nm adj s =
      Some (map_of (map (\<lambda>i. (number i, neighbour_numbers g Local i \<union> neighbour_numbers g Central i)) it) ++ adj, s') \<and>
    rewind s' = rewind s"
  using assms
proof (induction it arbitrary: adj s)
  case Nil
  then show ?case by simp
next
  case (Cons i it)
  have i: "i \<in> set (g_ids g)" using Cons.prems(2) by simp
  obtain nb s1 where nb: "get_node nm i s = Some (Some nb, s1)" "rewind s1 = rewind s" "node_for g i nb"
    using node_of_stored [OF Cons.prems(1) i] by blast
  have inv1: "store_inv g nm s1" using Cons.prems(1) store_inv_rewind [OF nb(2)] by simp
  obtain xs s2 where xs: "getEdgeNodes Local nb s1 = Some (xs, s2)" "rewind s2 = rewind s1"
      "list_all2 (neighbour_entry g Local (position (g_ids g) i))
        (edges_at (g_edges g Local) (length (g_edges g Local)) (position (g_ids g) i)) xs"
    using getEdgeNodes_effect [OF inv1 i nb(3)] by blast
  have inv2: "store_inv g nm s2" using inv1 store_inv_rewind [OF xs(2)] by simp
  obtain ys s3 where ys: "getEdgeNodes Central nb s2 = Some (ys, s3)" "rewind s3 = rewind s2"
      "list_all2 (neighbour_entry g Central (position (g_ids g) i))
        (edges_at (g_edges g Central) (length (g_edges g Central)) (position (g_ids g) i)) ys"
    using getEdgeNodes_effect [OF inv2 i nb(3)] by blast
  have inv3: "store_inv g nm s3" using inv2 store_inv_rewind [OF ys(2)] by simp
  let ?N = "neighbour_numbers g Local i \<union> neighbour_numbers g Central i"
  define adj' where "adj' = (case adj (number i) of None \<Rightarrow> adj(number i \<mapsto> ?N) | Some _ \<Rightarrow> adj)"
  have "set (map (\<lambda>e. unat (nb_nodeId (fst e))) (xs @ ys)) = ?N" "unat (nb_nodeId nb) = number i"
    using neighbour_entries [OF xs(3)] neighbour_entries [OF ys(3)] nb(3)
    by (simp_all add: node_for_def number_def)
  then have "adjacency_from (i # it) nm adj s = adjacency_from it nm adj' s3"
    using nb(1) xs(1) ys(1)
    by (simp add: getAllEdgeNodes_def getLocalEdgeNodes_def getCentralEdgeNodes_def Let_def adj'_def
        split: option.split del: set_map)
  moreover obtain s' where s': "adjacency_from it nm adj' s3 = Some (map_of (map (\<lambda>i. (number i,
      neighbour_numbers g Local i \<union> neighbour_numbers g Central i)) it) ++ adj', s')" "rewind s' = rewind s3"
    using Cons.IH [OF inv3] Cons.prems(2) by fastforce
  moreover have "map_of (map (\<lambda>i. (number i, neighbour_numbers g Local i \<union> neighbour_numbers g Central i)) it) ++ adj'
      = map_of (map (\<lambda>i. (number i, neighbour_numbers g Local i \<union> neighbour_numbers g Central i)) (i # it)) ++ adj"
    by (auto simp: adj'_def fun_eq_iff map_add_def split: option.splits)
  ultimately have "adjacency_from (i # it) nm adj s = Some (map_of (map (\<lambda>i. (number i,
      neighbour_numbers g Local i \<union> neighbour_numbers g Central i)) (i # it)) ++ adj, s')"
    by (simp only:)
  moreover have "rewind s' = rewind s" using s'(2) nb(2) xs(2) ys(2) by simp
  ultimately show ?case by blast
qed

subsection \<open>The stored relations, one by one\<close>

definition add_adjacency :: "graph \<Rightarrow> nat \<times> nat \<Rightarrow> (int \<rightharpoonup> int set) \<Rightarrow> (int \<rightharpoonup> int set)" where
  "add_adjacency g e adj =
     (let a = int (number (g_ids g ! fst e)); b = int (number (g_ids g ! snd e))
      in adj(a \<mapsto> insert b (case adj a of None \<Rightarrow> {} | Some ns \<Rightarrow> ns)))"

lemma number_bound: "number i < 2 ^ 32"
  unfolding number_def using unsigned_less [of "vertex_number i"] by simp

lemma adjacency_of_relations_effect:
  assumes "store_inv g nm s" "\<forall>k\<in>set ks. k < length (g_edges g sc)"
  shows "\<exists>s'. adjacency_of_relations sc (map Suc ks) adj s =
      Some (fold (\<lambda>k. add_adjacency g (g_edges g sc ! k)) ks adj, s') \<and> rewind s' = rewind s"
  using assms
proof (induction ks arbitrary: adj s)
  case Nil
  then show ?case by simp
next
  case (Cons k ks)
  have k: "k < length (g_edges g sc)" using Cons.prems(2) by simp
  obtain r s1 where r: "getRelation sc (rel_addr sc k) s = Some (Some r, s1)" "rewind s1 = rewind s"
    "relation_for g sc k r" using relation_read [OF Cons.prems(1) k] by blast
  obtain sb db where b: "sourceBlock r = Some sb" "destinationBlock r = Some db"
      "nb_id sb = to_string (number (g_ids g ! fst (g_edges g sc ! k)))"
      "nb_id db = to_string (number (g_ids g ! snd (g_edges g sc ! k)))"
    using r(3) by (auto simp: relation_for_def Let_def number_def)
  have inv1: "store_inv g nm s1" using Cons.prems(1) store_inv_rewind [OF r(2)] by simp
  have st: "stol (to_string (number i)) = Some (int (number i))" for i
    using number_bound [of i] by (intro stol_to_string) simp
  have "adjacency_of_relations sc (map Suc (k # ks)) adj s =
      adjacency_of_relations sc (map Suc ks) (add_adjacency g (g_edges g sc ! k) adj) s1"
    using r(1) b st by (simp add: rel_addr_def getSource_def getDestination_def add_adjacency_def Let_def)
  then show ?case using Cons.IH [OF inv1] Cons.prems(2) r(2) by auto
qed

lemma fold_adjacency:
  "fold (\<lambda>e adj. adj(f e \<mapsto> insert (h e) (case adj (f e) of None \<Rightarrow> {} | Some ns \<Rightarrow> ns))) es adj x =
     (if x \<in> f ` set es \<or> adj x \<noteq> None
      then Some ((case adj x of None \<Rightarrow> {} | Some ns \<Rightarrow> ns) \<union> h ` {e \<in> set es. f e = x})
      else None)"
proof (induction es arbitrary: adj)
  case Nil
  then show ?case by (auto split: option.splits)
next
  case (Cons e es)
  show ?case unfolding fold.simps o_apply Cons.IH
    by (cases "f e = x") (auto split: option.splits)
qed

lemma fold_add_adjacency:
  "fold (add_adjacency g) es Map.empty x =
     (if x \<in> (\<lambda>e. int (number (g_ids g ! fst e))) ` set es
      then Some ((\<lambda>e. int (number (g_ids g ! snd e))) ` {e \<in> set es. int (number (g_ids g ! fst e)) = x})
      else None)"
  unfolding add_adjacency_def [abs_def] Let_def fold_adjacency by simp

end
