(* ===== verification/Graph_Recovery.thy ===== *)
theory Graph_Recovery
  imports Graph_Query
begin

text \<open>
  The index file and the reopening of a partition: \<^verbatim>\<open>persistNodeIndex\<close> and \<^verbatim>\<open>readNodeIndex\<close> are
  inverse up to keys that do not fit, and a partition opened in append mode on the files that a
  sequence of edge insertions left behind represents the same graph.
\<close>

lemma index_entry_length: "length key \<le> K \<Longrightarrow> length (index_entry K key v) = K + 4"
  by (simp add: index_entry_def)

definition entries :: "nat \<Rightarrow> (string \<times> u32) list \<Rightarrow> bytes" where
  "entries K it = concat (map (\<lambda>(key, v). index_entry K key v) it)"

definition short_key :: "nat \<Rightarrow> string \<Rightarrow> bool" where
  "short_key K key \<longleftrightarrow> NUL \<notin> set key \<and> length key < K"

lemma length_entries: "\<forall>p\<in>set it. short_key K (fst p) \<Longrightarrow> length (entries K it) = length it * (K + 4)"
  by (induction it) (auto simp: entries_def short_key_def index_entry_length)

lemma read_entries_entries:
  "\<forall>p\<in>set it. short_key K (fst p) \<Longrightarrow>
   read_entries K (length it) (entries K it) m = Some (m ++ map_of (rev it))"
proof (induction it arbitrary: m)
  case Nil
  then show ?case by (simp add: entries_def)
next
  case (Cons p it)
  obtain key v where p: "p = (key, v)" by (cases p)
  have k: "NUL \<notin> set key" "length key < K" using Cons.prems p by (auto simp: short_key_def)
  let ?c = "entries K (p # it)"
  have c: "?c = pad_to K key @ enc32 v @ entries K it" by (simp add: entries_def p index_entry_def)
  have "string_of_buf (take K ?c) = Some key"
    using k by (simp add: c string_of_buf_def c_str_pad_to NUL_in_pad_to)
  moreover have "get_range ?c K 4 = enc32 v" "drop (K + 4) ?c = entries K it"
    using k by (simp_all add: c get_range_def)
  ultimately have "read_entries K (length (p # it)) ?c m =
      read_entries K (length it) (entries K it) (m(key \<mapsto> v))" by simp
  also have "\<dots> = Some (m(key \<mapsto> v) ++ map_of (rev it))" using Cons.prems by (intro Cons.IH) simp
  also have "m(key \<mapsto> v) ++ map_of (rev it) = m ++ map_of (rev (p # it))"
    by (simp add: p)
  finally show ?case .
qed

lemma dbSize_small: "length c < 2 ^ 31 \<Longrightarrow> dbSize c = int (length c)"
  by (simp add: dbSize_def sint_uint signed_take_bit_int_eq_self unsigned_of_nat take_bit_nat_eq_self)

lemma readIndex_entries:
  assumes "\<forall>p\<in>set it. short_key K (fst p)" "length (entries K it) < 2 ^ 31"
  shows "readIndex K (entries K it) = Some (map_of (rev it), length it)"
proof -
  have "nat (dbSize (entries K it)) div (K + 4) = length it"
    using length_entries [OF assms(1)] by (simp only: dbSize_small [OF assms(2)] nat_int) simp
  moreover have "\<not> dbSize (entries K it) < 0" by (simp add: dbSize_small [OF assms(2)])
  ultimately show ?thesis using read_entries_entries [OF assms(1), of Map.empty]
    by (simp add: readIndex_def Let_def)
qed

lemma map_of_rev_distinct: "distinct (map fst it) \<Longrightarrow> map_of (rev it) = map_of it"
  by (intro map_of_eqI) (auto simp: rev_map [symmetric] map_of_eq_Some_iff)

lemma persistNodeIndex_entries:
  "indexDB (persistNodeIndex it nm) = entries (INDEX_KEY_SIZE nm) (filter (\<lambda>p. length (fst p) < INDEX_KEY_SIZE nm) it)"
  unfolding persistNodeIndex_def entries_def by (induction it) auto

lemma map_of_filter_restrict:
  "distinct (map fst it) \<Longrightarrow> map_of (filter (\<lambda>p. P (fst p)) it) = map_of it |` {k. P k}"
  by (induction it) (auto simp: restrict_map_def fun_eq_iff map_of_eq_None_iff image_iff split: if_splits)

subsection \<open>Reopening\<close>

definition files_of :: "node_manager \<Rightarrow> native_store \<Rightarrow> partition_files" where
  "files_of nm s =
     \<lparr>pf_nodes = content (nodesDB s), pf_properties = content (pdb (nodeProps s)),
      pf_meta_properties = content (pdb (nodeMeta s)), pf_edge_properties = content (pdb (edgeProps s)),
      pf_meta_edge_properties = content (pdb (edgeMeta s)), pf_relations = content (relationsDB s),
      pf_central_relations = content (centralRelationsDB s), pf_index = indexDB nm, pf_edge_index = edgeIndexDB nm\<rparr>"

lemma index_bytes_entries: "index_bytes K ids = entries K (map (\<lambda>(k, i). (i, of_nat k)) (enumerate 0 ids))"
  by (simp add: index_bytes_def entries_def split_def comp_def)

lemma map_of_enumerate:
  assumes "distinct ids"
  shows "map_of (rev (map (\<lambda>(k, i). (i, of_nat k :: u32)) (enumerate 0 ids))) =
    (\<lambda>i. if i \<in> set ids then Some (of_nat (position ids i)) else None)"
proof -
  let ?it = "map (\<lambda>(k, i). (i, of_nat k :: u32)) (enumerate 0 ids)"
  have fst: "map fst ?it = ids" by (simp add: split_def comp_def)
  have "map_of ?it i = (if i \<in> set ids then Some (of_nat (position ids i)) else None)" for i
  proof (cases "i \<in> set ids")
    case True
    have "(position ids i, i) \<in> set (enumerate 0 ids)"
      using True by (auto simp: in_set_enumerate_eq position_less nth_position)
    then have "(i, of_nat (position ids i)) \<in> set ?it" by force
    then show ?thesis using True assms fst by (simp add: map_of_eq_Some_iff)
  next
    case False
    then show ?thesis using fst by (simp add: map_of_eq_None_iff) (metis fst set_map)
  qed
  then show ?thesis using assms fst by (simp add: map_of_rev_distinct fun_eq_iff)
qed

lemma readIndex_inv:
  assumes "index_inv ids nm" "length (indexDB nm) < 2 ^ 31"
  shows "readIndex (INDEX_KEY_SIZE nm) (indexDB nm) = Some (nodeIndex nm, length ids)"
proof -
  let ?it = "map (\<lambda>(k, i). (i, of_nat k :: u32)) (enumerate 0 ids)" and ?K = "INDEX_KEY_SIZE nm"
  have db: "indexDB nm = entries ?K ?it" using assms(1) by (simp add: index_inv_def index_bytes_entries)
  have "\<forall>p\<in>set ?it. short_key ?K (fst p)"
    using assms(1) by (auto simp: index_inv_def valid_id_def short_key_def in_set_enumerate_eq)
  then have "readIndex ?K (indexDB nm) = Some (map_of (rev ?it), length ?it)"
    using assms(2) db by (simp only: readIndex_entries)
  then show ?thesis using assms(1) by (simp add: map_of_enumerate index_inv_def)
qed

lemma next_index_rel_inv:
  assumes "rel_inv sc es s"
  shows "next_index (rel_size sc) (content (relDB sc s)) = of_nat (Suc (length es))"
proof (cases "es = []")
  case True
  then show ?thesis using assms by (simp add: rel_inv_def next_index_def)
next
  case False
  then have "length (content (relDB sc s)) div rel_size sc = Suc (length es)"
    using assms by (simp add: rel_inv_def del: mult_Suc)
  then show ?thesis by (simp add: next_index_def)
qed

lemma open_store_inv:
  assumes "store_inv g nm s"
  shows "node_file_is (length (g_ids g)) (\<lambda>i. vertex_number (g_ids g ! i)) (graph_refs g)
           (open_store pm False (files_of nm s))"
    and "rel_inv sc (g_edges g sc) (open_store pm False (files_of nm s))"
proof -
  let ?t = "open_store pm False (files_of nm s)"
  have "content (nodesDB ?t) = content (nodesDB s)" "good (nodesDB ?t)"
    by (simp_all add: open_store_def files_of_def open_stream_def Let_def)
  then show "node_file_is (length (g_ids g)) (\<lambda>i. vertex_number (g_ids g ! i)) (graph_refs g) ?t"
    using assms by (simp add: store_inv_def node_file_is_def nodes_file_def)
  have ri: "rel_inv sc (g_edges g sc) s" using assms by (simp add: store_inv_def)
  have t: "content (relDB sc ?t) = content (relDB sc s)" "good (relDB sc ?t)"
    "nextRelationIndex sc ?t = next_index (rel_size sc) (content (relDB sc s))"
    by (cases sc; simp add: open_store_def files_of_def open_stream_def Let_def)+
  have "good (relDB sc s)" "nextRelationIndex sc s = of_nat (Suc (length (g_edges g sc)))"
    using ri by (simp_all only: rel_inv_def)
  then have "rel_inv sc (g_edges g sc) ?t = rel_inv sc (g_edges g sc) s"
    using t next_index_rel_inv [OF ri] by (intro rel_inv_cong) (simp_all only:)
  then show "rel_inv sc (g_edges g sc) ?t" using ri by (simp only:)
qed

lemma NodeManager_new_effect:
  assumes "store_inv g nm s" "edgeIndexDB nm = []" "length (indexDB nm) < 2 ^ 31"
    and "cfg_openMode gc = FILE_MODE" "maxLabelSize gc = INDEX_KEY_SIZE nm" "INDEX_KEY_SIZE nm \<noteq> 0"
  obtains nm' s' where "NodeManager_new pm gc (files_of nm s) = Some (nm', s')" "store_inv g nm' s'"
    and "lockEdgeAdd nm' = pm_lockEdgeAdd pm" "nodeIndex nm' = nodeIndex nm" "INDEX_KEY_SIZE nm' = INDEX_KEY_SIZE nm"
proof -
  have ii: "index_inv (g_ids g) nm" using assms(1) by (simp add: store_inv_def)
  note rd = readIndex_inv [OF ii assms(3)]
  have ed: "readIndex K [] = Some (Map.empty, 0)" for K by (simp add: readIndex_def dbSize_def)
  define nm' where "nm' = \<lparr>nm_graphID = cfg_graphID gc, nm_partitionID = cfg_partitionID gc,
    INDEX_KEY_SIZE = INDEX_KEY_SIZE nm, indexDB = indexDB nm, edgeIndexDB = [], nextEdgeIndex = 0,
    nextNodeIndex = of_nat (length (g_ids g)), nodeIndex = nodeIndex nm, edgeIndex = Map.empty, lockEdgeAdd = pm_lockEdgeAdd pm\<rparr>"
  have "NodeManager_new pm gc (files_of nm s) = Some (nm', open_store pm False (files_of nm s))"
    using rd assms by (simp add: NodeManager_new_def Let_def setIndexKeySize_def files_of_def ed nm'_def)
  moreover have "index_inv (g_ids g) nm'" using ii by (simp add: index_inv_def nm'_def)
  then have "store_inv g nm' (open_store pm False (files_of nm s))"
    using open_store_inv [OF assms(1)] assms(1) by (simp add: store_inv_def)
  ultimately show thesis by (rule that) (simp_all add: nm'_def)
qed

text \<open>A partition opened for the first time.\<close>

definition no_files :: partition_files where
  "no_files = \<lparr>pf_nodes = [], pf_properties = [], pf_meta_properties = [], pf_edge_properties = [],
     pf_meta_edge_properties = [], pf_relations = [], pf_central_relations = [], pf_index = [], pf_edge_index = []\<rparr>"

lemma store_inv_empty:
  assumes "indexDB nm = []" "nodeIndex nm = Map.empty" "nextNodeIndex nm = 0"
  shows "store_inv empty_graph nm (open_store pm True pf)"
proof -
  have "rel_inv sc [] (open_store pm True pf)" for sc
    by (cases sc; simp add: rel_inv_def open_store_def open_stream_def Let_def next_index_def
        RelationBlock_BLOCK_SIZE_def RelationBlock_CENTRAL_BLOCK_SIZE_def MAX_TYPE_SIZE_def)
  then show ?thesis using assms
    by (simp add: store_inv_def empty_graph_def index_inv_def index_bytes_def node_file_is_def nodes_file_def
        open_store_def open_stream_def Let_def)
qed

subsection \<open>The relations of a scope\<close>

lemma getAdjacencyList_of_effect:
  assumes "store_inv g nm s" "length (content (relDB sc s)) < 2 ^ 31"
  shows "\<exists>s'. getAdjacencyList_of sc s =
    Some (\<lambda>x. if x \<in> (\<lambda>e. int (number (g_ids g ! fst e))) ` set (g_edges g sc)
              then Some ((\<lambda>e. int (number (g_ids g ! snd e))) `
                          {e \<in> set (g_edges g sc). int (number (g_ids g ! fst e)) = x})
              else None, s') \<and> rewind s' = rewind s"
proof -
  let ?es = "g_edges g sc" and ?m = "length (g_edges g sc)"
  have len: "length (content (relDB sc s)) = (if ?es = [] then 0 else Suc ?m * rel_size sc)"
    using assms(1) by (simp add: store_inv_def rel_inv_def)
  have "nat (relation_count sc s) = ?m"
    unfolding relation_count_def dbSize_small [OF assms(2)] len
    by (simp add: zdiv_int [symmetric] del: mult_Suc)
  then have idx: "[1..<Suc (nat (relation_count sc s))] = map Suc [0..<?m]" by (simp add: map_Suc_upt)
  have "\<exists>s'. adjacency_of_relations sc (map Suc [0..<?m]) Map.empty s =
      Some (fold (\<lambda>k. add_adjacency g (?es ! k)) [0..<?m] Map.empty, s') \<and> rewind s' = rewind s"
    by (rule adjacency_of_relations_effect [OF assms(1)]) simp
  moreover have "fold (\<lambda>k. add_adjacency g (?es ! k)) [0..<?m] Map.empty = fold (add_adjacency g) ?es Map.empty"
    using fold_map [of "add_adjacency g" "(!) ?es" "[0..<?m]"] by (simp add: map_nth comp_def)
  ultimately show ?thesis unfolding getAdjacencyList_of_def idx by (auto simp: fold_add_adjacency fun_eq_iff)
qed

end
