(* ===== verification/Sample_Store.thy ===== *)
theory Sample_Store
  imports Graph_Recovery
begin

text \<open>
  Concrete stores for the examples: an empty partition, a partition with the edges 1-2 and 2-3,
  and one with a triangle whose last edge is central.
\<close>

subsection \<open>Samples\<close>

definition fresh_manager :: node_manager where
  "fresh_manager = \<lparr>nm_graphID = 1, nm_partitionID = 0, INDEX_KEY_SIZE = 6, indexDB = [], edgeIndexDB = [],
     nextEdgeIndex = 0, nextNodeIndex = 0, nodeIndex = Map.empty, edgeIndex = Map.empty, lockEdgeAdd = False\<rparr>"

definition fresh_store :: native_store where
  "fresh_store = open_store free_mutexes True no_files"

definition blank_image :: bytes where
  "blank_image = replicate MAX_TYPE_SIZE NUL"

definition sample_graph :: graph where
  "sample_graph = \<lparr>g_ids = [''1'', ''2'', ''3''],
     g_edges = (\<lambda>sc. case sc of Local \<Rightarrow> [(0, 1), (1, 2)] | Central \<Rightarrow> [])\<rparr>"

lemma fresh_store_inv: "store_inv empty_graph fresh_manager fresh_store"
  unfolding fresh_store_def by (rule store_inv_empty) (simp_all add: fresh_manager_def)

lemma valid_samples:
  "valid_id 6 ''1''" "valid_id 6 ''2''" "valid_id 6 ''3''"
  by (simp_all add: valid_id_def LABEL_SIZE_def stoul_def scan_number_def is_digit_def is_space_def digits_value_def)

lemma blank_image_type: "type_image blank_image"
  by (simp add: type_image_def blank_image_def MAX_TYPE_SIZE_def)

lemma rooms_empty: "nodes_room 6 empty_graph" "edges_room sc 3 empty_graph"
  by (cases sc; simp add: nodes_room_def edges_room_def empty_graph_def NodeBlock_BLOCK_SIZE_def
      RelationBlock_BLOCK_SIZE_def RelationBlock_CENTRAL_BLOCK_SIZE_def MAX_TYPE_SIZE_def)+

lemma sample_run_of:
  assumes "length es \<le> 3" "valid_edges 6 es"
  defines "run \<equiv> the (add_edges es fresh_manager fresh_store)"
  shows "store_inv (graph_add_edges es empty_graph) (fst run) (snd run)" "INDEX_KEY_SIZE (fst run) = 6"
    "edgeIndexDB (fst run) = []" "\<not> lockEdgeAdd (fst run)"
proof -
  have room: "nodes_room (2 * length es) empty_graph" "\<And>sc. edges_room sc (length es) empty_graph"
    using assms(1) by (auto intro: nodes_room_mono [OF rooms_empty(1)] edges_room_mono [OF rooms_empty(2)])
  have "valid_edges (INDEX_KEY_SIZE fresh_manager) es" using assms(2) by (simp add: fresh_manager_def)
  from add_edges_effect [OF fresh_store_inv _ this room]
  show "store_inv (graph_add_edges es empty_graph) (fst run) (snd run)" "INDEX_KEY_SIZE (fst run) = 6"
    "edgeIndexDB (fst run) = []" "\<not> lockEdgeAdd (fst run)"
    by (auto simp: fresh_manager_def run_def)
qed

text \<open>The store that holds the edges 1-2 and 2-3.\<close>

definition sample_edges :: "(scope \<times> (string \<times> string) \<times> bytes) list" where
  "sample_edges = [(Local, (''1'', ''2''), blank_image), (Local, (''2'', ''3''), blank_image)]"

lemma sample_graph_edges: "graph_add_edges sample_edges empty_graph = sample_graph"
  by (simp add: sample_edges_def sample_graph_def empty_graph_def graph_add_edge_def graph_add_node_def
      position_def Let_def fun_eq_iff split: scope.split)

definition sample_run :: "node_manager \<times> native_store" where
  "sample_run = the (add_edges sample_edges fresh_manager fresh_store)"

lemma sample_run_inv:
  "store_inv sample_graph (fst sample_run) (snd sample_run)" "INDEX_KEY_SIZE (fst sample_run) = 6"
  "edgeIndexDB (fst sample_run) = []" "\<not> lockEdgeAdd (fst sample_run)"
  using sample_run_of [of sample_edges] unfolding sample_graph_edges
  by (simp_all add: sample_run_def) (simp_all add: sample_edges_def valid_samples blank_image_type)

lemma sample_index_length: "length (indexDB (fst sample_run)) = 30"
proof -
  have "indexDB (fst sample_run) = index_bytes 6 [''1'', ''2'', ''3'']"
    using sample_run_inv(1,2) by (simp add: store_inv_def index_inv_def sample_graph_def)
  then show ?thesis by (simp add: index_bytes_def index_entry_def)
qed

subsection \<open>A triangle\<close>

definition triangle_edges :: "(scope \<times> (string \<times> string) \<times> bytes) list" where
  "triangle_edges = [(Local, (''1'', ''2''), blank_image), (Local, (''2'', ''3''), blank_image),
     (Central, (''3'', ''1''), blank_image)]"

definition triangle_graph :: graph where
  "triangle_graph = \<lparr>g_ids = [''1'', ''2'', ''3''],
     g_edges = (\<lambda>sc. case sc of Local \<Rightarrow> [(0, 1), (1, 2)] | Central \<Rightarrow> [(2, 0)])\<rparr>"

lemma triangle_graph_edges: "graph_add_edges triangle_edges empty_graph = triangle_graph"
  by (simp add: triangle_edges_def triangle_graph_def empty_graph_def graph_add_edge_def graph_add_node_def
      position_def Let_def fun_eq_iff split: scope.split)

definition triangle_run :: "node_manager \<times> native_store" where
  "triangle_run = the (add_edges triangle_edges fresh_manager fresh_store)"

lemma triangle_run_inv:
  "store_inv triangle_graph (fst triangle_run) (snd triangle_run)" "INDEX_KEY_SIZE (fst triangle_run) = 6"
  "edgeIndexDB (fst triangle_run) = []"
  using sample_run_of [of triangle_edges] unfolding triangle_graph_edges
  by (simp_all add: triangle_run_def) (simp_all add: triangle_edges_def valid_samples blank_image_type)

lemma sample_numbers: "number ''1'' = 1" "number ''2'' = 2" "number ''3'' = 3"
  by (simp_all add: number_def vertex_number_def stoul_def scan_number_def is_digit_def is_space_def digits_value_def)

lemma triangle_graph_small: "length (content (relDB sc (snd triangle_run))) < 2 ^ 31"
proof -
  have "rel_inv sc (g_edges triangle_graph sc) (snd triangle_run)"
    using triangle_run_inv(1) by (simp add: store_inv_def)
  then show ?thesis
    by (cases sc) (simp_all add: rel_inv_def triangle_graph_def RelationBlock_BLOCK_SIZE_def
        RelationBlock_CENTRAL_BLOCK_SIZE_def MAX_TYPE_SIZE_def)
qed

subsection \<open>A directed cycle of central edges\<close>

definition cycle_edges :: "(scope \<times> (string \<times> string) \<times> bytes) list" where
  "cycle_edges = [(Central, (''1'', ''2''), blank_image), (Central, (''2'', ''3''), blank_image),
     (Central, (''3'', ''1''), blank_image)]"

definition cycle_graph :: graph where
  "cycle_graph = \<lparr>g_ids = [''1'', ''2'', ''3''],
     g_edges = (\<lambda>sc. case sc of Local \<Rightarrow> [] | Central \<Rightarrow> [(0, 1), (1, 2), (2, 0)])\<rparr>"

lemma cycle_graph_edges: "graph_add_edges cycle_edges empty_graph = cycle_graph"
  by (simp add: cycle_edges_def cycle_graph_def empty_graph_def graph_add_edge_def graph_add_node_def
      position_def Let_def fun_eq_iff split: scope.split)

definition cycle_run :: "node_manager \<times> native_store" where
  "cycle_run = the (add_edges cycle_edges fresh_manager fresh_store)"

lemma cycle_run_inv:
  "store_inv cycle_graph (fst cycle_run) (snd cycle_run)" "INDEX_KEY_SIZE (fst cycle_run) = 6"
  "edgeIndexDB (fst cycle_run) = []"
  using sample_run_of [of cycle_edges] unfolding cycle_graph_edges
  by (simp_all add: cycle_run_def) (simp_all add: cycle_edges_def valid_samples blank_image_type)

lemma cycle_sizes: "length (indexDB (fst cycle_run)) = 30" "length (content (relDB Central (snd cycle_run))) = 624"
proof -
  have "indexDB (fst cycle_run) = index_bytes 6 [''1'', ''2'', ''3'']"
    using cycle_run_inv(1,2) by (simp add: store_inv_def index_inv_def cycle_graph_def)
  then show "length (indexDB (fst cycle_run)) = 30" by (simp add: index_bytes_def index_entry_def)
  have "rel_inv Central (g_edges cycle_graph Central) (snd cycle_run)"
    using cycle_run_inv(1) by (simp add: store_inv_def)
  then show "length (content (relDB Central (snd cycle_run))) = 624"
    by (simp add: rel_inv_def cycle_graph_def RelationBlock_CENTRAL_BLOCK_SIZE_def MAX_TYPE_SIZE_def)
qed

end
