(* ===== verification/Stream_Partition.thy ===== *)
theory Stream_Partition
  imports Cpp_Numbers
begin

text \<open>
  \<^verbatim>\<open>Partition\<close> of \<^verbatim>\<open>src/src/partitioner/stream\<close>: the edges of a streamed graph that stay inside one
  partition (\<open>edgeList\<close>, for each vertex its neighbours) and those that leave it (\<open>edgeCuts\<close>, for
  each other partition a map from resident vertices to foreign ones). The counter
  \<^verbatim>\<open>std::atomic<int> vertexCount\<close> wraps at 32 bits. Every public method holds the partition's
  mutex from its first to its last statement, so a method is one step. Counts that the source
  returns as \<^verbatim>\<open>double\<close> are integers below 2 to the power 53 and are kept as numbers.
\<close>

record partition =
  edgeList :: "string \<rightharpoonup> string set"
  edgeCuts :: "(string \<rightharpoonup> string set) list"
  part_id :: nat
  part_numberOfPartitions :: nat
  vertexCount :: "32 word"

definition Partition_new :: "nat \<Rightarrow> nat \<Rightarrow> partition" where
  "Partition_new i n =
     \<lparr>edgeList = Map.empty, edgeCuts = replicate n Map.empty, part_id = i, part_numberOfPartitions = n,
      vertexCount = 0\<rparr>"

definition isExistInEdgeCutsUnsafe :: "string \<Rightarrow> partition \<Rightarrow> bool" where
  "isExistInEdgeCutsUnsafe v p \<longleftrightarrow>
     list_ex (\<lambda>m. m v \<noteq> None) (take (part_numberOfPartitions p) (edgeCuts p))"

definition isExistInEdgeCuts :: "string \<Rightarrow> partition \<Rightarrow> bool" where
  "isExistInEdgeCuts v p = isExistInEdgeCutsUnsafe v p"

definition isExistUnsafe :: "string \<Rightarrow> partition \<Rightarrow> bool" where
  "isExistUnsafe v p \<longleftrightarrow>
     (let inEdgeList = edgeList p v \<noteq> None; inEdgeCuts = isExistInEdgeCutsUnsafe v p
      in inEdgeCuts \<or> inEdgeList)"

definition isExist :: "string \<Rightarrow> partition \<Rightarrow> bool" where
  "isExist v p = isExistUnsafe v p"

definition incrementVertexCount :: "partition \<Rightarrow> partition" where
  "incrementVertexCount p = p\<lparr>vertexCount := vertexCount p + 1\<rparr>"

text \<open>Inserting a neighbour of a vertex: a vertex seen for the first time is counted unless it is
  already resident because of a cut edge.\<close>

definition add_neighbour :: "string \<Rightarrow> string \<Rightarrow> partition \<Rightarrow> partition" where
  "add_neighbour v w p =
     (case edgeList p v of
        Some ns \<Rightarrow> p\<lparr>edgeList := (edgeList p)(v \<mapsto> insert w ns)\<rparr>
      | None \<Rightarrow>
          let p = p\<lparr>edgeList := (edgeList p)(v \<mapsto> {w})\<rparr>
          in if \<not> isExistInEdgeCutsUnsafe v p then incrementVertexCount p else p)"

definition Partition_addEdge :: "string \<times> string \<Rightarrow> bool \<Rightarrow> partition \<Rightarrow> partition" where
  "Partition_addEdge edge isDirected p =
     (let p = add_neighbour (fst edge) (snd edge) p
      in if isDirected
         then if edgeList p (snd edge) = None \<and> \<not> isExistInEdgeCutsUnsafe (snd edge) p
              then (incrementVertexCount p)\<lparr>edgeList := (edgeList p)(snd edge \<mapsto> {})\<rparr>
              else p
         else add_neighbour (snd edge) (fst edge) p)"

definition getNeighbors :: "string \<Rightarrow> partition \<Rightarrow> string set" where
  "getNeighbors v p = (case edgeList p v of Some ns \<Rightarrow> ns | None \<Rightarrow> {})"

definition uniqueEdges :: "partition \<Rightarrow> string set" where
  "uniqueEdges p = (\<Union>v\<in>dom (edgeList p). (\<lambda>w. v @ '','' @ w) ` the (edgeList p v))"

definition getEdgesCount :: "bool \<Rightarrow> partition \<Rightarrow> nat" where
  "getEdgesCount isDirected p =
     (if isDirected then card (uniqueEdges p) else card (uniqueEdges p) div 2)"

definition getVertextCount :: "partition \<Rightarrow> nat" where
  "getVertextCount p =
     card (dom (edgeList p)) +
     sum_list (map (\<lambda>m. card {v \<in> dom m. edgeList p v = None})
       (take (part_numberOfPartitions p) (edgeCuts p)))"

definition getVertextCountQuick :: "partition \<Rightarrow> int" where
  "getVertextCountQuick p = sint (vertexCount p)"

text \<open>\<^verbatim>\<open>addToEdgeCuts\<close>: a negative partition number passes the bound check and indexes outside the vector.\<close>

definition addToEdgeCuts :: "string \<Rightarrow> string \<Rightarrow> int \<Rightarrow> partition \<Rightarrow> partition option" where
  "addToEdgeCuts resident foreign partitionId p =
     (if partitionId < int (part_numberOfPartitions p)
      then
        let p = (if \<not> isExistUnsafe resident p then incrementVertexCount p else p)
        in if partitionId < 0 \<or> length (edgeCuts p) \<le> nat partitionId then None
           else
             let m = edgeCuts p ! nat partitionId;
                 m = (case m resident of
                        Some ns \<Rightarrow> m(resident \<mapsto> insert foreign ns)
                      | None \<Rightarrow> m(resident \<mapsto> {foreign}))
             in Some (p\<lparr>edgeCuts := (edgeCuts p)[nat partitionId := m]\<rparr>)
      else Some p)"

definition edgeCutsCount :: "bool \<Rightarrow> partition \<Rightarrow> nat" where
  "edgeCutsCount isDirected p =
     (let total = sum_list (map (\<lambda>m. \<Sum>v\<in>dom m. card (the (m v))) (edgeCuts p))
      in if isDirected then total else total div 2)"

definition getCentralVertexCount :: "int \<Rightarrow> partition \<Rightarrow> nat option" where
  "getCentralVertexCount i p =
     (if i < 0 \<or> length (edgeCuts p) \<le> nat i then None
      else Some (card {v \<in> dom (edgeCuts p ! nat i). edgeList p v = None}))"

definition getLocalVertexCount :: "partition \<Rightarrow> nat" where
  "getLocalVertexCount p = card (dom (edgeList p))"

definition addToEdgeList :: "string \<Rightarrow> partition \<Rightarrow> partition" where
  "addToEdgeList v p =
     (if edgeList p v = None then p\<lparr>edgeList := (edgeList p)(v \<mapsto> {})\<rparr> else p)"

text \<open>\<^verbatim>\<open>_split\<close>: \<^verbatim>\<open>std::getline\<close> with a delimiter yields no empty item at the end of the text.\<close>

fun split_on :: "char \<Rightarrow> string \<Rightarrow> string \<Rightarrow> string list" where
  "split_on d item [] = (if item = [] then [] else [item])"
| "split_on d item (c # cs) = (if c = d then item # split_on d [] cs else split_on d (item @ [c]) cs)"

definition split :: "string \<Rightarrow> char \<Rightarrow> string list" where
  "split s delim = split_on delim [] s"

subsection \<open>The vertex counter\<close>

definition vertices :: "partition \<Rightarrow> string set" where
  "vertices p = dom (edgeList p) \<union> (\<Union>m\<in>set (edgeCuts p). dom m)"

definition partition_inv :: "partition \<Rightarrow> bool" where
  "partition_inv p \<longleftrightarrow>
     length (edgeCuts p) = part_numberOfPartitions p \<and> finite (vertices p) \<and>
     vertexCount p = of_nat (card (vertices p))"

lemma in_cuts: "partition_inv p \<Longrightarrow> isExistInEdgeCutsUnsafe v p \<longleftrightarrow> v \<in> (\<Union>m\<in>set (edgeCuts p). dom m)"
  by (auto simp: partition_inv_def isExistInEdgeCutsUnsafe_def list_ex_iff)

lemma exists_vertex: "partition_inv p \<Longrightarrow> isExist v p \<longleftrightarrow> v \<in> vertices p"
  by (auto simp: isExist_def isExistUnsafe_def in_cuts vertices_def Let_def)

lemma partition_inv_new: "partition_inv (Partition_new i n)"
  by (auto simp: partition_inv_def Partition_new_def vertices_def)

lemma add_neighbour_edges:
  "edgeList (add_neighbour v w p) = (edgeList p)(v \<mapsto> insert w (getNeighbors v p))"
  "edgeCuts (add_neighbour v w p) = edgeCuts p"
  "part_numberOfPartitions (add_neighbour v w p) = part_numberOfPartitions p"
  "part_id (add_neighbour v w p) = part_id p"
  by (auto simp: add_neighbour_def getNeighbors_def Let_def incrementVertexCount_def split: option.splits)

lemma add_neighbour_inv:
  assumes "partition_inv p"
  shows "partition_inv (add_neighbour v w p)" "vertices (add_neighbour v w p) = insert v (vertices p)"
proof -
  show V: "vertices (add_neighbour v w p) = insert v (vertices p)"
    by (auto simp: vertices_def add_neighbour_edges)
  have "isExistInEdgeCutsUnsafe v (p\<lparr>edgeList := m\<rparr>) = isExistInEdgeCutsUnsafe v p" for m
    by (simp add: isExistInEdgeCutsUnsafe_def)
  then have "vertexCount (add_neighbour v w p) =
      (if v \<in> vertices p then vertexCount p else vertexCount p + 1)"
    using in_cuts [OF assms, of v]
    by (auto simp: add_neighbour_def Let_def incrementVertexCount_def vertices_def split: option.splits)
  then show "partition_inv (add_neighbour v w p)"
    using assms V by (auto simp: partition_inv_def add_neighbour_edges insert_absorb)
qed

lemma addEdge_undirected:
  assumes "partition_inv p"
  shows "partition_inv (Partition_addEdge (a, b) False p)"
    and "vertices (Partition_addEdge (a, b) False p) = {a, b} \<union> vertices p"
    and "edgeCuts (Partition_addEdge (a, b) False p) = edgeCuts p"
    and "part_numberOfPartitions (Partition_addEdge (a, b) False p) = part_numberOfPartitions p"
    and "part_id (Partition_addEdge (a, b) False p) = part_id p"
    and "edgeList (Partition_addEdge (a, b) False p) =
           (\<lambda>v. if v = a \<or> v = b
                then Some (getNeighbors v p \<union> (if v = a then {b} else {}) \<union> (if v = b then {a} else {}))
                else edgeList p v)"
  using add_neighbour_inv [OF assms, of a b] add_neighbour_inv [OF add_neighbour_inv(1) [OF assms], of b a a b]
  by (auto simp: Partition_addEdge_def Let_def add_neighbour_edges getNeighbors_def fun_eq_iff)

lemma dom_union_update:
  "q < length xs \<Longrightarrow> dom m = insert v (dom (xs ! q)) \<Longrightarrow>
   (\<Union>m\<in>set (xs[q := m]). dom m) = insert v (\<Union>m\<in>set xs. dom m)"
  by (induction xs arbitrary: q) (auto split: nat.splits)

lemma addToEdgeCuts_effect:
  assumes "partition_inv p" "q < part_numberOfPartitions p"
  obtains p' where "addToEdgeCuts v w (int q) p = Some p'" "partition_inv p'" "vertices p' = insert v (vertices p)"
    and "edgeList p' = edgeList p" "part_numberOfPartitions p' = part_numberOfPartitions p" "part_id p' = part_id p"
    and "edgeCuts p' = (edgeCuts p)[q := (edgeCuts p ! q)(v \<mapsto>
           insert w (case (edgeCuts p ! q) v of None \<Rightarrow> {} | Some ns \<Rightarrow> ns))]"
proof -
  define p1 where "p1 = (if \<not> isExistUnsafe v p then incrementVertexCount p else p)"
  let ?m = "(edgeCuts p ! q)(v \<mapsto> insert w (case (edgeCuts p ! q) v of None \<Rightarrow> {} | Some ns \<Rightarrow> ns))"
  define p' where "p' = p1\<lparr>edgeCuts := (edgeCuts p)[q := ?m]\<rparr>"
  have len: "q < length (edgeCuts p)" using assms by (simp add: partition_inv_def)
  have p1: "edgeList p1 = edgeList p" "edgeCuts p1 = edgeCuts p"
    "part_numberOfPartitions p1 = part_numberOfPartitions p" "part_id p1 = part_id p"
    by (simp_all add: p1_def incrementVertexCount_def)
  have "(case (edgeCuts p ! q) v of Some ns \<Rightarrow> (edgeCuts p ! q)(v \<mapsto> insert w ns)
        | None \<Rightarrow> (edgeCuts p ! q)(v \<mapsto> {w})) = ?m"
    by (auto split: option.splits)
  then have eff: "addToEdgeCuts v w (int q) p = Some p'"
    using assms(2) len p1 by (simp add: addToEdgeCuts_def Let_def p'_def p1_def [symmetric])
  have V: "vertices p' = insert v (vertices p)"
    using dom_union_update [OF len, of ?m v] by (auto simp: vertices_def p'_def p1)
  have "vertexCount p1 = (if v \<in> vertices p then vertexCount p else vertexCount p + 1)"
    using exists_vertex [OF assms(1), of v] by (simp add: p1_def incrementVertexCount_def isExist_def)
  then have "partition_inv p'"
    using assms(1) V by (auto simp: partition_inv_def p'_def p1 insert_absorb)
  then show thesis using V by (intro that [OF eff]) (simp_all add: p'_def p1)
qed

end
