(* ===== verification/Stream_Partitioner.thy ===== *)
theory Stream_Partitioner
  imports Complex_Main Stream_Partition "HOL-Library.Signed_Division"
begin

text \<open>
  \<^verbatim>\<open>Partitioner\<close> of \<^verbatim>\<open>src/src/partitioner/stream\<close>: the assignment of streamed edges to partitions by
  hash, by the FENNEL score and by linear deterministic greedy. The scores are computed in
  \<^verbatim>\<open>double\<close>; the model takes the arithmetic of \<^verbatim>\<open>double\<close> as an argument (\<open>double_ops\<close>), so that what
  is proved does not depend on rounding or on how comparisons treat NaN.
\<close>

datatype Algorithms = HASH | FENNEL | LDG

definition getPartitioner :: "string \<Rightarrow> Algorithms" where
  "getPartitioner i =
     (if i = ''1'' then HASH else if i = ''2'' then FENNEL else if i = ''3'' then LDG else HASH)"

record 'd double_ops =
  d_of :: "int \<Rightarrow> 'd"
  d_add :: "'d \<Rightarrow> 'd \<Rightarrow> 'd"
  d_sub :: "'d \<Rightarrow> 'd \<Rightarrow> 'd"
  d_mul :: "'d \<Rightarrow> 'd \<Rightarrow> 'd"
  d_div :: "'d \<Rightarrow> 'd \<Rightarrow> 'd"
  d_pow :: "'d \<Rightarrow> 'd \<Rightarrow> 'd"
  d_less :: "'d \<Rightarrow> 'd \<Rightarrow> bool"

record partitioner =
  partitions :: "partition list"
  numberOfPartitions :: nat
  totalVertices :: int
  totalEdges :: int
  pt_graphID :: int
  isDirect :: bool
  algorithmInUse :: Algorithms

definition Partitioner_new :: "nat \<Rightarrow> int \<Rightarrow> Algorithms \<Rightarrow> bool \<Rightarrow> partitioner" where
  "Partitioner_new n gid alg direct =
     \<lparr>partitions = map (\<lambda>i. Partition_new i n) [0..<n], numberOfPartitions = n, totalVertices = 0,
      totalEdges = 0, pt_graphID = gid, isDirect = direct, algorithmInUse = alg\<rparr>"

definition setGraphID :: "int \<Rightarrow> partitioner \<Rightarrow> partitioner" where
  "setGraphID graphId pt = pt\<lparr>pt_graphID := graphId\<rparr>"

text \<open>Storing an edge between two partitions, or inside one.\<close>

definition store_edge ::
  "string \<times> string \<Rightarrow> bool \<Rightarrow> int \<Rightarrow> int \<Rightarrow> partition list \<Rightarrow> partition list option" where
  "store_edge edge directed firstIndex secondIndex ps =
     (if firstIndex < 0 \<or> int (length ps) \<le> firstIndex \<or> secondIndex < 0 \<or> int (length ps) \<le> secondIndex then None
      else if firstIndex = secondIndex
      then Some (ps[nat firstIndex := Partition_addEdge edge directed (ps ! nat firstIndex)])
      else do {
        p \<leftarrow> addToEdgeCuts (fst edge) (snd edge) secondIndex (ps ! nat firstIndex);
        let ps = ps[nat firstIndex := p];
        q \<leftarrow> addToEdgeCuts (snd edge) (fst edge) firstIndex (ps ! nat secondIndex);
        Some (ps[nat secondIndex := q])
      })"

type_synonym partitionedEdge = "(string \<times> int) list"

definition hashPartitioning :: "string \<times> string \<Rightarrow> partitioner \<Rightarrow> (partitionedEdge \<times> partitioner) option" where
  "hashPartitioning edge pt =
     do {
       a \<leftarrow> stoi (fst edge);
       b \<leftarrow> stoi (snd edge);
       if numberOfPartitions pt = 0 then None
       else do {
         let firstIndex = a smod int (numberOfPartitions pt);
         let secondIndex = b smod int (numberOfPartitions pt);
         ps \<leftarrow> store_edge edge (isDirect pt) firstIndex secondIndex (partitions pt);
         Some ([(fst edge, firstIndex), (snd edge, secondIndex)], pt\<lparr>partitions := ps\<rparr>)
       }
     }"

text \<open>\<^verbatim>\<open>distance(begin, max_element(begin, end))\<close>: the first element that no later one exceeds.\<close>

fun max_from :: "('d \<Rightarrow> 'd \<Rightarrow> bool) \<Rightarrow> nat \<Rightarrow> 'd \<Rightarrow> nat \<Rightarrow> 'd list \<Rightarrow> nat" where
  "max_from lt best bv i [] = best"
| "max_from lt best bv i (x # xs) =
     (if lt bv x then max_from lt i x (Suc i) xs else max_from lt best bv (Suc i) xs)"

definition max_index :: "('d \<Rightarrow> 'd \<Rightarrow> bool) \<Rightarrow> 'd list \<Rightarrow> nat" where
  "max_index lt xs = (case xs of [] \<Rightarrow> 0 | x # xs \<Rightarrow> max_from lt 0 x 1 xs)"

text \<open>How the loop over the partitions ends: an early return because both vertices are resident,
  an early return because the edge is there, or the scores of all partitions.\<close>

datatype 'd loop_exit = BothResident nat | EdgePresent nat | Scores "'d list" "'d list"

text \<open>The loop of \<^verbatim>\<open>ldgPartitioning\<close> works on copies (\<^verbatim>\<open>auto partition\<close>): an edge it adds is lost.\<close>

fun ldg_loop ::
  "'d double_ops \<Rightarrow> int \<Rightarrow> nat \<Rightarrow> string \<times> string \<Rightarrow> nat \<Rightarrow> partition list \<Rightarrow> 'd list \<Rightarrow> 'd list \<Rightarrow> 'd loop_exit" where
  "ldg_loop D tv k edge i [] sf ss = Scores sf ss"
| "ldg_loop D tv k edge i (p # ps) sf ss =
     (let partitionSize = d_of D (int (getVertextCount p));
          n1 = getNeighbors (fst edge) p;
          n2 = getNeighbors (snd edge) p;
          weightedGreedy = d_sub D (d_of D 1) (d_div D partitionSize (d_div D (d_of D tv) (d_of D (int k))))
      in if isExist (fst edge) p \<and> isExist (snd edge) p then BothResident i
         else
           let c1 = (if card n1 = 0 then 1 else card n1);
               c2 = (if card n2 = 0 then 1 else card n2)
           in if n1 \<noteq> {} \<and> snd edge \<in> n1 then EdgePresent i
              else
                let sf = sf[i := d_mul D (d_of D (int c1)) weightedGreedy]
                in if n2 \<noteq> {} \<and> snd edge \<in> n2 then EdgePresent i
                   else
                     let ss = ss[i := d_mul D (d_of D (int c2)) weightedGreedy]
                     in ldg_loop D tv k edge (Suc i) ps sf ss)"

definition ldgPartitioning ::
  "'d double_ops \<Rightarrow> string \<times> string \<Rightarrow> partitioner \<Rightarrow> (partitionedEdge \<times> partitioner) option" where
  "ldgPartitioning D edge pt =
     (let k = numberOfPartitions pt;
          zero = replicate k (d_of D 0)
      in case ldg_loop D (totalVertices pt) k edge 0 (partitions pt) zero zero of
           BothResident i \<Rightarrow>
             Some ([(fst edge, int i), (snd edge, int i)], pt\<lparr>totalEdges := totalEdges pt + 1\<rparr>)
         | EdgePresent i \<Rightarrow> Some ([(fst edge, int i), (snd edge, int i)], pt)
         | Scores sf ss \<Rightarrow>
             do {
               let pt = pt\<lparr>totalVertices := totalVertices pt + 1 + 1\<rparr>;
               let firstIndex = int (max_index (d_less D) sf);
               let secondIndex = int (max_index (d_less D) ss);
               ps \<leftarrow> store_edge edge False firstIndex secondIndex (partitions pt);
               Some ([(fst edge, firstIndex), (snd edge, secondIndex)],
                     pt\<lparr>partitions := ps, totalEdges := totalEdges pt + 1\<rparr>)
             })"

fun fennel_loop ::
  "'d double_ops \<Rightarrow> 'd \<Rightarrow> 'd \<Rightarrow> string \<times> string \<Rightarrow> nat \<Rightarrow> partition list \<Rightarrow> 'd list \<Rightarrow> 'd list \<Rightarrow> 'd loop_exit" where
  "fennel_loop D gamma alpha edge i [] sf ss = Scores sf ss"
| "fennel_loop D gamma alpha edge i (p # ps) sf ss =
     (let n1 = getNeighbors (fst edge) p;
          n2 = getNeighbors (snd edge) p
      in if isExist (fst edge) p \<and> isExist (snd edge) p then BothResident i
         else
           let partitionSize = d_of D (getVertextCountQuick p);
               intraCost = d_mul D alpha (d_sub D (d_pow D (d_add D partitionSize (d_of D 1)) gamma)
                                            (d_pow D partitionSize gamma))
           in if n1 \<noteq> {} \<and> snd edge \<in> n1 then EdgePresent i
              else if n2 \<noteq> {} \<and> fst edge \<in> n2 then EdgePresent i
              else fennel_loop D gamma alpha edge (Suc i) ps
                     (sf[i := d_sub D (d_of D (int (card n1))) intraCost])
                     (ss[i := d_sub D (d_of D (int (card n2))) intraCost]))"

definition fennelPartitioning ::
  "'d double_ops \<Rightarrow> string \<times> string \<Rightarrow> partitioner \<Rightarrow> (partitionedEdge \<times> partitioner) option" where
  "fennelPartitioning D edge pt =
     (let k = numberOfPartitions pt;
          zero = replicate k (d_of D 0);
          gamma = d_div D (d_of D 3) (d_of D 2);
          alpha = d_div D (d_mul D (d_of D (totalEdges pt)) (d_pow D (d_of D (int k)) (d_sub D gamma (d_of D 1))))
                    (d_pow D (d_of D (totalVertices pt)) gamma)
      in case fennel_loop D gamma alpha edge 0 (partitions pt) zero zero of
           BothResident i \<Rightarrow>
             Some ([(fst edge, int i), (snd edge, int i)],
                   pt\<lparr>partitions := (partitions pt)[i := Partition_addEdge edge False (partitions pt ! i)],
                      totalEdges := totalEdges pt + 1\<rparr>)
         | EdgePresent i \<Rightarrow> Some ([(fst edge, int i), (snd edge, int i)], pt)
         | Scores sf ss \<Rightarrow>
             do {
               let pt = pt\<lparr>totalVertices := totalVertices pt + 1 + 1\<rparr>;
               let firstIndex = int (max_index (d_less D) sf);
               let secondIndex = firstIndex;
               ps \<leftarrow> store_edge edge False firstIndex secondIndex (partitions pt);
               Some ([(fst edge, firstIndex), (snd edge, secondIndex)],
                     pt\<lparr>partitions := ps, totalEdges := totalEdges pt + 1\<rparr>)
             })"

definition Partitioner_addEdge ::
  "'d double_ops \<Rightarrow> string \<times> string \<Rightarrow> partitioner \<Rightarrow> (partitionedEdge \<times> partitioner) option" where
  "Partitioner_addEdge D edge pt =
     (case algorithmInUse pt of
        HASH \<Rightarrow> hashPartitioning edge pt
      | FENNEL \<Rightarrow> fennelPartitioning D edge pt
      | LDG \<Rightarrow> ldgPartitioning D edge pt)"

text \<open>The numbers that \<^verbatim>\<open>updateMetaDB\<close> adds to the graph's row: vertices, and edges with every cut edge
  counted from both sides.\<close>

definition updateMetaDB_counts :: "partitioner \<Rightarrow> int \<times> real" where
  "updateMetaDB_counts pt =
     (let vertexCount = sum_list (map getVertextCountQuick (partitions pt));
          edgesCount = sum_list (map (getEdgesCount (isDirect pt)) (partitions pt));
          edgeCutsCount = sum_list (map (edgeCutsCount True) (partitions pt))
      in (vertexCount, real edgesCount + real edgeCutsCount / 2))"

text \<open>\<^verbatim>\<open>deserialize\<close>: the log lines add the number to a string literal of 17 characters.\<close>

definition deserialize :: "string \<Rightarrow> (int \<times> int) option" where
  "deserialize s =
     (let v = split s CHR '' ''
      in if length v < 2 then None
         else do {
           a \<leftarrow> stoi (v ! 0);
           b \<leftarrow> stoi (v ! 1);
           if 0 \<le> a \<and> a \<le> 17 \<and> 0 \<le> b \<and> b \<le> 17 then Some (a, b) else None
         })"

end
