(* ===== verification/Stream_Hashing.thy ===== *)
theory Stream_Hashing
  imports Stream_Partitioner
begin

text \<open>
  What hash partitioning of an undirected stream computes: after any sequence of edges every
  partition holds exactly the adjacency of its own vertices, split by the partition of the other
  end. From this follow the numbers of vertices and edges reported to the metadata database.
\<close>

subsection \<open>The specification\<close>

definition linked :: "(string \<times> string) set \<Rightarrow> string \<Rightarrow> string \<Rightarrow> bool" where
  "linked S v w \<longleftrightarrow> (v, w) \<in> S \<or> (w, v) \<in> S"

definition home :: "nat \<Rightarrow> string \<Rightarrow> nat" where
  "home k v = nat (the (stoi v)) mod k"

definition numeric :: "string \<Rightarrow> bool" where
  "numeric v \<longleftrightarrow> (case stoi v of Some n \<Rightarrow> 0 \<le> n | None \<Rightarrow> False)"

definition neighbours_in :: "nat \<Rightarrow> (string \<times> string) set \<Rightarrow> nat \<Rightarrow> string \<Rightarrow> string set" where
  "neighbours_in k S q v = {w. linked S v w \<and> home k w = q}"

definition row :: "nat \<Rightarrow> (string \<times> string) set \<Rightarrow> nat \<Rightarrow> nat \<Rightarrow> string \<rightharpoonup> string set" where
  "row k S p q v =
     (if home k v = p \<and> neighbours_in k S q v \<noteq> {} then Some (neighbours_in k S q v) else None)"

definition part_holds :: "nat \<Rightarrow> (string \<times> string) set \<Rightarrow> nat \<Rightarrow> partition \<Rightarrow> bool" where
  "part_holds k S p part \<longleftrightarrow>
     partition_inv part \<and> part_numberOfPartitions part = k \<and> part_id part = p \<and>
     edgeList part = row k S p p \<and>
     (\<forall>q<k. edgeCuts part ! q = (if q = p then Map.empty else row k S p q))"

definition stream_holds :: "nat \<Rightarrow> (string \<times> string) set \<Rightarrow> partitioner \<Rightarrow> bool" where
  "stream_holds k S pt \<longleftrightarrow>
     0 < k \<and> numberOfPartitions pt = k \<and> \<not> isDirect pt \<and> algorithmInUse pt = HASH \<and>
     length (partitions pt) = k \<and> (\<forall>p<k. part_holds k S p (partitions pt ! p))"

fun stream_edges ::
  "'d double_ops \<Rightarrow> (string \<times> string) list \<Rightarrow> partitioner \<Rightarrow> (partitionedEdge list \<times> partitioner) option" where
  "stream_edges D [] pt = Some ([], pt)"
| "stream_edges D (e # es) pt =
     do {
       (r, pt) \<leftarrow> Partitioner_addEdge D e pt;
       (rs, pt) \<leftarrow> stream_edges D es pt;
       Some (r # rs, pt)
     }"

definition placed :: "nat \<Rightarrow> string \<times> string \<Rightarrow> partitionedEdge" where
  "placed k e = [(fst e, int (home k (fst e))), (snd e, int (home k (snd e)))]"

subsection \<open>One edge\<close>

lemma home_less: "0 < k \<Longrightarrow> home k v < k"
  by (simp add: home_def)

lemma linked_insert: "linked (insert (a, b) S) v w \<longleftrightarrow> linked S v w \<or> v = a \<and> w = b \<or> v = b \<and> w = a"
  by (auto simp: linked_def)

lemma neighbours_in_insert:
  "neighbours_in k (insert (a, b) S) q v =
     neighbours_in k S q v \<union> (if v = a \<and> home k b = q then {b} else {}) \<union> (if v = b \<and> home k a = q then {a} else {})"
  by (auto simp: neighbours_in_def linked_insert)

lemma row_neighbours: "home k v = p \<Longrightarrow> (case row k S p q v of Some ns \<Rightarrow> ns | None \<Rightarrow> {}) = neighbours_in k S q v"
  by (simp add: row_def)

lemma row_unchanged:
  "(home k a = p \<Longrightarrow> home k b \<noteq> q) \<Longrightarrow> (home k b = p \<Longrightarrow> home k a \<noteq> q) \<Longrightarrow> row k (insert (a, b) S) p q = row k S p q"
  by (auto simp: row_def neighbours_in_insert fun_eq_iff)

lemma row_new:
  "home k a = p \<Longrightarrow> home k b = q \<Longrightarrow> p \<noteq> q \<Longrightarrow>
   row k (insert (a, b) S) p q = (row k S p q)(a \<mapsto> insert b (neighbours_in k S q a))"
  by (auto simp: row_def neighbours_in_insert fun_eq_iff)

lemma row_flip: "row k (insert (a, b) S) = row k (insert (b, a) S)"
  by (auto simp: row_def neighbours_in_insert fun_eq_iff Un_ac)

lemma part_holds_other:
  "part_holds k S p part \<Longrightarrow> home k a \<noteq> p \<Longrightarrow> home k b \<noteq> p \<Longrightarrow> part_holds k (insert (a, b) S) p part"
  by (simp add: part_holds_def row_unchanged)

lemma part_holds_inside:
  assumes "part_holds k S p part" "home k a = p" "home k b = p"
  shows "part_holds k (insert (a, b) S) p (Partition_addEdge (a, b) False part)"
proof -
  from assms(1) have inv: "partition_inv part" and L: "edgeList part = row k S p p"
    by (simp_all add: part_holds_def)
  have "getNeighbors v part = neighbours_in k S p v" if "home k v = p" for v
    using row_neighbours [OF that, of S p] by (simp add: getNeighbors_def L)
  then have "edgeList (Partition_addEdge (a, b) False part) = row k (insert (a, b) S) p p"
    using assms(2,3) by (auto simp: addEdge_undirected(6) [OF inv] L row_def neighbours_in_insert fun_eq_iff)
  moreover have "row k (insert (a, b) S) p q = row k S p q" if "q \<noteq> p" for q
    using that assms(2,3) by (intro row_unchanged) auto
  ultimately show ?thesis
    using assms(1) addEdge_undirected [OF inv, of a b] by (simp add: part_holds_def)
qed

lemma part_holds_cut:
  assumes "part_holds k S p part" "home k a = p" "home k b = q" "p \<noteq> q" "q < k"
  obtains part' where "addToEdgeCuts a b (int q) part = Some part'" "part_holds k (insert (a, b) S) p part'"
proof -
  from assms(1) have inv: "partition_inv part" and C: "edgeCuts part ! q = row k S p q"
    and n: "part_numberOfPartitions part = k"
    using assms(4,5) by (simp_all add: part_holds_def)
  from assms(5) n have "q < part_numberOfPartitions part" by simp
  from addToEdgeCuts_effect [OF inv this, of a b]
  obtain part' where eff: "addToEdgeCuts a b (int q) part = Some part'" "partition_inv part'"
    "edgeList part' = edgeList part" "part_numberOfPartitions part' = part_numberOfPartitions part"
    "part_id part' = part_id part"
    and "edgeCuts part' = (edgeCuts part)[q := (edgeCuts part ! q)(a \<mapsto>
           insert b (case (edgeCuts part ! q) a of None \<Rightarrow> {} | Some ns \<Rightarrow> ns))]"
    by blast
  then have cuts: "edgeCuts part' = (edgeCuts part)[q := (row k S p q)(a \<mapsto> insert b (neighbours_in k S q a))]"
    by (simp only: C row_neighbours [OF assms(2)])
  have "row k (insert (a, b) S) p r = row k S p r" if "r \<noteq> q" for r
    using that assms(2-4) by (intro row_unchanged) auto
  moreover have "length (edgeCuts part) = k" using inv n by (simp add: partition_inv_def)
  ultimately have "part_holds k (insert (a, b) S) p part'"
    using assms eff n cuts row_new [OF assms(2-4)] by (auto simp: part_holds_def nth_list_update)
  then show thesis by (rule that [OF eff(1)])
qed

lemma store_edge_holds:
  assumes "0 < k" "length ps = k" "\<And>p. p < k \<Longrightarrow> part_holds k S p (ps ! p)"
  obtains ps' where "store_edge (a, b) False (int (home k a)) (int (home k b)) ps = Some ps'"
    "length ps' = k" "\<And>p. p < k \<Longrightarrow> part_holds k (insert (a, b) S) p (ps' ! p)"
proof (cases "home k a = home k b")
  case True
  let ?ps = "ps[home k a := Partition_addEdge (a, b) False (ps ! home k a)]"
  have ha: "home k a < k" using assms(1) by (rule home_less)
  have "part_holds k (insert (a, b) S) p (?ps ! p)" if "p < k" for p
    using assms(2) part_holds_inside [OF assms(3) [OF ha] refl True [symmetric]]
      part_holds_other [OF assms(3) [OF that], of a b] True ha
    by (cases "p = home k a") auto
  then show thesis using True ha assms(2) by (intro that [of ?ps]) (simp_all add: store_edge_def)
next
  case False
  have h: "home k a < k" "home k b < k" using assms(1) by (auto intro: home_less)
  obtain p1 where p1: "addToEdgeCuts a b (int (home k b)) (ps ! home k a) = Some p1"
      "part_holds k (insert (a, b) S) (home k a) p1"
    using part_holds_cut [OF assms(3) [OF h(1)] refl refl False h(2)] by blast
  obtain p2 where p2: "addToEdgeCuts b a (int (home k a)) (ps ! home k b) = Some p2"
      "part_holds k (insert (b, a) S) (home k b) p2"
    using part_holds_cut [OF assms(3) [OF h(2)] refl refl False [symmetric] h(1)] by blast
  have p2': "part_holds k (insert (a, b) S) (home k b) p2"
    using p2(2) by (simp add: part_holds_def row_flip [of k a b])
  let ?ps = "ps[home k a := p1, home k b := p2]"
  have "part_holds k (insert (a, b) S) p (?ps ! p)" if "p < k" for p
    using p1(2) p2' part_holds_other [OF assms(3) [OF that], of a b] assms(2) h
    by (auto simp: nth_list_update)
  then show thesis using False h assms(2) p1(1) p2(1)
    by (intro that [of ?ps]) (simp_all add: store_edge_def)
qed

lemma numeric_home: "numeric v \<Longrightarrow> 0 < k \<Longrightarrow> stoi v = Some n \<Longrightarrow> n smod int k = int (home k v)"
  by (cases "n = 0") (auto simp: numeric_def home_def smod_int_alt_def zmod_int sgn_if)

lemma hash_step:
  assumes "stream_holds k S pt" "numeric a" "numeric b"
  obtains pt' where "Partitioner_addEdge D (a, b) pt = Some (placed k (a, b), pt')" "stream_holds k (insert (a, b) S) pt'"
proof -
  from assms(1) have k: "0 < k" and len: "length (partitions pt) = k"
    and holds: "\<And>p. p < k \<Longrightarrow> part_holds k S p (partitions pt ! p)"
    by (simp_all add: stream_holds_def)
  from store_edge_holds [OF k len holds, of a b] obtain ps where
    ps: "store_edge (a, b) False (int (home k a)) (int (home k b)) (partitions pt) = Some ps"
      "length ps = k" "\<And>p. p < k \<Longrightarrow> part_holds k (insert (a, b) S) p (ps ! p)"
    by blast
  obtain n m where "stoi a = Some n" "stoi b = Some m"
    using assms(2,3) by (auto simp: numeric_def split: option.splits)
  then have "Partitioner_addEdge D (a, b) pt = Some (placed k (a, b), pt\<lparr>partitions := ps\<rparr>)"
    using assms ps(1) numeric_home [OF _ k] k
    by (simp add: Partitioner_addEdge_def hashPartitioning_def placed_def stream_holds_def)
  moreover have "stream_holds k (insert (a, b) S) (pt\<lparr>partitions := ps\<rparr>)"
    using assms(1) ps(2,3) by (simp add: stream_holds_def)
  ultimately show thesis by (rule that)
qed

lemma stream_holds_new: "0 < k \<Longrightarrow> stream_holds k {} (Partitioner_new k gid HASH False)"
  by (auto simp: stream_holds_def Partitioner_new_def part_holds_def partition_inv_new Partition_new_def [of _ k]
      row_def neighbours_in_def linked_def fun_eq_iff) (simp_all add: Partition_new_def [symmetric] partition_inv_new)

lemma stream_holds_run:
  assumes "stream_holds k S pt" "\<forall>e\<in>set es. numeric (fst e) \<and> numeric (snd e)"
  obtains pt' where "stream_edges D es pt = Some (map (placed k) es, pt')" "stream_holds k (set es \<union> S) pt'"
  using assms
proof (induction es arbitrary: S pt thesis)
  case Nil
  then show ?case by simp
next
  case (Cons e es)
  obtain a b where e: "e = (a, b)" by (cases e)
  obtain pt1 where 1: "Partitioner_addEdge D e pt = Some (placed k e, pt1)" "stream_holds k (insert e S) pt1"
    using hash_step [OF Cons.prems(2), of a b D] Cons.prems(3) e by auto
  obtain pt2 where 2: "stream_edges D es pt1 = Some (map (placed k) es, pt2)" "stream_holds k (set es \<union> insert e S) pt2"
    using Cons.IH [OF _ 1(2)] Cons.prems(3) by auto
  show ?case using 1(1) 2 by (intro Cons.prems(1) [of pt2]) simp_all
qed

subsection \<open>Counting\<close>

definition pairs :: "(string \<times> string) set \<Rightarrow> (string \<times> string) set" where
  "pairs S = {(v, w). linked S v w}"

definition pairs_in :: "nat \<Rightarrow> (string \<times> string) set \<Rightarrow> nat \<Rightarrow> nat \<Rightarrow> (string \<times> string) set" where
  "pairs_in k S p q = {(v, w). linked S v w \<and> home k v = p \<and> home k w = q}"

lemma pairs_finite: "finite S \<Longrightarrow> finite (pairs S)"
  by (rule finite_subset [of _ "S \<union> S\<inverse>"]) (auto simp: pairs_def linked_def)

lemma pairs_in_finite: "finite S \<Longrightarrow> finite (pairs_in k S p q)"
  by (rule finite_subset [OF _ pairs_finite [of S]]) (auto simp: pairs_def pairs_in_def)

lemma row_pairs: "{(v, w). v \<in> dom (row k S p q) \<and> w \<in> the (row k S p q v)} = pairs_in k S p q"
  by (auto simp: row_def pairs_in_def neighbours_in_def split: if_splits)

lemma row_card:
  assumes "finite S"
  shows "(\<Sum>v\<in>dom (row k S p q). card (the (row k S p q v))) = card (pairs_in k S p q)"
proof -
  have S: "pairs_in k S p q = Sigma (dom (row k S p q)) (\<lambda>v. the (row k S p q v))"
    by (auto simp: row_pairs [symmetric])
  note fin = finite_imageI [OF pairs_in_finite [OF assms, of k p q]]
  have "dom (row k S p q) \<subseteq> fst ` pairs_in k S p q"
    by (force simp: row_pairs [symmetric] row_def split: if_splits)
  then have "finite (dom (row k S p q))" by (rule finite_subset) (rule fin)
  moreover have "finite (the (row k S p q v))" if "v \<in> dom (row k S p q)" for v
    by (rule finite_subset [OF _ fin [of snd]]) (use that in \<open>force simp: S\<close>)
  ultimately show ?thesis by (simp add: S card_SigmaI)
qed

text \<open>A symmetric relation without loops has two pairs for every unordered pair.\<close>

lemma sym_pairs_card:
  assumes "finite A" "sym A" "irrefl A"
  shows "card A = 2 * card ((\<lambda>(v, w). {v, w}) ` A)"
proof -
  let ?f = "\<lambda>(v, w). {v, w}"
  have "card {x \<in> A. ?f x = y} = 2" if "y \<in> ?f ` A" for y
  proof -
    from that obtain v w where vw: "(v, w) \<in> A" "y = {v, w}" by auto
    then have "{x \<in> A. ?f x = y} = {(v, w), (w, v)}" "v \<noteq> w"
      using assms(2,3) by (auto simp: doubleton_eq_iff dest: symD irreflD)
    then show ?thesis by simp
  qed
  then have "(\<Sum>y\<in>?f ` A. \<Sum>x\<in>{x \<in> A. ?f x = y}. 1) = 2 * card (?f ` A)" by simp
  then show ?thesis using sum.image_gen [OF assms(1), of "\<lambda>_. 1 :: nat" ?f] by simp
qed

definition loop_free :: "(string \<times> string) set \<Rightarrow> bool" where
  "loop_free S \<longleftrightarrow> (\<forall>(v, w)\<in>S. v \<noteq> w)"

definition comma_free :: "(string \<times> string) set \<Rightarrow> bool" where
  "comma_free S \<longleftrightarrow> (\<forall>(v, w)\<in>S. CHR '','' \<notin> set v \<and> CHR '','' \<notin> set w)"

lemma pairs_in_even:
  assumes "finite S" "loop_free S"
  shows "2 * (card (pairs_in k S p p) div 2) = card (pairs_in k S p p)"
proof -
  have "sym (pairs_in k S p p)" "irrefl (pairs_in k S p p)"
    using assms(2) by (auto simp: sym_def irrefl_def pairs_in_def linked_def loop_free_def)
  from sym_pairs_card [OF pairs_in_finite [OF assms(1)] this] show ?thesis by simp
qed

lemma pairs_count:
  assumes "finite S" "loop_free S"
  shows "card (pairs S) = 2 * card ((\<lambda>(v, w). {v, w}) ` S)"
proof -
  have "sym (pairs S)" "irrefl (pairs S)"
    using assms(2) by (auto simp: sym_def irrefl_def pairs_def linked_def loop_free_def)
  moreover have "(\<lambda>(v, w). {v, w}) ` pairs S = (\<lambda>(v, w). {v, w}) ` S"
    by (auto simp: pairs_def linked_def image_iff insert_commute)
  ultimately show ?thesis using sym_pairs_card [OF pairs_finite [OF assms(1)]] by simp
qed

lemma pairs_split:
  assumes "finite S" "0 < k"
  shows "(\<Sum>p<k. \<Sum>q<k. card (pairs_in k S p q)) = card (pairs S)"
proof -
  let ?g = "\<lambda>(v, w). (home k v, home k w)"
  have "pairs_in k S p q = {x \<in> pairs S. ?g x = (p, q)}" for p q
    by (auto simp: pairs_in_def pairs_def)
  moreover have "(\<Sum>y\<in>{..<k} \<times> {..<k}. \<Sum>x\<in>{x \<in> pairs S. ?g x = y}. 1) = (\<Sum>x\<in>pairs S. 1 :: nat)"
    using assms by (intro sum.group pairs_finite) (auto simp: home_less)
  ultimately show ?thesis by (simp add: sum.cartesian_product case_prod_beta prod_eq_iff)
qed

lemma comma_unique:
  "CHR '','' \<notin> set v \<Longrightarrow> CHR '','' \<notin> set v' \<Longrightarrow> v @ CHR '','' # w = v' @ CHR '','' # w' \<longleftrightarrow> v = v' \<and> w = w'"
proof (induction v arbitrary: v')
  case Nil
  then show ?case by (cases v') auto
next
  case (Cons c v)
  then show ?case by (cases v') auto
qed

lemma edges_count:
  assumes "part_holds k S p part" "comma_free S"
  shows "getEdgesCount False part = card (pairs_in k S p p) div 2"
proof -
  have "uniqueEdges part = (\<lambda>(v, w). v @ '','' @ w) ` pairs_in k S p p"
    using assms(1) by (force simp: uniqueEdges_def part_holds_def row_pairs [symmetric])
  moreover have "CHR '','' \<notin> set v" if "(v, w) \<in> pairs_in k S p p" for v w
    using that assms(2) by (auto simp: pairs_in_def linked_def comma_free_def)
  then have "inj_on (\<lambda>(v, w). v @ '','' @ w) (pairs_in k S p p)"
    by (intro inj_onI) (auto simp: comma_unique)
  ultimately show ?thesis by (simp add: getEdgesCount_def card_image)
qed

lemma cuts_rows:
  assumes "part_holds k S p part"
  shows "edgeCuts part = map (\<lambda>q. if q = p then Map.empty else row k S p q) [0..<k]"
  using assms by (intro nth_equalityI) (simp_all add: part_holds_def partition_inv_def)

lemma cuts_count:
  assumes "part_holds k S p part" "finite S" "p < k"
  shows "edgeCutsCount True part + card (pairs_in k S p p) = (\<Sum>q<k. card (pairs_in k S p q))"
proof -
  let ?n = "\<lambda>m. \<Sum>v\<in>dom m. card (the (m v))"
  have "edgeCutsCount True part = (\<Sum>q\<leftarrow>[0..<k]. ?n (if q = p then Map.empty else row k S p q))"
    by (simp add: edgeCutsCount_def cuts_rows [OF assms(1)] comp_def)
  also have "\<dots> = (\<Sum>q<k. if q = p then 0 else card (pairs_in k S p q))"
    by (auto simp: interv_sum_list_conv_sum_set_nat atLeast0LessThan row_card [OF assms(2)] intro!: sum.cong)
  also have "\<dots> = (\<Sum>q\<in>{..<k} - {p}. card (pairs_in k S p q))"
    using assms(3) by (simp add: sum.delta_remove)
  finally show ?thesis using assms(3) by (simp add: sum.remove [of "{..<k}" p])
qed

lemma part_vertices:
  assumes "part_holds k S p part" "0 < k"
  shows "vertices part = {v. home k v = p \<and> (\<exists>w. linked S v w)}"
proof (intro set_eqI iffI)
  fix v
  have dom: "v \<in> dom (row k S p q) \<longleftrightarrow> home k v = p \<and> (\<exists>w. linked S v w \<and> home k w = q)" for q
    by (auto simp: row_def neighbours_in_def split: if_splits)
  have V: "vertices part = dom (row k S p p) \<union> (\<Union>q\<in>{q. q < k \<and> q \<noteq> p}. dom (row k S p q))"
    using assms(1) unfolding vertices_def cuts_rows [OF assms(1)]
    by (auto simp: part_holds_def split: if_splits)
  show "v \<in> {v. home k v = p \<and> (\<exists>w. linked S v w)}" if "v \<in> vertices part"
    using that unfolding V Un_iff UN_iff dom by blast
  show "v \<in> vertices part" if "v \<in> {v. home k v = p \<and> (\<exists>w. linked S v w)}"
  proof -
    from that obtain w where w: "home k v = p" "linked S v w" by auto
    show ?thesis
      unfolding V Un_iff UN_iff dom using w home_less [OF assms(2), of w] by (cases "home k w = p") auto
  qed
qed

lemma sint_small: "n < 2 ^ 31 \<Longrightarrow> sint (of_nat n :: 32 word) = int n"
  by (simp add: signed_of_nat signed_take_bit_int_eq_self)

lemma part_quick_count:
  assumes "part_holds k S p part" "0 < k" "finite S" "card (fst ` S \<union> snd ` S) < 2 ^ 31"
  shows "getVertextCountQuick part = int (card {v \<in> fst ` S \<union> snd ` S. home k v = p})"
proof -
  have V: "vertices part = {v \<in> fst ` S \<union> snd ` S. home k v = p}"
    by (force simp: part_vertices [OF assms(1,2)] linked_def)
  have "card (vertices part) \<le> card (fst ` S \<union> snd ` S)"
    unfolding V using assms(3) by (intro card_mono) auto
  then have "sint (of_nat (card (vertices part)) :: 32 word) = int (card (vertices part))"
    using assms(4) by (intro sint_small) simp
  then show ?thesis using assms(1) by (simp add: getVertextCountQuick_def part_holds_def partition_inv_def V)
qed

lemma partitions_sum:
  "length (partitions pt) = k \<Longrightarrow> (\<Sum>part\<leftarrow>partitions pt. f part) = (\<Sum>p<k. f (partitions pt ! p))"
  by (simp add: sum_list_sum_nth atLeast0LessThan)

lemma counts_of_stream:
  assumes "stream_holds k S pt" "finite S" "loop_free S" "comma_free S" "card (fst ` S \<union> snd ` S) < 2 ^ 31"
  shows "updateMetaDB_counts pt = (int (card (fst ` S \<union> snd ` S)), real (card ((\<lambda>(v, w). {v, w}) ` S)))"
proof -
  let ?V = "fst ` S \<union> snd ` S" and ?in = "\<lambda>p. card (pairs_in k S p p)"
  from assms(1) have k: "0 < k" and len: "length (partitions pt) = k" and dir: "\<not> isDirect pt"
    and holds: "\<And>p. p < k \<Longrightarrow> part_holds k S p (partitions pt ! p)"
    by (simp_all add: stream_holds_def)
  note sums = partitions_sum [OF len]
  have "(\<Sum>part\<leftarrow>partitions pt. getVertextCountQuick part) = int (\<Sum>p<k. card {v \<in> ?V. home k v = p})"
    by (simp add: sums part_quick_count [OF holds k assms(2,5)])
  also have "(\<Sum>p<k. card {v \<in> ?V. home k v = p}) = card ?V"
  proof -
    have "home k ` ?V \<subseteq> {..<k}" by (auto intro: home_less [OF k])
    from sum.group [OF _ _ this, of "\<lambda>_. 1 :: nat"] assms(2) show ?thesis by simp
  qed
  finally have vertices: "(\<Sum>part\<leftarrow>partitions pt. getVertextCountQuick part) = int (card ?V)" .
  have "2 * (\<Sum>part\<leftarrow>partitions pt. getEdgesCount False part) = (\<Sum>p<k. ?in p)"
    by (simp add: sums edges_count [OF holds assms(4)] sum_distrib_left pairs_in_even [OF assms(2,3)])
  moreover have "(\<Sum>part\<leftarrow>partitions pt. edgeCutsCount True part) + (\<Sum>p<k. ?in p) = card (pairs S)"
    by (simp add: sums sum.distrib [symmetric] cuts_count [OF holds assms(2)] pairs_split [OF assms(2) k])
  ultimately have "2 * (\<Sum>part\<leftarrow>partitions pt. getEdgesCount False part) + (\<Sum>part\<leftarrow>partitions pt. edgeCutsCount True part)
      = 2 * card ((\<lambda>(v, w). {v, w}) ` S)"
    by (simp add: pairs_count [OF assms(2,3)])
  then have "real (\<Sum>part\<leftarrow>partitions pt. getEdgesCount False part) + real (\<Sum>part\<leftarrow>partitions pt. edgeCutsCount True part) / 2
      = real (card ((\<lambda>(v, w). {v, w}) ` S))"
    by linarith
  then show ?thesis using vertices dir by (simp add: updateMetaDB_counts_def)
qed

subsection \<open>The claims\<close>

text \<open>Arithmetic on \<^typ>\<open>int\<close> in place of \<^verbatim>\<open>double\<close>, for the concrete runs.\<close>

definition int_ops :: "int double_ops" where
  "int_ops = \<lparr>d_of = id, d_add = (+), d_sub = (-), d_mul = (*), d_div = (div), d_pow = (\<lambda>a b. a ^ nat b), d_less = (<)\<rparr>"

definition sample_stream :: "(string \<times> string) list" where
  "sample_stream = [(''1'', ''2''), (''2'', ''4''), (''4'', ''1'')]"

lemma sample_stream_numeric: "\<forall>e\<in>set sample_stream. numeric (fst e) \<and> numeric (snd e)"
  by code_simp

text \<open>C23. Hash partitioning of an undirected stream refines the graph it streams: for every sequence
  of edges with non-negative numeric vertices and every positive number of partitions the run
  succeeds, every edge is reported with the residues of its ends, and afterwards the partition
  \<open>p\<close> knows, of exactly the vertices with residue \<open>p\<close>, all their neighbours: those with the same
  residue as inner neighbours, those with residue \<open>q\<close> as cuts towards the partition \<open>q\<close>.\<close>

theorem hash_partitioning_refines:
  assumes "0 < k" "\<forall>e\<in>set es. numeric (fst e) \<and> numeric (snd e)"
  shows "\<exists>pt. stream_edges D es (Partitioner_new k gid HASH False) = Some (map (placed k) es, pt) \<and>
    length (partitions pt) = k \<and>
    (\<forall>p<k. \<forall>v. getNeighbors v (partitions pt ! p) =
        (if home k v = p then {w. linked (set es) v w \<and> home k w = p} else {})) \<and>
    (\<forall>p<k. \<forall>q<k. edgeCuts (partitions pt ! p) ! q = (if q = p then Map.empty else row k (set es) p q))"
proof -
  obtain pt where run: "stream_edges D es (Partitioner_new k gid HASH False) = Some (map (placed k) es, pt)"
    and holds: "stream_holds k (set es) pt"
    using stream_holds_run [OF stream_holds_new [OF assms(1)] assms(2)] by auto
  have "getNeighbors v (partitions pt ! p) = (if home k v = p then {w. linked (set es) v w \<and> home k w = p} else {})"
    if "p < k" for p v
    using that holds by (auto simp: stream_holds_def part_holds_def getNeighbors_def row_def neighbours_in_def)
  with run holds show ?thesis by (auto simp: stream_holds_def part_holds_def)
qed

theorem hash_partitioning_refines_witness:
  "\<exists>pt. stream_edges int_ops sample_stream (Partitioner_new 2 7 HASH False) = Some (map (placed 2) sample_stream, pt) \<and>
    length (partitions pt) = 2 \<and>
    (\<forall>p<2. \<forall>v. getNeighbors v (partitions pt ! p) =
        (if home 2 v = p then {w. linked (set sample_stream) v w \<and> home 2 w = p} else {})) \<and>
    (\<forall>p<2. \<forall>q<2. edgeCuts (partitions pt ! p) ! q = (if q = p then Map.empty else row 2 (set sample_stream) p q))"
  by (rule hash_partitioning_refines [OF _ sample_stream_numeric]) simp

text \<open>C24. The numbers reported to the metadata database after hash partitioning an undirected stream
  are exact: the number of distinct vertices, and the number of distinct undirected edges, however
  often and in whichever direction an edge was streamed (without self loops, with vertex names
  free of the delimiter, and fewer vertices than the 32-bit counter holds).\<close>

theorem updateMetaDB_exact:
  assumes "0 < k" "\<forall>e\<in>set es. numeric (fst e) \<and> numeric (snd e)" "loop_free (set es)" "comma_free (set es)"
    and "card (fst ` set es \<union> snd ` set es) < 2 ^ 31"
  shows "\<exists>rs pt. stream_edges D es (Partitioner_new k gid HASH False) = Some (rs, pt) \<and>
    updateMetaDB_counts pt =
      (int (card (fst ` set es \<union> snd ` set es)), real (card ((\<lambda>(v, w). {v, w}) ` set es)))"
proof -
  obtain pt where run: "stream_edges D es (Partitioner_new k gid HASH False) = Some (map (placed k) es, pt)"
    and holds: "stream_holds k (set es) pt"
    using stream_holds_run [OF stream_holds_new [OF assms(1)] assms(2)] by auto
  from counts_of_stream [OF holds finite_set assms(3-5)] run show ?thesis by auto
qed

theorem updateMetaDB_exact_witness:
  "\<exists>rs pt. stream_edges int_ops sample_stream (Partitioner_new 2 7 HASH False) = Some (rs, pt) \<and>
    updateMetaDB_counts pt = (3, 3)"
proof -
  have V: "fst ` set sample_stream \<union> snd ` set sample_stream = set [''1'', ''2'', ''4'']"
    and E: "(\<lambda>(v, w). {v, w}) ` set sample_stream = {{''1'', ''2''}, {''2'', ''4''}, {''4'', ''1''}}"
    by (auto simp: sample_stream_def)
  have "card (set [''1'', ''2'', ''4'']) = 3" by code_simp
  moreover have "card {{''1'', ''2''}, {''2'', ''4''}, {''4'', ''1''}} = 3"
    by (simp add: doubleton_eq_iff)
  moreover have "loop_free (set sample_stream)" "comma_free (set sample_stream)" by code_simp+
  ultimately show ?thesis
    using updateMetaDB_exact [OF _ sample_stream_numeric, of 2 int_ops 7] by (simp only: V E) simp
qed

end
