(* ===== verification/Stream_Greedy.thy ===== *)
theory Stream_Greedy
  imports Stream_Hashing
begin

text \<open>
  All three partitioning algorithms, for any arithmetic on the scores: an edge is always placed in
  partitions that exist and the vertex counters stay exact; FENNEL keeps both ends together and
  never cuts an edge; linear deterministic greedy drops an edge between two resident vertices.
\<close>

subsection \<open>Well-formed partitioners\<close>

definition partitioner_inv :: "partitioner \<Rightarrow> bool" where
  "partitioner_inv pt \<longleftrightarrow>
     0 < numberOfPartitions pt \<and> length (partitions pt) = numberOfPartitions pt \<and>
     (\<forall>p\<in>set (partitions pt). partition_inv p \<and> part_numberOfPartitions p = numberOfPartitions pt)"

lemma partitioner_inv_new: "0 < k \<Longrightarrow> partitioner_inv (Partitioner_new k gid alg direct)"
  by (auto simp: partitioner_inv_def Partitioner_new_def partition_inv_new) (simp add: Partition_new_def)

lemma addEdge_directed:
  assumes "partition_inv p"
  shows "partition_inv (Partition_addEdge (a, b) True p)"
    and "part_numberOfPartitions (Partition_addEdge (a, b) True p) = part_numberOfPartitions p"
proof -
  let ?p = "add_neighbour a b p"
  note inv = add_neighbour_inv(1) [OF assms, of a b]
  show "part_numberOfPartitions (Partition_addEdge (a, b) True p) = part_numberOfPartitions p"
    by (simp add: Partition_addEdge_def Let_def add_neighbour_edges incrementVertexCount_def)
  show "partition_inv (Partition_addEdge (a, b) True p)"
  proof (cases "edgeList ?p b = None \<and> \<not> isExistInEdgeCutsUnsafe b ?p")
    case True
    then have new: "b \<notin> vertices ?p" using in_cuts [OF inv] by (auto simp: vertices_def)
    let ?q = "(incrementVertexCount ?p)\<lparr>edgeList := (edgeList ?p)(b \<mapsto> {})\<rparr>"
    have "vertices ?q = insert b (vertices ?p)" by (auto simp: vertices_def incrementVertexCount_def)
    with new inv have "partition_inv ?q" by (auto simp: partition_inv_def incrementVertexCount_def)
    with True show ?thesis by (simp add: Partition_addEdge_def Let_def)
  next
    case False
    with inv show ?thesis by (auto simp: Partition_addEdge_def Let_def)
  qed
qed

lemma addEdge_inv:
  assumes "partition_inv p"
  shows "partition_inv (Partition_addEdge e d p)"
    and "part_numberOfPartitions (Partition_addEdge e d p) = part_numberOfPartitions p"
  using addEdge_directed [OF assms, of "fst e" "snd e"] addEdge_undirected(1,4) [OF assms, of "fst e" "snd e"]
  by (cases d; simp)+

lemma parts_update:
  assumes "\<forall>p\<in>set ps. partition_inv p \<and> part_numberOfPartitions p = k" "partition_inv q" "part_numberOfPartitions q = k"
  shows "\<forall>p\<in>set (ps[i := q]). partition_inv p \<and> part_numberOfPartitions p = k"
  using assms set_update_subset_insert [of ps i q] by blast

lemma store_edge_inv:
  assumes parts: "\<forall>p\<in>set ps. partition_inv p \<and> part_numberOfPartitions p = k" and len: "length ps = k"
    and ij: "i < k" "j < k"
  obtains ps' where "store_edge e d (int i) (int j) ps = Some ps'" "length ps' = k"
    "\<forall>p\<in>set ps'. partition_inv p \<and> part_numberOfPartitions p = k"
proof (cases "i = j")
  case True
  let ?ps = "ps[i := Partition_addEdge e d (ps ! i)]"
  have "ps ! i \<in> set ps" using ij len by simp
  then have "\<forall>p\<in>set ?ps. partition_inv p \<and> part_numberOfPartitions p = k"
    using parts by (intro parts_update) (simp_all add: addEdge_inv)
  then show thesis using True ij len by (intro that [of ?ps]) (simp_all add: store_edge_def)
next
  case False
  have "partition_inv (ps ! i)" "j < part_numberOfPartitions (ps ! i)" using parts ij len by simp_all
  from addToEdgeCuts_effect [OF this, of "fst e" "snd e"] obtain p
    where p: "addToEdgeCuts (fst e) (snd e) (int j) (ps ! i) = Some p" "partition_inv p"
      "part_numberOfPartitions p = part_numberOfPartitions (ps ! i)"
    by blast
  have "partition_inv (ps ! j)" "i < part_numberOfPartitions (ps ! j)" using parts ij len by simp_all
  from addToEdgeCuts_effect [OF this, of "snd e" "fst e"] obtain q
    where q: "addToEdgeCuts (snd e) (fst e) (int i) (ps ! j) = Some q" "partition_inv q"
      "part_numberOfPartitions q = part_numberOfPartitions (ps ! j)"
    by blast
  have k: "part_numberOfPartitions (ps ! i) = k" "part_numberOfPartitions (ps ! j) = k"
    using parts ij len by simp_all
  have "\<forall>p\<in>set (ps[i := p, j := q]). partition_inv p \<and> part_numberOfPartitions p = k"
    using p q k by (intro parts_update parts) simp_all
  then show thesis using False ij len p(1) q(1)
    by (intro that [of "ps[i := p, j := q]"]) (simp_all add: store_edge_def)
qed

lemma max_from_less: "best < i + length xs \<Longrightarrow> max_from lt best bv i xs < i + length xs"
proof (induction xs arbitrary: best bv i)
  case (Cons x xs)
  with Cons.IH [of i "Suc i" x] Cons.IH [of best "Suc i" bv] show ?case by simp
qed simp

lemma max_index_less: "xs \<noteq> [] \<Longrightarrow> max_index lt xs < length xs"
  using max_from_less [of 0 1 "tl xs"] by (cases xs) (simp_all add: max_index_def)

subsection \<open>How the two loops end\<close>

lemma nth_later: "Suc i \<le> j \<Longrightarrow> (p # ps) ! (j - i) = ps ! (j - Suc i)"
  by (simp add: nth_Cons')

lemma fennel_loop_step:
  obtains "isExist a p" "isExist b p" "fennel_loop D gamma alpha (a, b) i (p # ps) sf ss = BothResident i"
  | "b \<in> getNeighbors a p \<or> a \<in> getNeighbors b p" "fennel_loop D gamma alpha (a, b) i (p # ps) sf ss = EdgePresent i"
  | sf' ss' where "fennel_loop D gamma alpha (a, b) i (p # ps) sf ss = fennel_loop D gamma alpha (a, b) (Suc i) ps sf' ss'"
      "length sf' = length sf" "length ss' = length ss"
proof -
  consider (resident) "isExist a p" "isExist b p"
    | (present) "\<not> (isExist a p \<and> isExist b p)" "b \<in> getNeighbors a p \<or> a \<in> getNeighbors b p"
    | (go_on) "\<not> (isExist a p \<and> isExist b p)" "b \<notin> getNeighbors a p" "a \<notin> getNeighbors b p"
    by blast
  then show thesis
  proof cases
    case resident
    then show ?thesis by (intro that(1)) (simp_all add: Let_def)
  next
    case present
    then show ?thesis by (intro that(2)) (auto simp: Let_def)
  next
    case go_on
    show ?thesis by (rule that(3), simp add: go_on Let_def, simp_all)
  qed
qed

lemma fennel_loop_exit:
  "case fennel_loop D gamma alpha (a, b) i ps sf ss of
     BothResident j \<Rightarrow> i \<le> j \<and> j < i + length ps \<and> isExist a (ps ! (j - i)) \<and> isExist b (ps ! (j - i))
   | EdgePresent j \<Rightarrow> i \<le> j \<and> j < i + length ps \<and>
       (b \<in> getNeighbors a (ps ! (j - i)) \<or> a \<in> getNeighbors b (ps ! (j - i)))
   | Scores sf' ss' \<Rightarrow> length sf' = length sf \<and> length ss' = length ss"
proof (induction ps arbitrary: i sf ss)
  case Nil
  then show ?case by simp
next
  case (Cons p ps)
  show ?case
  proof (rule fennel_loop_step [of a p b D gamma alpha i ps sf ss])
    fix sf' ss'
    assume step: "fennel_loop D gamma alpha (a, b) i (p # ps) sf ss = fennel_loop D gamma alpha (a, b) (Suc i) ps sf' ss'"
      and len: "length sf' = length sf" "length ss' = length ss"
    from Cons.IH [of "Suc i" sf' ss'] show ?thesis
      unfolding step len by (auto simp: nth_later split: loop_exit.splits)
  qed simp_all
qed

lemma ldg_loop_step:
  obtains "isExist a p" "isExist b p" "ldg_loop D tv k (a, b) i (p # ps) sf ss = BothResident i"
  | "b \<in> getNeighbors a p \<or> b \<in> getNeighbors b p" "ldg_loop D tv k (a, b) i (p # ps) sf ss = EdgePresent i"
  | sf' ss' where "\<not> (isExist a p \<and> isExist b p)" "b \<notin> getNeighbors a p" "b \<notin> getNeighbors b p"
      "ldg_loop D tv k (a, b) i (p # ps) sf ss = ldg_loop D tv k (a, b) (Suc i) ps sf' ss'"
      "length sf' = length sf" "length ss' = length ss"
proof -
  consider (resident) "isExist a p" "isExist b p"
    | (present) "\<not> (isExist a p \<and> isExist b p)" "b \<in> getNeighbors a p \<or> b \<in> getNeighbors b p"
    | (go_on) "\<not> (isExist a p \<and> isExist b p)" "b \<notin> getNeighbors a p" "b \<notin> getNeighbors b p"
    by blast
  then show thesis
  proof cases
    case resident
    then show ?thesis by (intro that(1)) (simp_all add: Let_def)
  next
    case present
    then show ?thesis by (intro that(2)) (auto simp: Let_def)
  next
    case go_on
    show ?thesis by (rule that(3) [OF go_on], simp add: go_on Let_def, simp_all)
  qed
qed

lemma ldg_loop_exit:
  "case ldg_loop D tv k (a, b) i ps sf ss of
     BothResident j \<Rightarrow> i \<le> j \<and> j < i + length ps
   | EdgePresent j \<Rightarrow> i \<le> j \<and> j < i + length ps
   | Scores sf' ss' \<Rightarrow> length sf' = length sf \<and> length ss' = length ss"
proof (induction ps arbitrary: i sf ss)
  case Nil
  then show ?case by simp
next
  case (Cons p ps)
  show ?case
  proof (rule ldg_loop_step [of a p b D tv k i ps sf ss])
    fix sf' ss'
    assume step: "ldg_loop D tv k (a, b) i (p # ps) sf ss = ldg_loop D tv k (a, b) (Suc i) ps sf' ss'"
      and len: "length sf' = length sf" "length ss' = length ss"
    from Cons.IH [of "Suc i" sf' ss'] show ?thesis
      unfolding step len by (auto split: loop_exit.splits)
  qed simp_all
qed

subsection \<open>Every algorithm places edges in existing partitions\<close>

lemma store_edge_partitioner:
  assumes "partitioner_inv pt" "i < numberOfPartitions pt" "j < numberOfPartitions pt"
  obtains ps where "store_edge e d (int i) (int j) (partitions pt) = Some ps"
    "partitioner_inv (pt\<lparr>partitions := ps\<rparr>)"
proof -
  from assms(1) have "\<forall>p\<in>set (partitions pt). partition_inv p \<and> part_numberOfPartitions p = numberOfPartitions pt"
    "length (partitions pt) = numberOfPartitions pt" "0 < numberOfPartitions pt"
    by (auto simp: partitioner_inv_def)
  note inv = this
  from store_edge_inv [OF inv(1,2) assms(2,3), of e d] obtain ps where
    "store_edge e d (int i) (int j) (partitions pt) = Some ps" "length ps = numberOfPartitions pt"
    "\<forall>p\<in>set ps. partition_inv p \<and> part_numberOfPartitions p = numberOfPartitions pt"
    by blast
  with inv(3) show thesis by (intro that [of ps]) (simp_all add: partitioner_inv_def)
qed

definition placeable :: "Algorithms \<Rightarrow> string \<times> string \<Rightarrow> bool" where
  "placeable alg e \<longleftrightarrow> alg = HASH \<longrightarrow> numeric (fst e) \<and> numeric (snd e)"

definition step_ok :: "string \<times> string \<Rightarrow> partitioner \<Rightarrow> (partitionedEdge \<times> partitioner) option \<Rightarrow> bool" where
  "step_ok e pt res \<longleftrightarrow>
     (\<exists>i j pt'. res = Some ([(fst e, int i), (snd e, int j)], pt') \<and>
        i < numberOfPartitions pt \<and> j < numberOfPartitions pt \<and> partitioner_inv pt' \<and>
        numberOfPartitions pt' = numberOfPartitions pt \<and> algorithmInUse pt' = algorithmInUse pt)"

lemma hashPartitioning_ok:
  assumes "partitioner_inv pt" "numeric (fst e)" "numeric (snd e)"
  shows "step_ok e pt (hashPartitioning e pt)"
proof -
  let ?k = "numberOfPartitions pt"
  have k: "0 < ?k" using assms(1) by (simp add: partitioner_inv_def)
  obtain n m where nm: "stoi (fst e) = Some n" "stoi (snd e) = Some m"
    using assms(2,3) by (auto simp: numeric_def split: option.splits)
  obtain ps where ps: "store_edge e (isDirect pt) (int (home ?k (fst e))) (int (home ?k (snd e))) (partitions pt) = Some ps"
      "partitioner_inv (pt\<lparr>partitions := ps\<rparr>)"
    using store_edge_partitioner [OF assms(1) home_less [OF k] home_less [OF k]] by blast
  have "hashPartitioning e pt =
      Some ([(fst e, int (home ?k (fst e))), (snd e, int (home ?k (snd e)))], pt\<lparr>partitions := ps\<rparr>)"
    using nm k ps(1) numeric_home [OF assms(2) k nm(1)] numeric_home [OF assms(3) k nm(2)]
    by (simp add: hashPartitioning_def)
  with ps(2) home_less [OF k] show ?thesis by (simp add: step_ok_def)
qed

lemma partitioner_inv_counters [simp]:
  "partitioner_inv (pt\<lparr>totalVertices := v\<rparr>) = partitioner_inv pt"
  "partitioner_inv (pt\<lparr>totalEdges := m\<rparr>) = partitioner_inv pt"
  "partitioner_inv (pt\<lparr>partitions := ps, totalEdges := m\<rparr>) = partitioner_inv (pt\<lparr>partitions := ps\<rparr>)"
  "partitioner_inv (pt\<lparr>totalVertices := v, partitions := ps\<rparr>) = partitioner_inv (pt\<lparr>partitions := ps\<rparr>)"
  "partitioner_inv (pt\<lparr>totalVertices := v, partitions := ps, totalEdges := m\<rparr>) = partitioner_inv (pt\<lparr>partitions := ps\<rparr>)"
  by (simp_all add: partitioner_inv_def)

lemma scores_index:
  "partitioner_inv pt \<Longrightarrow> length xs = numberOfPartitions pt \<Longrightarrow> max_index lt xs < numberOfPartitions pt"
  using max_index_less [of xs lt] by (cases "xs = []") (auto simp: partitioner_inv_def)

lemma ldgPartitioning_ok:
  assumes "partitioner_inv pt"
  shows "step_ok e pt (ldgPartitioning D e pt)"
proof -
  let ?k = "numberOfPartitions pt" and ?z = "replicate (numberOfPartitions pt) (d_of D 0)"
  have len: "length (partitions pt) = ?k" using assms by (simp add: partitioner_inv_def)
  note exit = ldg_loop_exit [where D = D and tv = "totalVertices pt" and k = ?k and a = "fst e" and b = "snd e"
      and i = 0 and ps = "partitions pt" and sf = ?z and ss = ?z, unfolded prod.collapse]
  show ?thesis
  proof (cases "ldg_loop D (totalVertices pt) ?k e 0 (partitions pt) ?z ?z")
    case (Scores sf ss)
    then have "max_index (d_less D) sf < ?k" "max_index (d_less D) ss < ?k"
      using exit by (auto intro!: scores_index [OF assms])
    moreover from store_edge_partitioner [OF assms this, of e False] obtain ps where
      "store_edge e False (int (max_index (d_less D) sf)) (int (max_index (d_less D) ss)) (partitions pt) = Some ps"
      "partitioner_inv (pt\<lparr>partitions := ps\<rparr>)"
      by blast
    ultimately show ?thesis
      using Scores by (auto simp: step_ok_def ldgPartitioning_def Let_def)
  qed (use exit assms len in \<open>auto simp: step_ok_def ldgPartitioning_def Let_def\<close>)
qed

text \<open>FENNEL either finds the edge or adds it to one partition.\<close>

lemma fennelPartitioning_cases:
  assumes "partitioner_inv pt"
  obtains (found) i where "i < numberOfPartitions pt"
      "snd e \<in> getNeighbors (fst e) (partitions pt ! i) \<or> fst e \<in> getNeighbors (snd e) (partitions pt ! i)"
      "fennelPartitioning D e pt = Some ([(fst e, int i), (snd e, int i)], pt)"
  | (added) i pt' where "i < numberOfPartitions pt"
      "fennelPartitioning D e pt = Some ([(fst e, int i), (snd e, int i)], pt')"
      "partitions pt' = (partitions pt)[i := Partition_addEdge e False (partitions pt ! i)]"
      "numberOfPartitions pt' = numberOfPartitions pt" "algorithmInUse pt' = algorithmInUse pt"
proof -
  let ?k = "numberOfPartitions pt" and ?z = "replicate (numberOfPartitions pt) (d_of D 0)"
  let ?gamma = "d_div D (d_of D 3) (d_of D 2)"
  let ?alpha = "d_div D (d_mul D (d_of D (totalEdges pt)) (d_pow D (d_of D (int ?k)) (d_sub D ?gamma (d_of D 1))))
                  (d_pow D (d_of D (totalVertices pt)) ?gamma)"
  have len: "length (partitions pt) = ?k" using assms by (simp add: partitioner_inv_def)
  note exit = fennel_loop_exit [where D = D and gamma = ?gamma and alpha = ?alpha and a = "fst e" and b = "snd e"
      and i = 0 and ps = "partitions pt" and sf = ?z and ss = ?z, unfolded prod.collapse]
  show thesis
  proof (cases "fennel_loop D ?gamma ?alpha e 0 (partitions pt) ?z ?z")
    case (BothResident i)
    let ?ps = "(partitions pt)[i := Partition_addEdge e False (partitions pt ! i)]"
    have "fennelPartitioning D e pt = Some ([(fst e, int i), (snd e, int i)],
        pt\<lparr>partitions := ?ps, totalEdges := totalEdges pt + 1\<rparr>)"
      using BothResident by (simp add: fennelPartitioning_def Let_def)
    then show ?thesis by (rule added [rotated]) (use BothResident exit len in simp_all)
  next
    case (EdgePresent i)
    show ?thesis
      by (rule found [of i], use EdgePresent exit len in \<open>simp_all add: fennelPartitioning_def Let_def\<close>)
  next
    case (Scores sf ss)
    then have i: "max_index (d_less D) sf < ?k"
      using exit by (auto intro!: scores_index [OF assms])
    let ?ps = "(partitions pt)[max_index (d_less D) sf := Partition_addEdge e False (partitions pt ! max_index (d_less D) sf)]"
    have "fennelPartitioning D e pt = Some ([(fst e, int (max_index (d_less D) sf)), (snd e, int (max_index (d_less D) sf))],
        pt\<lparr>totalVertices := totalVertices pt + 1 + 1, partitions := ?ps, totalEdges := totalEdges pt + 1\<rparr>)"
      using Scores i len by (simp add: fennelPartitioning_def Let_def store_edge_def)
    then show ?thesis by (rule added [OF i]) simp_all
  qed
qed

lemma fennelPartitioning_ok:
  assumes "partitioner_inv pt"
  shows "step_ok e pt (fennelPartitioning D e pt)"
  using assms
proof (cases rule: fennelPartitioning_cases [where e = e and D = D])
  case (found i)
  with assms show ?thesis by (simp add: step_ok_def)
next
  case (added i pt')
  have "\<forall>p\<in>set (partitions pt'). partition_inv p \<and> part_numberOfPartitions p = numberOfPartitions pt"
    unfolding added(3) using assms added(1) by (intro parts_update) (auto simp: partitioner_inv_def addEdge_inv)
  with assms added have "partitioner_inv pt'" by (simp add: partitioner_inv_def)
  with added show ?thesis by (simp add: step_ok_def)
qed

lemma addEdge_ok:
  "partitioner_inv pt \<Longrightarrow> placeable (algorithmInUse pt) e \<Longrightarrow> step_ok e pt (Partitioner_addEdge D e pt)"
  by (cases "algorithmInUse pt")
    (simp_all add: Partitioner_addEdge_def placeable_def hashPartitioning_ok fennelPartitioning_ok ldgPartitioning_ok)

lemma stream_ok:
  assumes "partitioner_inv pt" "\<forall>e\<in>set es. placeable (algorithmInUse pt) e"
  shows "\<exists>rs pt'. stream_edges D es pt = Some (rs, pt') \<and> partitioner_inv pt' \<and> length rs = length es \<and>
    (\<forall>r\<in>set rs. \<forall>(v, i)\<in>set r. 0 \<le> i \<and> i < int (numberOfPartitions pt)) \<and>
    numberOfPartitions pt' = numberOfPartitions pt"
  using assms
proof (induction es arbitrary: pt)
  case Nil
  then show ?case by simp
next
  case (Cons e es)
  then have "step_ok e pt (Partitioner_addEdge D e pt)" by (intro addEdge_ok) simp_all
  then obtain i j pt1 where 1: "Partitioner_addEdge D e pt = Some ([(fst e, int i), (snd e, int j)], pt1)"
      "i < numberOfPartitions pt" "j < numberOfPartitions pt" "partitioner_inv pt1"
      "numberOfPartitions pt1 = numberOfPartitions pt" "algorithmInUse pt1 = algorithmInUse pt"
    unfolding step_ok_def by blast
  from Cons.IH [OF 1(4)] Cons.prems(2) 1(6) obtain rs pt2 where
    "stream_edges D es pt1 = Some (rs, pt2)" "partitioner_inv pt2" "length rs = length es"
    "\<forall>r\<in>set rs. \<forall>(v, i)\<in>set r. 0 \<le> i \<and> i < int (numberOfPartitions pt1)" "numberOfPartitions pt2 = numberOfPartitions pt1"
    by auto
  with 1 show ?case by simp
qed

subsection \<open>FENNEL keeps edges whole\<close>

definition fennel_inv :: "partitioner \<Rightarrow> bool" where
  "fennel_inv pt \<longleftrightarrow> partitioner_inv pt \<and> algorithmInUse pt = FENNEL \<and>
     (\<forall>p\<in>set (partitions pt). (\<forall>m\<in>set (edgeCuts p). m = Map.empty) \<and>
        (\<forall>v w. w \<in> getNeighbors v p \<longrightarrow> v \<in> getNeighbors w p))"

definition stored :: "partitioner \<Rightarrow> string \<times> string \<Rightarrow> partitionedEdge \<Rightarrow> bool" where
  "stored pt e r \<longleftrightarrow> (\<exists>i<length (partitions pt). r = [(fst e, int i), (snd e, int i)] \<and>
     snd e \<in> getNeighbors (fst e) (partitions pt ! i) \<and> fst e \<in> getNeighbors (snd e) (partitions pt ! i))"

definition grows :: "partitioner \<Rightarrow> partitioner \<Rightarrow> bool" where
  "grows pt pt' \<longleftrightarrow> length (partitions pt') = length (partitions pt) \<and>
     (\<forall>i<length (partitions pt). \<forall>v. getNeighbors v (partitions pt ! i) \<subseteq> getNeighbors v (partitions pt' ! i))"

lemma stored_grows:
  assumes "stored pt e r" "grows pt pt'"
  shows "stored pt' e r"
proof -
  from assms(1) obtain i where i: "i < length (partitions pt)" "r = [(fst e, int i), (snd e, int i)]"
    "snd e \<in> getNeighbors (fst e) (partitions pt ! i)" "fst e \<in> getNeighbors (snd e) (partitions pt ! i)"
    by (auto simp: stored_def)
  from assms(2) i(1) have "getNeighbors v (partitions pt ! i) \<subseteq> getNeighbors v (partitions pt' ! i)" for v
    by (simp add: grows_def)
  with i assms(2) show ?thesis unfolding stored_def by (intro exI [of _ i]) (auto simp: grows_def)
qed

lemma grows_trans: "grows a b \<Longrightarrow> grows b c \<Longrightarrow> grows a c"
  by (simp add: grows_def) (blast intro: subset_trans)

lemma addEdge_neighbors:
  "partition_inv p \<Longrightarrow> getNeighbors v (Partition_addEdge e False p) =
     getNeighbors v p \<union> (if v = fst e then {snd e} else {}) \<union> (if v = snd e then {fst e} else {})"
  using addEdge_undirected(6) [of p "fst e" "snd e"] by (simp add: getNeighbors_def)

lemma fennel_step:
  assumes "fennel_inv pt"
  obtains r pt' where "Partitioner_addEdge D e pt = Some (r, pt')" "stored pt' e r" "grows pt pt'" "fennel_inv pt'"
proof -
  from assms have inv: "partitioner_inv pt" and alg: "algorithmInUse pt = FENNEL"
    and len: "length (partitions pt) = numberOfPartitions pt"
    and sym: "\<And>i v w. i < length (partitions pt) \<Longrightarrow> w \<in> getNeighbors v (partitions pt ! i) \<Longrightarrow> v \<in> getNeighbors w (partitions pt ! i)"
    by (auto simp: fennel_inv_def partitioner_inv_def)
  have run: "Partitioner_addEdge D e pt = fennelPartitioning D e pt" by (simp add: Partitioner_addEdge_def alg)
  from inv show thesis
  proof (cases rule: fennelPartitioning_cases [where e = e and D = D])
    case (found i)
    then have "stored pt e [(fst e, int i), (snd e, int i)]" using len sym by (auto simp: stored_def)
    with found run assms show ?thesis by (intro that) (simp_all add: grows_def)
  next
    case (added i pt')
    let ?p = "partitions pt ! i"
    have p: "?p \<in> set (partitions pt)" "partition_inv ?p" using added(1) len inv by (auto simp: partitioner_inv_def)
    note nb = addEdge_neighbors [OF p(2), of _ e]
    have "stored pt' e [(fst e, int i), (snd e, int i)]" using added len by (simp add: stored_def nb)
    moreover have "grows pt pt'" using added len by (auto simp: grows_def nth_list_update nb)
    moreover have "partitioner_inv pt'"
      using fennelPartitioning_ok [OF inv, of e D] added(2) by (auto simp: step_ok_def)
    moreover have "(\<forall>m\<in>set (edgeCuts q). m = Map.empty) \<and> (\<forall>v w. w \<in> getNeighbors v q \<longrightarrow> v \<in> getNeighbors w q)"
      if "q \<in> set (partitions pt')" for q
    proof (cases "q \<in> set (partitions pt)")
      case True
      with assms show ?thesis by (simp add: fennel_inv_def)
    next
      case False
      with that added(3) have q: "q = Partition_addEdge e False ?p"
        using set_update_subset_insert [of "partitions pt" i "Partition_addEdge e False ?p"] by auto
      have "\<forall>m\<in>set (edgeCuts q). m = Map.empty"
        using addEdge_undirected(3) [OF p(2), of "fst e" "snd e"] assms p(1) by (simp add: q fennel_inv_def)
      moreover have "v \<in> getNeighbors w q" if "w \<in> getNeighbors v q" for v w
        using that sym [of i w v] added(1) len unfolding q nb by (auto split: if_splits)
      ultimately show ?thesis by blast
    qed
    ultimately show ?thesis using added alg run by (intro that [of _ pt']) (simp_all add: fennel_inv_def)
  qed
qed

lemma fennel_run:
  assumes "fennel_inv pt"
  shows "\<exists>rs pt'. stream_edges D es pt = Some (rs, pt') \<and> list_all2 (stored pt') es rs \<and> grows pt pt' \<and> fennel_inv pt'"
  using assms
proof (induction es arbitrary: pt)
  case Nil
  then show ?case by (simp add: grows_def)
next
  case (Cons e es)
  from fennel_step [OF Cons.prems, of D e] obtain r pt1 where
    1: "Partitioner_addEdge D e pt = Some (r, pt1)" "stored pt1 e r" "grows pt pt1" "fennel_inv pt1" by blast
  from Cons.IH [OF 1(4)] obtain rs pt2 where
    2: "stream_edges D es pt1 = Some (rs, pt2)" "list_all2 (stored pt2) es rs" "grows pt1 pt2" "fennel_inv pt2"
    by blast
  from stored_grows [OF 1(2) 2(3)] grows_trans [OF 1(3) 2(3)] 1(1) 2 show ?case by auto
qed

lemma fennel_inv_new: "0 < k \<Longrightarrow> fennel_inv (Partitioner_new k gid FENNEL direct)"
  by (auto simp: fennel_inv_def partitioner_inv_new) (auto simp: Partitioner_new_def Partition_new_def getNeighbors_def)

subsection \<open>The claims\<close>

text \<open>C25. Every algorithm, with any arithmetic on its scores (NaN comparisons included), places every
  edge of a stream in partitions that exist, and keeps in every partition the counter of vertices
  equal, modulo 2 to the power 32, to the number of distinct vertices resident there. Hash
  partitioning asks for non-negative numeric vertices, the others for nothing.\<close>

theorem streams_stay_in_range:
  assumes "0 < k" "\<forall>e\<in>set es. placeable alg e"
  shows "\<exists>rs pt. stream_edges D es (Partitioner_new k gid alg direct) = Some (rs, pt) \<and> length rs = length es \<and>
    (\<forall>r\<in>set rs. \<forall>(v, i)\<in>set r. 0 \<le> i \<and> i < int k) \<and>
    (\<forall>p\<in>set (partitions pt). vertexCount p = of_nat (card (vertices p)))"
proof -
  have n: "numberOfPartitions (Partitioner_new k gid alg direct) = k"
    "algorithmInUse (Partitioner_new k gid alg direct) = alg"
    by (simp_all add: Partitioner_new_def)
  with stream_ok [OF partitioner_inv_new [OF assms(1)], of es gid alg direct D] assms(2) obtain rs pt where
    "stream_edges D es (Partitioner_new k gid alg direct) = Some (rs, pt)" "partitioner_inv pt" "length rs = length es"
    "\<forall>r\<in>set rs. \<forall>(v, i)\<in>set r. 0 \<le> i \<and> i < int k"
    by auto
  then show ?thesis by (auto simp: partitioner_inv_def partition_inv_def)
qed

theorem streams_stay_in_range_witness:
  "\<exists>rs pt. stream_edges int_ops sample_stream (Partitioner_new 2 7 HASH True) = Some (rs, pt) \<and>
    length rs = length sample_stream \<and> (\<forall>r\<in>set rs. \<forall>(v, i)\<in>set r. 0 \<le> i \<and> i < int 2) \<and>
    (\<forall>p\<in>set (partitions pt). vertexCount p = of_nat (card (vertices p)))"
  by (rule streams_stay_in_range) (use sample_stream_numeric in \<open>simp_all add: placeable_def\<close>)

text \<open>C26. FENNEL never cuts an edge: whatever the arithmetic, after any stream of edges every one of
  them is stored, from both of its ends, in the one partition that was reported for it, and no
  partition has an edge to another.\<close>

theorem fennel_never_cuts:
  assumes "0 < k"
  shows "\<exists>rs pt. stream_edges D es (Partitioner_new k gid FENNEL direct) = Some (rs, pt) \<and>
    list_all2 (stored pt) es rs \<and> (\<forall>p\<in>set (partitions pt). edgeCutsCount True p = 0)"
proof -
  obtain rs pt where run: "stream_edges D es (Partitioner_new k gid FENNEL direct) = Some (rs, pt)"
      "list_all2 (stored pt) es rs" and inv: "fennel_inv pt"
    using fennel_run [OF fennel_inv_new [OF assms]] by blast
  have "edgeCutsCount True p = 0" if "p \<in> set (partitions pt)" for p
  proof -
    have "\<forall>m\<in>set (edgeCuts p). m = Map.empty" using inv that by (simp add: fennel_inv_def)
    then show ?thesis by (auto simp: edgeCutsCount_def)
  qed
  with run show ?thesis by blast
qed

theorem fennel_never_cuts_witness:
  "\<exists>rs pt. stream_edges int_ops sample_stream (Partitioner_new 2 7 FENNEL True) = Some (rs, pt) \<and>
    list_all2 (stored pt) sample_stream rs \<and> (\<forall>p\<in>set (partitions pt). edgeCutsCount True p = 0)"
  by (rule fennel_never_cuts) simp

lemma ldg_loop_resident:
  assumes "j < length ps" "isExist a (ps ! j)" "isExist b (ps ! j)"
    and "\<And>m. m < j \<Longrightarrow> \<not> (isExist a (ps ! m) \<and> isExist b (ps ! m)) \<and>
           b \<notin> getNeighbors a (ps ! m) \<and> b \<notin> getNeighbors b (ps ! m)"
  shows "ldg_loop D tv k (a, b) i ps sf ss = BothResident (i + j)"
  using assms
proof (induction ps arbitrary: i j sf ss)
  case Nil
  then show ?case by simp
next
  case (Cons p ps)
  show ?case
  proof (cases j)
    case 0
    with Cons.prems show ?thesis by (simp add: Let_def)
  next
    case (Suc j')
    with Cons.prems(4) [of 0] have p: "\<not> (isExist a p \<and> isExist b p)" "b \<notin> getNeighbors a p" "b \<notin> getNeighbors b p"
      by simp_all
    have ih: "ldg_loop D tv k (a, b) (Suc i) ps sf' ss' = BothResident (Suc i + j')" for sf' ss'
      using Cons.prems(1-3) Cons.prems(4) [of "Suc _"] Suc by (intro Cons.IH) simp_all
    from p show ?thesis by (auto simp: Let_def ih Suc)
  qed
qed

text \<open>C27. Linear deterministic greedy drops an edge between two vertices that are resident in the same
  partition: the loop adds it to a copy of that partition. The edge is counted and reported as
  placed in that partition, and the partitions are unchanged.\<close>

theorem ldg_drops_resident_edge:
  assumes "i < length (partitions pt)" "isExist a (partitions pt ! i)" "isExist b (partitions pt ! i)"
    and "\<forall>m<i. \<not> (isExist a (partitions pt ! m) \<and> isExist b (partitions pt ! m)) \<and>
           b \<notin> getNeighbors a (partitions pt ! m) \<and> b \<notin> getNeighbors b (partitions pt ! m)"
  shows "ldgPartitioning D (a, b) pt =
    Some ([(a, int i), (b, int i)], pt\<lparr>totalEdges := totalEdges pt + 1\<rparr>)"
  using assms(4) by (simp add: ldgPartitioning_def ldg_loop_resident [OF assms(1-3)])

definition path_stream :: "partitioner" where
  "path_stream = snd (the (stream_edges int_ops [(''1'', ''2''), (''2'', ''3'')] (Partitioner_new 1 7 LDG False)))"

lemma path_stream_parts:
  "map edgeList (partitions path_stream) =
     [[''1'' \<mapsto> {''2''}, ''2'' \<mapsto> {''1'', ''3''}, ''3'' \<mapsto> {''2''}]]"
  by (simp add: path_stream_def Partitioner_new_def Partition_new_def Partitioner_addEdge_def ldgPartitioning_def
      isExist_def isExistUnsafe_def isExistInEdgeCutsUnsafe_def getNeighbors_def max_index_def store_edge_def
      Partition_addEdge_def add_neighbour_def incrementVertexCount_def Let_def insert_commute fun_upd_twist)

theorem ldg_drops_resident_edge_witness:
  "ldgPartitioning int_ops (''1'', ''3'') path_stream =
     Some ([(''1'', 0), (''3'', 0)], path_stream\<lparr>totalEdges := totalEdges path_stream + 1\<rparr>) \<and>
   ''3'' \<notin> getNeighbors ''1'' (partitions path_stream ! 0)"
proof -
  obtain p where p: "partitions path_stream = [p]"
      "edgeList p = [''1'' \<mapsto> {''2''}, ''2'' \<mapsto> {''1'', ''3''}, ''3'' \<mapsto> {''2''}]"
    using path_stream_parts by auto
  then show ?thesis
    using ldg_drops_resident_edge [of 0 path_stream "''1''" "''3''" int_ops]
    by (simp add: isExist_def isExistUnsafe_def getNeighbors_def Let_def)
qed

end
