(* ===== verification/Triangle_Count.thy ===== *)
theory Triangle_Count
  imports Cpp_Numbers
begin

text \<open>
  \<^verbatim>\<open>Triangles\<close> of \<^verbatim>\<open>src/src/query/algorithms/triangles\<close>: the count of triangles of a graph given by
  adjacency sets. A \<^verbatim>\<open>std::map\<close> from vertices to \<^verbatim>\<open>std::unordered_set\<close> is a map to lists without
  fixed order: a list is the sequence in which the set is enumerated, which the language does not
  determine, so what is proved holds for every order. A \<^verbatim>\<open>std::map<long, long>\<close> is the list of its
  entries in the order of the keys. Vertices are \<^verbatim>\<open>long\<close> values on which the code does no
  arithmetic except the exchange of two of them by exclusive or.
\<close>

unbundle bit_operations_syntax

type_synonym adjacency = "int \<rightharpoonup> int list"

definition neighbours :: "adjacency \<Rightarrow> int \<Rightarrow> int list" where
  "neighbours st v = (case st v of None \<Rightarrow> [] | Some xs \<Rightarrow> xs)"

text \<open>An order in which hash sets are iterated.\<close>

definition enumerates :: "(int set \<Rightarrow> int list) \<Rightarrow> bool" where
  "enumerates enum \<longleftrightarrow> (\<forall>N. finite N \<longrightarrow> set (enum N) = N \<and> distinct (enum N))"

lemma enumerates_sorted: "enumerates sorted_list_of_set"
  by (simp add: enumerates_def)

text \<open>\<^verbatim>\<open>operator[]\<close> of \<^verbatim>\<open>std::map\<close> adds an absent key with an empty set.\<close>

definition touch :: "int \<Rightarrow> adjacency \<Rightarrow> adjacency" where
  "touch v st = (case st v of None \<Rightarrow> st(v \<mapsto> []) | Some _ \<Rightarrow> st)"

definition uset_insert :: "int \<Rightarrow> int list \<Rightarrow> int list" where
  "uset_insert x xs = (if x \<in> set xs then xs else xs @ [x])"

record triangle_result =
  triangles :: string
  tr_count :: "nat option"

subsection \<open>Counting\<close>

text \<open>The vertices by degree, the degrees and the vertices in ascending order; degree 1 is left out.\<close>

fun degree_insert :: "int \<Rightarrow> int \<Rightarrow> (int \<times> int list) list \<Rightarrow> (int \<times> int list) list" where
  "degree_insert degree v [] = [(degree, [v])]"
| "degree_insert degree v ((d, vs) # m) =
     (if degree < d then (degree, [v]) # (d, vs) # m
      else if degree = d then (d, insort_insert v vs) # m
      else (d, vs) # degree_insert degree v m)"

definition build_degree_map :: "(int \<times> int) list \<Rightarrow> (int \<times> int list) list" where
  "build_degree_map dist =
     fold (\<lambda>(v, degree) m. if degree = 1 then m else degree_insert degree v m) dist []"

text \<open>\<^verbatim>\<open>a ^= b; b ^= a; a ^= b\<close>, when the first is greater.\<close>

definition swap_if_greater :: "int \<Rightarrow> int \<Rightarrow> int \<times> int" where
  "swap_if_greater a b =
     (if b < a
      then let a = a XOR b; b = b XOR a; a = a XOR b in (a, b)
      else (a, b))"

definition sort_three :: "int \<Rightarrow> int \<Rightarrow> int \<Rightarrow> int \<times> int \<times> int" where
  "sort_three temp u nu =
     (let (varOne, varTwo) = swap_if_greater temp u;
          (varOne, varThree) = swap_if_greater varOne nu;
          (varTwo, varThree) = swap_if_greater varTwo varThree
      in (varOne, varTwo, varThree))"

record triangle_state =
  ts_store :: adjacency
  triangleTree :: "int \<rightharpoonup> (int \<rightharpoonup> int set)"
  triangleCount :: nat
  triangleStream :: string

definition triangle_text :: "int \<times> int \<times> int \<Rightarrow> string" where
  "triangle_text t =
     (case t of (a, b, c) \<Rightarrow> to_string_int a @ '','' @ to_string_int b @ '','' @ to_string_int c @ '':'')"

definition count_new :: "bool \<Rightarrow> int \<times> int \<times> int \<Rightarrow> triangle_state \<Rightarrow> triangle_state" where
  "count_new returnTriangles t ts =
     ts\<lparr>triangleCount := triangleCount ts + 1,
        triangleStream := triangleStream ts @ (if returnTriangles then triangle_text t else [])\<rparr>"

definition add_triangle :: "bool \<Rightarrow> int \<times> int \<times> int \<Rightarrow> triangle_state \<Rightarrow> triangle_state" where
  "add_triangle returnTriangles t ts =
     (case t of (varOne, varTwo, varThree) \<Rightarrow>
        let itemRes = (case triangleTree ts varOne of None \<Rightarrow> Map.empty | Some m \<Rightarrow> m);
            ts = ts\<lparr>triangleTree := (triangleTree ts)(varOne \<mapsto> itemRes)\<rparr>
        in case itemRes varTwo of
             Some set2 \<Rightarrow>
               if varThree \<in> set2 then ts
               else count_new returnTriangles t
                      (ts\<lparr>triangleTree := (triangleTree ts)(varOne \<mapsto> itemRes(varTwo \<mapsto> insert varThree set2))\<rparr>)
           | None \<Rightarrow>
               count_new returnTriangles t
                 (ts\<lparr>triangleTree := (triangleTree ts)(varOne \<mapsto> itemRes(varTwo \<mapsto> {varThree}))\<rparr>))"

fun nu_loop :: "bool \<Rightarrow> int \<Rightarrow> int \<Rightarrow> int list \<Rightarrow> int list \<Rightarrow> triangle_state \<Rightarrow> triangle_state" where
  "nu_loop ret temp u uset [] ts = ts"
| "nu_loop ret temp u uset (nu # nus) ts =
     (if temp = nu then nu_loop ret temp u uset nus ts
      else if u = nu then nu_loop ret temp u uset nus ts
      else
        let ts = ts\<lparr>ts_store := touch nu (ts_store ts)\<rparr>
        in nu_loop ret temp u uset nus
             (if nu \<in> set uset \<or> temp \<in> set (neighbours (ts_store ts) nu)
              then add_triangle ret (sort_three temp u nu) ts else ts))"

fun u_loop :: "bool \<Rightarrow> int \<Rightarrow> int list \<Rightarrow> int list \<Rightarrow> triangle_state \<Rightarrow> triangle_state" where
  "u_loop ret temp uset [] ts = ts"
| "u_loop ret temp uset (u # us) ts =
     (if temp = u then u_loop ret temp uset us ts
      else
        let ts = ts\<lparr>ts_store := touch u (ts_store ts)\<rparr>
        in u_loop ret temp uset us (nu_loop ret temp u uset (neighbours (ts_store ts) u) ts))"

fun vertex_loop :: "bool \<Rightarrow> int list \<Rightarrow> triangle_state \<Rightarrow> triangle_state" where
  "vertex_loop ret [] ts = ts"
| "vertex_loop ret (temp # vs) ts =
     (let ts = ts\<lparr>ts_store := touch temp (ts_store ts)\<rparr>;
          uset = neighbours (ts_store ts) temp
      in vertex_loop ret vs (u_loop ret temp uset uset ts))"

text \<open>\<^verbatim>\<open>countTriangles\<close> returns the text or the count; the other field is left uninitialised.\<close>

definition countTriangles :: "adjacency \<Rightarrow> (int \<times> int) list \<Rightarrow> bool \<Rightarrow> triangle_result \<times> adjacency" where
  "countTriangles st dist returnTriangles =
     (let ts = vertex_loop returnTriangles (concat (map snd (build_degree_map dist)))
                 \<lparr>ts_store = st, triangleTree = Map.empty, triangleCount = 0, triangleStream = []\<rparr>
      in (if returnTriangles
          then \<lparr>triangles = (if triangleStream ts = [] then ''NILL'' else butlast (triangleStream ts)), tr_count = None\<rparr>
          else \<lparr>triangles = [], tr_count = Some (triangleCount ts)\<rparr>, ts_store ts))"

subsection \<open>Merging the stores of a partition\<close>

text \<open>\<^verbatim>\<open>std::set_difference\<close>, which expects sorted ranges and is given the enumerations of two hash sets.\<close>

fun set_difference :: "int list \<Rightarrow> int list \<Rightarrow> int list" where
  "set_difference [] ys = []"
| "set_difference xs [] = xs"
| "set_difference (x # xs) (y # ys) =
     (if x < y then x # set_difference xs (y # ys)
      else if y < x then set_difference (x # xs) ys
      else set_difference xs ys)"

text \<open>\<^verbatim>\<open>m[k] += n\<close> on a \<^verbatim>\<open>std::map<long, long>\<close>.\<close>

fun map_plus :: "int \<Rightarrow> int \<Rightarrow> (int \<times> int) list \<Rightarrow> (int \<times> int) list" where
  "map_plus k n [] = [(k, n)]"
| "map_plus k n ((k', m) # xs) =
     (if k < k' then (k, n) # (k', m) # xs
      else if k = k' then (k', m + n) # xs
      else (k', m) # map_plus k n xs)"

definition merge_duplicate ::
  "adjacency \<Rightarrow> int \<Rightarrow> adjacency \<times> (int \<times> int) list \<Rightarrow> adjacency \<times> (int \<times> int) list" where
  "merge_duplicate duplicate v c =
     (case c of (central, degrees) \<Rightarrow>
        let central = touch v central;
            result = set_difference (neighbours duplicate v) (neighbours central v)
        in if 0 < length result
           then (central(v \<mapsto> fold uset_insert result (neighbours central v)), map_plus v (int (length result)) degrees)
           else (central, degrees))"

definition merge_central ::
  "adjacency \<Rightarrow> int \<times> int \<Rightarrow> adjacency \<times> (int \<times> int) list \<Rightarrow> adjacency \<times> (int \<times> int) list" where
  "merge_central central e l =
     (case e of (v, d) \<Rightarrow> case l of (local, degrees) \<Rightarrow>
        (local(v \<mapsto> fold uset_insert (neighbours central v) (neighbours local v)), map_plus v d degrees))"

definition Triangles_run ::
  "adjacency \<times> (int \<times> int) list \<Rightarrow> adjacency \<times> (int \<times> int) list \<Rightarrow> adjacency \<times> (int \<times> int) list \<Rightarrow> nat option" where
  "Triangles_run graphDB centralStore duplicateCentralStore =
     (let (central, centralDegrees) =
            fold (merge_duplicate (fst duplicateCentralStore)) (map fst (snd duplicateCentralStore)) centralStore;
          (local, degrees) = fold (merge_central central) centralDegrees graphDB
      in tr_count (fst (countTriangles local degrees False)))"

end
