(* ===== verification/Triangle_Exact.thy ===== *)
theory Triangle_Exact
  imports Triangle_Count
begin

text \<open>
  What the triangle count computes. The nested loops collect, without repetition, the sorted
  triples of the paths they find; under the degree filter these are exactly the triangles of the
  underlying undirected graph, unless three vertices of out-degree 1 form a directed cycle.
\<close>

subsection \<open>Lookup and insertion\<close>

lemma neighbours_touch [simp]: "neighbours (touch v st) = neighbours st"
  by (auto simp: neighbours_def touch_def fun_eq_iff split: option.splits)

lemma set_uset_insert [simp]: "set (uset_insert x xs) = insert x (set xs)"
  by (auto simp: uset_insert_def)

lemma set_fold_uset_insert [simp]: "set (fold uset_insert xs ys) = set xs \<union> set ys"
  by (induction xs arbitrary: ys) auto

lemma length_fold_uset_insert: "length (fold uset_insert xs ys) \<le> length xs + length ys"
proof (induction xs arbitrary: ys)
  case (Cons x xs)
  have "length (uset_insert x ys) \<le> Suc (length ys)" by (simp add: uset_insert_def)
  with Cons [of "uset_insert x ys"] show ?case by simp
qed simp

lemma set_degree_insert:
  "(\<Union>x\<in>set (degree_insert d v m). set (snd x)) = insert v (\<Union>x\<in>set m. set (snd x))"
  by (induction d v m rule: degree_insert.induct) (auto simp: set_insort_insert)

lemma set_build_degree_map:
  "set (concat (map snd (build_degree_map dist))) = {v. \<exists>d. (v, d) \<in> set dist \<and> d \<noteq> 1}"
proof -
  have "(\<Union>x\<in>set (fold (\<lambda>(v, d) m. if d = 1 then m else degree_insert d v m) dist m). set (snd x)) =
      {v. \<exists>d. (v, d) \<in> set dist \<and> d \<noteq> 1} \<union> (\<Union>x\<in>set m. set (snd x))" for m
  proof (induction dist arbitrary: m)
    case (Cons e dist)
    then show ?case by (cases e; cases "snd e = 1") (auto simp: set_degree_insert)
  qed simp
  then show ?thesis by (simp add: build_degree_map_def)
qed

subsection \<open>Sorting three numbers by exchanges\<close>

lemma swap_if_greater: "swap_if_greater a b = (min a b, max a b)"
proof -
  have "b XOR (a XOR b) = a" "(a XOR b) XOR a = b"
    by (simp_all add: bit_eq_iff bit_xor_iff) blast+
  then show ?thesis by (simp add: swap_if_greater_def Let_def)
qed

definition sorted_triple :: "int \<times> int \<times> int \<Rightarrow> bool" where
  "sorted_triple t \<longleftrightarrow> (case t of (a, b, c) \<Rightarrow> a < b \<and> b < c)"

definition corners :: "int \<times> int \<times> int \<Rightarrow> int set" where
  "corners t = (case t of (a, b, c) \<Rightarrow> {a, b, c})"

lemma sort_three:
  "distinct [a, b, c] \<Longrightarrow> sorted_triple (sort_three a b c) \<and> corners (sort_three a b c) = {a, b, c}"
  by (auto simp: sort_three_def swap_if_greater sorted_triple_def corners_def min_def max_def)

lemma corners_inj:
  assumes "sorted_triple s" "sorted_triple t" "corners s = corners t"
  shows "s = t"
proof -
  have list: "sorted_list_of_set (corners t) = [fst t, fst (snd t), snd (snd t)]" if "sorted_triple t" for t
  proof -
    obtain a b c where t: "t = (a, b, c)" by (cases t)
    have "sorted_list_of_set (set [a, b, c]) = [a, b, c]"
      using that by (intro sorted_list_of_set.idem_if_sorted_distinct) (auto simp: sorted_triple_def t)
    then show ?thesis by (simp add: corners_def t)
  qed
  from list [OF assms(1)] list [OF assms(2)] assms(3) show ?thesis by (simp add: prod_eq_iff)
qed

subsection \<open>The loops collect triples\<close>

definition tree_set :: "(int \<rightharpoonup> (int \<rightharpoonup> int set)) \<Rightarrow> (int \<times> int \<times> int) set" where
  "tree_set tree = {(a, b, c). \<exists>m S. tree a = Some m \<and> m b = Some S \<and> c \<in> S}"

definition collected :: "bool \<Rightarrow> (int \<Rightarrow> int list) \<Rightarrow> (int \<times> int \<times> int) list \<Rightarrow> triangle_state \<Rightarrow> bool" where
  "collected ret nb L ts \<longleftrightarrow> distinct L \<and> neighbours (ts_store ts) = nb \<and> tree_set (triangleTree ts) = set L \<and>
     triangleCount ts = length L \<and> triangleStream ts = (if ret then concat (map triangle_text L) else [])"

lemma tree_set_step:
  fixes tree :: "int \<rightharpoonup> (int \<rightharpoonup> int set)" and a b c
  defines "m \<equiv> (case tree a of None \<Rightarrow> Map.empty | Some m \<Rightarrow> m)"
  shows "tree_set (tree(a \<mapsto> m)) = tree_set tree"
    and "tree_set (tree(a \<mapsto> m(b \<mapsto> insert c (case m b of None \<Rightarrow> {} | Some S \<Rightarrow> S)))) = insert (a, b, c) (tree_set tree)"
    and "(a, b, c) \<in> tree_set tree \<longleftrightarrow> (\<exists>S. m b = Some S \<and> c \<in> S)"
  by (auto simp: tree_set_def m_def split: if_splits option.splits)

lemma collected_add:
  assumes "collected ret nb L ts"
  shows "collected ret nb (if t \<in> set L then L else L @ [t]) (add_triangle ret t ts)"
proof -
  obtain a b c where t: "t = (a, b, c)" by (cases t)
  define m where "m = (case triangleTree ts a of None \<Rightarrow> Map.empty | Some m \<Rightarrow> m)"
  note step = tree_set_step [where tree = "triangleTree ts" and a = a, folded m_def]
  have mem: "t \<in> set L \<longleftrightarrow> (\<exists>S. m b = Some S \<and> c \<in> S)"
    using assms step(3) [of b c] by (simp add: collected_def t)
  show ?thesis
  proof (cases "t \<in> set L")
    case True
    then obtain S where "m b = Some S" "c \<in> S" using mem by blast
    then have "add_triangle ret t ts = ts\<lparr>triangleTree := (triangleTree ts)(a \<mapsto> m)\<rparr>"
      by (simp add: add_triangle_def t m_def [symmetric] Let_def)
    then show ?thesis using True assms step(1) by (simp add: collected_def)
  next
    case False
    then have "add_triangle ret t ts = count_new ret t (ts\<lparr>triangleTree := (triangleTree ts)(a \<mapsto>
        m(b \<mapsto> insert c (case m b of None \<Rightarrow> {} | Some S \<Rightarrow> S)))\<rparr>)"
      using mem by (auto simp: add_triangle_def t m_def [symmetric] Let_def split: option.splits)
    then show ?thesis using False assms step(2) [of b c] t by (simp add: collected_def count_new_def)
  qed
qed

lemma collected_touch: "collected ret nb L ts \<Longrightarrow> collected ret nb L (ts\<lparr>ts_store := touch v (ts_store ts)\<rparr>)"
  by (simp add: collected_def)

definition closes :: "(int \<Rightarrow> int list) \<Rightarrow> int \<Rightarrow> int \<Rightarrow> int \<Rightarrow> bool" where
  "closes nb t u n \<longleftrightarrow> t \<noteq> u \<and> t \<noteq> n \<and> u \<noteq> n \<and> (n \<in> set (nb t) \<or> t \<in> set (nb n))"

lemma nu_loop_collects:
  assumes "collected ret nb L ts" "t \<noteq> u"
  shows "\<exists>L'. collected ret nb L' (nu_loop ret t u (nb t) nus ts) \<and>
    set L' = set L \<union> {sort_three t u n | n. n \<in> set nus \<and> closes nb t u n}"
  using assms
proof (induction nus arbitrary: L ts)
  case Nil
  then show ?case by auto
next
  case (Cons n nus)
  show ?case
  proof (cases "closes nb t u n")
    case True
    let ?ts = "ts\<lparr>ts_store := touch n (ts_store ts)\<rparr>" and ?x = "sort_three t u n"
    have "collected ret nb (if ?x \<in> set L then L else L @ [?x]) (add_triangle ret ?x ?ts)"
      using Cons.prems(1) by (intro collected_add collected_touch)
    from Cons.IH [OF this Cons.prems(2)] obtain L' where
      "collected ret nb L' (nu_loop ret t u (nb t) nus (add_triangle ret ?x ?ts))"
      "set L' = set (if ?x \<in> set L then L else L @ [?x]) \<union> {sort_three t u n | n. n \<in> set nus \<and> closes nb t u n}"
      by blast
    moreover have "nu_loop ret t u (nb t) (n # nus) ts = nu_loop ret t u (nb t) nus (add_triangle ret ?x ?ts)"
      using True Cons.prems(1) by (simp add: closes_def collected_def)
    ultimately show ?thesis using True by (intro exI [of _ L']) auto
  next
    case False
    define ts' where "ts' = (if t = n \<or> u = n then ts else ts\<lparr>ts_store := touch n (ts_store ts)\<rparr>)"
    have ts': "collected ret nb L ts'" "nu_loop ret t u (nb t) (n # nus) ts = nu_loop ret t u (nb t) nus ts'"
      using False Cons.prems collected_touch [OF Cons.prems(1), of n]
      by (auto simp: closes_def collected_def ts'_def)
    from Cons.IH [OF ts'(1) Cons.prems(2)] False show ?thesis unfolding ts'(2) by auto
  qed
qed

lemma u_loop_collects:
  assumes "collected ret nb L ts"
  shows "\<exists>L'. collected ret nb L' (u_loop ret t (nb t) us ts) \<and>
    set L' = set L \<union> {sort_three t u n | u n. u \<in> set us \<and> n \<in> set (nb u) \<and> closes nb t u n}"
  using assms
proof (induction us arbitrary: L ts)
  case Nil
  then show ?case by auto
next
  case (Cons u us)
  show ?case
  proof (cases "t = u")
    case True
    then have "\<not> closes nb t u n" for n by (simp add: closes_def)
    then have "{sort_three t u' n | u' n. u' \<in> set (u # us) \<and> n \<in> set (nb u') \<and> closes nb t u' n} =
        {sort_three t u' n | u' n. u' \<in> set us \<and> n \<in> set (nb u') \<and> closes nb t u' n}"
      by auto
    with Cons.IH [OF Cons.prems] True show ?thesis by simp
  next
    case False
    let ?ts = "ts\<lparr>ts_store := touch u (ts_store ts)\<rparr>"
    have nb: "neighbours (ts_store ?ts) = nb" using Cons.prems by (simp add: collected_def)
    have "collected ret nb L ?ts" by (rule collected_touch [OF Cons.prems])
    from nu_loop_collects [OF this False, of "nb u"] obtain L1 where
      L1: "collected ret nb L1 (nu_loop ret t u (nb t) (nb u) ?ts)"
        "set L1 = set L \<union> {sort_three t u n | n. n \<in> set (nb u) \<and> closes nb t u n}" by blast
    from Cons.IH [OF L1(1)] obtain L2 where
      "collected ret nb L2 (u_loop ret t (nb t) us (nu_loop ret t u (nb t) (nb u) ?ts))"
      "set L2 = set L1 \<union> {sort_three t u n | u n. u \<in> set us \<and> n \<in> set (nb u) \<and> closes nb t u n}" by blast
    moreover have "u_loop ret t (nb t) (u # us) ts = u_loop ret t (nb t) us (nu_loop ret t u (nb t) (nb u) ?ts)"
      using False nb by (simp add: Let_def)
    ultimately show ?thesis using L1(2) by (intro exI [of _ L2]) auto
  qed
qed

lemma vertex_loop_collects:
  assumes "collected ret nb L ts"
  shows "\<exists>L'. collected ret nb L' (vertex_loop ret vs ts) \<and>
    set L' = set L \<union> {sort_three t u n | t u n. t \<in> set vs \<and> u \<in> set (nb t) \<and> n \<in> set (nb u) \<and> closes nb t u n}"
  using assms
proof (induction vs arbitrary: L ts)
  case Nil
  then show ?case by auto
next
  case (Cons t vs)
  let ?ts = "ts\<lparr>ts_store := touch t (ts_store ts)\<rparr>"
  have nb: "neighbours (ts_store ?ts) = nb" using Cons.prems by (simp add: collected_def)
  have "collected ret nb L ?ts" by (rule collected_touch [OF Cons.prems])
  from u_loop_collects [OF this, of t "nb t"] obtain L1 where
    L1: "collected ret nb L1 (u_loop ret t (nb t) (nb t) ?ts)"
      "set L1 = set L \<union> {sort_three t u n | u n. u \<in> set (nb t) \<and> n \<in> set (nb u) \<and> closes nb t u n}" by blast
  from Cons.IH [OF L1(1)] obtain L2 where
    "collected ret nb L2 (vertex_loop ret vs (u_loop ret t (nb t) (nb t) ?ts))"
    "set L2 = set L1 \<union> {sort_three t u n | t u n. t \<in> set vs \<and> u \<in> set (nb t) \<and> n \<in> set (nb u) \<and> closes nb t u n}"
    by blast
  moreover have "vertex_loop ret (t # vs) ts = vertex_loop ret vs (u_loop ret t (nb t) (nb t) ?ts)"
    using nb by (simp add: Let_def)
  ultimately show ?case using L1(2) by (intro exI [of _ L2]) auto
qed

subsection \<open>The triangles of the underlying graph\<close>

definition linked_by :: "(int \<Rightarrow> int list) \<Rightarrow> int \<Rightarrow> int \<Rightarrow> bool" where
  "linked_by nb a b \<longleftrightarrow> b \<in> set (nb a) \<or> a \<in> set (nb b)"

definition triangles_of :: "(int \<Rightarrow> int list) \<Rightarrow> int set set" where
  "triangles_of nb =
     {{a, b, c} | a b c. distinct [a, b, c] \<and> linked_by nb a b \<and> linked_by nb b c \<and> linked_by nb a c}"

definition short_cycle :: "(int \<Rightarrow> int list) \<Rightarrow> bool" where
  "short_cycle nb \<longleftrightarrow>
     (\<exists>a b c. distinct [a, b, c] \<and> set (nb a) = {b} \<and> set (nb b) = {c} \<and> set (nb c) = {a})"

definition degrees_cover :: "(int \<Rightarrow> int list) \<Rightarrow> (int \<times> int) list \<Rightarrow> bool" where
  "degrees_cover nb dist \<longleftrightarrow>
     (\<forall>v. nb v \<noteq> [] \<longrightarrow> (\<exists>d. (v, d) \<in> set dist \<and> int (card (set (nb v))) \<le> d))"

definition paths :: "(int \<Rightarrow> int list) \<Rightarrow> int set \<Rightarrow> (int \<times> int \<times> int) set" where
  "paths nb V = {(t, u, n). t \<in> V \<and> u \<in> set (nb t) \<and> n \<in> set (nb u) \<and> closes nb t u n}"

definition found :: "(int \<Rightarrow> int list) \<Rightarrow> int set \<Rightarrow> (int \<times> int \<times> int) set" where
  "found nb V = (\<lambda>(t, u, n). sort_three t u n) ` paths nb V"

lemma path_sorted:
  "(t, u, n) \<in> paths nb V \<Longrightarrow> sorted_triple (sort_three t u n) \<and> corners (sort_three t u n) = {t, u, n}"
  by (rule sort_three) (auto simp: paths_def closes_def)

lemma found_sorted: "t \<in> found nb V \<Longrightarrow> sorted_triple t"
  by (auto simp: found_def path_sorted)

lemma found_iff:
  "{sort_three t u n | t u n. t \<in> V \<and> u \<in> set (nb t) \<and> n \<in> set (nb u) \<and> closes nb t u n} = found nb V"
  by (force simp: found_def paths_def)

lemma found_corners: "corners ` found nb V = (\<lambda>(t, u, n). {t, u, n}) ` paths nb V"
  unfolding found_def image_image by (rule image_cong) (auto simp: path_sorted)

lemma several_visited:
  assumes "degrees_cover nb dist" "p \<in> set (nb x)" "q \<in> set (nb x)" "p \<noteq> q"
  shows "\<exists>d. (x, d) \<in> set dist \<and> d \<noteq> 1"
proof -
  from assms(2) have "nb x \<noteq> []" by auto
  with assms(1) obtain d where d: "(x, d) \<in> set dist" "int (card (set (nb x))) \<le> d"
    by (auto simp: degrees_cover_def)
  have "card {p, q} \<le> card (set (nb x))" using assms(2,3) by (intro card_mono) auto
  with assms(4) d show ?thesis by auto
qed

lemma triangle_path:
  assumes "distinct [a, b, c]" "linked_by nb a b" "linked_by nb b c" "linked_by nb a c"
    and visited: "\<And>x p q. p \<in> set (nb x) \<Longrightarrow> q \<in> set (nb x) \<Longrightarrow> p \<noteq> q \<Longrightarrow> x \<in> V"
    and "\<not> short_cycle nb"
  shows "\<exists>t u n. {a, b, c} = {t, u, n} \<and> t \<in> V \<and> u \<in> set (nb t) \<and> n \<in> set (nb u) \<and> closes nb t u n"
proof -
  have fan: ?thesis if "y \<in> set (nb x)" "z \<in> set (nb x)" "linked_by nb y z" "distinct [x, y, z]" "{a, b, c} = {x, y, z}" for x y z
  proof -
    have "x \<in> V" using visited [OF that(1,2)] that(4) by simp
    moreover from that have "closes nb x y z" "closes nb x z y" "{a, b, c} = {x, z, y}"
      by (auto simp: closes_def)
    moreover from that(3) have "z \<in> set (nb y) \<or> y \<in> set (nb z)" by (simp add: linked_by_def)
    ultimately show ?thesis using that(1,2,5) by blast
  qed
  have cycle: ?thesis if "y \<in> set (nb x)" "z \<in> set (nb y)" "x \<in> set (nb z)" "distinct [x, y, z]" "{a, b, c} = {x, y, z}" for x y z
  proof -
    have more: "v \<in> V" if "w \<in> set (nb v)" "set (nb v) \<noteq> {w}" for v w
      using visited [of w v] that by blast
    from assms(6) that(4) have "set (nb x) \<noteq> {y} \<or> set (nb y) \<noteq> {z} \<or> set (nb z) \<noteq> {x}"
      unfolding short_cycle_def by blast
    then have "x \<in> V \<or> y \<in> V \<or> z \<in> V" using more that(1-3) by blast
    moreover have "closes nb x y z" "closes nb y z x" "closes nb z x y"
      using that by (auto simp: closes_def)
    moreover have "{a, b, c} = {y, z, x}" "{a, b, c} = {z, x, y}" using that(5) by auto
    ultimately show ?thesis using that(1-3,5) by blast
  qed
  have "b \<in> set (nb a) \<Longrightarrow> c \<in> set (nb a) \<Longrightarrow> ?thesis"
    "a \<in> set (nb b) \<Longrightarrow> c \<in> set (nb b) \<Longrightarrow> ?thesis"
    "a \<in> set (nb c) \<Longrightarrow> b \<in> set (nb c) \<Longrightarrow> ?thesis"
    using assms(1-4) by (intro fan; fastforce simp: linked_by_def)+
  moreover have "b \<in> set (nb a) \<Longrightarrow> c \<in> set (nb b) \<Longrightarrow> a \<in> set (nb c) \<Longrightarrow> ?thesis"
    "c \<in> set (nb a) \<Longrightarrow> b \<in> set (nb c) \<Longrightarrow> a \<in> set (nb b) \<Longrightarrow> ?thesis"
    using assms(1) by (intro cycle; fastforce)+
  ultimately show ?thesis using assms(2-4) unfolding linked_by_def by argo
qed

lemma found_triangles:
  assumes "degrees_cover nb dist" "\<not> short_cycle nb"
  shows "corners ` found nb {v. \<exists>d. (v, d) \<in> set dist \<and> d \<noteq> 1} = triangles_of nb" (is "corners ` found nb ?V = _")
proof (intro equalityI subsetI)
  fix T
  assume "T \<in> corners ` found nb ?V"
  then obtain t u n where T: "T = {t, u, n}" "u \<in> set (nb t)" "n \<in> set (nb u)" "closes nb t u n"
    unfolding found_corners paths_def by auto
  then have "distinct [t, u, n]" "linked_by nb t u" "linked_by nb u n" "linked_by nb t n"
    by (auto simp: linked_by_def closes_def)
  with T(1) show "T \<in> triangles_of nb" unfolding triangles_of_def by blast
next
  fix T
  assume "T \<in> triangles_of nb"
  then obtain a b c where T: "T = {a, b, c}" "distinct [a, b, c]" "linked_by nb a b" "linked_by nb b c" "linked_by nb a c"
    by (auto simp: triangles_of_def)
  have "\<exists>t u n. {a, b, c} = {t, u, n} \<and> t \<in> ?V \<and> u \<in> set (nb t) \<and> n \<in> set (nb u) \<and> closes nb t u n"
    using several_visited [OF assms(1)] by (intro triangle_path [OF T(2-5) _ assms(2)]) auto
  then obtain t u n where "(t, u, n) \<in> paths nb ?V" "T = {t, u, n}" using T(1) by (auto simp: paths_def)
  then show "T \<in> corners ` found nb ?V" unfolding found_corners by force
qed

lemma triangle_text_nonempty [simp]: "triangle_text t \<noteq> []"
  by (auto simp: triangle_text_def split: prod.splits)

lemma no_text: "concat (map triangle_text L) = [] \<longleftrightarrow> L = []"
  by (cases L) auto

lemma countTriangles_collects:
  obtains L where "distinct L" "set L = found (neighbours st) {v. \<exists>d. (v, d) \<in> set dist \<and> d \<noteq> 1}"
    "fst (countTriangles st dist ret) =
       (if ret
        then \<lparr>triangles = (if L = [] then ''NILL'' else butlast (concat (map triangle_text L))), tr_count = None\<rparr>
        else \<lparr>triangles = [], tr_count = Some (length L)\<rparr>)"
proof -
  let ?vs = "concat (map snd (build_degree_map dist))" and ?nb = "neighbours st"
  let ?ts = "\<lparr>ts_store = st, triangleTree = Map.empty, triangleCount = 0, triangleStream = []\<rparr>"
  define ts where "ts = vertex_loop ret ?vs ?ts"
  have "collected ret ?nb [] ?ts" by (simp add: collected_def tree_set_def)
  from vertex_loop_collects [OF this, of ?vs] obtain L where L: "collected ret ?nb L ts"
    "set L = {sort_three t u n | t u n. t \<in> set ?vs \<and> u \<in> set (?nb t) \<and> n \<in> set (?nb u) \<and> closes ?nb t u n}"
    by (auto simp: ts_def)
  from L(2) have F: "set L = found ?nb {v. \<exists>d. (v, d) \<in> set dist \<and> d \<noteq> 1}"
    by (simp only: found_iff set_build_degree_map)
  have "triangleCount ts = length L" "triangleStream ts = (if ret then concat (map triangle_text L) else [])" "distinct L"
    using L(1) by (simp_all add: collected_def)
  then show thesis
    by (intro that [OF _ F]) (simp_all add: countTriangles_def ts_def [symmetric] no_text del: concat_eq_Nil_conv)
qed

lemma card_found:
  assumes "distinct L" "set L = found nb V"
  shows "length L = card (corners ` found nb V)"
proof -
  have "inj_on corners (found nb V)" by (intro inj_onI corners_inj) (auto simp: found_sorted)
  then show ?thesis using distinct_card [OF assms(1)] by (simp add: assms(2) card_image)
qed

lemma count_is_exact:
  assumes "degrees_cover (neighbours st) dist" "\<not> short_cycle (neighbours st)"
  shows "tr_count (fst (countTriangles st dist False)) = Some (card (triangles_of (neighbours st)))"
proof (rule countTriangles_collects [of st dist False])
  fix L
  assume L: "distinct L" "set L = found (neighbours st) {v. \<exists>d. (v, d) \<in> set dist \<and> d \<noteq> 1}"
    and "fst (countTriangles st dist False) =
      (if False then \<lparr>triangles = (if L = [] then ''NILL'' else butlast (concat (map triangle_text L))), tr_count = None\<rparr>
       else \<lparr>triangles = [], tr_count = Some (length L)\<rparr>)"
  then show ?thesis by (simp add: card_found [OF L] found_triangles [OF assms])
qed

subsection \<open>The claims\<close>

text \<open>C9. The count is exact: for every adjacency map, in whatever order its sets are enumerated, and a
  degree table that gives every vertex with neighbours at least its number of neighbours,
  \<^verbatim>\<open>countTriangles\<close> returns the number of triangles of the underlying undirected graph, unless three
  vertices with one neighbour each form a directed cycle.\<close>

theorem countTriangles_exact:
  assumes "degrees_cover (neighbours st) dist" "\<not> short_cycle (neighbours st)"
  shows "tr_count (fst (countTriangles st dist False)) = Some (card (triangles_of (neighbours st)))"
  using assms by (rule count_is_exact)

definition sample_store :: adjacency where
  "sample_store = [1 \<mapsto> [3, 2], 2 \<mapsto> [3, 4], 4 \<mapsto> [3]]"

definition sample_degrees :: "(int \<times> int) list" where
  "sample_degrees = [(1, 2), (2, 2), (4, 1)]"

lemma sample_store_neighbours:
  "neighbours sample_store v = (if v = 1 then [3, 2] else if v = 2 then [3, 4] else if v = 4 then [3] else [])"
  by (simp add: neighbours_def sample_store_def)

lemma sample_store_ok: "degrees_cover (neighbours sample_store) sample_degrees" "\<not> short_cycle (neighbours sample_store)"
proof -
  show "degrees_cover (neighbours sample_store) sample_degrees"
    by (auto simp: degrees_cover_def sample_store_neighbours sample_degrees_def)
  show "\<not> short_cycle (neighbours sample_store)"
    unfolding short_cycle_def sample_store_neighbours by (auto split: if_splits)
qed

theorem countTriangles_exact_witness:
  "tr_count (fst (countTriangles sample_store sample_degrees False)) = Some 2 \<and>
   card (triangles_of (neighbours sample_store)) = 2"
proof -
  have "tr_count (fst (countTriangles sample_store sample_degrees False)) = Some 2" by code_simp
  with countTriangles_exact [OF sample_store_ok] show ?thesis by simp
qed

lemma listing_is_exact:
  assumes "degrees_cover (neighbours st) dist" "\<not> short_cycle (neighbours st)"
  shows "\<exists>L. distinct (map corners L) \<and> set (map corners L) = triangles_of (neighbours st) \<and> list_all sorted_triple L \<and>
    triangles (fst (countTriangles st dist True)) =
      (if L = [] then ''NILL'' else butlast (concat (map triangle_text L)))"
proof (rule countTriangles_collects [of st dist True])
  fix L
  let ?F = "found (neighbours st) {v. \<exists>d. (v, d) \<in> set dist \<and> d \<noteq> 1}"
  assume L: "distinct L" "set L = ?F"
    "fst (countTriangles st dist True) =
      (if True then \<lparr>triangles = (if L = [] then ''NILL'' else butlast (concat (map triangle_text L))), tr_count = None\<rparr>
       else \<lparr>triangles = [], tr_count = Some (length L)\<rparr>)"
  have "inj_on corners ?F" by (intro inj_onI corners_inj) (auto simp: found_sorted)
  then have "distinct (map corners L)" using L(1,2) by (simp add: distinct_map)
  moreover have "set (map corners L) = triangles_of (neighbours st)"
    using found_triangles [OF assms] L(2) by simp
  moreover have "list_all sorted_triple L" using L(2) found_sorted by (auto simp: list_all_iff)
  ultimately show ?thesis using L(3) by (intro exI [of _ L]) simp
qed

end
