(* ===== verification/Triangle_Merge.thy ===== *)
theory Triangle_Merge
  imports Triangle_Exact
begin

text \<open>
  \<^verbatim>\<open>Triangles::run\<close> merges the local store, the central store and the copies of the other partitions'
  central stores before it counts. \<^verbatim>\<open>std::set_difference\<close> is applied to hash sets, whose enumeration
  is not sorted; the merged sets are right all the same, and the degrees that result are upper
  bounds, which is what the count needs.
\<close>

subsection \<open>A store with its degrees\<close>

definition sorted_keys :: "(int \<times> int) list \<Rightarrow> bool" where
  "sorted_keys dist \<longleftrightarrow> sorted_wrt (<) (map fst dist)"

definition store_data :: "adjacency \<times> (int \<times> int) list \<Rightarrow> bool" where
  "store_data c \<longleftrightarrow> (case c of (st, dist) \<Rightarrow>
     sorted_keys dist \<and> (\<forall>(v, d)\<in>set dist. int (card (set (neighbours st v))) \<le> d) \<and>
     (\<forall>v. neighbours st v \<noteq> [] \<longrightarrow> v \<in> fst ` set dist))"

lemma set_difference_union: "set (set_difference xs ys) \<union> set ys = set xs \<union> set ys"
  by (induction xs ys rule: set_difference.induct) auto

lemma map_plus_keys: "fst ` set (map_plus k n dist) = insert k (fst ` set dist)"
  by (induction k n dist rule: map_plus.induct) auto

lemma sorted_map_plus: "sorted_keys dist \<Longrightarrow> sorted_keys (map_plus k n dist)"
proof (induction k n dist rule: map_plus.induct)
  case (2 k n k' m xs)
  then have IH: "k' < k \<Longrightarrow> sorted_keys (map_plus k n xs)" by (auto simp: sorted_keys_def)
  have "\<forall>x\<in>fst ` set (map_plus k n xs). k' < x" if "k' < k"
    using 2(2) that by (auto simp: map_plus_keys sorted_keys_def)
  with 2(2) IH show ?case by (auto simp: sorted_keys_def)
qed (simp add: sorted_keys_def)

lemma map_plus_entries:
  assumes "sorted_keys dist" "(v, d) \<in> set (map_plus k n dist)"
  shows "v \<noteq> k \<and> (v, d) \<in> set dist \<or> v = k \<and> (\<exists>m. (k, m) \<in> set dist \<and> d = m + n) \<or>
    v = k \<and> k \<notin> fst ` set dist \<and> d = n"
  using assms
proof (induction k n dist rule: map_plus.induct)
  case (1 k n)
  then show ?case by simp
next
  case (2 k n k' m xs)
  have s: "sorted_keys xs" "\<forall>x\<in>fst ` set xs. k' < x" using 2(2) by (auto simp: sorted_keys_def)
  consider "k < k'" | "k = k'" | "k' < k" by linarith
  then show ?case
  proof cases
    case 1
    with 2(3) s show ?thesis by force
  next
    case b: 2
    with 2(3) s(2) show ?thesis by force
  next
    case 3
    with 2(1) [OF _ _ s(1)] 2(3) show ?thesis by (auto simp: image_iff)
  qed
qed

lemma store_data_update:
  assumes "store_data (st, dist)"
    and "\<And>w. set (neighbours st' w) = (if w = v then set xs \<union> set (neighbours st v) else set (neighbours st w))"
    and "int (card (set xs)) \<le> n"
  shows "store_data (st', map_plus v n dist)"
proof -
  have keys: "sorted_keys (map_plus v n dist)" using assms(1) by (simp add: store_data_def sorted_map_plus)
  have "int (card (set (neighbours st' w))) \<le> d" if "(w, d) \<in> set (map_plus v n dist)" for w d
  proof (cases "w = v")
    case False
    with map_plus_entries [OF _ that] assms(1) show ?thesis by (auto simp: store_data_def assms(2))
  next
    case True
    have le: "int (card (set (neighbours st' v))) \<le> n + int (card (set (neighbours st v)))"
      using card_Un_le [of "set xs" "set (neighbours st v)"] assms(3) by (simp add: assms(2))
    from map_plus_entries [OF _ that] True assms(1) consider
      m where "(v, m) \<in> set dist" "d = m + n" | "v \<notin> fst ` set dist" "d = n"
      by (auto simp: store_data_def)
    then show ?thesis
    proof cases
      case 1
      with assms(1) have "int (card (set (neighbours st v))) \<le> m" by (auto simp: store_data_def)
      with le 1 True show ?thesis by simp
    next
      case 2
      with assms(1) have "neighbours st v = []" by (auto simp: store_data_def)
      with le 2 True show ?thesis by simp
    qed
  qed
  moreover have "w \<in> fst ` set (map_plus v n dist)" if "neighbours st' w \<noteq> []" for w
  proof (cases "w = v")
    case False
    then have "set (neighbours st w) \<noteq> {}" using that assms(2) [of w] by (metis set_empty)
    with assms(1) show ?thesis unfolding map_plus_keys by (auto simp: store_data_def)
  qed (simp add: map_plus_keys)
  ultimately show ?thesis using keys unfolding store_data_def by auto
qed

subsection \<open>The two merges\<close>

lemma neighbours_upd [simp]: "neighbours (st(v \<mapsto> xs)) w = (if w = v then xs else neighbours st w)"
  by (simp add: neighbours_def)

lemma neighbours_empty [simp]: "neighbours Map.empty w = []"
  by (simp add: neighbours_def)

lemma store_data_touch: "store_data (st, dist) \<Longrightarrow> store_data (touch v st, dist)"
  by (simp add: store_data_def)

lemma merge_duplicate_step:
  assumes "store_data c"
  shows "store_data (merge_duplicate dup v c)"
    and "set (neighbours (fst (merge_duplicate dup v c)) w) =
      set (neighbours (fst c) w) \<union> (if w = v then set (neighbours dup v) else {})"
proof -
  obtain st dist where c: "c = (st, dist)" by (cases c)
  let ?r = "set_difference (neighbours dup v) (neighbours st v)"
  let ?st = "(touch v st)(v \<mapsto> fold uset_insert ?r (neighbours st v))"
  have "store_data (?st, map_plus v (int (length ?r)) dist)"
    using assms card_length [of ?r]
    by (intro store_data_update [of st dist _ v ?r]) (auto simp: c)
  then show "store_data (merge_duplicate dup v c)"
    using assms store_data_touch [of st dist v] by (simp add: merge_duplicate_def c Let_def)
  show "set (neighbours (fst (merge_duplicate dup v c)) w) =
      set (neighbours (fst c) w) \<union> (if w = v then set (neighbours dup v) else {})"
    using set_difference_union [of "neighbours dup v" "neighbours st v"]
    by (auto simp: merge_duplicate_def c Let_def)
qed

lemma merge_duplicates:
  assumes "store_data c"
  shows "store_data (fold (merge_duplicate dup) vs c) \<and>
    (\<forall>w. set (neighbours (fst (fold (merge_duplicate dup) vs c)) w) =
      set (neighbours (fst c) w) \<union> (if w \<in> set vs then set (neighbours dup w) else {}))"
  using assms
proof (induction vs arbitrary: c)
  case (Cons v vs)
  from Cons.IH [OF merge_duplicate_step(1) [OF Cons.prems, of dup v]] show ?case
    by (auto simp: merge_duplicate_step(2) [OF Cons.prems])
qed simp

lemma merge_central_step:
  assumes "store_data l" "int (card (set (neighbours central (fst e)))) \<le> snd e"
  shows "store_data (merge_central central e l)"
    and "set (neighbours (fst (merge_central central e l)) w) =
      set (neighbours (fst l) w) \<union> (if w = fst e then set (neighbours central w) else {})"
proof -
  obtain st dist where l: "l = (st, dist)" by (cases l)
  have "store_data (st(fst e \<mapsto> fold uset_insert (neighbours central (fst e)) (neighbours st (fst e))), map_plus (fst e) (snd e) dist)"
    using assms by (intro store_data_update [of st dist _ "fst e" "neighbours central (fst e)"]) (auto simp: l)
  then show "store_data (merge_central central e l)" by (simp add: merge_central_def l case_prod_beta)
  show "set (neighbours (fst (merge_central central e l)) w) =
      set (neighbours (fst l) w) \<union> (if w = fst e then set (neighbours central w) else {})"
    by (auto simp: merge_central_def l case_prod_beta)
qed

lemma merge_centrals:
  assumes "store_data l" "\<forall>e\<in>set es. int (card (set (neighbours central (fst e)))) \<le> snd e"
  shows "store_data (fold (merge_central central) es l) \<and>
    (\<forall>w. set (neighbours (fst (fold (merge_central central) es l)) w) =
      set (neighbours (fst l) w) \<union> (if w \<in> fst ` set es then set (neighbours central w) else {}))"
  using assms
proof (induction es arbitrary: l)
  case (Cons e es)
  have e: "int (card (set (neighbours central (fst e)))) \<le> snd e" using Cons.prems(2) by simp
  from Cons.IH [OF merge_central_step(1) [OF Cons.prems(1) e]] Cons.prems(2) show ?case
    by (auto simp: merge_central_step(2) [OF Cons.prems(1) e])
qed simp

subsection \<open>The claim\<close>

lemma same_triangles:
  assumes "\<And>v. set (nb v) = set (nb' v)"
  shows "triangles_of nb = triangles_of nb'" "short_cycle nb \<longleftrightarrow> short_cycle nb'"
  by (simp_all add: triangles_of_def linked_by_def short_cycle_def assms)

lemma store_data_cover: "store_data (st, dist) \<Longrightarrow> degrees_cover (neighbours st) dist"
  by (force simp: store_data_def degrees_cover_def)

definition union_graph :: "adjacency \<Rightarrow> adjacency \<Rightarrow> adjacency \<Rightarrow> int \<Rightarrow> int list" where
  "union_graph local central duplicate v = neighbours local v @ neighbours central v @ neighbours duplicate v"

lemma run_is_exact:
  assumes "store_data (local, ld)" "store_data (central, cd)" "store_data (duplicate, dd)"
    and "\<not> short_cycle (union_graph local central duplicate)"
  shows "Triangles_run (local, ld) (central, cd) (duplicate, dd) =
    Some (card (triangles_of (union_graph local central duplicate)))"
proof -
  obtain c cdeg where c: "fold (merge_duplicate duplicate) (map fst dd) (central, cd) = (c, cdeg)" by fastforce
  have cdata: "store_data (c, cdeg)" and cset: "\<And>w. set (neighbours c w) =
      set (neighbours central w) \<union> (if w \<in> fst ` set dd then set (neighbours duplicate w) else {})"
    using merge_duplicates [OF assms(2), of duplicate "map fst dd"] unfolding c by simp_all
  have dup: "w \<notin> fst ` set dd \<Longrightarrow> neighbours duplicate w = []" for w
    using assms(3) unfolding store_data_def by blast
  obtain l ldeg where l: "fold (merge_central c) cdeg (local, ld) = (l, ldeg)" by fastforce
  have cd: "\<forall>e\<in>set cdeg. int (card (set (neighbours c (fst e)))) \<le> snd e" "\<And>w. w \<notin> fst ` set cdeg \<Longrightarrow> neighbours c w = []"
    using cdata unfolding store_data_def by (simp_all add: case_prod_beta) blast
  have ldata: "store_data (l, ldeg)" and lset0: "\<And>w. set (neighbours l w) =
      set (neighbours local w) \<union> (if w \<in> fst ` set cdeg then set (neighbours c w) else {})"
    using merge_centrals [OF assms(1) cd(1)] unfolding l by simp_all
  have lset: "set (neighbours l w) = set (union_graph local central duplicate w)" for w
  proof -
    have "set (neighbours c w) = set (neighbours central w) \<union> set (neighbours duplicate w)"
      using cset [of w] dup [of w] by (cases "w \<in> fst ` set dd") simp_all
    with lset0 [of w] cd(2) [of w] show ?thesis
      by (cases "w \<in> fst ` set cdeg") (simp_all add: union_graph_def)
  qed
  note same = same_triangles [of "neighbours l", OF lset]
  have "tr_count (fst (countTriangles l ldeg False)) = Some (card (triangles_of (neighbours l)))"
    using store_data_cover [OF ldata] assms(4) by (intro count_is_exact) (simp_all add: same(2))
  then show ?thesis by (simp add: Triangles_run_def c l same(1))
qed

end
