(* ===== verification/Streaming_Triangles.thy ===== *)
theory Streaming_Triangles
  imports Triangle_Count Node_Manager "HOL-Library.Signed_Division"
begin

text \<open>
  \<^verbatim>\<open>StreamingTriangles\<close> of \<^verbatim>\<open>src/src/query/algorithms/triangles\<close>: triangles of a partition of the
  native store, counted as a whole or only for the relations added since the last count. The
  order in which a hash set is enumerated is the argument \<open>enum\<close>, the enumeration of the node
  index the argument \<open>it\<close>. The static members \<^verbatim>\<open>localAdjacencyList\<close> and \<^verbatim>\<open>centralAdjacencyList\<close> are
  passed and returned. \<^verbatim>\<open>at\<close> on an absent key and a null relation are \<^const>\<open>None\<close>.
\<close>

type_synonym adjacency_sets = "int \<rightharpoonup> int set"

record native_triangle_result =
  localRelationCount :: int
  centralRelationCount :: int
  ntr_result :: int

definition listed :: "(int set \<Rightarrow> int list) \<Rightarrow> adjacency_sets \<Rightarrow> adjacency" where
  "listed enum adj v = map_option enum (adj v)"

definition long_keys :: "(nat \<rightharpoonup> nat set) \<Rightarrow> adjacency_sets" where
  "long_keys adj v = (if v < 0 then None else map_option ((`) int) (adj (nat v)))"

definition degree_entries :: "(nat \<rightharpoonup> nat) \<Rightarrow> (int \<times> int) list" where
  "degree_entries m = map (\<lambda>v. (int v, int (the (m v)))) (sorted_list_of_set (dom m))"

subsection \<open>Counting a whole partition\<close>

definition Streaming_countTriangles ::
  "string list \<Rightarrow> (int set \<Rightarrow> int list) \<Rightarrow> bool \<Rightarrow> node_manager \<Rightarrow> native_store \<Rightarrow> (triangle_result \<times> native_store) option" where
  "Streaming_countTriangles it enum returnTriangles nm s =
     do {
       (adjacencyList, s) \<leftarrow> getAdjacencyList it nm s;
       (distributionMap, s) \<leftarrow> getDistributionMap it nm s;
       Some (fst (countTriangles (listed enum (long_keys adjacencyList)) (degree_entries distributionMap) returnTriangles), s)
     }"

text \<open>\<^verbatim>\<open>dbSize(..) / BLOCK_SIZE - 1\<close> with an unsigned 64-bit block size, stored in a \<^verbatim>\<open>long\<close>.\<close>

definition unsigned_relation_count :: "scope \<Rightarrow> native_store \<Rightarrow> int" where
  "unsigned_relation_count sc s =
     sint ((of_int (dbSize (content (relDB sc s))) :: 64 word) div of_nat (rel_size sc) - 1)"

definition countLocalStreamingTriangles ::
  "string list \<Rightarrow> (int set \<Rightarrow> int list) \<Rightarrow> node_manager \<Rightarrow> native_store \<Rightarrow> (native_triangle_result \<times> native_store) option" where
  "countLocalStreamingTriangles it enum nm s =
     do {
       (result, s) \<leftarrow> Streaming_countTriangles it enum False nm s;
       triangleCount \<leftarrow> tr_count result;
       Some (\<lparr>localRelationCount = unsigned_relation_count Local s,
              centralRelationCount = unsigned_relation_count Central s, ntr_result = int triangleCount\<rparr>, s)
     }"

subsection \<open>Counting what was added\<close>

definition count_edge :: "adjacency_sets \<Rightarrow> adjacency_sets \<Rightarrow> int \<times> int \<Rightarrow> nat option" where
  "count_edge g1 g2 e =
     (case e of (u, v) \<Rightarrow>
        case g1 u of
          None \<Rightarrow> None
        | Some N \<Rightarrow> if N = {} then Some 0 else case g2 v of None \<Rightarrow> None | Some M \<Rightarrow> Some (card (N \<inter> M)))"

fun count_edges :: "adjacency_sets \<Rightarrow> adjacency_sets \<Rightarrow> (int \<times> int) list \<Rightarrow> nat option" where
  "count_edges g1 g2 [] = Some 0"
| "count_edges g1 g2 (e # es) =
     do { c \<leftarrow> count_edge g1 g2 e; total \<leftarrow> count_edges g1 g2 es; Some (c + total) }"

text \<open>The overflow of a \<^verbatim>\<open>long\<close> is undefined. A count only grows, so that it is enough to look at its end.\<close>

definition long_value :: "int \<Rightarrow> int option" where
  "long_value x = (if - (2 ^ 63) \<le> x \<and> x < 2 ^ 63 then Some x else None)"

definition count_long :: "adjacency_sets \<Rightarrow> adjacency_sets \<Rightarrow> (int \<times> int) list \<Rightarrow> int option" where
  "count_long g1 g2 edges = do { n \<leftarrow> count_edges g1 g2 edges; long_value (int n) }"

fun bit_length :: "nat \<Rightarrow> nat" where
  "bit_length n = (if n = 0 then 0 else Suc (bit_length (n div 2)))"

declare bit_length.simps [simp del]

text \<open>
  The \<^verbatim>\<open>double\<close> nearest to a \<^verbatim>\<open>long\<close>, with a significand of 53 bits and ties to even; it is an integer.
  Half of it is exact, and the conversion back to \<^verbatim>\<open>long\<close> rounds towards 0.
\<close>

definition double_of_long :: "int \<Rightarrow> int" where
  "double_of_long x =
     (if \<bar>x\<bar> \<le> 2 ^ 53 then x
      else let e = bit_length (nat \<bar>x\<bar>) - 53; q = \<bar>x\<bar> div 2 ^ e; r = \<bar>x\<bar> mod 2 ^ e
           in sgn x * 2 ^ e * (if 2 ^ e < 2 * r \<or> 2 ^ e = 2 * r \<and> odd q then q + 1 else q))"

definition totalCount :: "adjacency_sets \<Rightarrow> adjacency_sets \<Rightarrow> (int \<times> int) list \<Rightarrow> int option" where
  "totalCount g1 g2 edges =
     do {
       s1 \<leftarrow> count_long g1 g1 edges;
       s2 \<leftarrow> count_long g1 g2 edges;
       s3 \<leftarrow> count_long g2 g2 edges;
       difference \<leftarrow> long_value (s1 - s2);
       doubled \<leftarrow> long_value (difference + s3 sdiv 3);
       Some (double_of_long doubled sdiv 2)
     }"

definition add_arc :: "int \<Rightarrow> int \<Rightarrow> adjacency_sets \<Rightarrow> adjacency_sets" where
  "add_arc u v adj = adj(u \<mapsto> insert v (case adj u of None \<Rightarrow> {} | Some N \<Rightarrow> N))"

definition int_relation_count :: "scope \<Rightarrow> native_store \<Rightarrow> int" where
  "int_relation_count sc s = dbSize (content (relDB sc s)) sdiv int (rel_size sc) - 1"

text \<open>The two vertices of a relation, by its number.\<close>

definition relation_ends :: "scope \<Rightarrow> int \<Rightarrow> native_store \<Rightarrow> ((int \<times> int) \<times> native_store) option" where
  "relation_ends sc i s =
     do {
       (r, s) \<leftarrow> getRelation sc (of_int (i * int (rel_size sc))) s;
       r \<leftarrow> r;
       sn \<leftarrow> getSource r;
       sourceNode \<leftarrow> stol (nb_id sn);
       dn \<leftarrow> getDestination r;
       targetNode \<leftarrow> stol (nb_id dn);
       Some ((sourceNode, targetNode), s)
     }"

fun dynamic_loop ::
  "scope \<Rightarrow> int list \<Rightarrow> (int \<times> int) list \<times> adjacency_sets \<times> adjacency_sets \<Rightarrow> native_store \<Rightarrow>
   (((int \<times> int) list \<times> adjacency_sets \<times> adjacency_sets) \<times> native_store) option" where
  "dynamic_loop sc [] acc s = Some (acc, s)"
| "dynamic_loop sc (i # is) (edges, newAdjacencyList, localAdjacencyList) s =
     do {
       ((a, b), s) \<leftarrow> relation_ends sc i s;
       dynamic_loop sc is
         (edges @ [(a, b), (b, a)], add_arc b a (add_arc a b newAdjacencyList), add_arc b a (add_arc a b localAdjacencyList)) s
     }"

definition countDynamicLocalTriangles ::
  "int \<Rightarrow> int \<Rightarrow> adjacency_sets \<Rightarrow> native_store \<Rightarrow> ((native_triangle_result \<times> adjacency_sets) \<times> native_store) option" where
  "countDynamicLocalTriangles oldLocalRelationCount oldCentralRelationCount localAdjacencyList s =
     (let newLocalRelationCount = int_relation_count Local s;
          newCentralRelationCount = int_relation_count Central s
      in if oldLocalRelationCount = newLocalRelationCount \<and> oldCentralRelationCount = newCentralRelationCount
         then Some ((\<lparr>localRelationCount = newLocalRelationCount, centralRelationCount = newCentralRelationCount,
                      ntr_result = 0\<rparr>, localAdjacencyList), s)
         else do {
           (acc, s) \<leftarrow> dynamic_loop Local [oldLocalRelationCount + 1..newLocalRelationCount]
                         ([], Map.empty, localAdjacencyList) s;
           ((edges, newAdjacencyList, localAdjacencyList), s) \<leftarrow>
             dynamic_loop Central [oldCentralRelationCount + 1..newCentralRelationCount] acc s;
           trianglesValue \<leftarrow> totalCount localAdjacencyList newAdjacencyList edges;
           Some ((\<lparr>localRelationCount = newLocalRelationCount, centralRelationCount = newCentralRelationCount,
                   ntr_result = trianglesValue\<rparr>, localAdjacencyList), s)
         })"

subsection \<open>Central stores of several partitions\<close>

text \<open>A file system gives the files of a partition of a graph; \<open>maxLabel\<close> is the configured label size, and
  \<open>pm\<close> the mutexes of the process, which reading does not touch.\<close>

type_synonym partition_store = "u32 \<Rightarrow> u32 \<Rightarrow> partition_files"

definition open_partition :: "process_mutexes \<Rightarrow> nat \<Rightarrow> partition_store \<Rightarrow> u32 \<Rightarrow> u32 \<Rightarrow> (node_manager \<times> native_store) option" where
  "open_partition pm maxLabel fs graphID partitionID =
     NodeManager_new pm \<lparr>maxLabelSize = maxLabel, cfg_graphID = graphID, cfg_partitionID = partitionID, cfg_openMode = ''app''\<rparr>
       (fs graphID partitionID)"

definition getCentralAdjacencyList :: "process_mutexes \<Rightarrow> nat \<Rightarrow> partition_store \<Rightarrow> u32 \<Rightarrow> u32 \<Rightarrow> adjacency_sets option" where
  "getCentralAdjacencyList pm maxLabel fs graphID partitionID =
     do {
       (nm, s) \<leftarrow> open_partition pm maxLabel fs graphID partitionID;
       (adj, s) \<leftarrow> getAdjacencyList_of Central s;
       Some adj
     }"

fun those_option :: "'a option list \<Rightarrow> 'a list option" where
  "those_option [] = Some []"
| "those_option (x # xs) = do { y \<leftarrow> x; ys \<leftarrow> those_option xs; Some (y # ys) }"

definition merge_adjacency :: "adjacency_sets \<Rightarrow> adjacency_sets \<Rightarrow> adjacency_sets" where
  "merge_adjacency new adj v =
     (case new v of
        None \<Rightarrow> adj v
      | Some N \<Rightarrow> Some (N \<union> (case adj v of None \<Rightarrow> {} | Some M \<Rightarrow> M)))"

definition set_sizes :: "adjacency_sets \<Rightarrow> (int \<times> int) list" where
  "set_sizes adj = map (\<lambda>v. (v, int (card (the (adj v))))) (sorted_list_of_set (dom adj))"

definition countCentralStoreStreamingTriangles ::
  "(int set \<Rightarrow> int list) \<Rightarrow> process_mutexes \<Rightarrow> nat \<Rightarrow> partition_store \<Rightarrow> string \<Rightarrow> string list \<Rightarrow> string option" where
  "countCentralStoreStreamingTriangles enum pm maxLabel fs graphId partitionIdList =
     do {
       adjacencyLists \<leftarrow> those_option (map (\<lambda>p. do {
         g \<leftarrow> stoi graphId;
         p \<leftarrow> stoi p;
         getCentralAdjacencyList pm maxLabel fs (of_int g) (of_int p)
       }) partitionIdList);
       let adjacencyList = fold merge_adjacency adjacencyLists Map.empty;
       Some (triangles (fst (countTriangles (listed enum adjacencyList) (set_sizes adjacencyList) True)))
     }"

fun central_edges :: "int list \<Rightarrow> native_store \<Rightarrow> (int \<times> int) list option" where
  "central_edges [] s = Some []"
| "central_edges (i # is) s =
     do {
       ((a, b), s) \<leftarrow> relation_ends Central i s;
       es \<leftarrow> central_edges is s;
       Some ((a, b) # (b, a) # es)
     }"

definition getEdges :: "process_mutexes \<Rightarrow> nat \<Rightarrow> partition_store \<Rightarrow> u32 \<Rightarrow> u32 \<Rightarrow> int \<Rightarrow> (int \<times> int) list option" where
  "getEdges pm maxLabel fs graphID partitionID previousCentralRelationCount =
     do {
       (nm, s) \<leftarrow> open_partition pm maxLabel fs graphID partitionID;
       central_edges [previousCentralRelationCount + 1..int_relation_count Central s] s
     }"

definition edge_triangles :: "(int set \<Rightarrow> int list) \<Rightarrow> adjacency_sets \<Rightarrow> int \<times> int \<Rightarrow> (int \<times> int \<times> int) list" where
  "edge_triangles enum adj e =
     (case e of (u, v) \<Rightarrow>
        let nb = (\<lambda>x. case adj x of None \<Rightarrow> {} | Some N \<Rightarrow> N)
        in map (sort_three u v) (filter (\<lambda>w. w \<in> nb v) (enum (nb u))))"

definition countDynamicCentralTriangles ::
  "(int set \<Rightarrow> int list) \<Rightarrow> process_mutexes \<Rightarrow> nat \<Rightarrow> partition_store \<Rightarrow> string \<Rightarrow> string list \<Rightarrow> string list \<Rightarrow> (string \<rightharpoonup> adjacency_sets) \<Rightarrow>
   (string \<times> (string \<rightharpoonup> adjacency_sets)) option" where
  "countDynamicCentralTriangles enum pm maxLabel fs graphId partitionIdList oldCentralRelationCount centralAdjacencyList =
     (let joinedString = concat partitionIdList
      in if length oldCentralRelationCount < length partitionIdList then None
         else do {
           edgeMaps \<leftarrow> those_option (map (\<lambda>(p, old). do {
             previousCentralRelationCount \<leftarrow> stol old;
             g \<leftarrow> stoi graphId;
             p \<leftarrow> stoi p;
             getEdges pm maxLabel fs (of_int g) (of_int p) previousCentralRelationCount
           }) (zip partitionIdList oldCentralRelationCount));
           let edges = concat edgeMaps;
           let old = (case centralAdjacencyList joinedString of None \<Rightarrow> Map.empty | Some adj \<Rightarrow> adj);
           let adjacencyList = fold (\<lambda>(a, b) adj. add_arc b a (add_arc a b adj)) edges old;
           let triangle = concat (map triangle_text (concat (map (edge_triangles enum adjacencyList) edges)));
           Some (if triangle = [] then triangle else butlast triangle, centralAdjacencyList(joinedString \<mapsto> adjacencyList))
         })"

end
