(* ===== verification/Triangle_Increment.thy ===== *)
theory Triangle_Increment
  imports Streaming_Triangles
begin

text \<open>
  The incremental count: three sums over the new edges, each edge taken in both directions, give
  the number of triangles with at least one new edge. A triangle with one, two or three new edges
  is counted 2, 4, 6 times by the first sum, 0, 2, 6 times by the second and 0, 0, 6 times by
  the third.
\<close>

definition clique :: "('a \<Rightarrow> 'a \<Rightarrow> bool) \<Rightarrow> 'a set set" where
  "clique E = {{a, b, c} | a b c. distinct [a, b, c] \<and> E a b \<and> E b c \<and> E a c}"

definition simple :: "('a \<Rightarrow> 'a \<Rightarrow> bool) \<Rightarrow> bool" where
  "simple E \<longleftrightarrow> finite {(a, b). E a b} \<and> (\<forall>a b. E a b \<longrightarrow> E b a \<and> a \<noteq> b)"

definition wedges :: "('a \<Rightarrow> 'a \<Rightarrow> bool) \<Rightarrow> ('a \<Rightarrow> 'a \<Rightarrow> bool) \<Rightarrow> ('a \<Rightarrow> 'a \<Rightarrow> bool) \<Rightarrow> ('a \<times> 'a \<times> 'a) set" where
  "wedges N E F = {(u, v, w). N u v \<and> E u w \<and> F v w}"

definition permuted :: "'a \<Rightarrow> 'a \<Rightarrow> 'a \<Rightarrow> ('a \<times> 'a \<times> 'a) list" where
  "permuted a b c = [(a, b, c), (a, c, b), (b, a, c), (b, c, a), (c, a, b), (c, b, a)]"

definition corner_set :: "'a \<times> 'a \<times> 'a \<Rightarrow> 'a set" where
  "corner_set t = (case t of (a, b, c) \<Rightarrow> {a, b, c})"

lemma same_corners:
  assumes "distinct [a, b, c]"
  shows "corner_set t = {a, b, c} \<and> distinct [fst t, fst (snd t), snd (snd t)] \<longleftrightarrow> t \<in> set (permuted a b c)"
proof
  assume "t \<in> set (permuted a b c)"
  with assms show "corner_set t = {a, b, c} \<and> distinct [fst t, fst (snd t), snd (snd t)]"
    by (auto simp: permuted_def corner_set_def)
next
  assume t: "corner_set t = {a, b, c} \<and> distinct [fst t, fst (snd t), snd (snd t)]"
  obtain x y z where xyz: "t = (x, y, z)" by (cases t)
  then have "x \<in> {a, b, c}" "y \<in> {a, b, c}" "z \<in> {a, b, c}" "x \<noteq> y" "y \<noteq> z" "x \<noteq> z"
    using t by (auto simp: corner_set_def)
  then show "t \<in> set (permuted a b c)" unfolding xyz permuted_def by auto
qed

text \<open>The wedges over one triangle, counted.\<close>

lemma wedges_over:
  assumes "simple N" "simple E" "simple F" "distinct [a, b, c]"
  shows "card {t \<in> wedges N E F. corner_set t = {a, b, c}} =
    length (filter (\<lambda>(u, v, w). N u v \<and> E u w \<and> F v w) (permuted a b c))"
proof -
  have "distinct [fst t, fst (snd t), snd (snd t)]" if "t \<in> wedges N E F" for t
    using that assms(1-3) by (auto simp: wedges_def simple_def)
  then have "corner_set t = {a, b, c} \<longleftrightarrow> t \<in> set (permuted a b c)" if "t \<in> wedges N E F" for t
    using same_corners [OF assms(4), of t] that by simp
  then have "{t \<in> wedges N E F. corner_set t = {a, b, c}} =
      set (filter (\<lambda>(u, v, w). N u v \<and> E u w \<and> F v w) (permuted a b c))"
    unfolding wedges_def set_filter by blast
  moreover have "distinct (filter (\<lambda>(u, v, w). N u v \<and> E u w \<and> F v w) (permuted a b c))"
    using assms(4) by (intro distinct_filter) (auto simp: permuted_def)
  ultimately show ?thesis by (simp only: distinct_card)
qed

lemma wedges_finite:
  assumes "simple N" "simple E"
  shows "finite (wedges N E F)"
proof (rule finite_subset)
  show "wedges N E F \<subseteq> (\<lambda>((u, v), (u', w)). (u, v, w)) ` ({(a, b). N a b} \<times> {(a, b). E a b})"
    by (force simp: wedges_def)
  show "finite ((\<lambda>((u, v), (u', w)). (u, v, w)) ` ({(a, b). N a b} \<times> {(a, b). E a b}))"
    using assms by (auto simp: simple_def)
qed

definition touched :: "('a \<Rightarrow> 'a \<Rightarrow> bool) \<Rightarrow> ('a \<Rightarrow> 'a \<Rightarrow> bool) \<Rightarrow> 'a set set" where
  "touched E N = {{a, b, c} | a b c. distinct [a, b, c] \<and> E a b \<and> E b c \<and> E a c \<and> (N a b \<or> N b c \<or> N a c)}"

lemma clique_finite:
  assumes "simple E"
  shows "finite (clique E)"
proof (rule finite_subset)
  show "clique E \<subseteq> corner_set ` wedges E E E" by (force simp: clique_def wedges_def corner_set_def)
  show "finite (corner_set ` wedges E E E)" using wedges_finite [OF assms assms] by simp
qed

lemma wedges_sum:
  assumes "simple E" "simple N" "simple F" "simple G" "\<And>a b. N a b \<Longrightarrow> E a b" "\<And>a b. F a b \<Longrightarrow> E a b" "\<And>a b. G a b \<Longrightarrow> E a b"
  shows "card (wedges N F G) = (\<Sum>T\<in>touched E N. card {t \<in> wedges N F G. corner_set t = T})"
proof -
  have "corner_set ` wedges N F G \<subseteq> touched E N"
  proof
    fix T
    assume "T \<in> corner_set ` wedges N F G"
    then obtain u v w where t: "T = {u, v, w}" "N u v" "F u w" "G v w"
      by (auto simp: wedges_def corner_set_def)
    then have "distinct [u, v, w]" "E u v" "E v w" "E u w" using assms by (auto simp: simple_def)
    with t show "T \<in> touched E N" unfolding touched_def by blast
  qed
  moreover have "finite (touched E N)"
    by (rule finite_subset [OF _ clique_finite [OF assms(1)]]) (auto simp: touched_def clique_def)
  ultimately show ?thesis
    using sum.group [of "wedges N F G" "touched E N" corner_set "\<lambda>_. 1 :: nat"] wedges_finite [OF assms(2,3)] by simp
qed

lemma wedge_balance:
  assumes "simple E" "simple N" "\<And>a b. N a b \<Longrightarrow> E a b" "T \<in> touched E N"
  defines "c \<equiv> \<lambda>F G. int (card {t \<in> wedges N F G. corner_set t = T})"
  shows "c N N = 0 \<or> c N N = 6" "3 * (c E E - c E N) + c N N = 6"
proof -
  from assms(4) obtain x y z where T: "T = {x, y, z}" "distinct [x, y, z]" "E x y" "E y z" "E x z" "N x y \<or> N y z \<or> N x z"
    by (auto simp: touched_def)
  have sym: "E b a \<longleftrightarrow> E a b" "N b a \<longleftrightarrow> N a b" for a b using assms(1,2) by (auto simp: simple_def)
  have c: "c F G = int (length (filter (\<lambda>(u, v, w). N u v \<and> F u w \<and> G v w) (permuted x y z)))"
    if "simple F" "simple G" for F G
    using wedges_over [OF assms(2) that T(2)] by (simp add: c_def T(1))
  show "c N N = 0 \<or> c N N = 6" "3 * (c E E - c E N) + c N N = 6"
    using T(3-6) assms(3) unfolding c [OF assms(1,1)] c [OF assms(1,2)] c [OF assms(2,2)]
    by (cases "N x y"; cases "N y z"; cases "N x z"; simp add: permuted_def sym [of x y] sym [of y z] sym [of x z])+
qed

lemma sdiv_multiple: "k \<noteq> 0 \<Longrightarrow> (k * m) sdiv k = m" for k m :: int
  by (auto simp: signed_divide_int_def sgn_if abs_mult zero_less_mult_iff mult_less_0_iff)

lemma increment_formula:
  assumes "simple E" "simple N" "\<And>a b. N a b \<Longrightarrow> E a b"
  shows "3 dvd int (card (wedges N N N))"
    and "(int (card (wedges N E E)) - int (card (wedges N E N))) + int (card (wedges N N N)) sdiv 3 = 2 * int (card (touched E N))"
proof -
  let ?c = "\<lambda>F G T. int (card {t \<in> wedges N F G. corner_set t = T})"
  have s: "int (card (wedges N E E)) = (\<Sum>T\<in>touched E N. ?c E E T)"
    "int (card (wedges N E N)) = (\<Sum>T\<in>touched E N. ?c E N T)"
    "int (card (wedges N N N)) = (\<Sum>T\<in>touched E N. ?c N N T)"
    using wedges_sum [OF assms(1,2)] assms by simp_all
  define m where "m = (\<Sum>T\<in>touched E N. ?c N N T div 3)"
  have "?c N N T = 3 * (?c N N T div 3)" if "T \<in> touched E N" for T
    using wedge_balance(1) [OF assms that] by auto
  then have three: "int (card (wedges N N N)) = 3 * m"
    unfolding s m_def sum_distrib_left by (intro sum.cong) auto
  then show "3 dvd int (card (wedges N N N))" by simp
  have "(\<Sum>T\<in>touched E N. 3 * (?c E E T - ?c E N T) + ?c N N T) = (\<Sum>T\<in>touched E N. 6)"
    using wedge_balance(2) [OF assms] by (intro sum.cong) auto
  then have "3 * (int (card (wedges N E E)) - int (card (wedges N E N))) + int (card (wedges N N N)) = 6 * int (card (touched E N))"
    unfolding s by (simp add: sum.distrib sum_distrib_left [symmetric] sum_subtractf)
  then have "(int (card (wedges N E E)) - int (card (wedges N E N))) + m = 2 * int (card (touched E N))"
    unfolding three by arith
  moreover have "int (card (wedges N N N)) sdiv 3 = m"
    unfolding three by (simp add: sdiv_multiple)
  ultimately show "(int (card (wedges N E E)) - int (card (wedges N E N))) + int (card (wedges N N N)) sdiv 3 =
      2 * int (card (touched E N))"
    by simp
qed

text \<open>A triangle is counted at most six times.\<close>

lemma touched_clique: "touched E N \<subseteq> clique E"
  unfolding touched_def clique_def by blast

lemma wedges_bound:
  assumes "simple E" "simple N" "simple F" "simple G" "\<And>a b. N a b \<Longrightarrow> E a b" "\<And>a b. F a b \<Longrightarrow> E a b" "\<And>a b. G a b \<Longrightarrow> E a b"
  shows "card (wedges N F G) \<le> 6 * card (clique E)"
proof -
  have "card {t \<in> wedges N F G. corner_set t = T} \<le> 6" if "T \<in> touched E N" for T
  proof -
    from that obtain x y z where T: "T = {x, y, z}" "distinct [x, y, z]" by (auto simp: touched_def)
    have "length (filter P (permuted x y z)) \<le> 6" for P
      by (rule order_trans [OF length_filter_le]) (simp add: permuted_def)
    then show ?thesis using wedges_over [OF assms(2-4) T(2)] T(1) by simp
  qed
  then have "card (wedges N F G) \<le> (\<Sum>T\<in>touched E N. 6)"
    using sum_mono [of "touched E N" "\<lambda>T. card {t \<in> wedges N F G. corner_set t = T}" "\<lambda>_. 6"] wedges_sum [OF assms] by simp
  also have "\<dots> \<le> 6 * card (clique E)"
    using card_mono [OF clique_finite [OF assms(1)] touched_clique, of N] by simp
  finally show ?thesis .
qed

subsection \<open>The sums of the code\<close>

definition arcs :: "adjacency_sets \<Rightarrow> int \<Rightarrow> int \<Rightarrow> bool" where
  "arcs g a b \<longleftrightarrow> (case g a of None \<Rightarrow> False | Some N \<Rightarrow> b \<in> N)"

lemma count_edge_wedges:
  assumes "arcs g1 u x" "arcs g2 v y"
  shows "count_edge g1 g2 (u, v) = Some (card {w. arcs g1 u w \<and> arcs g2 v w})"
proof -
  obtain N M where "g1 u = Some N" "x \<in> N" "g2 v = Some M"
    using assms by (auto simp: arcs_def split: option.splits)
  moreover from this have "{w. arcs g1 u w \<and> arcs g2 v w} = N \<inter> M" by (auto simp: arcs_def)
  ultimately show ?thesis by (auto simp: count_edge_def)
qed

lemma count_edges_sum:
  assumes "\<And>u v. (u, v) \<in> set es \<Longrightarrow> \<exists>x y. arcs g1 u x \<and> arcs g2 v y"
  shows "count_edges g1 g2 es = Some (\<Sum>e\<leftarrow>es. card {w. arcs g1 (fst e) w \<and> arcs g2 (snd e) w})"
  using assms
proof (induction es)
  case (Cons e es)
  obtain u v where e: "e = (u, v)" by (cases e)
  from Cons.prems [of u v] e obtain x y where "arcs g1 u x" "arcs g2 v y" by auto
  moreover have "count_edges g1 g2 es = Some (\<Sum>e\<leftarrow>es. card {w. arcs g1 (fst e) w \<and> arcs g2 (snd e) w})"
    by (rule Cons.IH) (use Cons.prems in auto)
  ultimately show ?case by (simp add: e count_edge_wedges)
qed simp

lemma count_edges_wedges:
  assumes "distinct es" "set es = {(a, b). N a b}" "simple (arcs g1)" "simple (arcs g2)"
    and "\<And>u v. N u v \<Longrightarrow> arcs g1 u v \<and> arcs g2 u v"
  shows "count_edges g1 g2 es = Some (card (wedges N (arcs g1) (arcs g2)))"
proof -
  let ?W = "\<lambda>e. {w. arcs g1 (fst e) w \<and> arcs g2 (snd e) w}"
  have "\<exists>x y. arcs g1 u x \<and> arcs g2 v y" if "(u, v) \<in> set es" for u v
  proof -
    have "N u v" using that assms(2) by simp
    with assms(4,5) have "arcs g1 u v" "arcs g2 v u" by (auto simp: simple_def)
    then show ?thesis by blast
  qed
  then have "count_edges g1 g2 es = Some (\<Sum>e\<leftarrow>es. card (?W e))" by (rule count_edges_sum)
  also have "(\<Sum>e\<leftarrow>es. card (?W e)) = (\<Sum>e\<in>set es. card (?W e))"
    using assms(1) by (simp add: sum_list_distinct_conv_sum_set)
  also have "\<dots> = card (Sigma (set es) ?W)"
  proof (rule card_SigmaI [symmetric])
    have "?W e \<subseteq> snd ` {(a, b). arcs g1 a b}" for e by force
    then show "\<forall>e\<in>set es. finite (?W e)" using assms(3) by (meson finite_imageI finite_subset simple_def)
  qed simp
  also have "\<dots> = card ((\<lambda>((u, v), w). (u, v, w)) ` Sigma (set es) ?W)"
    by (rule card_image [symmetric]) (auto simp: inj_on_def)
  also have "(\<lambda>((u, v), w). (u, v, w)) ` Sigma (set es) ?W = wedges N (arcs g1) (arcs g2)"
    unfolding assms(2) by (force simp: wedges_def)
  finally show ?thesis .
qed

lemma double_of_long_exact: "\<bar>x\<bar> \<le> 2 ^ 53 \<Longrightarrow> double_of_long x = x"
  by (simp add: double_of_long_def)

lemma total_is_touched:
  assumes "simple (arcs g1)" "simple (arcs g2)" "\<And>a b. arcs g2 a b \<Longrightarrow> arcs g1 a b"
    and "distinct es" "set es = {(a, b). arcs g2 a b}" "card (clique (arcs g1)) \<le> 2 ^ 52"
  shows "\<exists>s1 s2 s3. count_long g1 g1 es = Some s1 \<and> count_long g1 g2 es = Some s2 \<and> count_long g2 g2 es = Some s3 \<and>
      3 dvd s3 \<and> s1 - s2 + s3 sdiv 3 = 2 * int (card (touched (arcs g1) (arcs g2)))"
    and "totalCount g1 g2 es = Some (int (card (touched (arcs g1) (arcs g2))))"
proof -
  let ?E = "arcs g1" and ?N = "arcs g2"
  let ?s1 = "card (wedges ?N ?E ?E)" and ?s2 = "card (wedges ?N ?E ?N)" and ?s3 = "card (wedges ?N ?N ?N)"
  note b = wedges_bound [OF assms(1,2)] and f = increment_formula [OF assms(1-3)]
  have le: "?s1 < 2 ^ 63" "?s2 < 2 ^ 63" "?s3 < 2 ^ 63"
    using b [of ?E ?E] b [of ?E ?N] b [of ?N ?N] assms(1-3,6) by simp_all
  have "count_edges g1 g1 es = Some ?s1" "count_edges g1 g2 es = Some ?s2" "count_edges g2 g2 es = Some ?s3"
    using assms by (auto intro!: count_edges_wedges)
  then have c: "count_long g1 g1 es = Some (int ?s1)" "count_long g1 g2 es = Some (int ?s2)" "count_long g2 g2 es = Some (int ?s3)"
    using le by (simp_all add: count_long_def long_value_def)
  then show "\<exists>s1 s2 s3. count_long g1 g1 es = Some s1 \<and> count_long g1 g2 es = Some s2 \<and> count_long g2 g2 es = Some s3 \<and>
      3 dvd s3 \<and> s1 - s2 + s3 sdiv 3 = 2 * int (card (touched ?E ?N))"
    using f by blast
  have t: "card (touched ?E ?N) \<le> 2 ^ 52"
    using card_mono [OF clique_finite [OF assms(1)] touched_clique, of ?N] assms(6) by simp
  have "long_value (int ?s1 - int ?s2) = Some (int ?s1 - int ?s2)" using le by (simp add: long_value_def)
  moreover have "long_value (2 * int (card (touched ?E ?N))) = Some (2 * int (card (touched ?E ?N)))"
    using t by (simp add: long_value_def)
  moreover have "double_of_long (2 * int (card (touched ?E ?N))) = 2 * int (card (touched ?E ?N))"
    using t by (intro double_of_long_exact) simp
  ultimately show "totalCount g1 g2 es = Some (int (card (touched ?E ?N)))"
    using f(2) by (simp add: totalCount_def c sdiv_multiple)
qed

text \<open>The triangles with a new edge are those that the old edges alone do not form.\<close>

lemma touched_difference:
  assumes "simple E" "simple N"
  shows "touched E N = clique E - clique (\<lambda>a b. E a b \<and> \<not> N a b)"
proof (intro equalityI subsetI)
  fix T
  assume "T \<in> touched E N"
  then obtain a b c where T: "T = {a, b, c}" "distinct [a, b, c]" "E a b" "E b c" "E a c" "N a b \<or> N b c \<or> N a c"
    by (auto simp: touched_def)
  have sym: "N x y \<Longrightarrow> N y x" for x y using assms(2) by (simp add: simple_def)
  have "T \<notin> clique (\<lambda>a b. E a b \<and> \<not> N a b)"
  proof
    assume "T \<in> clique (\<lambda>a b. E a b \<and> \<not> N a b)"
    then obtain x y z where "T = {x, y, z}" "distinct [x, y, z]" and none: "\<not> N x y" "\<not> N y z" "\<not> N x z"
      by (auto simp: clique_def)
    then have "(a, b, c) \<in> set (permuted x y z)"
      using same_corners [of x y z "(a, b, c)"] T(1,2) by (simp add: corner_set_def)
    then show False using T(6) none sym by (auto simp: permuted_def)
  qed
  moreover have "T \<in> clique E" using T unfolding clique_def by blast
  ultimately show "T \<in> clique E - clique (\<lambda>a b. E a b \<and> \<not> N a b)" by simp
next
  fix T
  assume T: "T \<in> clique E - clique (\<lambda>a b. E a b \<and> \<not> N a b)"
  then obtain a b c where "T = {a, b, c}" "distinct [a, b, c]" "E a b" "E b c" "E a c" by (auto simp: clique_def)
  moreover from this T have "N a b \<or> N b c \<or> N a c" unfolding clique_def by blast
  ultimately show "T \<in> touched E N" unfolding touched_def by blast
qed

lemma clique_grows:
  assumes "simple E" "simple N"
  shows "card (clique E) = card (clique (\<lambda>a b. E a b \<and> \<not> N a b)) + card (touched E N)"
proof -
  have sub: "clique (\<lambda>a b. E a b \<and> \<not> N a b) \<subseteq> clique E" unfolding clique_def by blast
  then have "card (clique E - clique (\<lambda>a b. E a b \<and> \<not> N a b)) = card (clique E) - card (clique (\<lambda>a b. E a b \<and> \<not> N a b))"
    using clique_finite [OF assms(1)] finite_subset by (intro card_Diff_subset) blast+
  moreover have "card (clique (\<lambda>a b. E a b \<and> \<not> N a b)) \<le> card (clique E)"
    using sub clique_finite [OF assms(1)] by (rule card_mono [rotated])
  ultimately show ?thesis using touched_difference [OF assms] by simp
qed

subsection \<open>The claim\<close>

text \<open>C12. The incremental count is exact: for a finite undirected graph without loops and with at most
  \<open>2 ^ 52\<close> triangles, of which some edges are new and each is listed once in each direction,
  \<^verbatim>\<open>totalCount\<close> returns the number of triangles of the whole graph less the number of triangles of the
  old edges. No count overflows, the third count is a multiple of three, and the sum is even and
  small enough for a \<^verbatim>\<open>double\<close>, so that neither the division nor the multiplication by 0.5 loses anything.\<close>

theorem totalCount_exact:
  assumes "simple (arcs g1)" "simple (arcs g2)" "\<forall>a b. arcs g2 a b \<longrightarrow> arcs g1 a b"
    and "distinct edges" "set edges = {(a, b). arcs g2 a b}" "card (clique (arcs g1)) \<le> 2 ^ 52"
  shows "totalCount g1 g2 edges =
      Some (int (card (clique (arcs g1))) - int (card (clique (\<lambda>a b. arcs g1 a b \<and> \<not> arcs g2 a b)))) \<and>
    (\<exists>s1 s2 s3. count_long g1 g1 edges = Some s1 \<and> count_long g1 g2 edges = Some s2 \<and> count_long g2 g2 edges = Some s3 \<and>
      3 dvd s3 \<and> even (s1 - s2 + s3 sdiv 3) \<and> \<bar>s1 - s2 + s3 sdiv 3\<bar> \<le> 2 ^ 53)"
proof -
  have sub: "arcs g2 a b \<Longrightarrow> arcs g1 a b" for a b using assms(3) by blast
  note t = total_is_touched [OF assms(1,2) sub assms(4-6)]
  have "card (touched (arcs g1) (arcs g2)) \<le> 2 ^ 52"
    using card_mono [OF clique_finite [OF assms(1)] touched_clique, of "arcs g2"] assms(6) by simp
  then have "even x \<and> \<bar>x\<bar> \<le> 2 ^ 53" if "x = 2 * int (card (touched (arcs g1) (arcs g2)))" for x
    using that by simp
  with t clique_grows [OF assms(1,2)] show ?thesis by fastforce
qed

definition sample_all :: adjacency_sets where
  "sample_all = [1 \<mapsto> {2, 3, 4}, 2 \<mapsto> {1, 3, 4}, 3 \<mapsto> {1, 2}, 4 \<mapsto> {1, 2}]"

definition sample_new :: adjacency_sets where
  "sample_new = [1 \<mapsto> {2}, 2 \<mapsto> {1, 4}, 4 \<mapsto> {2}]"

lemma arcs_upd: "arcs (g(v \<mapsto> N)) a b \<longleftrightarrow> (if a = v then b \<in> N else arcs g a b)" "\<not> arcs Map.empty a b"
  by (simp_all add: arcs_def)

definition sample_all_arcs :: "(int \<times> int) list" where
  "sample_all_arcs = [(1, 2), (1, 3), (1, 4), (2, 1), (2, 3), (2, 4), (3, 1), (3, 2), (4, 1), (4, 2)]"

definition sample_new_arcs :: "(int \<times> int) list" where
  "sample_new_arcs = [(1, 2), (2, 1), (2, 4), (4, 2)]"

lemma sample_arcs:
  "arcs sample_all a b \<longleftrightarrow> (a, b) \<in> set sample_all_arcs" "arcs sample_new a b \<longleftrightarrow> (a, b) \<in> set sample_new_arcs"
  by (simp_all add: sample_all_def sample_new_def arcs_upd sample_all_arcs_def sample_new_arcs_def)

lemma simple_pairs:
  assumes "\<And>a b. E a b \<longleftrightarrow> (a, b) \<in> set xs" "list_all (\<lambda>(a, b). (b, a) \<in> set xs \<and> a \<noteq> b) xs"
  shows "simple E"
  using assms(2) by (auto simp: simple_def assms(1) list_all_iff)

theorem totalCount_exact_witness:
  "totalCount sample_all sample_new sample_new_arcs = Some 2 \<and> card (clique (arcs sample_all)) \<le> 2 ^ 52 \<and>
   int (card (clique (arcs sample_all))) - int (card (clique (\<lambda>a b. arcs sample_all a b \<and> \<not> arcs sample_new a b))) = 2"
proof -
  have "simple (arcs sample_all)" by (rule simple_pairs [OF sample_arcs(1)]) code_simp
  moreover have "simple (arcs sample_new)" by (rule simple_pairs [OF sample_arcs(2)]) code_simp
  moreover have "set sample_new_arcs \<subseteq> set sample_all_arcs" by code_simp
  then have "\<forall>a b. arcs sample_new a b \<longrightarrow> arcs sample_all a b" by (auto simp: sample_arcs)
  moreover have "distinct sample_new_arcs" by code_simp
  moreover have "set sample_new_arcs = {(a, b). arcs sample_new a b}" by (auto simp: sample_arcs)
  moreover have small: "card (clique (arcs sample_all)) \<le> 2 ^ 52"
  proof -
    have "clique (arcs sample_all) \<subseteq> Pow {1, 2, 3, 4}"
      by (auto simp: clique_def sample_arcs sample_all_arcs_def)
    from card_mono [OF _ this] show ?thesis by (simp add: card_Pow)
  qed
  ultimately have "totalCount sample_all sample_new sample_new_arcs =
      Some (int (card (clique (arcs sample_all))) - int (card (clique (\<lambda>a b. arcs sample_all a b \<and> \<not> arcs sample_new a b))))"
    using totalCount_exact [of sample_all sample_new sample_new_arcs] by blast
  moreover have "totalCount sample_all sample_new sample_new_arcs = Some 2" by code_simp
  ultimately show ?thesis using small by simp
qed

end
