(* ===== verification/Triangle_Store.thy ===== *)
theory Triangle_Store
  imports Sample_Store Triangle_Exact Triangle_Increment "HOL-Library.Multiset"
begin

text \<open>
  Triangle counting over the native store: what the streaming counts return on a store that
  represents a graph, in terms of that graph.
\<close>

subsection \<open>The graph over vertex numbers\<close>

definition edge_numbers :: "graph \<Rightarrow> nat \<times> nat \<Rightarrow> int \<times> int" where
  "edge_numbers g e = (int (number (g_ids g ! fst e)), int (number (g_ids g ! snd e)))"

definition joined :: "(int \<times> int) list \<Rightarrow> int \<Rightarrow> int \<Rightarrow> bool" where
  "joined ps a b \<longleftrightarrow> (a, b) \<in> set ps \<or> (b, a) \<in> set ps"

definition number_pairs :: "graph \<Rightarrow> scope \<Rightarrow> (int \<times> int) list" where
  "number_pairs g sc = map (edge_numbers g) (g_edges g sc)"

definition vertex_links :: "graph \<Rightarrow> int \<Rightarrow> int \<Rightarrow> bool" where
  "vertex_links g = joined (number_pairs g Local @ number_pairs g Central)"

lemma joined_append: "joined (ps @ qs) a b \<longleftrightarrow> joined ps a b \<or> joined qs a b"
  by (auto simp: joined_def)

lemma joined_sym: "joined ps a b \<longleftrightarrow> joined ps b a"
  by (auto simp: joined_def)

lemma joined_finite: "finite {b. joined ps a b}"
  by (rule finite_subset [of _ "fst ` set ps \<union> snd ` set ps"]) (force simp: joined_def)+

lemma neighbour_numbers_joined:
  assumes "store_inv g nm s" "inj_on number (set (g_ids g))" "i \<in> set (g_ids g)"
  shows "int ` neighbour_numbers g sc i = {b. joined (number_pairs g sc) (int (number i)) b}"
proof -
  let ?v = "position (g_ids g) i"
  have d: "distinct (g_ids g)" using assms(1) by (simp add: store_inv_def index_inv_def)
  have ends: "fst e < length (g_ids g)" "snd e < length (g_ids g)" if "e \<in> set (g_edges g sc)" for e
    using assms(1) that by (auto simp: store_inv_def)
  have at: "number (g_ids g ! k) = number i \<longleftrightarrow> k = ?v" if "k < length (g_ids g)" for k
    using that assms(2,3) d position_nth [OF d that] nth_position [OF assms(3)] by (auto dest: inj_onD)
  have i: "g_ids g ! ?v = i" using assms(3) by (rule nth_position)
  have mem: "b \<in> int ` neighbour_numbers g sc i \<longleftrightarrow>
      (\<exists>e\<in>set (g_edges g sc). incident ?v e \<and> b = int (number (g_ids g ! other_end ?v e)))" for b
    by (auto simp: neighbour_numbers_def Let_def)
  have edge: "(incident ?v e \<and> b = int (number (g_ids g ! other_end ?v e))) \<longleftrightarrow>
      ((int (number i), b) = edge_numbers g e \<or> (b, int (number i)) = edge_numbers g e)"
    if "e \<in> set (g_edges g sc)" for e b
  proof -
    have "number (g_ids g ! fst e) = number i \<longleftrightarrow> fst e = ?v" "number (g_ids g ! snd e) = number i \<longleftrightarrow> snd e = ?v"
      using at ends [OF that] by simp_all
    then show ?thesis
      by (cases "fst e = ?v"; cases "snd e = ?v") (simp_all add: incident_def other_end_def edge_numbers_def i eq_commute)
  qed
  have "b \<in> int ` neighbour_numbers g sc i \<longleftrightarrow> joined (number_pairs g sc) (int (number i)) b" for b
    unfolding mem unfolding joined_def number_pairs_def set_map image_iff bex_disj_distrib [symmetric] by (rule bex_cong [OF refl edge])
  then show ?thesis by blast
qed

subsection \<open>The whole count\<close>

lemma symmetric_no_cycle:
  assumes "\<And>a. set (nb a) = {b. E a b}" "\<And>a b. E a b \<longleftrightarrow> E b a"
  shows "\<not> short_cycle nb" "triangles_of nb = clique E"
proof -
  show "\<not> short_cycle nb"
  proof
    assume "short_cycle nb"
    then obtain a b c where "distinct [a, b, c]" "{x. E a x} = {b}" "{x. E b x} = {c}"
      by (auto simp: short_cycle_def assms(1))
    then show False using assms(2) [of a b] by auto
  qed
  have "linked_by nb a b \<longleftrightarrow> E a b" for a b using assms(2) [of a b] by (simp add: linked_by_def assms(1))
  then show "triangles_of nb = clique E" by (simp add: triangles_of_def clique_def)
qed

lemma map_of_inj: "inj_on f (set xs) \<Longrightarrow> x \<in> set xs \<Longrightarrow> map_of (map (\<lambda>i. (f i, h i)) xs) (f x) = Some (h x)"
  by (induction xs) (auto simp: inj_on_def)

lemma adjacency_of_store:
  assumes "store_inv g nm s" "inj_on number (set (g_ids g))" "set it = set (g_ids g)" "enumerates enum"
  defines "adj \<equiv> map_of (map (\<lambda>i. (number i, neighbour_numbers g Local i \<union> neighbour_numbers g Central i)) it)"
  shows "\<And>a. set (neighbours (listed enum (long_keys adj)) a) = {b. vertex_links g a b}"
    and "degrees_cover (neighbours (listed enum (long_keys adj))) (degree_entries (\<lambda>v. map_option card (adj v)))"
proof -
  let ?N = "\<lambda>i. neighbour_numbers g Local i \<union> neighbour_numbers g Central i"
  have inj: "inj_on number (set it)" using assms(2,3) by simp
  have some: "adj (number i) = Some (?N i)" if "i \<in> set (g_ids g)" for i
    unfolding adj_def using that assms(3) by (intro map_of_inj [OF inj]) simp
  have none: "adj v = None" if "v \<notin> number ` set (g_ids g)" for v
    using that assms(3) unfolding adj_def map_of_eq_None_iff by (auto simp: image_image)
  have num: "int ` ?N i = {b. vertex_links g (int (number i)) b}" if "i \<in> set (g_ids g)" for i
    using neighbour_numbers_joined [OF assms(1,2) that] by (auto simp: vertex_links_def joined_append image_Un)
  have ends: "a \<in> (\<lambda>i. int (number i)) ` set (g_ids g)" if "vertex_links g a b" for a b
  proof -
    from that obtain sc e where "e \<in> set (g_edges g sc)"
        "a = int (number (g_ids g ! fst e)) \<or> a = int (number (g_ids g ! snd e))"
      by (auto simp: vertex_links_def joined_def number_pairs_def edge_numbers_def)
    with assms(1) show ?thesis by (auto simp: store_inv_def)
  qed
  have nb: "neighbours (listed enum (long_keys adj)) (int (number i)) = enum {b. vertex_links g (int (number i)) b}"
    if "i \<in> set (g_ids g)" for i
    by (simp add: neighbours_def listed_def long_keys_def some [OF that] num [OF that])
  have nb_none: "neighbours (listed enum (long_keys adj)) a = []" if "a \<notin> (\<lambda>i. int (number i)) ` set (g_ids g)" for a
  proof (cases "a < 0")
    case False
    with that have "nat a \<notin> number ` set (g_ids g)" by force
    with False show ?thesis by (simp add: neighbours_def listed_def long_keys_def none)
  qed (simp add: neighbours_def listed_def long_keys_def)
  have fin: "finite {b. vertex_links g a b}" for a by (simp add: vertex_links_def joined_finite)
  show sets: "set (neighbours (listed enum (long_keys adj)) a) = {b. vertex_links g a b}" for a
  proof (cases "a \<in> (\<lambda>i. int (number i)) ` set (g_ids g)")
    case True
    then obtain i where i: "i \<in> set (g_ids g)" "a = int (number i)" by blast
    from assms(4) fin [of a] show ?thesis unfolding i(2) nb [OF i(1)] enumerates_def by blast
  next
    case False
    with ends have "{b. vertex_links g a b} = {}" by blast
    with nb_none [OF False] show ?thesis by simp
  qed
  show "degrees_cover (neighbours (listed enum (long_keys adj))) (degree_entries (\<lambda>v. map_option card (adj v)))"
    unfolding degrees_cover_def
  proof (intro allI impI)
    fix a
    assume "neighbours (listed enum (long_keys adj)) a \<noteq> []"
    then obtain i where i: "i \<in> set (g_ids g)" "a = int (number i)" using nb_none by blast
    have "finite (dom adj)" unfolding adj_def by (rule finite_dom_map_of)
    then have "(a, int (card (?N i))) \<in> set (degree_entries (\<lambda>v. map_option card (adj v)))"
      using some [OF i(1)] by (force simp: degree_entries_def dom_map_option i(2))
    moreover have "card (set (neighbours (listed enum (long_keys adj)) a)) = card (?N i)"
      unfolding sets i(2) num [OF i(1), symmetric] by (simp add: card_image)
    ultimately show "\<exists>d. (a, d) \<in> set (degree_entries (\<lambda>v. map_option card (adj v))) \<and>
        int (card (set (neighbours (listed enum (long_keys adj)) a))) \<le> d"
      by (intro exI [of _ "int (card (?N i))"]) simp
  qed
qed

definition stored_count :: "'a list \<Rightarrow> int" where
  "stored_count es = (if es = [] then - 1 else int (length es))"

lemma relation_file_length:
  "store_inv g nm s \<Longrightarrow> length (content (relDB sc s)) =
     (if g_edges g sc = [] then 0 else Suc (length (g_edges g sc)) * rel_size sc)"
  by (simp add: store_inv_def rel_inv_def)

lemma word_div_multiple:
  assumes "k * B < 2 ^ 64" "0 < B"
  shows "(of_nat (k * B) :: 64 word) div of_nat B = of_nat k"
proof -
  have k: "k < 2 ^ 64" using assms by (metis le_less_trans mult_le_mono2 nat_mult_1_right Suc_leI One_nat_def)
  have B: "B < 2 ^ 64 \<or> k = 0" using assms by (cases k) auto
  show ?thesis
  proof (cases "k = 0")
    case False
    with B have "B < 2 ^ 64" by simp
    then have "unat ((of_nat (k * B) :: 64 word) div of_nat B) = k"
      using assms by (simp only: unat_div unat_of_nat) (simp add: take_bit_nat_eq_self)
    with k show ?thesis by (simp add: word_unat_eq_iff unat_of_nat take_bit_nat_eq_self)
  qed simp
qed

lemma unsigned_count:
  assumes "store_inv g nm s" "length (content (relDB sc s)) < 2 ^ 31"
  shows "unsigned_relation_count sc s = stored_count (g_edges g sc)"
proof (cases "g_edges g sc = []")
  case True
  then show ?thesis
    by (simp add: unsigned_relation_count_def dbSize_small [OF assms(2)] relation_file_length [OF assms(1)] stored_count_def)
next
  case False
  let ?m = "length (g_edges g sc)"
  have len: "length (content (relDB sc s)) = Suc ?m * rel_size sc"
    using relation_file_length [OF assms(1)] False by simp
  have "?m < Suc ?m * rel_size sc" using rel_size_pos(1) [of sc] by (cases "rel_size sc") auto
  then have m: "?m < 2 ^ 31" using assms(2) len by simp
  have "(of_nat (Suc ?m * rel_size sc) :: 64 word) div of_nat (rel_size sc) = of_nat (Suc ?m)"
    using assms(2) len by (intro word_div_multiple) simp_all
  then have "unsigned_relation_count sc s = sint (of_nat ?m :: 64 word)"
    unfolding unsigned_relation_count_def dbSize_small [OF assms(2)] len of_int_of_nat_eq by simp
  also have "\<dots> = int ?m" using m by (simp add: signed_of_nat signed_take_bit_int_eq_self)
  finally show ?thesis using False by (simp add: stored_count_def)
qed

lemma int_count:
  assumes "store_inv g nm s" "length (content (relDB sc s)) < 2 ^ 31"
  shows "int_relation_count sc s = stored_count (g_edges g sc)"
proof -
  have "int (Suc n * rel_size sc) sdiv int (rel_size sc) = int (Suc n)" for n
    using sdiv_multiple [of "int (rel_size sc)" "int (Suc n)"] rel_size_pos(1) [of sc]
    by (simp add: mult.commute del: mult_Suc)
  then show ?thesis
    unfolding int_relation_count_def dbSize_small [OF assms(2)] relation_file_length [OF assms(1)]
    by (simp add: stored_count_def del: mult_Suc)
qed

text \<open>C10. Counting the triangles of a partition of the native store: on a store that represents a
  graph whose nodes have different numbers, for every enumeration of the node index and of the
  hash sets, the count returns and gives the number of triangles of the graph of all local and
  central edges, together with the number of relations of each scope, which is reported as
  -1 while there is none; the files are unchanged.\<close>

theorem countLocalStreamingTriangles_correct:
  assumes "store_inv g nm s" "inj_on number (set (g_ids g))" "set it = set (g_ids g)" "enumerates enum"
    and "length (content (relDB Local s)) < 2 ^ 31" "length (content (relDB Central s)) < 2 ^ 31"
  shows "\<exists>s'. countLocalStreamingTriangles it enum nm s =
      Some (\<lparr>localRelationCount = stored_count (g_edges g Local), centralRelationCount = stored_count (g_edges g Central),
             ntr_result = int (card (clique (vertex_links g)))\<rparr>, s') \<and> rewind s' = rewind s"
proof -
  let ?adj = "map_of (map (\<lambda>i. (number i, neighbour_numbers g Local i \<union> neighbour_numbers g Central i)) it)"
  let ?st = "listed enum (long_keys ?adj)" and ?deg = "degree_entries (\<lambda>v. map_option card (?adj v))"
  have get: "\<exists>s'. getAdjacencyList it nm t = Some (?adj, s') \<and> rewind s' = rewind t" if "store_inv g nm t" for t
    using adjacency_effect [OF that, of it Map.empty] assms(3) by (simp add: getAdjacencyList_def)
  obtain s1 where s1: "getAdjacencyList it nm s = Some (?adj, s1)" "rewind s1 = rewind s" using get [OF assms(1)] by blast
  have inv1: "store_inv g nm s1" using assms(1) store_inv_rewind [OF s1(2)] by simp
  obtain s2 where s2: "getAdjacencyList it nm s1 = Some (?adj, s2)" "rewind s2 = rewind s1" using get [OF inv1] by blast
  have inv2: "store_inv g nm s2" using inv1 store_inv_rewind [OF s2(2)] by simp
  note adj = adjacency_of_store [OF assms(1-4)]
  note sym = symmetric_no_cycle [OF adj(1), unfolded vertex_links_def, OF joined_sym, folded vertex_links_def]
  have "tr_count (fst (countTriangles ?st ?deg False)) = Some (card (clique (vertex_links g)))"
    using count_is_exact [OF adj(2) sym(1)] by (simp add: sym(2))
  moreover have "length (content (relDB sc s2)) < 2 ^ 31" for sc
    using relation_file_length [OF inv2] relation_file_length [OF assms(1)] assms(5,6) by (cases sc) metis+
  ultimately show ?thesis
    using s1 s2 unsigned_count [OF inv2]
    by (simp add: countLocalStreamingTriangles_def Streaming_countTriangles_def getDistributionMap_def)
qed

lemma triangle_graph_links:
  "vertex_links triangle_graph = joined [(1, 2), (2, 3), (3, 1)]"
  by (simp add: vertex_links_def number_pairs_def edge_numbers_def triangle_graph_def sample_numbers)

lemma triangle_graph_counts:
  "stored_count (g_edges triangle_graph Local) = 2" "stored_count (g_edges triangle_graph Central) = 1"
  by (simp_all add: stored_count_def triangle_graph_def)

lemma triangle_graph_numbers: "inj_on number (set (g_ids triangle_graph))"
  by (auto simp: triangle_graph_def inj_on_def sample_numbers)

lemma one_triangle: "clique (joined [(1, 2), (2, 3), (3, 1)]) = {{1, 2, 3}}"
proof -
  have E: "joined [(1, 2), (2, 3), (3, 1)] a b \<longleftrightarrow> a \<in> {1, 2, 3} \<and> b \<in> {1, 2, 3} \<and> a \<noteq> b" for a b
    by (auto simp: joined_def)
  have "{1, 2, 3} \<in> clique (joined [(1, 2), (2, 3), (3, 1)])"
    unfolding clique_def E by (rule CollectI, rule exI [of _ 1], rule exI [of _ 2], rule exI [of _ 3]) simp
  moreover have "T = {1, 2, 3}" if "T \<in> clique (joined [(1, 2), (2, 3), (3, 1)])" for T
    using that unfolding clique_def E by auto
  ultimately show ?thesis by blast
qed

theorem countLocalStreamingTriangles_correct_witness:
  "\<exists>s'. countLocalStreamingTriangles [''2'', ''1'', ''3''] sorted_list_of_set (fst triangle_run) (snd triangle_run) =
     Some (\<lparr>localRelationCount = 2, centralRelationCount = 1, ntr_result = 1\<rparr>, s')"
proof -
  have "set [''2'', ''1'', ''3''] = set (g_ids triangle_graph)" by (auto simp: triangle_graph_def)
  from countLocalStreamingTriangles_correct [OF triangle_run_inv(1) triangle_graph_numbers this enumerates_sorted
      triangle_graph_small triangle_graph_small]
  show ?thesis by (auto simp: triangle_graph_links one_triangle triangle_graph_counts)
qed

subsection \<open>The incremental count\<close>

definition both_ways :: "(int \<times> int) list \<Rightarrow> (int \<times> int) list" where
  "both_ways ps = concat (map (\<lambda>(a, b). [(a, b), (b, a)]) ps)"

definition add_arcs :: "(int \<times> int) list \<Rightarrow> adjacency_sets \<Rightarrow> adjacency_sets" where
  "add_arcs ps adj = fold (\<lambda>(a, b) adj. add_arc b a (add_arc a b adj)) ps adj"

lemma arcs_add_arc: "arcs (add_arc u v adj) a b \<longleftrightarrow> a = u \<and> b = v \<or> arcs adj a b"
  by (auto simp: arcs_def add_arc_def split: option.splits)

lemma add_arcs_simps [simp]:
  "add_arcs [] adj = adj" "add_arcs (p # ps) adj = add_arcs ps (add_arc (snd p) (fst p) (add_arc (fst p) (snd p) adj))"
  by (simp_all add: add_arcs_def case_prod_beta)

lemma both_ways_simps [simp]:
  "both_ways [] = []" "both_ways (p # ps) = (fst p, snd p) # (snd p, fst p) # both_ways ps"
  by (simp_all add: both_ways_def case_prod_beta)

lemma joined_simps [simp]:
  "\<not> joined [] a b" "joined (p # ps) a b \<longleftrightarrow> a = fst p \<and> b = snd p \<or> a = snd p \<and> b = fst p \<or> joined ps a b"
  by (auto simp: joined_def)

lemma arcs_add_arcs: "arcs (add_arcs ps adj) a b \<longleftrightarrow> joined ps a b \<or> arcs adj a b"
  by (induction ps arbitrary: adj) (simp_all add: arcs_add_arc, blast)

lemma set_both_ways: "set (both_ways ps) = {(a, b). joined ps a b}"
  by (induction ps) auto

definition simple_list :: "(int \<times> int) list \<Rightarrow> bool" where
  "simple_list ps \<longleftrightarrow> distinct (map (\<lambda>(a, b). {a, b}) ps) \<and> (\<forall>(a, b)\<in>set ps. a \<noteq> b)"

lemma joined_pair: "joined ps a b \<Longrightarrow> {a, b} \<in> (\<lambda>(a, b). {a, b}) ` set ps"
  unfolding joined_def
  by (elim disjE) (rule rev_image_eqI [of "(a, b)"] rev_image_eqI [of "(b, a)"], assumption, simp add: insert_commute)+

lemma distinct_both_ways: "simple_list ps \<Longrightarrow> distinct (both_ways ps)"
proof (induction ps)
  case (Cons p ps)
  obtain a b where p: "p = (a, b)" by (cases p)
  have prems: "{a, b} \<notin> (\<lambda>(a, b). {a, b}) ` set ps" "a \<noteq> b" "simple_list ps"
    using Cons.prems by (simp_all add: simple_list_def p)
  with joined_pair [of ps a b] have "\<not> joined ps a b" "a \<noteq> b" "simple_list ps" by blast+
  with Cons.IH show ?case by (simp add: p set_both_ways joined_sym [of ps b a])
qed simp

lemma simple_joined: "simple_list ps \<Longrightarrow> simple (joined ps)"
  by (auto simp: simple_def joined_sym simple_list_def joined_def
      intro: finite_subset [of _ "set ps \<union> (set ps)\<inverse>"])

lemma relation_ends_effect:
  assumes "store_inv g nm s" "k < length (g_edges g sc)"
  obtains s' where "relation_ends sc (int (Suc k)) s = Some (edge_numbers g (g_edges g sc ! k), s')" "rewind s' = rewind s"
proof -
  obtain r s1 where r: "getRelation sc (rel_addr sc k) s = Some (Some r, s1)" "rewind s1 = rewind s"
    "relation_for g sc k r" using relation_read [OF assms] by blast
  obtain sb db where b: "sourceBlock r = Some sb" "destinationBlock r = Some db"
      "nb_id sb = to_string (number (g_ids g ! fst (g_edges g sc ! k)))"
      "nb_id db = to_string (number (g_ids g ! snd (g_edges g sc ! k)))"
    using r(3) by (auto simp: relation_for_def Let_def number_def)
  have st: "stol (to_string (number i)) = Some (int (number i))" for i
    using number_bound [of i] by (intro stol_to_string) simp
  have "of_int (int (Suc k) * int (rel_size sc)) = rel_addr sc k"
    unfolding rel_addr_def of_nat_mult [symmetric] of_int_of_nat_eq ..
  then show thesis using r(1,2) b st
    by (intro that [of s1]) (simp_all add: relation_ends_def getSource_def getDestination_def edge_numbers_def)
qed

lemma dynamic_loop_effect:
  assumes "store_inv g nm s" "\<forall>k\<in>set ks. k < length (g_edges g sc)"
  defines "ps \<equiv> map (\<lambda>k. edge_numbers g (g_edges g sc ! k)) ks"
  shows "\<exists>s'. dynamic_loop sc (map (\<lambda>k. int (Suc k)) ks) (es, new, loc) s =
      Some ((es @ both_ways ps, add_arcs ps new, add_arcs ps loc), s') \<and> rewind s' = rewind s"
  using assms(1,2) unfolding ps_def
proof (induction ks arbitrary: es new loc s)
  case Nil
  then show ?case by simp
next
  case (Cons k ks)
  obtain a b where ab: "edge_numbers g (g_edges g sc ! k) = (a, b)" by fastforce
  obtain s1 where s1: "relation_ends sc (int (Suc k)) s = Some ((a, b), s1)" "rewind s1 = rewind s"
    using relation_ends_effect [OF Cons.prems(1), of k sc] Cons.prems(2) ab by auto
  have "store_inv g nm s1" using Cons.prems(1) store_inv_rewind [OF s1(2)] by simp
  from Cons.IH [OF this, of "es @ [(a, b), (b, a)]" "add_arc b a (add_arc a b new)" "add_arc b a (add_arc a b loc)"]
    Cons.prems(2) s1 ab
  show ?case by auto
qed

lemma simple_list_perm: "mset ps = mset qs \<Longrightarrow> simple_list ps \<Longrightarrow> simple_list qs"
  unfolding simple_list_def
  by (metis mset_eq_imp_distinct_iff mset_eq_setD mset_map)

lemma simple_list_split:
  assumes "simple_list (ps @ qs)"
  shows "simple_list ps" "simple_list qs" "joined ps a b \<Longrightarrow> \<not> joined qs a b"
proof -
  show "simple_list ps" "simple_list qs" using assms by (auto simp: simple_list_def)
  have "(\<lambda>(a, b). {a, b}) ` set ps \<inter> (\<lambda>(a, b). {a, b}) ` set qs = {}"
    using assms by (simp add: simple_list_def)
  then show "\<not> joined qs a b" if "joined ps a b"
    using joined_pair [OF that] joined_pair [of qs a b] by (meson disjoint_iff)
qed

lemma both_ways_append: "both_ways (ps @ qs) = both_ways ps @ both_ways qs"
  by (simp add: both_ways_def)

lemma add_arcs_append: "add_arcs (ps @ qs) adj = add_arcs qs (add_arcs ps adj)"
  by (simp add: add_arcs_def)

lemma upto_relations:
  assumes "k \<le> length es"
  shows "[int k + 1..stored_count es] = map (\<lambda>j. int (Suc j)) [k..<length es]"
proof (cases "es = []")
  case False
  then show ?thesis using assms by (intro nth_equalityI) (auto simp: stored_count_def nth_upto)
qed (use assms in \<open>simp add: stored_count_def\<close>)

lemma new_relations:
  "map (\<lambda>k. edge_numbers g (g_edges g sc ! k)) [k..<length (g_edges g sc)] = drop k (number_pairs g sc)"
  by (rule nth_equalityI) (simp_all add: number_pairs_def)

text \<open>Two edges determine a triangle.\<close>

lemma clique_joined_bound: "card (clique (joined ps)) \<le> length ps * length ps"
proof -
  let ?U = "(\<lambda>(a, b). {a, b}) ` set ps"
  have "clique (joined ps) \<subseteq> (\<lambda>(p, q). p \<union> q) ` (?U \<times> ?U)"
  proof
    fix T assume "T \<in> clique (joined ps)"
    then obtain a b c where T: "T = {a, b, c}" "joined ps a b" "joined ps b c" by (auto simp: clique_def)
    then have "{a, b} \<in> ?U" "{b, c} \<in> ?U" using joined_pair by metis+
    moreover have "T = {a, b} \<union> {b, c}" using T(1) by auto
    ultimately show "T \<in> (\<lambda>(p, q). p \<union> q) ` (?U \<times> ?U)" by blast
  qed
  then have "card (clique (joined ps)) \<le> card ((\<lambda>(p, q). p \<union> q) ` (?U \<times> ?U))" by (intro card_mono) simp_all
  also have "\<dots> \<le> card (?U \<times> ?U)" by (intro card_image_le) simp
  also have "\<dots> = card ?U * card ?U" by (rule card_cartesian_product)
  also have "\<dots> \<le> length ps * length ps"
    using order_trans [OF card_image_le [OF finite_set] card_length, of "\<lambda>(a, b). {a, b}" ps] by (intro mult_le_mono)
  finally show ?thesis .
qed

lemma increment_of_pairs:
  assumes "simple_list (old @ new)" "\<And>a b. arcs adj a b \<longleftrightarrow> joined old a b" "length (old @ new) \<le> 2 ^ 26"
  shows "totalCount (add_arcs new adj) (add_arcs new Map.empty) (both_ways new) =
    Some (int (card (clique (joined (old @ new)))) - int (card (clique (joined old))))"
proof -
  let ?E = "joined (old @ new)" and ?N = "joined new"
  note split = simple_list_split [OF assms(1)]
  have E: "arcs (add_arcs new adj) = ?E"
    by (auto simp: fun_eq_iff arcs_add_arcs assms(2) joined_append)
  have N: "arcs (add_arcs new Map.empty) = ?N"
    by (simp add: fun_eq_iff arcs_add_arcs arcs_upd)
  have O: "(\<lambda>a b. ?E a b \<and> \<not> ?N a b) = joined old"
    using split(3) by (auto simp: fun_eq_iff joined_append)
  have S: "simple ?E" "simple ?N" using simple_joined [OF assms(1)] simple_joined [OF split(2)] .
  have "totalCount (add_arcs new adj) (add_arcs new Map.empty) (both_ways new) = Some (int (card (touched ?E ?N)))"
    unfolding E [symmetric] N [symmetric]
  proof (rule total_is_touched(2))
    show "simple (arcs (add_arcs new adj))" "simple (arcs (add_arcs new Map.empty))" using S by (simp_all add: E N)
    show "arcs (add_arcs new Map.empty) a b \<Longrightarrow> arcs (add_arcs new adj) a b" for a b by (simp add: E N joined_append)
    show "distinct (both_ways new)" using split(2) by (rule distinct_both_ways)
    show "set (both_ways new) = {(a, b). arcs (add_arcs new Map.empty) a b}" by (simp add: N set_both_ways)
    have "length (old @ new) * length (old @ new) \<le> 2 ^ 26 * 2 ^ 26" by (intro mult_le_mono assms(3))
    then show "card (clique (arcs (add_arcs new adj))) \<le> 2 ^ 52"
      using clique_joined_bound [of "old @ new"] by (simp add: E del: length_append)
  qed
  then show ?thesis using clique_grows [OF S] by (simp add: O)
qed

text \<open>C11. The incremental count over the native store: if the accumulated adjacency holds the first
  relations of each scope, as many as the old counts say, and no edge is stored twice or joins a
  node to itself, the call returns the number of triangles that the later relations complete,
  the new counts, and an accumulated adjacency that holds all relations.\<close>

theorem countDynamicLocalTriangles_correct:
  assumes inv: "store_inv g nm s" and size: "\<forall>sc. length (content (relDB sc s)) < 2 ^ 31"
    and k: "kl \<le> length (g_edges g Local)" "kc \<le> length (g_edges g Central)"
    and simple: "simple_list (number_pairs g Local @ number_pairs g Central)"
    and adj: "\<forall>a b. arcs adj a b \<longleftrightarrow> joined (take kl (number_pairs g Local) @ take kc (number_pairs g Central)) a b"
  shows "\<exists>adj' s'. countDynamicLocalTriangles (int kl) (int kc) adj s =
      Some ((\<lparr>localRelationCount = stored_count (g_edges g Local), centralRelationCount = stored_count (g_edges g Central),
              ntr_result = int (card (clique (vertex_links g))) -
                int (card (clique (joined (take kl (number_pairs g Local) @ take kc (number_pairs g Central)))))\<rparr>, adj'), s') \<and>
    (\<forall>a b. arcs adj' a b \<longleftrightarrow> vertex_links g a b) \<and> rewind s' = rewind s"
proof -
  let ?old = "take kl (number_pairs g Local) @ take kc (number_pairs g Central)"
  let ?L = "drop kl (number_pairs g Local)" and ?C = "drop kc (number_pairs g Central)"
  have cnt: "int_relation_count sc s = stored_count (g_edges g sc)" for sc using int_count [OF inv] size by simp
  have links: "joined (?old @ ?L @ ?C) = vertex_links g"
    by (simp add: fun_eq_iff vertex_links_def joined_append)
       (metis append_take_drop_id joined_append)
  have "mset (?old @ ?L @ ?C) = mset (number_pairs g Local @ number_pairs g Central)"
    by (simp add: add_ac) (metis (no_types, lifting) add.assoc add.commute append_take_drop_id mset_append)
  then have simp: "simple_list (?old @ ?L @ ?C)" by (intro simple_list_perm [OF _ simple]) simp
  have "length (number_pairs g sc) \<le> 2 ^ 25" for sc
    using size [rule_format, of sc] relation_file_length [OF inv, of sc]
    by (cases sc) (auto simp: number_pairs_def RelationBlock_BLOCK_SIZE_def RelationBlock_CENTRAL_BLOCK_SIZE_def
        MAX_TYPE_SIZE_def split: if_splits)
  from this [of Local] this [of Central] have few: "length (?old @ ?L @ ?C) \<le> 2 ^ 26"
    using k by (simp add: number_pairs_def)
  show ?thesis
  proof (cases "int kl = stored_count (g_edges g Local) \<and> int kc = stored_count (g_edges g Central)")
    case True
    then have "?L = []" "?C = []" by (auto simp: stored_count_def number_pairs_def split: if_splits)
    then have "joined ?old = vertex_links g" using links by simp
    then show ?thesis using True adj by (simp add: countDynamicLocalTriangles_def cnt)
  next
    case False
    obtain s1 where s1: "dynamic_loop Local [int kl + 1..stored_count (g_edges g Local)] ([], Map.empty, adj) s =
        Some ((both_ways ?L, add_arcs ?L Map.empty, add_arcs ?L adj), s1)" "rewind s1 = rewind s"
      using dynamic_loop_effect [OF inv, of "[kl..<length (g_edges g Local)]" Local "[]" Map.empty adj]
      by (auto simp: upto_relations [OF k(1)] new_relations)
    have inv1: "store_inv g nm s1" using inv store_inv_rewind [OF s1(2)] by simp
    obtain s2 where s2: "dynamic_loop Central [int kc + 1..stored_count (g_edges g Central)]
        (both_ways ?L, add_arcs ?L Map.empty, add_arcs ?L adj) s1 =
        Some ((both_ways (?L @ ?C), add_arcs (?L @ ?C) Map.empty, add_arcs (?L @ ?C) adj), s2)" "rewind s2 = rewind s1"
      using dynamic_loop_effect [OF inv1, of "[kc..<length (g_edges g Central)]" Central "both_ways ?L" "add_arcs ?L Map.empty" "add_arcs ?L adj"]
      by (auto simp: upto_relations [OF k(2)] new_relations both_ways_append add_arcs_append)
    have "totalCount (add_arcs (?L @ ?C) adj) (add_arcs (?L @ ?C) Map.empty) (both_ways (?L @ ?C)) =
        Some (int (card (clique (vertex_links g))) - int (card (clique (joined ?old))))"
      using increment_of_pairs [OF simp adj [rule_format] few] unfolding links .
    moreover have "arcs (add_arcs (?L @ ?C) adj) a b \<longleftrightarrow> vertex_links g a b" for a b
      unfolding links [symmetric] using adj by (auto simp: arcs_add_arcs joined_append)
    ultimately show ?thesis
      unfolding countDynamicLocalTriangles_def cnt Let_def if_not_P [OF False] using s1 s2 by simp
  qed
qed

theorem countDynamicLocalTriangles_correct_witness:
  "\<exists>adj' s'. countDynamicLocalTriangles 2 0 [1 \<mapsto> {2}, 2 \<mapsto> {1, 3}, 3 \<mapsto> {2}] (snd triangle_run) =
     Some ((\<lparr>localRelationCount = 2, centralRelationCount = 1, ntr_result = 1\<rparr>, adj'), s')"
proof -
  have pairs: "number_pairs triangle_graph Local = [(1, 2), (2, 3)]" "number_pairs triangle_graph Central = [(3, 1)]"
    by (simp_all add: number_pairs_def edge_numbers_def triangle_graph_def sample_numbers)
  have len: "2 \<le> length (g_edges triangle_graph Local)" "0 \<le> length (g_edges triangle_graph Central)"
    by (simp_all add: triangle_graph_def)
  have simple: "simple_list (number_pairs triangle_graph Local @ number_pairs triangle_graph Central)"
    by (simp add: pairs simple_list_def doubleton_eq_iff)
  have adj: "\<forall>a b. arcs [1 \<mapsto> {2}, 2 \<mapsto> {1, 3}, 3 \<mapsto> {2}] a b \<longleftrightarrow>
      joined (take 2 (number_pairs triangle_graph Local) @ take 0 (number_pairs triangle_graph Central)) a b"
    by (auto simp: pairs arcs_upd)
  have none: "clique (joined (take 2 (number_pairs triangle_graph Local) @ take 0 (number_pairs triangle_graph Central))) = {}"
    by (auto simp: pairs clique_def)
  have "\<forall>sc. length (content (relDB sc (snd triangle_run))) < 2 ^ 31" by (intro allI triangle_graph_small)
  from countDynamicLocalTriangles_correct [OF triangle_run_inv(1) this len simple adj]
  show ?thesis unfolding none triangle_graph_links one_triangle triangle_graph_counts by (elim exE conjE) simp
qed

subsection \<open>Two errors\<close>

text \<open>The first central relation makes the incremental count crash: a partition without central
  relations reports -1 of them, and with -1 as the old count the next call, on any store that
  has a central relation, reads the relation at address 0, which is a null pointer.\<close>

theorem first_central_relation_crashes:
  assumes "store_inv g nm s" "g_edges g Central = []"
    and "store_inv g' nm' s'" "g_edges g' Central \<noteq> []" "length (content (relDB Central s')) < 2 ^ 31"
  shows "int_relation_count Central s = - 1 \<and>
    countDynamicLocalTriangles oldLocal (int_relation_count Central s) adj s' = None"
proof -
  have old: "int_relation_count Central s = - 1"
    using relation_file_length [OF assms(1), of Central] assms(2) by (intro int_count [OF assms(1), unfolded stored_count_def, THEN trans]) simp_all
  have new: "int_relation_count Central s' = int (length (g_edges g' Central))"
    using int_count [OF assms(3,5)] assms(4) by (simp add: stored_count_def)
  have "relation_ends Central 0 t = None" for t by (simp add: relation_ends_def)
  then have "dynamic_loop Central [0..int (length (g_edges g' Central))] acc t = None" for acc t
    by (cases acc) (simp add: upto_rec1)
  then show ?thesis by (auto simp: old new countDynamicLocalTriangles_def Let_def split: option.splits Option.bind_splits)
qed

theorem first_central_relation_crashes_witness:
  "int_relation_count Central (snd sample_run) = - 1 \<and>
   countDynamicLocalTriangles 2 (int_relation_count Central (snd sample_run)) Map.empty (snd triangle_run) = None"
  by (rule first_central_relation_crashes [OF sample_run_inv(1) _ triangle_run_inv(1) _ triangle_graph_small])
     (simp_all add: sample_graph_def triangle_graph_def)

lemma no_degrees: "\<forall>e\<in>set dist. snd e = 1 \<Longrightarrow> triangles (fst (countTriangles st dist True)) = ''NILL''"
proof -
  assume "\<forall>e\<in>set dist. snd e = 1"
  then have "build_degree_map dist = []"
    unfolding build_degree_map_def by (induction dist) (auto simp: case_prod_beta)
  then show ?thesis by (simp add: countTriangles_def)
qed

lemma distinct_key_image:
  assumes "distinct (map f xs)" "x \<in> set xs"
  shows "{y \<in> set xs. f y = f x} = {x}"
  using assms by (auto simp: distinct_map inj_on_def)

text \<open>C39. The central count misses directed cycles: the adjacency of the central relations is kept in the
  direction of the relations, and vertices with one neighbour are skipped, so a partition in
  which every vertex is the source of at most one central relation is reported to have no
  triangle.\<close>

theorem central_cycles_missed:
  assumes "store_inv g nm s" "edgeIndexDB nm = []" "length (indexDB nm) < 2 ^ 31" "INDEX_KEY_SIZE nm \<noteq> 0"
    and "length (content (relDB Central s)) < 2 ^ 31" "distinct (map fst (number_pairs g Central))"
    and "stoi graphId = Some G" "stoi partitionId = Some P" "fs (of_int G) (of_int P) = files_of nm s"
  shows "countCentralStoreStreamingTriangles enum pm (INDEX_KEY_SIZE nm) fs graphId [partitionId] = Some ''NILL''"
proof -
  let ?es = "set (g_edges g Central)" and ?a = "\<lambda>e. int (number (g_ids g ! fst e))" and ?b = "\<lambda>e. int (number (g_ids g ! snd e))"
  let ?adj = "\<lambda>x. if x \<in> ?a ` ?es then Some (?b ` {e \<in> ?es. ?a e = x}) else None"
  let ?gc = "\<lparr>maxLabelSize = INDEX_KEY_SIZE nm, cfg_graphID = of_int G, cfg_partitionID = of_int P, cfg_openMode = ''app''\<rparr>"
  obtain nm' s' where open_p: "NodeManager_new pm ?gc (files_of nm s) = Some (nm', s')" "store_inv g nm' s'"
  proof (rule NodeManager_new_effect [OF assms(1-3), of ?gc pm])
  qed (use assms(4) in \<open>simp_all add: FILE_MODE_def\<close>)
  have "length (content (relDB Central s')) < 2 ^ 31"
    using relation_file_length [OF open_p(2)] relation_file_length [OF assms(1)] assms(5) by metis
  from getAdjacencyList_of_effect [OF open_p(2) this] obtain s'' where
    "getAdjacencyList_of Central s' = Some (?adj, s'')" by blast
  with open_p(1) assms(9) have adj: "getCentralAdjacencyList pm (INDEX_KEY_SIZE nm) fs (of_int G) (of_int P) = Some ?adj"
    by (simp add: getCentralAdjacencyList_def open_partition_def)
  have "merge_adjacency ?adj Map.empty = ?adj" by (auto simp: merge_adjacency_def fun_eq_iff)
  moreover have "card (the (?adj x)) = 1" if "x \<in> dom ?adj" for x
  proof -
    from that obtain e where e: "e \<in> ?es" "x = ?a e" by (auto split: if_splits)
    have "distinct (map ?a (g_edges g Central))"
      using assms(6) by (simp add: number_pairs_def edge_numbers_def comp_def)
    from distinct_key_image [OF this e(1)] e show ?thesis by simp
  qed
  then have "\<forall>p\<in>set (set_sizes ?adj). snd p = 1"
    by (cases "finite (dom ?adj)") (auto simp: set_sizes_def)
  ultimately show ?thesis
    using adj assms(7,8) by (simp add: countCentralStoreStreamingTriangles_def no_degrees)
qed

lemma cycle_graph_pairs: "number_pairs cycle_graph Central = [(1, 2), (2, 3), (3, 1)]" "number_pairs cycle_graph Local = []"
  by (simp_all add: number_pairs_def edge_numbers_def cycle_graph_def sample_numbers)

theorem central_cycles_missed_witness:
  "countCentralStoreStreamingTriangles sorted_list_of_set free_mutexes 6 (\<lambda>g p. files_of (fst cycle_run) (snd cycle_run)) ''1'' [''0''] =
     Some ''NILL'' \<and> card (clique (vertex_links cycle_graph)) = 1"
proof
  have id: "stoi ''1'' = Some 1" "stoi ''0'' = Some 0"
    by (simp_all add: stoi_def scan_number_def is_digit_def is_space_def digits_value_def signed_value_def)
  have "distinct (map fst (number_pairs cycle_graph Central))" by (simp add: cycle_graph_pairs)
  from central_cycles_missed [OF cycle_run_inv(1,3) _ _ _ this id, of "\<lambda>g p. files_of (fst cycle_run) (snd cycle_run)"
      sorted_list_of_set free_mutexes] cycle_run_inv(2)
  show "countCentralStoreStreamingTriangles sorted_list_of_set free_mutexes 6 (\<lambda>g p. files_of (fst cycle_run) (snd cycle_run)) ''1'' [''0''] =
      Some ''NILL''"
    by (simp add: cycle_sizes [simplified])
  show "card (clique (vertex_links cycle_graph)) = 1"
    by (simp only: vertex_links_def cycle_graph_pairs append_Nil one_triangle) simp
qed

end
