(* ===== verification/Hash_Stores.thy ===== *)
theory Hash_Stores
  imports Triangle_Merge Cpp_Runtime Ordered_Map
begin

text \<open>
  The in-memory stores of a worker: \<^verbatim>\<open>JasmineGraphHashMapLocalStore\<close>, \<^verbatim>\<open>JasmineGraphHashMapCentralStore\<close>
  and \<^verbatim>\<open>JasmineGraphHashMapDuplicateCentralStore\<close>. A \<^verbatim>\<open>std::map\<close> is an ordered map. The FlatBuffers encodings, which the build generates from the
  schemas in \<^verbatim>\<open>util/dbutil\<close>, are a parameter of the model; files are byte strings under their paths.
\<close>

subsection \<open>The stores\<close>

type_synonym edge_map = "(int \<times> int set) list"

record hash_store =
  hs_graphId :: int
  hs_partitionId :: int
  instanceDataFolderLocation :: string
  subGraphMap :: edge_map
  hs_vertexCount :: int
  hs_edgeCount :: int

record local_store = hash_store +
  localAttributeMap :: "(int \<times> string list) list"
  edgeMap :: "(int \<times> int list) list"

type_synonym file_system = "string \<rightharpoonup> bytes"

record fb_ops =
  part_encode :: "(int \<times> int list) list \<Rightarrow> bytes"
  part_decode :: "bytes \<Rightarrow> (int \<times> int list) list option"
  edge_encode :: "(int \<times> int list) list \<Rightarrow> bytes"
  attr_encode :: "(int \<times> string list) list \<Rightarrow> bytes"
  attr_decode :: "bytes \<Rightarrow> (int \<times> string list) list option"

text \<open>The constructors of the local store leave both counters uninitialised, the one without arguments the
  identifiers as well: \<open>junk\<close> is what the storage of the object holds.\<close>

definition LocalStore_new :: "local_store \<Rightarrow> int \<Rightarrow> int \<Rightarrow> string \<Rightarrow> local_store" where
  "LocalStore_new junk graphid partitionid folderLocation =
     junk\<lparr>hs_graphId := graphid, hs_partitionId := partitionid, instanceDataFolderLocation := folderLocation, subGraphMap := [],
          localAttributeMap := [], edgeMap := []\<rparr>"

definition LocalStore_default :: "local_store \<Rightarrow> local_store" where
  "LocalStore_default junk = junk\<lparr>instanceDataFolderLocation := [], subGraphMap := [], localAttributeMap := [], edgeMap := []\<rparr>"

definition CentralStore_new :: "string \<Rightarrow> int \<Rightarrow> int \<Rightarrow> hash_store" where
  "CentralStore_new dataFolder graphId partitionId =
     \<lparr>hs_graphId = graphId, hs_partitionId = partitionId, instanceDataFolderLocation = dataFolder, subGraphMap = [],
      hs_vertexCount = 0, hs_edgeCount = 0\<rparr>"

definition CentralStore_default :: hash_store where
  "CentralStore_default = CentralStore_new [] 0 0"

definition getFileSeparator :: string where
  "getFileSeparator = ''/''"

subsection \<open>Operations\<close>

definition toLocalSubGraphMap :: "(int \<times> int list) list \<Rightarrow> edge_map \<Rightarrow> edge_map" where
  "toLocalSubGraphMap entries m = fold (\<lambda>(key, value) m. map_put key (set value) m) entries m"

definition map_sizes :: "edge_map \<Rightarrow> int" where
  "map_sizes m = sum_list (map (\<lambda>(k, N). int (card N)) m)"

definition getEdgeCount :: "'a hash_store_scheme \<Rightarrow> int \<times> 'a hash_store_scheme" where
  "getEdgeCount st =
     (let st = (if hs_edgeCount st = 0 then st\<lparr>hs_edgeCount := map_sizes (subGraphMap st)\<rparr> else st)
      in (hs_edgeCount st, st))"

definition getVertexCount :: "'a hash_store_scheme \<Rightarrow> int \<times> 'a hash_store_scheme" where
  "getVertexCount st =
     (let st = (if hs_vertexCount st = 0 then st\<lparr>hs_vertexCount := int (length (subGraphMap st))\<rparr> else st)
      in (hs_vertexCount st, st))"

definition getVertexSet :: "'a hash_store_scheme \<Rightarrow> int set" where
  "getVertexSet st = set (map fst (subGraphMap st))"

definition map_out_degrees :: "edge_map \<Rightarrow> (int \<times> int) list" where
  "map_out_degrees m = fold (\<lambda>(v, N) dist. map_put v (int (card N)) dist) m []"

definition getOutDegreeDistributionHashMap :: "'a hash_store_scheme \<Rightarrow> (int \<times> int) list" where
  "getOutDegreeDistributionHashMap st = map_out_degrees (subGraphMap st)"

text \<open>\<open>enum\<close> is the order in which a hash set is enumerated.\<close>

definition getInDegreeDistributionHashMap :: "(int set \<Rightarrow> int list) \<Rightarrow> 'a hash_store_scheme \<Rightarrow> (int \<times> int) list" where
  "getInDegreeDistributionHashMap enum st =
     fold (\<lambda>(v, N) dist. fold (\<lambda>w dist. map_plus w 1 dist) (enum N) dist) (subGraphMap st) []"

definition HashStore_addEdge :: "int \<Rightarrow> int \<Rightarrow> 'a hash_store_scheme \<Rightarrow> 'a hash_store_scheme" where
  "HashStore_addEdge startVid endVid st =
     (case map_of (subGraphMap st) startVid of
        None \<Rightarrow> st
      | Some N \<Rightarrow> st\<lparr>subGraphMap := map_put startVid (insert endVid N) (subGraphMap st)\<rparr>)"

definition getUnderlyingHashMap :: "'a hash_store_scheme \<Rightarrow> edge_map" where
  "getUnderlyingHashMap st = subGraphMap st"

text \<open>The size of a file is kept in an \<^verbatim>\<open>int\<close>; an array of negative size is an exception.\<close>

definition read_whole :: "bytes \<Rightarrow> bytes option" where
  "read_whole f =
     (let length = sint (word_of_nat (length f) :: 32 word)
      in if length < 0 then None else Some (take (nat length) f))"

definition load_edges :: "fb_ops \<Rightarrow> file_system \<Rightarrow> string \<Rightarrow> 'a hash_store_scheme \<Rightarrow> (bool \<times> 'a hash_store_scheme) option" where
  "load_edges fb fs path st =
     (case fs path of
        None \<Rightarrow> Some (False, st)
      | Some f \<Rightarrow> do {
          data \<leftarrow> read_whole f;
          entries \<leftarrow> part_decode fb data;
          let st = st\<lparr>subGraphMap := toLocalSubGraphMap entries (subGraphMap st)\<rparr>;
          let st = st\<lparr>hs_vertexCount := int (length (subGraphMap st))\<rparr>;
          let (count, st) = getEdgeCount st;
          Some (True, st\<lparr>hs_edgeCount := count\<rparr>)
        })"

definition LocalStore_path :: "'a hash_store_scheme \<Rightarrow> string" where
  "LocalStore_path st = instanceDataFolderLocation st @ getFileSeparator @ to_string_int (hs_graphId st) @ ''_'' @
     to_string_int (hs_partitionId st)"

definition CentralStore_path :: "'a hash_store_scheme \<Rightarrow> string" where
  "CentralStore_path st = instanceDataFolderLocation st @ getFileSeparator @ to_string_int (hs_graphId st) @
     ''_centralstore_'' @ to_string_int (hs_partitionId st)"

definition DuplicateCentralStore_path :: "'a hash_store_scheme \<Rightarrow> string" where
  "DuplicateCentralStore_path st = instanceDataFolderLocation st @ getFileSeparator @ to_string_int (hs_graphId st) @
     ''_centralstore_dp_'' @ to_string_int (hs_partitionId st)"

definition LocalStore_loadGraph :: "fb_ops \<Rightarrow> file_system \<Rightarrow> local_store \<Rightarrow> (bool \<times> local_store) option" where
  "LocalStore_loadGraph fb fs st = load_edges fb fs (LocalStore_path st) st"

definition CentralStore_loadGraph :: "fb_ops \<Rightarrow> file_system \<Rightarrow> hash_store \<Rightarrow> (bool \<times> hash_store) option" where
  "CentralStore_loadGraph fb fs st = load_edges fb fs (CentralStore_path st) st"

definition CentralStore_loadGraph_from :: "fb_ops \<Rightarrow> file_system \<Rightarrow> string \<Rightarrow> hash_store \<Rightarrow> (bool \<times> hash_store) option" where
  "CentralStore_loadGraph_from fb fs edgeStorePath st = load_edges fb fs edgeStorePath st"

definition DuplicateCentralStore_loadGraph :: "fb_ops \<Rightarrow> file_system \<Rightarrow> hash_store \<Rightarrow> (bool \<times> hash_store) option" where
  "DuplicateCentralStore_loadGraph fb fs st = load_edges fb fs (DuplicateCentralStore_path st) st"

definition DuplicateCentralStore_loadGraph_from :: "fb_ops \<Rightarrow> file_system \<Rightarrow> string \<Rightarrow> hash_store \<Rightarrow> (bool \<times> hash_store) option" where
  "DuplicateCentralStore_loadGraph_from fb fs fileName st = load_edges fb fs fileName st"

subsection \<open>Writing\<close>

definition edge_entries :: "(int set \<Rightarrow> int list) \<Rightarrow> edge_map \<Rightarrow> (int \<times> int list) list" where
  "edge_entries enum m = map (\<lambda>(key, value). (key, enum value)) m"

definition LocalStore_storeGraph :: "fb_ops \<Rightarrow> (int set \<Rightarrow> int list) \<Rightarrow> local_store \<Rightarrow> file_system \<Rightarrow> bool \<times> file_system" where
  "LocalStore_storeGraph fb enum st fs =
     (True, fs(instanceDataFolderLocation st @ getFileSeparator @ ''jasminegraph.edgestore.db'' \<mapsto>
                 edge_encode fb (edge_entries enum (subGraphMap st))))"

definition CentralStore_storeGraph :: "fb_ops \<Rightarrow> (int set \<Rightarrow> int list) \<Rightarrow> hash_store \<Rightarrow> file_system \<Rightarrow> bool \<times> file_system" where
  "CentralStore_storeGraph fb enum st fs =
     (True, fs(instanceDataFolderLocation st @ getFileSeparator @ getFileSeparator @ to_string_int (hs_graphId st) @
                 ''_centralstore_'' @ to_string_int (hs_partitionId st) \<mapsto>
                 edge_encode fb (edge_entries enum (subGraphMap st))))"

definition DuplicateCentralStore_storeGraph :: "fb_ops \<Rightarrow> (int set \<Rightarrow> int list) \<Rightarrow> hash_store \<Rightarrow> file_system \<Rightarrow> bool \<times> file_system" where
  "DuplicateCentralStore_storeGraph fb enum st fs =
     (True, fs(instanceDataFolderLocation st @ getFileSeparator @ getFileSeparator @ to_string_int (hs_graphId st) @
                 ''_centralstore_dp_'' @ to_string_int (hs_partitionId st) \<mapsto>
                 edge_encode fb (edge_entries enum (subGraphMap st))))"

definition storePartEdgeMap :: "fb_ops \<Rightarrow> (int \<times> int list) list \<Rightarrow> string \<Rightarrow> file_system \<Rightarrow> bool \<times> file_system" where
  "storePartEdgeMap fb em savePath fs = (True, fs(savePath \<mapsto> part_encode fb em))"

definition CentralStore_storePartEdgeMap :: "fb_ops \<Rightarrow> (int \<times> int list) list \<Rightarrow> string \<Rightarrow> file_system \<Rightarrow> bool \<times> file_system" where
  "CentralStore_storePartEdgeMap fb em savePath fs = (True, fs(savePath \<mapsto> part_encode fb em))"

definition DuplicateCentralStore_storePartEdgeMap :: "fb_ops \<Rightarrow> (int \<times> int list) list \<Rightarrow> string \<Rightarrow> file_system \<Rightarrow> bool \<times> file_system" where
  "DuplicateCentralStore_storePartEdgeMap fb em savePath fs = (True, fs(savePath \<mapsto> part_encode fb em))"

subsection \<open>Attributes and partition edge maps of the local store\<close>

definition storeAttributes :: "fb_ops \<Rightarrow> (int \<times> string list) list \<Rightarrow> string \<Rightarrow> file_system \<Rightarrow> bool \<times> file_system" where
  "storeAttributes fb attributeMap storePath fs = (True, fs(storePath \<mapsto> attr_encode fb attributeMap))"

text \<open>A text read through \<^verbatim>\<open>c_str\<close> ends at the first zero byte.\<close>

definition c_string :: "string \<Rightarrow> string" where
  "c_string s = takeWhile (\<lambda>c. c \<noteq> NUL) s"

definition toLocalAttributeMap :: "(int \<times> string list) list \<Rightarrow> (int \<times> string list) list \<Rightarrow> (int \<times> string list) list" where
  "toLocalAttributeMap entries m = fold (\<lambda>(key, attributes) m. map_put key (map c_string attributes) m) entries m"

definition loadAttributes :: "fb_ops \<Rightarrow> file_system \<Rightarrow> local_store \<Rightarrow> (bool \<times> local_store) option" where
  "loadAttributes fb fs st =
     (case fs (instanceDataFolderLocation st @ getFileSeparator @ ''jasminegraph.attributestore'') of
        None \<Rightarrow> Some (False, st)
      | Some f \<Rightarrow> do {
          data \<leftarrow> read_whole f;
          entries \<leftarrow> attr_decode fb data;
          Some (True, st\<lparr>localAttributeMap := toLocalAttributeMap entries (localAttributeMap st)\<rparr>)
        })"

definition getAttributeHashMap :: "fb_ops \<Rightarrow> file_system \<Rightarrow> local_store \<Rightarrow> ((int \<times> string list) list \<times> local_store) option" where
  "getAttributeHashMap fb fs st =
     do { (_, st) \<leftarrow> loadAttributes fb fs st; Some (localAttributeMap st, st) }"

definition toLocalEdgeMap :: "(int \<times> int list) list \<Rightarrow> (int \<times> int list) list \<Rightarrow> (int \<times> int list) list" where
  "toLocalEdgeMap entries m = fold (\<lambda>(key, value) m. map_put key value m) entries m"

definition loadPartEdgeMap :: "fb_ops \<Rightarrow> file_system \<Rightarrow> string \<Rightarrow> local_store \<Rightarrow> (bool \<times> local_store) option" where
  "loadPartEdgeMap fb fs filePath st =
     (case fs filePath of
        None \<Rightarrow> Some (False, st)
      | Some f \<Rightarrow> do {
          data \<leftarrow> read_whole f;
          entries \<leftarrow> part_decode fb data;
          Some (True, st\<lparr>edgeMap := toLocalEdgeMap entries (edgeMap st)\<rparr>)
        })"

definition getEdgeHashMap :: "fb_ops \<Rightarrow> file_system \<Rightarrow> string \<Rightarrow> local_store \<Rightarrow> ((int \<times> int list) list \<times> local_store) option" where
  "getEdgeHashMap fb fs filePath st =
     do { (_, st) \<leftarrow> loadPartEdgeMap fb fs filePath st; Some (edgeMap st, st) }"

end
