(* ===== verification/Hash_Contract.thy ===== *)
theory Hash_Contract
  imports Hash_Stores
begin

text \<open>
  What the three hash map stores have in common, as a contract: reading a file of edges into a store
  and the tables that a triangle count reads from it. The clients' lemmas are proved from the
  contract once, and the contract is shown for each of the three classes.
\<close>

subsection \<open>Lemmas on the ordered maps\<close>

lemma toLocalSubGraphMap_fresh:
  "ordered es \<Longrightarrow> toLocalSubGraphMap es [] = map (\<lambda>(k, v). (k, set v)) es"
  using fold_map_put [of "[]" set es] by (simp add: toLocalSubGraphMap_def ordered_map_values)

lemma ordered_toLocalSubGraphMap: "ordered m \<Longrightarrow> ordered (toLocalSubGraphMap es m)"
  unfolding toLocalSubGraphMap_def by (induction es arbitrary: m) (auto simp: ordered_map_put)

lemma finite_values_put:
  "\<forall>(k, N)\<in>set m. finite N \<Longrightarrow> finite M \<Longrightarrow> \<forall>(k, N)\<in>set (map_put v M m). finite N"
  by (induction v M m rule: map_put.induct) auto

lemma finite_toLocalSubGraphMap:
  "\<forall>(k, N)\<in>set m. finite N \<Longrightarrow> \<forall>(k, N)\<in>set (toLocalSubGraphMap es m). finite N"
  unfolding toLocalSubGraphMap_def
proof (induction es arbitrary: m)
  case (Cons e es)
  then show ?case using finite_values_put [OF Cons.prems, of "set (snd e)" "fst e"] by (simp add: case_prod_beta)
qed simp

lemma map_out_degrees: "ordered m \<Longrightarrow> map_out_degrees m = map (\<lambda>(v, N). (v, int (card N))) m"
  using fold_map_put [of "[]" "\<lambda>N. int (card N)" m] by (simp add: map_out_degrees_def ordered_map_values)

text \<open>The map as a triangle count sees it: every hash set in its order of enumeration.\<close>

definition enumerated :: "(int set \<Rightarrow> int list) \<Rightarrow> edge_map \<Rightarrow> adjacency" where
  "enumerated enum m = map_of (map (\<lambda>(v, N). (v, enum N)) m)"

definition edge_map_ok :: "edge_map \<Rightarrow> bool" where
  "edge_map_ok m \<longleftrightarrow> ordered m \<and> (\<forall>(k, N)\<in>set m. finite N)"

lemma edge_map_ok_Nil [simp]: "edge_map_ok []"
  by (simp add: edge_map_ok_def ordered_def)

lemma edge_map_ok_load: "edge_map_ok m \<Longrightarrow> edge_map_ok (toLocalSubGraphMap es m)"
  using finite_toLocalSubGraphMap [of m es] unfolding edge_map_ok_def by (blast intro: ordered_toLocalSubGraphMap)

lemma enumerated_entry:
  assumes "edge_map_ok m" "(v, N) \<in> set m"
  shows "neighbours (enumerated enum m) v = enum N"
proof -
  have "distinct (map fst (map (\<lambda>(v, N). (v, enum N)) m))"
    using assms(1) ordered_distinct unfolding edge_map_ok_def by (metis ordered_map_values)
  moreover have "(v, enum N) \<in> set (map (\<lambda>(v, N). (v, enum N)) m)" using assms(2) by force
  ultimately show ?thesis by (simp add: enumerated_def neighbours_def)
qed

lemma enumerated_absent: "v \<notin> fst ` set m \<Longrightarrow> neighbours (enumerated enum m) v = []"
proof -
  assume "v \<notin> fst ` set m"
  then have "map_of (map (\<lambda>(v, N). (v, enum N)) m) v = None"
    by (auto simp: map_of_eq_None_iff case_prod_beta image_image)
  then show ?thesis by (simp add: enumerated_def neighbours_def)
qed

definition links :: "edge_map \<Rightarrow> int \<Rightarrow> int set" where
  "links m v = \<Union> {N. (v, N) \<in> set m}"

lemma links_entry: "edge_map_ok m \<Longrightarrow> (v, N) \<in> set m \<Longrightarrow> links m v = N"
  using ordered_distinct [of m] eq_key_imp_eq_value [of m v]
  by (auto simp: links_def edge_map_ok_def)

lemma links_lookup:
  assumes "edge_map_ok m"
  shows "links m v = (case map_of m v of None \<Rightarrow> {} | Some N \<Rightarrow> N)"
proof (cases "map_of m v")
  case None
  then have "(v, N) \<notin> set m" for N by (metis map_of_eq_None_iff fst_conv imageI)
  with None show ?thesis by (simp add: links_def)
next
  case (Some N)
  with links_entry [OF assms map_of_SomeD [OF Some]] show ?thesis by simp
qed

lemma finite_links: "edge_map_ok m \<Longrightarrow> finite (links m v)"
  by (auto simp: links_lookup edge_map_ok_def dest: map_of_SomeD split: option.splits)

lemma enumerated_links:
  assumes "edge_map_ok m" "enumerates enum"
  shows "set (neighbours (enumerated enum m) v) = links m v"
proof (cases "v \<in> fst ` set m")
  case True
  then obtain N where N: "(v, N) \<in> set m" by force
  then have "finite N" using assms(1) by (auto simp: edge_map_ok_def)
  then show ?thesis
    using assms(2) by (simp add: enumerated_entry [OF assms(1) N] links_entry [OF assms(1) N] enumerates_def)
next
  case False
  then have "(v, N) \<notin> set m" for N by (metis fst_conv imageI)
  with False show ?thesis by (simp add: enumerated_absent links_def)
qed

lemma store_data_enumerated:
  assumes "edge_map_ok m" "enumerates enum"
  shows "store_data (enumerated enum m, map_out_degrees m)"
proof -
  have d: "map_out_degrees m = map (\<lambda>(v, N). (v, int (card N))) m"
    using assms(1) by (simp add: edge_map_ok_def map_out_degrees)
  have "sorted_keys (map_out_degrees m)"
    using assms(1) unfolding d sorted_keys_def edge_map_ok_def
    by (simp only: ordered_def [symmetric] ordered_map_values)
  moreover have "int (card (set (neighbours (enumerated enum m) v))) \<le> c" if vc: "(v, c) \<in> set (map_out_degrees m)" for v c
  proof -
    obtain N where N: "(v, N) \<in> set m" "c = int (card N)" using vc unfolding d by auto
    then have "finite N" using assms(1) by (auto simp: edge_map_ok_def)
    with N assms(2) show ?thesis by (simp add: enumerated_entry [OF assms(1) N(1)] enumerates_def)
  qed
  moreover have "v \<in> fst ` set (map_out_degrees m)" if "neighbours (enumerated enum m) v \<noteq> []" for v
    using that enumerated_absent [of v m enum] unfolding d by (force simp: image_iff)
  ultimately show ?thesis by (auto simp: store_data_def)
qed

subsection \<open>The contract\<close>

text \<open>\<open>file_edges\<close> relates a file to the edge map that it holds; a missing file holds the empty map.\<close>

definition file_edges :: "fb_ops \<Rightarrow> file_system \<Rightarrow> string \<Rightarrow> edge_map \<Rightarrow> bool" where
  "file_edges fb fs path m \<longleftrightarrow>
     (case fs path of
        None \<Rightarrow> m = []
      | Some f \<Rightarrow> length f < 2 ^ 31 \<and> (\<exists>es. part_decode fb f = Some es \<and> m = toLocalSubGraphMap es []))"

lemma file_edges_ok: "file_edges fb fs path m \<Longrightarrow> edge_map_ok m"
  by (auto simp: file_edges_def edge_map_ok_load split: option.splits)

lemma file_edges_stored:
  assumes "part_decode fb (part_encode fb em) = Some em" "ordered em" "length (part_encode fb em) < 2 ^ 31"
  shows "file_edges fb (snd (storePartEdgeMap fb em path fs)) path (map (\<lambda>(k, v). (k, set v)) em)"
  using assms by (simp add: file_edges_def storePartEdgeMap_def toLocalSubGraphMap_fresh)

lemma read_whole_small:
  assumes "length f < 2 ^ 31"
  shows "read_whole f = Some f"
proof -
  have "sint (word_of_nat (length f) :: 32 word) = int (length f)"
    using assms by (simp add: signed_of_nat signed_take_bit_int_eq_self)
  then show ?thesis by (simp add: read_whole_def)
qed

locale graph_store =
  fixes path :: "'s \<Rightarrow> string"
    and load_graph :: "fb_ops \<Rightarrow> file_system \<Rightarrow> 's \<Rightarrow> (bool \<times> 's) option"
    and edges :: "'s \<Rightarrow> edge_map"
    and out_degrees :: "'s \<Rightarrow> (int \<times> int) list"
    and add_edge :: "int \<Rightarrow> int \<Rightarrow> 's \<Rightarrow> 's"
    and vertex_count :: "'s \<Rightarrow> int"
  assumes load_absent: "fs (path st) = None \<Longrightarrow> load_graph fb fs st = Some (False, st)"
    and load_present: "fs (path st) = Some f \<Longrightarrow> length f < 2 ^ 31 \<Longrightarrow> part_decode fb f = Some es \<Longrightarrow>
      \<exists>st'. load_graph fb fs st = Some (True, st') \<and> edges st' = toLocalSubGraphMap es (edges st) \<and>
        vertex_count st' = int (length (edges st'))"
    and degrees: "out_degrees st = map_out_degrees (edges st)"
    and add_new: "v \<notin> fst ` set (edges st) \<Longrightarrow> add_edge v w st = st"
    and add_known: "(v, N) \<in> set (edges st) \<Longrightarrow> edge_map_ok (edges st) \<Longrightarrow>
      edges (add_edge v w st) = map_put v (insert w N) (edges st)"
begin

lemma load_file:
  assumes "file_edges fb fs (path st) m" "edges st = []"
  shows "\<exists>ok st'. load_graph fb fs st = Some (ok, st') \<and> edges st' = m \<and> ok = (fs (path st) \<noteq> None)"
  using assms load_absent [of fs st fb] load_present [of fs st]
  by (cases "fs (path st)") (fastforce simp: file_edges_def)+

lemma counting_data:
  assumes "edge_map_ok (edges st)" "enumerates enum"
  shows "store_data (enumerated enum (edges st), out_degrees st)"
  unfolding degrees by (rule store_data_enumerated [OF assms])

lemma add_keeps:
  assumes "edge_map_ok (edges st)"
  shows "edge_map_ok (edges (add_edge v w st)) \<and> map fst (edges (add_edge v w st)) = map fst (edges st)"
proof (cases "v \<in> fst ` set (edges st)")
  case True
  then obtain N where N: "(v, N) \<in> set (edges st)" by force
  have "map fst (map_put v M m) = map fst m" if "ordered m" "v \<in> fst ` set m" for M :: "int set" and m
    using that by (induction v M m rule: map_put.induct) (auto simp: ordered_def)
  moreover have "finite N" using assms N by (auto simp: edge_map_ok_def)
  ultimately show ?thesis
    using assms True finite_values_put [of "edges st" "insert w N" v]
    unfolding add_known [OF N assms] edge_map_ok_def by (blast intro: ordered_map_put)
qed (simp add: add_new assms)

end

lemma add_of_absent: "v \<notin> fst ` set (subGraphMap st) \<Longrightarrow> HashStore_addEdge v w st = st"
  by (simp add: HashStore_addEdge_def iffD2 [OF map_of_eq_None_iff])

lemma add_of_present:
  assumes "(v, N) \<in> set (subGraphMap st)" "edge_map_ok (subGraphMap st)"
  shows "subGraphMap (HashStore_addEdge v w st) = map_put v (insert w N) (subGraphMap st)"
proof -
  have "map_of (subGraphMap st) v = Some N"
    using assms by (auto simp: edge_map_ok_def dest: ordered_distinct)
  then show ?thesis by (simp add: HashStore_addEdge_def)
qed

lemma load_edges_present:
  assumes "fs p = Some f" "length f < 2 ^ 31" "part_decode fb f = Some es"
  shows "\<exists>st'. load_edges fb fs p st = Some (True, st') \<and> subGraphMap st' = toLocalSubGraphMap es (subGraphMap st) \<and>
    hs_vertexCount st' = int (length (subGraphMap st'))"
  using assms by (simp add: load_edges_def read_whole_small getEdgeCount_def Let_def)

lemma load_edges_absent: "fs p = None \<Longrightarrow> load_edges fb fs p st = Some (False, st)"
  by (simp add: load_edges_def)

lemmas store_contract = load_edges_absent load_edges_present add_of_absent add_of_present
  getOutDegreeDistributionHashMap_def getUnderlyingHashMap_def

interpretation local_edges: graph_store LocalStore_path LocalStore_loadGraph getUnderlyingHashMap
  getOutDegreeDistributionHashMap HashStore_addEdge hs_vertexCount
  by unfold_locales (auto simp: LocalStore_loadGraph_def store_contract)

interpretation central_edges: graph_store CentralStore_path CentralStore_loadGraph getUnderlyingHashMap
  getOutDegreeDistributionHashMap HashStore_addEdge hs_vertexCount
  by unfold_locales (auto simp: CentralStore_loadGraph_def store_contract)

interpretation duplicate_edges: graph_store DuplicateCentralStore_path DuplicateCentralStore_loadGraph getUnderlyingHashMap
  getOutDegreeDistributionHashMap HashStore_addEdge hs_vertexCount
  by unfold_locales (auto simp: DuplicateCentralStore_loadGraph_def store_contract)

subsection \<open>Claims\<close>

lemma getEdgeCount_loaded:
  assumes "load_edges fb fs p st = Some (True, st')"
  shows "hs_edgeCount st' = (if hs_edgeCount st = 0 then map_sizes (subGraphMap st') else hs_edgeCount st)"
  using assms by (auto simp: load_edges_def getEdgeCount_def Let_def split: option.splits Option.bind_splits)

lemma map_sizes_sets: "map_sizes (map (\<lambda>(k, v). (k, set v)) em) = sum_list (map (\<lambda>(k, v). int (card (set v))) em)"
  by (induction em) (auto simp: map_sizes_def)

text \<open>C31. What \<^verbatim>\<open>storePartEdgeMap\<close> writes, \<^verbatim>\<open>loadGraph\<close> of each of the three stores reads back into a new store:
  the sets of the edge map under the same keys. The vertex count is the number of keys, and for the
  central stores the edge count is the number of distinct edges. Decoding gives back the encoded
  entries, and the file has less than 2^31 bytes.\<close>

theorem store_load_roundtrip:
  fixes junk folder g p
  defines "l \<equiv> LocalStore_new junk g p folder" and "c \<equiv> CentralStore_new folder g p"
  assumes "part_decode fb (part_encode fb em) = Some em" "ordered em" "length (part_encode fb em) < 2 ^ 31"
  shows "\<exists>ls cs ds.
    LocalStore_loadGraph fb (snd (storePartEdgeMap fb em (LocalStore_path l) fs)) l = Some (True, ls) \<and>
    CentralStore_loadGraph fb (snd (CentralStore_storePartEdgeMap fb em (CentralStore_path c) fs)) c = Some (True, cs) \<and>
    DuplicateCentralStore_loadGraph fb (snd (DuplicateCentralStore_storePartEdgeMap fb em (DuplicateCentralStore_path c) fs)) c =
      Some (True, ds) \<and>
    getUnderlyingHashMap ls = map (\<lambda>(k, v). (k, set v)) em \<and> getUnderlyingHashMap cs = map (\<lambda>(k, v). (k, set v)) em \<and>
    getUnderlyingHashMap ds = map (\<lambda>(k, v). (k, set v)) em \<and>
    hs_vertexCount ls = int (length em) \<and> hs_vertexCount cs = int (length em) \<and> hs_vertexCount ds = int (length em) \<and>
    fst (getEdgeCount cs) = sum_list (map (\<lambda>(k, v). int (card (set v))) em) \<and>
    fst (getEdgeCount ds) = sum_list (map (\<lambda>(k, v). int (card (set v))) em)"
proof -
  have read: "\<exists>st'. load_edges fb (fs(q \<mapsto> part_encode fb em)) q st = Some (True, st') \<and> subGraphMap st' = map (\<lambda>(k, v). (k, set v)) em \<and>
      hs_vertexCount st' = int (length em)" if "subGraphMap st = []" for q and st :: "'b hash_store_scheme"
    using load_edges_present [of "fs(q \<mapsto> part_encode fb em)" q "part_encode fb em" fb em st] assms(3-5) that
    by (auto simp: toLocalSubGraphMap_fresh)
  have empty: "subGraphMap l = []" "subGraphMap c = []" "hs_edgeCount c = 0"
    by (simp_all add: l_def c_def LocalStore_new_def CentralStore_new_def)
  have count: "fst (getEdgeCount st') = map_sizes (subGraphMap st')"
    if "load_edges fb fs' q c = Some (True, st')" for fs' q st'
    using getEdgeCount_loaded [OF that] empty(3) by (simp add: getEdgeCount_def Let_def)
  show ?thesis
    using read [OF empty(1), of "LocalStore_path l"] read [OF empty(2), of "CentralStore_path c"]
      read [OF empty(2), of "DuplicateCentralStore_path c"] count map_sizes_sets [of em]
    unfolding LocalStore_loadGraph_def CentralStore_loadGraph_def DuplicateCentralStore_loadGraph_def storePartEdgeMap_def
      CentralStore_storePartEdgeMap_def DuplicateCentralStore_storePartEdgeMap_def getUnderlyingHashMap_def snd_conv
    by metis
qed

text \<open>A codec for small numbers: every entry is its key and its values, a byte each, and ends with the byte 255.\<close>

definition tiny_encode :: "(int \<times> int list) list \<Rightarrow> bytes" where
  "tiny_encode es = concat (map (\<lambda>(k, vs). map (\<lambda>x. char_of (nat x)) (k # vs) @ [CHR 0xFF]) es)"

fun tiny_decode :: "int list \<Rightarrow> bytes \<Rightarrow> (int \<times> int list) list option" where
  "tiny_decode entry [] = (if entry = [] then Some [] else None)"
| "tiny_decode entry (c # cs) =
     (if c = CHR 0xFF
      then (case entry of [] \<Rightarrow> None | k # vs \<Rightarrow> map_option ((#) (k, vs)) (tiny_decode [] cs))
      else tiny_decode (entry @ [of_char c]) cs)"

definition tiny_fb :: fb_ops where
  "tiny_fb = \<lparr>part_encode = tiny_encode, part_decode = tiny_decode [], edge_encode = tiny_encode,
     attr_encode = (\<lambda>es. []), attr_decode = (\<lambda>bs. Some [])\<rparr>"

definition blank_store :: local_store where
  "blank_store = \<lparr>hs_graphId = 0, hs_partitionId = 0, instanceDataFolderLocation = [], subGraphMap = [], hs_vertexCount = 0,
     hs_edgeCount = 77, localAttributeMap = [], edgeMap = []\<rparr>"

definition tiny_edges :: "(int \<times> int list) list" where
  "tiny_edges = [(1, [2, 3, 2]), (2, [3])]"

lemma tiny_roundtrip:
  "part_decode tiny_fb (part_encode tiny_fb tiny_edges) = Some tiny_edges" "ordered tiny_edges"
  "length (part_encode tiny_fb tiny_edges) < 2 ^ 31"
proof -
  show "part_decode tiny_fb (part_encode tiny_fb tiny_edges) = Some tiny_edges" by code_simp
  show "ordered tiny_edges" by code_simp
  show "length (part_encode tiny_fb tiny_edges) < 2 ^ 31" by (simp add: tiny_fb_def tiny_encode_def tiny_edges_def)
qed

theorem store_load_roundtrip_witness:
  "\<exists>cs. CentralStore_loadGraph tiny_fb
      (snd (CentralStore_storePartEdgeMap tiny_fb tiny_edges (CentralStore_path (CentralStore_new ''d'' 4 0)) Map.empty))
      (CentralStore_new ''d'' 4 0) = Some (True, cs) \<and>
    getUnderlyingHashMap cs = [(1, {2, 3}), (2, {3})] \<and> fst (getEdgeCount cs) = 3"
proof -
  have "map (\<lambda>(k, v). (k, set v)) tiny_edges = [(1, {2, 3}), (2, {3})]"
    "sum_list (map (\<lambda>(k, v). int (card (set v))) tiny_edges) = 3"
    by (auto simp: tiny_edges_def insert_commute)
  with store_load_roundtrip [OF tiny_roundtrip, of blank_store 4 0 "''d''" Map.empty] show ?thesis
    by metis
qed

text \<open>The local store does not initialise its edge counter: after loading a file, \<^verbatim>\<open>getEdgeCount\<close> returns
  whatever non-zero value the storage of the object held, not the number of edges of the file.\<close>

theorem local_edge_count_is_junk:
  assumes "LocalStore_loadGraph fb fs (LocalStore_new junk g p folder) = Some (True, st)" "hs_edgeCount junk \<noteq> 0"
  shows "fst (getEdgeCount st) = hs_edgeCount junk"
  using getEdgeCount_loaded [OF assms(1) [unfolded LocalStore_loadGraph_def]] assms(2)
  by (simp add: LocalStore_new_def getEdgeCount_def Let_def)

theorem local_edge_count_is_junk_witness:
  "\<exists>st. LocalStore_loadGraph tiny_fb [''d/4_0'' \<mapsto> tiny_encode tiny_edges] (LocalStore_new blank_store 4 0 ''d'') = Some (True, st) \<and>
     fst (getEdgeCount st) = 77 \<and> map_sizes (subGraphMap st) = 3"
proof -
  let ?r = "LocalStore_loadGraph tiny_fb [''d/4_0'' \<mapsto> tiny_encode tiny_edges] (LocalStore_new blank_store 4 0 ''d'')"
  have r: "?r = Some (True, snd (the ?r))" "map_sizes (subGraphMap (snd (the ?r))) = 3" by code_simp+
  have "hs_edgeCount blank_store \<noteq> 0" by (simp add: blank_store_def)
  from local_edge_count_is_junk [OF r(1) this] r show ?thesis by (auto simp: blank_store_def)
qed

end
