(* ===== verification/Hash_Degrees.thy ===== *)
theory Hash_Degrees
  imports Hash_Contract
begin

text \<open>
  The degree tables of the hash map stores: the in-degrees that \<^verbatim>\<open>getInDegreeDistributionHashMap\<close> sums up
  entry by entry are those of the stored edges, and both tables add up to the number of edges.
\<close>

lemma map_plus_lookup:
  assumes "sorted_keys dist"
  shows "map_of (map_plus k n dist) = (map_of dist)(k \<mapsto> n + (case map_of dist k of None \<Rightarrow> 0 | Some m \<Rightarrow> m))"
  using assms
proof (induction k n dist rule: map_plus.induct)
  case (2 k n k' m xs)
  have "k \<le> k' \<Longrightarrow> map_of xs k = None" using 2(2) by (auto simp: sorted_keys_def map_of_eq_None_iff)
  with 2 show ?case by (auto simp: sorted_keys_def fun_eq_iff)
qed simp

lemma map_plus_sum: "sum_list (map snd (map_plus k n dist)) = n + sum_list (map snd dist)"
  by (induction k n dist rule: map_plus.induct) auto

definition entry :: "(int \<times> int) list \<Rightarrow> int \<Rightarrow> int" where
  "entry dist w = (case map_of dist w of None \<Rightarrow> 0 | Some c \<Rightarrow> c)"

definition counts :: "(int \<times> int) list \<Rightarrow> bool" where
  "counts dist \<longleftrightarrow> sorted_keys dist \<and> (\<forall>w. map_of dist w \<noteq> Some 0 \<and> entry dist w \<ge> 0)"

lemma count_one:
  assumes "counts dist"
  shows "counts (map_plus w 1 dist)" "entry (map_plus w 1 dist) x = entry dist x + (if x = w then 1 else 0)"
proof -
  have l: "map_of (map_plus w 1 dist) = (map_of dist)(w \<mapsto> 1 + entry dist w)"
    using assms by (simp add: counts_def map_plus_lookup entry_def)
  then show e: "entry (map_plus w 1 dist) x = entry dist x + (if x = w then 1 else 0)" for x by (simp add: entry_def)
  have "entry dist w \<ge> 0" using assms by (simp add: counts_def)
  then have "1 + entry dist w \<noteq> 0" by linarith
  with assms show "counts (map_plus w 1 dist)"
    unfolding counts_def [of "map_plus w 1 dist"] e l by (auto simp: counts_def sorted_map_plus)
qed

lemma count_set:
  assumes "counts dist" "distinct ws"
  shows "counts (fold (\<lambda>w dist. map_plus w 1 dist) ws dist)"
    "entry (fold (\<lambda>w dist. map_plus w 1 dist) ws dist) x = entry dist x + (if x \<in> set ws then 1 else 0)"
    "sum_list (map snd (fold (\<lambda>w dist. map_plus w 1 dist) ws dist)) = sum_list (map snd dist) + int (length ws)"
  using assms by (induction ws arbitrary: dist) (auto simp: count_one map_plus_sum)

lemma count_map:
  assumes "counts dist" "enumerates enum" "\<forall>(v, N)\<in>set m. finite N"
  defines "r \<equiv> fold (\<lambda>(v, N) dist. fold (\<lambda>w dist. map_plus w 1 dist) (enum N) dist) m dist"
  shows "counts r \<and> entry r x = entry dist x + int (length (filter (\<lambda>(v, N). x \<in> N) m)) \<and>
    sum_list (map snd r) = sum_list (map snd dist) + map_sizes m"
  using assms(1,3) unfolding r_def
proof (induction m arbitrary: dist)
  case (Cons e m)
  obtain v N where e: "e = (v, N)" by fastforce
  have N: "set (enum N) = N" "distinct (enum N)" "length (enum N) = card N"
    using assms(2) Cons.prems(2) by (auto simp: e enumerates_def distinct_card [symmetric])
  note one = count_set [OF Cons.prems(1) N(2)]
  from Cons.IH [OF one(1)] Cons.prems(2) show ?case by (simp add: e one N map_sizes_def)
qed (simp add: map_sizes_def)

lemma filter_links:
  assumes "edge_map_ok m"
  shows "length (filter (\<lambda>(v, N). x \<in> N) m) = card {v. x \<in> links m v}"
proof -
  let ?f = "filter (\<lambda>(v, N). x \<in> N) m"
  have "distinct (map fst ?f)"
    using assms ordered_distinct [of m] by (simp add: edge_map_ok_def distinct_map_filter)
  then have "length ?f = card (set (map fst ?f))" by (metis distinct_card length_map)
  moreover have "set (map fst ?f) = {v. x \<in> links m v}" by (force simp: links_def)
  ultimately show ?thesis by simp
qed

lemma out_degree_sum: "sum_list (map snd (map (\<lambda>(v, N). (v, int (card N))) m)) = map_sizes m"
  by (induction m) (auto simp: map_sizes_def)

text \<open>\<^verbatim>\<open>getInDegreeDistributionHashMap\<close> gives every vertex with an incoming edge the number of its
  predecessors and leaves the others out, whatever the order of the hash sets; the in-degrees and
  the out-degrees both add up to the number of stored edges.\<close>

theorem in_degrees_exact:
  assumes "edge_map_ok (getUnderlyingHashMap st)" "enumerates enum"
  shows "map_of (getInDegreeDistributionHashMap enum st) w =
      (if \<exists>v. w \<in> links (getUnderlyingHashMap st) v then Some (int (card {v. w \<in> links (getUnderlyingHashMap st) v})) else None) \<and>
    sum_list (map snd (getInDegreeDistributionHashMap enum st)) = map_sizes (getUnderlyingHashMap st) \<and>
    sum_list (map snd (getOutDegreeDistributionHashMap st)) = map_sizes (getUnderlyingHashMap st)"
proof -
  let ?m = "subGraphMap st" and ?r = "getInDegreeDistributionHashMap enum st"
  have m: "edge_map_ok ?m" using assms(1) by (simp add: getUnderlyingHashMap_def)
  have "counts []" by (simp add: counts_def sorted_keys_def entry_def)
  from count_map [OF this assms(2), of ?m w] m
  have r: "counts ?r" "entry ?r w = int (card {v. w \<in> links ?m v})" "sum_list (map snd ?r) = map_sizes ?m"
    by (simp_all add: edge_map_ok_def getInDegreeDistributionHashMap_def filter_links [OF m] entry_def)
  have "finite (fst ` set ?m)" by simp
  moreover have "{v. w \<in> links ?m v} \<subseteq> fst ` set ?m" by (force simp: links_def)
  ultimately have "finite {v. w \<in> links ?m v}" by (rule rev_finite_subset)
  then have "entry ?r w = 0 \<longleftrightarrow> \<not> (\<exists>v. w \<in> links ?m v)" unfolding r(2) by auto
  moreover have "map_of ?r w \<noteq> Some 0" using r(1) by (simp add: counts_def)
  ultimately have "map_of ?r w = (if \<exists>v. w \<in> links ?m v then Some (int (card {v. w \<in> links ?m v})) else None)"
    using r(2) unfolding entry_def by (auto split: option.splits)
  moreover have "sum_list (map snd (getOutDegreeDistributionHashMap st)) = map_sizes ?m"
    using m unfolding edge_map_ok_def getOutDegreeDistributionHashMap_def by (simp only: map_out_degrees out_degree_sum)
  ultimately show ?thesis using r(3) by (simp add: getUnderlyingHashMap_def)
qed

theorem in_degrees_exact_witness:
  "map_of (getInDegreeDistributionHashMap sorted_list_of_set (CentralStore_default\<lparr>subGraphMap := [(1, {2, 3}), (2, {3})]\<rparr>)) 3 = Some 2 \<and>
   map_of (getInDegreeDistributionHashMap sorted_list_of_set (CentralStore_default\<lparr>subGraphMap := [(1, {2, 3}), (2, {3})]\<rparr>)) 1 = None"
proof -
  let ?st = "CentralStore_default\<lparr>subGraphMap := [(1, {2, 3}), (2, {3})]\<rparr>"
  have ok: "edge_map_ok (getUnderlyingHashMap ?st)"
    by (simp add: getUnderlyingHashMap_def edge_map_ok_def ordered_def)
  have l: "links (getUnderlyingHashMap ?st) v = (if v = 1 then {2, 3} else if v = 2 then {3} else {})" for v
    by (auto simp: getUnderlyingHashMap_def links_def)
  have "{v. 3 \<in> links (getUnderlyingHashMap ?st) v} = {1, 2}" "\<not> (\<exists>v. 1 \<in> links (getUnderlyingHashMap ?st) v)"
    unfolding l by (auto split: if_splits)
  moreover have "card {1, 2 :: int} = 2" by simp
  moreover have "\<exists>v. 3 \<in> links (getUnderlyingHashMap ?st) v" by (rule exI [of _ 1]) (simp add: l)
  ultimately show ?thesis
    using in_degrees_exact [OF ok enumerates_sorted, of 3] in_degrees_exact [OF ok enumerates_sorted, of 1] by simp
qed

end
