(* ===== verification/Schedules.thy ===== *)
theory Schedules
  imports Main
begin

text \<open>
  Programs with several threads as transition systems: an event is what one thread does next, and a
  step function gives the configuration after it, or \<^const>\<open>None\<close> if the event cannot happen. The locale
  \<open>scheduled\<close> is the argument that a system always finishes, whatever the scheduler does: an
  invariant, a number that every counted event makes smaller, and a description of the
  configurations in which no counted event can happen.
\<close>

fun run_events :: "('e \<Rightarrow> 'c \<Rightarrow> 'c option) \<Rightarrow> 'e list \<Rightarrow> 'c \<Rightarrow> 'c option" where
  "run_events f [] cf = Some cf"
| "run_events f (e # es) cf = (case f e cf of None \<Rightarrow> None | Some cf' \<Rightarrow> run_events f es cf')"

inductive reaches :: "('e \<Rightarrow> 'c \<Rightarrow> 'c option) \<Rightarrow> 'c \<Rightarrow> 'c \<Rightarrow> bool" for f where
  refl: "reaches f cf cf"
| step: "reaches f cf cf' \<Longrightarrow> f e cf' = Some cf'' \<Longrightarrow> reaches f cf cf''"

lemma run_events_reaches: "run_events f es cf = Some cf' \<Longrightarrow> reaches f cf0 cf \<Longrightarrow> reaches f cf0 cf'"
  by (induction es arbitrary: cf) (auto split: option.splits intro: reaches.intros)

locale scheduled =
  fixes f :: "'e \<Rightarrow> 'c \<Rightarrow> 'c option"
    and initial :: "'c \<Rightarrow> bool"
    and counted :: "'e \<Rightarrow> bool"
    and inv :: "'c \<Rightarrow> 'c \<Rightarrow> bool"
    and work :: "'c \<Rightarrow> nat"
    and finished :: "'c \<Rightarrow> 'c \<Rightarrow> bool"
  assumes inv_start: "initial c0 \<Longrightarrow> inv c0 c0"
    and inv_step: "inv c0 cf \<Longrightarrow> f e cf = Some cf' \<Longrightarrow> inv c0 cf'"
    and work_step: "inv c0 cf \<Longrightarrow> counted e \<Longrightarrow> f e cf = Some cf' \<Longrightarrow> work cf' < work cf"
    and progress: "inv c0 cf \<Longrightarrow> (\<And>e. counted e \<Longrightarrow> f e cf = None) \<Longrightarrow> finished c0 cf"
begin

lemma reachable_inv:
  assumes "reaches f c0 cf" "initial c0"
  shows "inv c0 cf"
  using assms by (induction rule: reaches.induct) (auto intro: inv_start inv_step)

lemma stuck_is_finished:
  assumes "reaches f c0 cf" "initial c0" "\<And>e. counted e \<Longrightarrow> f e cf = None"
  shows "finished c0 cf"
  using progress [OF reachable_inv [OF assms(1,2)]] assms(3) by blast

lemma run_bound:
  assumes "inv c0 cf" "run_events f es cf = Some cf'" "\<And>e. e \<in> set es \<Longrightarrow> counted e"
  shows "length es + work cf' \<le> work cf"
  using assms
proof (induction es arbitrary: cf)
  case (Cons e es)
  then obtain cf1 where cf1: "f e cf = Some cf1" "run_events f es cf1 = Some cf'"
    by (auto split: option.splits)
  with Cons.IH [OF inv_step [OF Cons.prems(1)]] work_step [OF Cons.prems(1)] Cons.prems(3) show ?case by fastforce
qed simp

lemma runs_are_bounded:
  assumes "initial c0" "run_events f es c0 = Some cf" "\<And>e. e \<in> set es \<Longrightarrow> counted e"
  shows "length es \<le> work c0"
  using run_bound [OF inv_start [OF assms(1)] assms(2,3)] by simp

end

end
