(* ===== verification/Dialogue.thy ===== *)
theory Dialogue
  imports Schedules Cpp_Numbers
begin

text \<open>
  Conversations over a stream socket. A process sends texts and waits for bytes; two processes are
  linked by two byte buffers. \<^verbatim>\<open>send\<close> appends to the buffer of the other side, so that an empty text adds
  nothing, and \<^verbatim>\<open>recv\<close> waits until there is a byte and takes what has arrived, at most
  \<^verbatim>\<open>INSTANCE_DATA_LENGTH\<close> bytes of it; after the other side has closed the connection it returns nothing
  at once. Either side may move whenever it can. The function \<open>outcome\<close> follows a conversation in
  which the sides strictly take turns, and then no schedule can lead anywhere else
  (\<open>outcome_of_every_schedule\<close>). Segments are not split: bytes sent by one call arrive together.
\<close>

subsection \<open>Processes and links\<close>

text \<open>\<open>Aborted\<close> is a process that died of an uncaught exception, \<open>Looping\<close> one that runs on without
  sending or receiving.\<close>

datatype 'a proc = Done 'a | Aborted | Looping | Send string "'a proc" | Recv "string \<Rightarrow> 'a proc"

definition INSTANCE_DATA_LENGTH :: nat where
  "INSTANCE_DATA_LENGTH = 300"

definition read_str_wrapper :: "(string \<Rightarrow> 'a proc) \<Rightarrow> 'a proc" where
  "read_str_wrapper k = Recv (\<lambda>buf. k (takeWhile (\<lambda>c. c \<noteq> CHR 0x00) buf))"

definition trim_right_copy :: "string \<Rightarrow> string" where
  "trim_right_copy s = rev (dropWhile is_space (rev s))"

definition trim_left_copy :: "string \<Rightarrow> string" where
  "trim_left_copy s = dropWhile is_space s"

definition trim_copy :: "string \<Rightarrow> string" where
  "trim_copy s = trim_left_copy (trim_right_copy s)"

definition read_str_trim_wrapper :: "(string \<Rightarrow> 'a proc) \<Rightarrow> 'a proc" where
  "read_str_trim_wrapper k = read_str_wrapper (\<lambda>s. k (if s \<noteq> [] then trim_copy s else s))"

record ('a, 'b) link =
  client :: "'a proc"
  server :: "'b proc"
  to_server :: string
  to_client :: string

datatype side = Client | Server

fun closed :: "'a proc \<Rightarrow> bool" where
  "closed (Done _) = True"
| "closed Aborted = True"
| "closed _ = False"

text \<open>What a process does next: the process after it, the bytes it has sent and the bytes left to read.\<close>

fun move :: "'a proc \<Rightarrow> bool \<Rightarrow> string \<Rightarrow> ('a proc \<times> string \<times> string) option" where
  "move (Send s p) other_closed inbox = Some (p, s, inbox)"
| "move (Recv f) other_closed inbox =
     (if inbox = [] \<and> \<not> other_closed then None
      else Some (f (take INSTANCE_DATA_LENGTH inbox), [], drop INSTANCE_DATA_LENGTH inbox))"
| "move _ _ _ = None"

fun link_step :: "side \<Rightarrow> ('a, 'b) link \<Rightarrow> ('a, 'b) link option" where
  "link_step Client l =
     map_option (\<lambda>(p, out, inbox). l\<lparr>client := p, to_server := to_server l @ out, to_client := inbox\<rparr>)
       (move (client l) (closed (server l)) (to_client l))"
| "link_step Server l =
     map_option (\<lambda>(p, out, inbox). l\<lparr>server := p, to_client := to_client l @ out, to_server := inbox\<rparr>)
       (move (server l) (closed (client l)) (to_server l))"

subsection \<open>Conversations end\<close>

definition subproc :: "('a proc \<times> 'a proc) set" where
  "subproc = {(q, p). (\<exists>s. p = Send s q) \<or> (\<exists>f. p = Recv f \<and> q \<in> range f)}"

lemma wf_subproc: "wf subproc"
proof (rule wfUNIVI)
  fix P :: "'a proc \<Rightarrow> bool" and p
  assume step: "\<forall>p. (\<forall>q. (q, p) \<in> subproc \<longrightarrow> P q) \<longrightarrow> P p"
  show "P p"
    by (induction p; rule step [rule_format]) (auto simp: subproc_def)
qed

lemma move_subproc: "move p c inbox = Some (q, out, inbox') \<Longrightarrow> (q, p) \<in> subproc"
  by (cases "(p, c, inbox)" rule: move.cases) (auto simp: subproc_def split: if_splits)

definition link_order :: "(('a, 'b) link \<times> ('a, 'b) link) set" where
  "link_order = inv_image (subproc <*lex*> subproc) (\<lambda>l. (client l, server l))"

lemma wf_link_order: "wf link_order"
  unfolding link_order_def by (intro wf_inv_image wf_lex_prod wf_subproc)

lemma link_step_order: "link_step e l = Some l' \<Longrightarrow> (l', l) \<in> link_order"
  by (cases e) (auto simp: link_order_def dest: move_subproc)

function outcome :: "('a, 'b) link \<Rightarrow> ('a, 'b) link option" where
  "outcome l =
     (case (link_step Client l, link_step Server l) of
        (None, None) \<Rightarrow> Some l
      | (Some l', None) \<Rightarrow> outcome l'
      | (None, Some l') \<Rightarrow> outcome l'
      | (Some _, Some _) \<Rightarrow> None)"
  by pat_completeness auto
termination
  by (relation link_order) (auto simp: wf_link_order simp del: link_step.simps intro: link_step_order [OF sym])

declare outcome.simps [simp del]

text \<open>If the sides take turns, every schedule leads to the same end.\<close>

lemma outcome_step: "outcome l = Some l' \<Longrightarrow> link_step e l = Some l1 \<Longrightarrow> outcome l1 = Some l'"
  by (cases e) (auto simp: outcome.simps [of l] simp del: link_step.simps split: option.splits)

lemma outcome_of_every_schedule:
  assumes "outcome l = Some l'" "reaches link_step l l1"
  shows "outcome l1 = Some l'" and "(\<And>e. link_step e l1 = None) \<Longrightarrow> l1 = l'"
proof -
  show *: "outcome l1 = Some l'"
    using assms(2,1) by (induction rule: reaches.induct) (auto dest: outcome_step)
  show "l1 = l'" if "\<And>e. link_step e l1 = None"
    using * that by (simp add: outcome.simps [of l1] del: link_step.simps)
qed

text \<open>The end of a conversation that starts with nothing underway.\<close>

definition conversation :: "'a proc \<Rightarrow> 'b proc \<Rightarrow> ('a proc \<times> 'b proc) option" where
  "conversation c s = map_option (\<lambda>l. (client l, server l)) (outcome \<lparr>client = c, server = s, to_server = [], to_client = []\<rparr>)"

lemma outcome_moves:
  "link_step Client l = Some l' \<Longrightarrow> link_step Server l = None \<Longrightarrow> outcome l = outcome l'"
  "link_step Client l = None \<Longrightarrow> link_step Server l = Some l' \<Longrightarrow> outcome l = outcome l'"
  "link_step Client l = None \<Longrightarrow> link_step Server l = None \<Longrightarrow> outcome l = Some l"
  by (simp_all add: outcome.simps [of l] del: link_step.simps)

text \<open>A server that has closed the connection reads nothing any more.\<close>

lemma closed_unread:
  assumes "closed s"
  shows "map_option (\<lambda>l. (client l, server l)) (outcome \<lparr>client = c, server = s, to_server = x, to_client = y\<rparr>) =
    map_option (\<lambda>l. (client l, server l)) (outcome \<lparr>client = c, server = s, to_server = [], to_client = y\<rparr>)"
proof (induction c arbitrary: x y)
  case (Recv f)
  have stuck: "link_step Server \<lparr>client = Recv f, server = s, to_server = x, to_client = y\<rparr> = None" for x
    using assms by (cases s) simp_all
  have go: "outcome \<lparr>client = Recv f, server = s, to_server = x, to_client = y\<rparr> =
      outcome \<lparr>client = f (take INSTANCE_DATA_LENGTH y), server = s, to_server = x, to_client = drop INSTANCE_DATA_LENGTH y\<rparr>" for x
    using assms by (intro outcome_moves(1) stuck) simp
  show ?case unfolding go by (rule Recv.IH) simp
next
  case (Send m c)
  have stuck: "link_step Server \<lparr>client = Send m c, server = s, to_server = x, to_client = y\<rparr> = None" for x
    using assms by (cases s) simp_all
  have go: "outcome \<lparr>client = Send m c, server = s, to_server = x, to_client = y\<rparr> =
      outcome \<lparr>client = c, server = s, to_server = x @ m, to_client = y\<rparr>" for x
    by (intro outcome_moves(1) stuck) simp
  show ?case unfolding go using Send [of "x @ m" y] Send [of m y] by simp
qed (use assms in \<open>cases s; simp add: outcome.simps\<close>)+

named_theorems conversation_rules

lemma conversation_send [conversation_rules]:
  assumes "m \<noteq> []" "length m \<le> 300"
  shows "conversation (Send m (Recv f)) (Recv g) = conversation (Recv f) (g m)"
    and "conversation (Send m (Done a)) (Recv g) = conversation (Done a) (g m)"
proof -
  have t: "take INSTANCE_DATA_LENGTH m = m" "drop INSTANCE_DATA_LENGTH m = []" using assms(2) by (simp_all add: INSTANCE_DATA_LENGTH_def)
  show "conversation (Send m (Recv f)) (Recv g) = conversation (Recv f) (g m)"
    unfolding conversation_def by (subst outcome_moves(1), simp, simp, subst outcome_moves(2)) (simp_all add: assms(1) t)
  show "conversation (Send m (Done a)) (Recv g) = conversation (Done a) (g m)"
    unfolding conversation_def by (subst outcome_moves(1), simp, simp, subst outcome_moves(2)) (simp_all add: assms(1) t)
qed

lemma conversation_reply [conversation_rules]:
  assumes "m \<noteq> []" "length m \<le> 300"
  shows "conversation (Recv f) (Send m (Recv g)) = conversation (f m) (Recv g)"
    and "conversation (Recv f) (Send m (Done b)) = conversation (f m) (Done b)"
proof -
  have t: "take INSTANCE_DATA_LENGTH m = m" "drop INSTANCE_DATA_LENGTH m = []" using assms(2) by (simp_all add: INSTANCE_DATA_LENGTH_def)
  show "conversation (Recv f) (Send m (Recv g)) = conversation (f m) (Recv g)"
    unfolding conversation_def by (subst outcome_moves(2), simp, simp, subst outcome_moves(1)) (simp_all add: assms(1) t)
  show "conversation (Recv f) (Send m (Done b)) = conversation (f m) (Done b)"
    unfolding conversation_def by (subst outcome_moves(2), simp, simp, subst outcome_moves(1)) (simp_all add: assms(1) t)
qed

lemma conversation_end [conversation_rules]:
  "conversation (Done a) (Done b) = Some (Done a, Done b)"
  "conversation Aborted (Done b) = Some (Aborted, Done b)"
  "conversation (Recv f) (Done b) = conversation (f []) (Done b)"
  "conversation (Recv f) Aborted = conversation (f []) Aborted"
  "conversation (Done a) (Recv g) = conversation (Done a) (g [])"
  "conversation Looping (Recv g) = Some (Looping, Recv g)"
  by (simp_all add: conversation_def outcome.simps [where l = "\<lparr>client = Recv f, server = _, to_server = [], to_client = []\<rparr>"]
      outcome.simps [where l = "\<lparr>client = _, server = Done b, to_server = [], to_client = []\<rparr>"]
      outcome.simps [where l = "\<lparr>client = _, server = Recv g, to_server = [], to_client = []\<rparr>"])

lemma conversation_unread [conversation_rules]: "conversation (Send m c) (Done b) = conversation c (Done b)"
proof -
  have "outcome \<lparr>client = Send m c, server = Done b, to_server = [], to_client = []\<rparr> =
      outcome \<lparr>client = c, server = Done b, to_server = m, to_client = []\<rparr>"
    by (intro outcome_moves(1)) simp_all
  then show ?thesis unfolding conversation_def using closed_unread [of "Done b" c m "[]"] by simp
qed

text \<open>An empty text is no message: both sides wait for each other.\<close>

lemma conversation_empty: "conversation (Send [] (Recv f)) (Recv g) = Some (Recv f, Recv g)"
  unfolding conversation_def by (subst outcome_moves(1), simp, simp, subst outcome_moves(3)) simp_all

subsection \<open>Plain texts\<close>

text \<open>A text that fits into one message and that trimming does not change.\<close>

definition plain :: "string \<Rightarrow> bool" where
  "plain m \<longleftrightarrow> m \<noteq> [] \<and> length m \<le> INSTANCE_DATA_LENGTH \<and> CHR 0x00 \<notin> set m \<and> \<not> is_space (hd m) \<and> \<not> is_space (last m)"

lemma plain_message: "plain m \<Longrightarrow> m \<noteq> []" "plain m \<Longrightarrow> length m \<le> 300"
  by (simp_all add: plain_def INSTANCE_DATA_LENGTH_def)

lemma plain_untouched:
  assumes "plain m"
  shows "takeWhile (\<lambda>c. c \<noteq> CHR 0x00) m = m" "trim_copy m = m"
proof -
  from assms obtain c cs where m: "m = c # cs" by (cases m) (auto simp: plain_def)
  show "takeWhile (\<lambda>c. c \<noteq> CHR 0x00) m = m" using assms by (auto simp: plain_def takeWhile_eq_all_conv)
  have "rev m \<noteq> []" "\<not> is_space (hd (rev m))" using assms by (auto simp: plain_def hd_rev)
  then have "trim_right_copy m = m" by (cases "rev m") (auto simp: trim_right_copy_def)
  with assms m show "trim_copy m = m" by (simp add: trim_copy_def trim_left_copy_def plain_def)
qed

text \<open>A process that is waiting or has ended: the other side takes the turn.\<close>

fun idle :: "'a proc \<Rightarrow> bool" where
  "idle (Recv _) = True"
| "idle (Done _) = True"
| "idle _ = False"

lemma idle_reads [simp]: "idle (read_str_wrapper f)" "idle (read_str_trim_wrapper f)"
  by (simp_all add: read_str_wrapper_def read_str_trim_wrapper_def)

lemma conversation_reads [conversation_rules]:
  assumes "plain m"
  shows "idle p \<Longrightarrow> conversation (Send m p) (read_str_wrapper g) = conversation p (g m)"
    and "idle p \<Longrightarrow> conversation (Send m p) (read_str_trim_wrapper g) = conversation p (g m)"
    and "idle q \<Longrightarrow> conversation (read_str_wrapper f) (Send m q) = conversation (f m) q"
    and "idle q \<Longrightarrow> conversation (read_str_trim_wrapper f) (Send m q) = conversation (f m) q"
proof -
  have send: "conversation (Send m p) (Recv g) = conversation p (g m)" if "idle p" for p and g :: "string \<Rightarrow> 'e proc"
    using that assms by (cases p) (simp_all add: conversation_send plain_message)
  have reply: "conversation (Recv f) (Send m q) = conversation (f m) q" if "idle q" for q and f :: "string \<Rightarrow> 'e proc"
    using that assms by (cases q) (simp_all add: conversation_reply plain_message)
  show "idle p \<Longrightarrow> conversation (Send m p) (read_str_wrapper g) = conversation p (g m)"
    "idle p \<Longrightarrow> conversation (Send m p) (read_str_trim_wrapper g) = conversation p (g m)"
    "idle q \<Longrightarrow> conversation (read_str_wrapper f) (Send m q) = conversation (f m) q"
    "idle q \<Longrightarrow> conversation (read_str_trim_wrapper f) (Send m q) = conversation (f m) q"
    using assms by (simp_all add: read_str_wrapper_def read_str_trim_wrapper_def send reply plain_message plain_untouched)
qed

lemma conversation_silent:
  "conversation (Send [] (read_str_trim_wrapper f)) (read_str_trim_wrapper g) =
     Some (read_str_trim_wrapper f, read_str_trim_wrapper g)"
  by (simp add: read_str_wrapper_def read_str_trim_wrapper_def conversation_empty)

end
