(* ===== verification/Worker_Triangles.thy ===== *)
theory Worker_Triangles
  imports Hash_Contract Stream_Partition
begin

text \<open>
  Triangle counting on a worker (\<^verbatim>\<open>JasmineGraphInstanceService.cpp\<close>): \<^verbatim>\<open>countLocalTriangles\<close> finds or loads
  the three stores of a partition and counts, \<^verbatim>\<open>aggregateCentralStoreTriangles\<close> and
  \<^verbatim>\<open>aggregateCompositeCentralStoreTriangles\<close> join central stores from files and list the triangles.
\<close>

subsection \<open>The stores of the worker\<close>

record worker_stores =
  graphDBMapLocalStores :: "string \<rightharpoonup> local_store"
  graphDBMapCentralStores :: "string \<rightharpoonup> hash_store"
  graphDBMapDuplicateCentralStores :: "string \<rightharpoonup> hash_store"

definition isGraphDBExists :: "file_system \<Rightarrow> string \<Rightarrow> string \<Rightarrow> string \<Rightarrow> bool" where
  "isGraphDBExists fs dataFolder graphId partitionId \<longleftrightarrow> fs (dataFolder @ ''/'' @ graphId @ ''_'' @ partitionId) \<noteq> None"

definition isInstanceCentralStoreExists :: "file_system \<Rightarrow> string \<Rightarrow> string \<Rightarrow> string \<Rightarrow> bool" where
  "isInstanceCentralStoreExists fs dataFolder graphId partitionId \<longleftrightarrow>
     fs (dataFolder @ ''/'' @ graphId @ ''_centralstore_'' @ partitionId) \<noteq> None"

definition isInstanceDuplicateCentralStoreExists :: "file_system \<Rightarrow> string \<Rightarrow> string \<Rightarrow> string \<Rightarrow> bool" where
  "isInstanceDuplicateCentralStoreExists fs dataFolder graphId partitionId \<longleftrightarrow>
     fs (dataFolder @ ''/'' @ graphId @ ''_centralstore_dp_'' @ partitionId) \<noteq> None"

definition loadLocalStore ::
  "fb_ops \<Rightarrow> file_system \<Rightarrow> string \<Rightarrow> local_store \<Rightarrow> string \<Rightarrow> string \<Rightarrow>
   (string \<rightharpoonup> local_store) \<Rightarrow> (string \<rightharpoonup> local_store) option" where
  "loadLocalStore fb fs dataFolder junk graphId partitionId m =
     do {
       g \<leftarrow> stoi graphId;
       p \<leftarrow> stoi partitionId;
       (_, st) \<leftarrow> LocalStore_loadGraph fb fs (LocalStore_new junk g p dataFolder);
       Some (m(graphId @ ''_'' @ partitionId \<mapsto> st))
     }"

definition loadInstanceCentralStore ::
  "fb_ops \<Rightarrow> file_system \<Rightarrow> string \<Rightarrow> string \<Rightarrow> string \<Rightarrow> (string \<rightharpoonup> hash_store) \<Rightarrow> (string \<rightharpoonup> hash_store) option" where
  "loadInstanceCentralStore fb fs dataFolder graphId partitionId m =
     do {
       g \<leftarrow> stoi graphId;
       p \<leftarrow> stoi partitionId;
       (_, st) \<leftarrow> CentralStore_loadGraph fb fs (CentralStore_new dataFolder g p);
       Some (m(graphId @ ''_centralstore_'' @ partitionId \<mapsto> st))
     }"

definition loadInstanceDuplicateCentralStore ::
  "fb_ops \<Rightarrow> file_system \<Rightarrow> string \<Rightarrow> string \<Rightarrow> string \<Rightarrow> (string \<rightharpoonup> hash_store) \<Rightarrow> (string \<rightharpoonup> hash_store) option" where
  "loadInstanceDuplicateCentralStore fb fs dataFolder graphId partitionId m =
     do {
       g \<leftarrow> stoi graphId;
       p \<leftarrow> stoi partitionId;
       (_, st) \<leftarrow> DuplicateCentralStore_loadGraph fb fs (CentralStore_new dataFolder g p);
       Some (m(graphId @ ''_centralstore_dp_'' @ partitionId \<mapsto> st))
     }"

text \<open>\<^verbatim>\<open>operator[]\<close> of the caches adds a default store under an absent key.\<close>

definition cached :: "'k \<Rightarrow> 'v \<Rightarrow> ('k \<rightharpoonup> 'v) \<Rightarrow> 'v \<times> ('k \<rightharpoonup> 'v)" where
  "cached k d m = (case m k of None \<Rightarrow> (d, m(k \<mapsto> d)) | Some v \<Rightarrow> (v, m))"

definition store_tables :: "(int set \<Rightarrow> int list) \<Rightarrow> 'a hash_store_scheme \<Rightarrow> adjacency \<times> (int \<times> int) list" where
  "store_tables enum st = (enumerated enum (getUnderlyingHashMap st), getOutDegreeDistributionHashMap st)"

definition countLocalTriangles ::
  "fb_ops \<Rightarrow> file_system \<Rightarrow> string \<Rightarrow> (int set \<Rightarrow> int list) \<Rightarrow> local_store \<Rightarrow> local_store \<Rightarrow> string \<Rightarrow> string \<Rightarrow>
   worker_stores \<Rightarrow> (nat \<times> worker_stores) option" where
  "countLocalTriangles fb fs dataFolder enum junk junk' graphId partitionId ws =
     (let graphIdentifier = graphId @ ''_'' @ partitionId;
          centralGraphIdentifier = graphId @ ''_centralstore_'' @ partitionId;
          duplicateCentralGraphIdentifier = graphId @ ''_centralstore_dp_'' @ partitionId;
          noLocal = (graphDBMapLocalStores ws graphIdentifier = None);
          noCentral = (graphDBMapCentralStores ws graphIdentifier = None);
          noDuplicate = (graphDBMapDuplicateCentralStores ws graphIdentifier = None)
      in do {
        locals \<leftarrow> (if noLocal \<and> isGraphDBExists fs dataFolder graphId partitionId
          then loadLocalStore fb fs dataFolder junk graphId partitionId (graphDBMapLocalStores ws)
          else Some (graphDBMapLocalStores ws));
        let (graphDB, locals) = cached graphIdentifier (LocalStore_default junk') locals;
        centrals \<leftarrow> (if noCentral \<and> isInstanceCentralStoreExists fs dataFolder graphId partitionId
          then loadInstanceCentralStore fb fs dataFolder graphId partitionId (graphDBMapCentralStores ws)
          else Some (graphDBMapCentralStores ws));
        let (centralGraphDB, centrals) = cached centralGraphIdentifier CentralStore_default centrals;
        duplicates \<leftarrow> (if noDuplicate \<and> isInstanceDuplicateCentralStoreExists fs dataFolder graphId partitionId
          then loadInstanceDuplicateCentralStore fb fs dataFolder graphId partitionId (graphDBMapDuplicateCentralStores ws)
          else Some (graphDBMapDuplicateCentralStores ws));
        let (duplicateCentralGraphDB, duplicates) = cached duplicateCentralGraphIdentifier CentralStore_default duplicates;
        result \<leftarrow> Triangles_run (store_tables enum graphDB) (store_tables enum centralGraphDB)
          (store_tables enum duplicateCentralGraphDB);
        Some (result, \<lparr>graphDBMapLocalStores = locals, graphDBMapCentralStores = centrals,
          graphDBMapDuplicateCentralStores = duplicates\<rparr>)
      })"

subsection \<open>Joining central stores\<close>

definition loadCentralStore :: "fb_ops \<Rightarrow> file_system \<Rightarrow> string \<Rightarrow> hash_store option" where
  "loadCentralStore fb fs centralStoreFileName =
     do { (_, st) \<leftarrow> CentralStore_loadGraph_from fb fs centralStoreFileName CentralStore_default; Some st }"

definition aggregate :: "edge_map \<Rightarrow> edge_map \<Rightarrow> edge_map" where
  "aggregate m agg =
     fold (\<lambda>(startVid, endVidSet) agg.
       map_put startVid ((case map_of agg startVid of None \<Rightarrow> {} | Some N \<Rightarrow> N) \<union> endVidSet) agg) m agg"

fun aggregate_files :: "fb_ops \<Rightarrow> file_system \<Rightarrow> string list \<Rightarrow> edge_map \<Rightarrow> edge_map option" where
  "aggregate_files fb fs [] agg = Some agg"
| "aggregate_files fb fs (path # fileNames) agg =
     (if fs path = None then aggregate_files fb fs fileNames agg
      else do {
        st \<leftarrow> loadCentralStore fb fs path;
        aggregate_files fb fs fileNames (aggregate (getUnderlyingHashMap st) agg)
      })"

definition Utils_split :: "string \<Rightarrow> char \<Rightarrow> string list" where
  "Utils_split s delimiter = split_on delimiter [] s"

definition aggregateCentralStoreTriangles ::
  "fb_ops \<Rightarrow> file_system \<Rightarrow> string \<Rightarrow> string \<Rightarrow> (int set \<Rightarrow> int list) \<Rightarrow> string \<Rightarrow> string \<Rightarrow> string \<Rightarrow> string option" where
  "aggregateCentralStoreTriangles fb fs dataFolder aggregatorDirPath enum graphId partitionId partitionIdList =
     do {
       st \<leftarrow> loadCentralStore fb fs (dataFolder @ ''/'' @ graphId @ ''_centralstore_'' @ partitionId);
       agg \<leftarrow> aggregate_files fb fs
         (map (\<lambda>p. aggregatorDirPath @ ''/'' @ graphId @ ''_centralstore_'' @ p) (Utils_split partitionIdList CHR '',''))
         (aggregate (getUnderlyingHashMap st) []);
       Some (triangles (fst (countTriangles (enumerated enum agg) (map_out_degrees agg) True)))
     }"

text \<open>The name up to its last dot, or all of it.\<close>

definition raw_file_name :: "string \<Rightarrow> string" where
  "raw_file_name name =
     (if CHR ''.'' \<in> set name then rev (tl (dropWhile (\<lambda>c. c \<noteq> CHR ''.'') (rev name))) else name)"

definition aggregateCompositeCentralStoreTriangles ::
  "fb_ops \<Rightarrow> file_system \<Rightarrow> string \<Rightarrow> string \<Rightarrow> (int set \<Rightarrow> int list) \<Rightarrow> string \<Rightarrow> string \<Rightarrow> string option" where
  "aggregateCompositeCentralStoreTriangles fb fs dataFolder aggregatorDirPath enum compositeFileList availableFileList =
     do {
       agg \<leftarrow> aggregate_files fb fs
         (map (\<lambda>f. dataFolder @ ''/'' @ raw_file_name f) (Utils_split availableFileList CHR '':'')) [];
       agg \<leftarrow> aggregate_files fb fs
         (map (\<lambda>f. aggregatorDirPath @ ''/'' @ raw_file_name f) (Utils_split compositeFileList CHR '':'')) agg;
       Some (triangles (fst (countTriangles (enumerated enum agg) (map_out_degrees agg) True)))
     }"

subsection \<open>Loading on demand\<close>

lemma find_or_load:
  assumes "file_edges fb fs path e" "edges d = []" "\<And>st. m k = Some st \<Longrightarrow> edges st = e"
    and "fs path \<noteq> None \<Longrightarrow> \<exists>st. load m = Some (m(k \<mapsto> st)) \<and> edges st = e"
    and "\<not> absent \<Longrightarrow> m k \<noteq> None"
  shows "\<exists>st m'. (if absent \<and> fs path \<noteq> None then load m else Some m) = Some m' \<and>
    cached k d m' = (st, m(k \<mapsto> st)) \<and> edges st = e"
proof (cases "absent \<and> fs path \<noteq> None")
  case True
  with assms(4) show ?thesis by (auto simp: cached_def)
next
  case False
  show ?thesis
  proof (cases "m k")
    case None
    with False assms(5) have "fs path = None" by blast
    with assms(1,2) False None show ?thesis by (auto simp: cached_def file_edges_def)
  qed (use False assms(3) in \<open>auto simp: cached_def fun_upd_idem\<close>)
qed

lemma load_on_demand:
  assumes "stoi graphId = Some g" "stoi partitionId = Some p" "to_string_int g = graphId" "to_string_int p = partitionId"
  shows "file_edges fb fs (dataFolder @ ''/'' @ graphId @ ''_'' @ partitionId) e \<Longrightarrow>
      \<exists>st. loadLocalStore fb fs dataFolder junk graphId partitionId lm = Some (lm(graphId @ ''_'' @ partitionId \<mapsto> st)) \<and>
        getUnderlyingHashMap st = e"
    and "file_edges fb fs (dataFolder @ ''/'' @ graphId @ ''_centralstore_'' @ partitionId) e \<Longrightarrow>
      \<exists>st. loadInstanceCentralStore fb fs dataFolder graphId partitionId m = Some (m(graphId @ ''_centralstore_'' @ partitionId \<mapsto> st)) \<and>
        getUnderlyingHashMap st = e"
    and "file_edges fb fs (dataFolder @ ''/'' @ graphId @ ''_centralstore_dp_'' @ partitionId) e \<Longrightarrow>
      \<exists>st. loadInstanceDuplicateCentralStore fb fs dataFolder graphId partitionId m =
          Some (m(graphId @ ''_centralstore_dp_'' @ partitionId \<mapsto> st)) \<and>
        getUnderlyingHashMap st = e"
  using assms local_edges.load_file [of fb fs "LocalStore_new junk g p dataFolder" e]
    central_edges.load_file [of fb fs "CentralStore_new dataFolder g p" e]
    duplicate_edges.load_file [of fb fs "CentralStore_new dataFolder g p" e]
  by (auto simp: loadLocalStore_def loadInstanceCentralStore_def loadInstanceDuplicateCentralStore_def LocalStore_path_def
      CentralStore_path_def DuplicateCentralStore_path_def getFileSeparator_def LocalStore_new_def CentralStore_new_def
      getUnderlyingHashMap_def)

subsection \<open>Counting a partition\<close>

text \<open>The caches hold nothing for the partition that differs from its files. The central caches are looked up
  under the identifier of the local store, which is not the one their entries are stored under.\<close>

definition caches_hold :: "string \<Rightarrow> string \<Rightarrow> edge_map \<Rightarrow> edge_map \<Rightarrow> edge_map \<Rightarrow> worker_stores \<Rightarrow> bool" where
  "caches_hold graphId partitionId lm cm dm ws \<longleftrightarrow>
     (\<forall>st. graphDBMapLocalStores ws (graphId @ ''_'' @ partitionId) = Some st \<longrightarrow> getUnderlyingHashMap st = lm) \<and>
     graphDBMapCentralStores ws (graphId @ ''_'' @ partitionId) = None \<and>
     (\<forall>st. graphDBMapCentralStores ws (graphId @ ''_centralstore_'' @ partitionId) = Some st \<longrightarrow> getUnderlyingHashMap st = cm) \<and>
     graphDBMapDuplicateCentralStores ws (graphId @ ''_'' @ partitionId) = None \<and>
     (\<forall>st. graphDBMapDuplicateCentralStores ws (graphId @ ''_centralstore_dp_'' @ partitionId) = Some st \<longrightarrow>
        getUnderlyingHashMap st = dm)"

definition partition_graph :: "(int set \<Rightarrow> int list) \<Rightarrow> edge_map \<Rightarrow> edge_map \<Rightarrow> edge_map \<Rightarrow> int \<Rightarrow> int list" where
  "partition_graph enum lm cm dm = union_graph (enumerated enum lm) (enumerated enum cm) (enumerated enum dm)"

lemma run_on_stores:
  assumes "getUnderlyingHashMap ls = lm" "getUnderlyingHashMap cs = cm" "getUnderlyingHashMap ds = dm"
    and "edge_map_ok lm" "edge_map_ok cm" "edge_map_ok dm" "enumerates enum" "\<not> short_cycle (partition_graph enum lm cm dm)"
  shows "Triangles_run (store_tables enum ls) (store_tables enum cs) (store_tables enum ds) =
    Some (card (triangles_of (partition_graph enum lm cm dm)))"
  using assms unfolding partition_graph_def store_tables_def
  by (metis run_is_exact central_edges.degrees local_edges.degrees getOutDegreeDistributionHashMap_def getUnderlyingHashMap_def store_data_enumerated)

text \<open>\<^verbatim>\<open>countLocalTriangles\<close> returns the number of triangles of the union of the edges in the three files of
  a partition, loading the stores that are missing and creating empty ones for missing files, and
  leaves caches that agree with the files, so that the next call counts the same. The identifiers
  are decimal numbers, and no three vertices of out-degree 1 form a directed cycle.\<close>

theorem countLocalTriangles_correct:
  assumes "stoi graphId = Some g" "stoi partitionId = Some p" "to_string_int g = graphId" "to_string_int p = partitionId"
    and "file_edges fb fs (dataFolder @ ''/'' @ graphId @ ''_'' @ partitionId) lm"
    and "file_edges fb fs (dataFolder @ ''/'' @ graphId @ ''_centralstore_'' @ partitionId) cm"
    and "file_edges fb fs (dataFolder @ ''/'' @ graphId @ ''_centralstore_dp_'' @ partitionId) dm"
    and "caches_hold graphId partitionId lm cm dm ws" "enumerates enum" "\<not> short_cycle (partition_graph enum lm cm dm)"
  shows "\<exists>ws'. countLocalTriangles fb fs dataFolder enum junk junk' graphId partitionId ws =
      Some (card (triangles_of (partition_graph enum lm cm dm)), ws') \<and> caches_hold graphId partitionId lm cm dm ws'"
proof -
  note ids = assms(1-4)
  let ?l = "graphId @ ''_'' @ partitionId" and ?c = "graphId @ ''_centralstore_'' @ partitionId"
    and ?d = "graphId @ ''_centralstore_dp_'' @ partitionId"
  obtain ls locals where l: "(if graphDBMapLocalStores ws ?l = None \<and> isGraphDBExists fs dataFolder graphId partitionId
        then loadLocalStore fb fs dataFolder junk graphId partitionId (graphDBMapLocalStores ws)
        else Some (graphDBMapLocalStores ws)) = Some locals"
      "cached ?l (LocalStore_default junk') locals = (ls, (graphDBMapLocalStores ws)(?l \<mapsto> ls))" "getUnderlyingHashMap ls = lm"
    using find_or_load [OF assms(5), of getUnderlyingHashMap "LocalStore_default junk'" "graphDBMapLocalStores ws" ?l
        "loadLocalStore fb fs dataFolder junk graphId partitionId" "graphDBMapLocalStores ws ?l = None"]
      load_on_demand(1) [OF ids assms(5)] assms(8)
    unfolding caches_hold_def isGraphDBExists_def by (auto simp: LocalStore_default_def getUnderlyingHashMap_def)
  obtain cs centrals where c: "(if graphDBMapCentralStores ws ?l = None \<and> isInstanceCentralStoreExists fs dataFolder graphId partitionId
        then loadInstanceCentralStore fb fs dataFolder graphId partitionId (graphDBMapCentralStores ws)
        else Some (graphDBMapCentralStores ws)) = Some centrals"
      "cached ?c CentralStore_default centrals = (cs, (graphDBMapCentralStores ws)(?c \<mapsto> cs))" "getUnderlyingHashMap cs = cm"
    using find_or_load [OF assms(6), of getUnderlyingHashMap CentralStore_default "graphDBMapCentralStores ws" ?c
        "loadInstanceCentralStore fb fs dataFolder graphId partitionId" "graphDBMapCentralStores ws ?l = None"]
      load_on_demand(2) [OF ids assms(6)] assms(8)
    unfolding caches_hold_def isInstanceCentralStoreExists_def
    by (auto simp: CentralStore_default_def CentralStore_new_def getUnderlyingHashMap_def)
  obtain ds duplicates where d: "(if graphDBMapDuplicateCentralStores ws ?l = None \<and>
          isInstanceDuplicateCentralStoreExists fs dataFolder graphId partitionId
        then loadInstanceDuplicateCentralStore fb fs dataFolder graphId partitionId (graphDBMapDuplicateCentralStores ws)
        else Some (graphDBMapDuplicateCentralStores ws)) = Some duplicates"
      "cached ?d CentralStore_default duplicates = (ds, (graphDBMapDuplicateCentralStores ws)(?d \<mapsto> ds))" "getUnderlyingHashMap ds = dm"
    using find_or_load [OF assms(7), of getUnderlyingHashMap CentralStore_default "graphDBMapDuplicateCentralStores ws" ?d
        "loadInstanceDuplicateCentralStore fb fs dataFolder graphId partitionId" "graphDBMapDuplicateCentralStores ws ?l = None"]
      load_on_demand(3) [OF ids assms(7)] assms(8)
    unfolding caches_hold_def isInstanceDuplicateCentralStoreExists_def
    by (auto simp: CentralStore_default_def CentralStore_new_def getUnderlyingHashMap_def)
  note ok = assms(5-7) [THEN file_edges_ok]
  have "countLocalTriangles fb fs dataFolder enum junk junk' graphId partitionId ws =
      Some (card (triangles_of (partition_graph enum lm cm dm)),
        \<lparr>graphDBMapLocalStores = (graphDBMapLocalStores ws)(?l \<mapsto> ls), graphDBMapCentralStores = (graphDBMapCentralStores ws)(?c \<mapsto> cs),
         graphDBMapDuplicateCentralStores = (graphDBMapDuplicateCentralStores ws)(?d \<mapsto> ds)\<rparr>)"
    unfolding countLocalTriangles_def Let_def l(1) c(1) d(1)
    by (simp only: Option.bind.simps prod.case l(2) c(2) d(2) run_on_stores [OF l(3) c(3) d(3) ok assms(9,10)])
  with assms(8) l(3) c(3) d(3) show ?thesis by (auto simp: caches_hold_def)
qed

definition worker_files :: file_system where
  "worker_files = [''d/4_0'' \<mapsto> tiny_encode [(1, [2, 3])], ''d/4_centralstore_0'' \<mapsto> tiny_encode [(2, [3])],
     ''a/4_centralstore_1'' \<mapsto> tiny_encode [(2, [4]), (3, [4])]]"

definition no_stores :: worker_stores where
  "no_stores = \<lparr>graphDBMapLocalStores = Map.empty, graphDBMapCentralStores = Map.empty, graphDBMapDuplicateCentralStores = Map.empty\<rparr>"

lemma worker_files_hold:
  "file_edges tiny_fb worker_files ''d/4_0'' [(1, {2, 3})]" "file_edges tiny_fb worker_files ''d/4_centralstore_0'' [(2, {3})]"
  "file_edges tiny_fb worker_files ''d/4_centralstore_dp_0'' []" "file_edges tiny_fb worker_files ''a/4_centralstore_1'' [(2, {4}), (3, {4})]"
  "file_edges tiny_fb worker_files ''a/4_centralstore_2'' []"
proof -
  have decode: "part_decode tiny_fb (tiny_encode [(1, [2, 3])]) = Some [(1, [2, 3])]" "part_decode tiny_fb (tiny_encode [(2, [3])]) = Some [(2, [3])]"
    "part_decode tiny_fb (tiny_encode [(2, [4]), (3, [4])]) = Some [(2, [4]), (3, [4])]"
    by code_simp+
  have small: "length (tiny_encode [(1, [2, 3])]) < 2 ^ 31" "length (tiny_encode [(2, [3])]) < 2 ^ 31"
    "length (tiny_encode [(2, [4]), (3, [4])]) < 2 ^ 31"
    by (simp_all add: tiny_encode_def)
  show "file_edges tiny_fb worker_files ''d/4_0'' [(1, {2, 3})]" "file_edges tiny_fb worker_files ''d/4_centralstore_0'' [(2, {3})]"
    "file_edges tiny_fb worker_files ''d/4_centralstore_dp_0'' []" "file_edges tiny_fb worker_files ''a/4_centralstore_1'' [(2, {4}), (3, {4})]"
    "file_edges tiny_fb worker_files ''a/4_centralstore_2'' []"
    using decode small by (simp_all add: file_edges_def worker_files_def toLocalSubGraphMap_def)
qed

lemma worker_numbers: "stoi ''4'' = Some 4" "stoi ''0'' = Some 0" "to_string_int 4 = ''4''" "to_string_int 0 = ''0''"
  by code_simp+

theorem countLocalTriangles_correct_witness:
  "map_option fst (countLocalTriangles tiny_fb worker_files ''d'' sorted_list_of_set blank_store blank_store ''4'' ''0'' no_stores) = Some 1 \<and>
   card (triangles_of (partition_graph sorted_list_of_set [(1, {2, 3})] [(2, {3})] [])) = 1"
proof -
  have files: "file_edges tiny_fb worker_files (''d'' @ ''/'' @ ''4'' @ ''_'' @ ''0'') [(1, {2, 3})]"
    "file_edges tiny_fb worker_files (''d'' @ ''/'' @ ''4'' @ ''_centralstore_'' @ ''0'') [(2, {3})]"
    "file_edges tiny_fb worker_files (''d'' @ ''/'' @ ''4'' @ ''_centralstore_dp_'' @ ''0'') []"
    using worker_files_hold(1-3) by simp_all
  have caches: "caches_hold ''4'' ''0'' [(1, {2, 3})] [(2, {3})] [] no_stores" by (simp add: caches_hold_def no_stores_def)
  have "\<not> short_cycle (partition_graph sorted_list_of_set [(1, {2, 3})] [(2, {3})] [])"
    by (auto simp: short_cycle_def partition_graph_def union_graph_def enumerated_def neighbours_def split: if_splits)
  from countLocalTriangles_correct [OF worker_numbers files caches enumerates_sorted this, of blank_store blank_store]
  obtain ws' where "countLocalTriangles tiny_fb worker_files ''d'' sorted_list_of_set blank_store blank_store ''4'' ''0'' no_stores =
      Some (card (triangles_of (partition_graph sorted_list_of_set [(1, {2, 3})] [(2, {3})] [])), ws')" by blast
  moreover have "map_option fst (countLocalTriangles tiny_fb worker_files ''d'' sorted_list_of_set blank_store blank_store ''4'' ''0'' no_stores) = Some 1"
    by code_simp
  ultimately show ?thesis by simp
qed

subsection \<open>Listing the triangles of joined stores\<close>

definition joined :: "edge_map list \<Rightarrow> int \<Rightarrow> int set" where
  "joined ms v = (\<Union>m\<in>set ms. links m v)"

lemma links_put:
  assumes "edge_map_ok m" "finite N"
  shows "edge_map_ok (map_put k N m)" "links (map_put k N m) v = (if v = k then N else links m v)"
proof -
  show ok: "edge_map_ok (map_put k N m)"
    using assms finite_values_put [of m N k] unfolding edge_map_ok_def by (blast intro: ordered_map_put)
  show "links (map_put k N m) v = (if v = k then N else links m v)"
    using assms(1) by (simp add: links_lookup [OF ok] links_lookup [OF assms(1)] map_put_lookup edge_map_ok_def)
qed

lemma aggregate_links:
  assumes "\<forall>(k, N)\<in>set m. finite N" "edge_map_ok agg"
  shows "edge_map_ok (aggregate m agg) \<and> (\<forall>v. links (aggregate m agg) v = links m v \<union> links agg v)"
  using assms
proof (induction m arbitrary: agg)
  case (Cons e m)
  obtain k N where e: "e = (k, N)" by fastforce
  let ?M = "links agg k \<union> N"
  have fin: "finite ?M" using Cons.prems finite_links [of agg k] by (simp add: e)
  have step: "aggregate (e # m) agg = aggregate m (map_put k ?M agg)"
    by (simp add: e aggregate_def links_lookup [OF Cons.prems(2)])
  have "links (e # m) v = (if v = k then N else {}) \<union> links m v" for v by (auto simp: e links_def)
  with Cons.IH [OF _ links_put(1) [OF Cons.prems(2) fin, of k]] Cons.prems(1) show ?case
    unfolding step by (auto simp: links_put(2) [OF Cons.prems(2) fin])
qed (simp add: aggregate_def links_def)

lemma aggregate_files_links:
  assumes "list_all2 (file_edges fb fs) fileNames ms" "edge_map_ok agg"
  shows "\<exists>agg'. aggregate_files fb fs fileNames agg = Some agg' \<and> edge_map_ok agg' \<and>
    (\<forall>v. links agg' v = links agg v \<union> joined ms v)"
  using assms
proof (induction fileNames ms arbitrary: agg rule: list_all2_induct)
  case (Cons path fileNames m ms)
  note held = Cons.hyps(1)
  show ?case
  proof (cases "fs path")
    case None
    with held have "m = []" by (simp add: file_edges_def)
    with Cons.IH [OF Cons.prems] None show ?thesis by (auto simp: joined_def links_def)
  next
    case (Some f)
    then obtain es where f: "length f < 2 ^ 31" "part_decode fb f = Some es" "m = toLocalSubGraphMap es []"
      using held by (auto simp: file_edges_def)
    from load_edges_present [of fs path f fb es CentralStore_default, OF Some f(1,2)]
    obtain st where st: "loadCentralStore fb fs path = Some st" "getUnderlyingHashMap st = m"
      by (auto simp: loadCentralStore_def CentralStore_loadGraph_from_def f(3) CentralStore_default_def CentralStore_new_def
          getUnderlyingHashMap_def)
    have m: "\<forall>(k, N)\<in>set m. finite N" using file_edges_ok [OF held] by (simp add: edge_map_ok_def)
    from aggregate_links [OF m Cons.prems] Cons.IH [of "aggregate m agg"] Some show ?thesis
      by (auto simp: st joined_def)
  qed
qed (simp add: joined_def)

lemma listing_of_joined:
  assumes "edge_map_ok agg" "\<And>v. links agg v = joined ms v" "enumerates enum" "\<not> short_cycle (\<lambda>v. enum (joined ms v))"
  shows "\<exists>L. distinct (map corners L) \<and> set (map corners L) = triangles_of (\<lambda>v. enum (joined ms v)) \<and> list_all sorted_triple L \<and>
    triangles (fst (countTriangles (enumerated enum agg) (map_out_degrees agg) True)) =
      (if L = [] then ''NILL'' else butlast (concat (map triangle_text L)))"
proof -
  have "set (neighbours (enumerated enum agg) v) = set (enum (joined ms v))" for v
    using enumerated_links [OF assms(1,3)] finite_links [OF assms(1), of v] assms(2,3) by (simp add: enumerates_def)
  note same = same_triangles [OF this]
  from listing_is_exact [OF store_data_cover [OF store_data_enumerated [OF assms(1,3)]]] assms(4)
  show ?thesis unfolding same by blast
qed

text \<open>\<^verbatim>\<open>aggregateCentralStoreTriangles\<close> lists every triangle of the union of the worker's own central store
  and the central stores of the listed partitions in the aggregation folder exactly once; a
  partition whose file is missing contributes no edges.\<close>

theorem aggregateCentralStoreTriangles_lists:
  assumes "file_edges fb fs (dataFolder @ ''/'' @ graphId @ ''_centralstore_'' @ partitionId) m"
    and "list_all2 (file_edges fb fs)
      (map (\<lambda>p. aggregatorDirPath @ ''/'' @ graphId @ ''_centralstore_'' @ p) (Utils_split partitionIdList CHR '','')) ms"
    and "enumerates enum" "\<not> short_cycle (\<lambda>v. enum (joined (m # ms) v))"
  shows "\<exists>L. distinct (map corners L) \<and> set (map corners L) = triangles_of (\<lambda>v. enum (joined (m # ms) v)) \<and> list_all sorted_triple L \<and>
    aggregateCentralStoreTriangles fb fs dataFolder aggregatorDirPath enum graphId partitionId partitionIdList =
      Some (if L = [] then ''NILL'' else butlast (concat (map triangle_text L)))"
proof -
  let ?file = "dataFolder @ ''/'' @ graphId @ ''_centralstore_'' @ partitionId"
  have m: "edge_map_ok m" using file_edges_ok [OF assms(1)] .
  obtain st where st: "loadCentralStore fb fs ?file = Some st" "getUnderlyingHashMap st = m"
    using assms(1) load_edges_absent [of fs ?file fb CentralStore_default] load_edges_present [of fs ?file _ fb _ CentralStore_default]
    by (fastforce simp: file_edges_def loadCentralStore_def CentralStore_loadGraph_from_def CentralStore_default_def
        CentralStore_new_def getUnderlyingHashMap_def split: option.splits)
  have own: "edge_map_ok (aggregate m [])" "links (aggregate m []) v = links m v" for v
    using aggregate_links [of m "[]"] m by (auto simp: edge_map_ok_def [of m] links_def [of "[]"])
  from aggregate_files_links [OF assms(2) own(1)] obtain agg where agg:
      "aggregate_files fb fs (map (\<lambda>p. aggregatorDirPath @ ''/'' @ graphId @ ''_centralstore_'' @ p) (Utils_split partitionIdList CHR '',''))
        (aggregate m []) = Some agg" "edge_map_ok agg" "\<And>v. links agg v = links m v \<union> joined ms v"
    unfolding own(2) by blast
  have "links agg v = joined (m # ms) v" for v by (simp add: agg(3) joined_def)
  from listing_of_joined [OF agg(2) this assms(3,4)] show ?thesis
    unfolding aggregateCentralStoreTriangles_def st(1) Option.bind.simps st(2) agg(1) by (simp only: option.inject)
qed

theorem aggregateCentralStoreTriangles_lists_witness:
  "aggregateCentralStoreTriangles tiny_fb worker_files ''d'' ''a'' sorted_list_of_set ''4'' ''0'' ''1,2'' = Some ''2,3,4'' \<and>
   (\<exists>L. set (map corners L) = triangles_of (\<lambda>v. sorted_list_of_set (joined [[(2, {3})], [(2, {4}), (3, {4})], []] v)) \<and>
      ''2,3,4'' = (if L = [] then ''NILL'' else butlast (concat (map triangle_text L))))"
proof -
  let ?nb = "\<lambda>v. sorted_list_of_set (joined [[(2, {3})], [(2, {4}), (3, {4})], []] v)"
  have j: "joined [[(2, {3})], [(2, {4}), (3, {4})], []] v = (if v = 2 then {3, 4} else if v = 3 then {4} else {})" for v
    by (auto simp: joined_def links_def)
  have "\<not> short_cycle ?nb" by (auto simp: short_cycle_def j split: if_splits)
  moreover have "Utils_split ''1,2'' CHR '','' = [''1'', ''2'']" by code_simp
  then have "list_all2 (file_edges tiny_fb worker_files)
      (map (\<lambda>p. ''a'' @ ''/'' @ ''4'' @ ''_centralstore_'' @ p) (Utils_split ''1,2'' CHR '','')) [[(2, {4}), (3, {4})], []]"
    using worker_files_hold(4,5) by simp
  moreover have "file_edges tiny_fb worker_files (''d'' @ ''/'' @ ''4'' @ ''_centralstore_'' @ ''0'') [(2, {3})]"
    using worker_files_hold(2) by simp
  ultimately obtain L where L: "set (map corners L) = triangles_of ?nb"
      "aggregateCentralStoreTriangles tiny_fb worker_files ''d'' ''a'' sorted_list_of_set ''4'' ''0'' ''1,2'' =
        Some (if L = [] then ''NILL'' else butlast (concat (map triangle_text L)))"
    using aggregateCentralStoreTriangles_lists [OF _ _ enumerates_sorted] by blast
  moreover have r: "aggregateCentralStoreTriangles tiny_fb worker_files ''d'' ''a'' sorted_list_of_set ''4'' ''0'' ''1,2'' = Some ''2,3,4''"
    by code_simp
  have "''2,3,4'' = (if L = [] then ''NILL'' else butlast (concat (map triangle_text L)))"
    using L(2) unfolding r by (rule option.inject [THEN iffD1])
  with L(1) r show ?thesis by (intro conjI exI [of _ L])
qed

end
