(* ===== verification/Worker_Protocol.thy ===== *)
theory Worker_Protocol
  imports Dialogue Worker_Triangles "HOL-Library.Word"
begin

text \<open>
  The session of a worker (\<^verbatim>\<open>JasmineGraphInstanceService.cpp\<close>): the loop of \<^verbatim>\<open>instanceservicesession\<close> and the
  commands that the master sends to count triangles. A connection is served by a forked process, so
  that its caches start as the ones of the parent and only the files outlive it. Sending never fails.
\<close>

subsection \<open>Messages\<close>

definition HANDSHAKE :: string where "HANDSHAKE = ''hske''"
definition HANDSHAKE_OK :: string where "HANDSHAKE_OK = ''hske-ok''"
definition HOST_OK :: string where "HOST_OK = ''hst-ok''"
definition CLOSE :: string where "CLOSE = ''close''"
definition READY :: string where "READY = ''ready''"
definition OK :: string where "OK = ''ok''"
definition BATCH_UPLOAD_CHK :: string where "BATCH_UPLOAD_CHK = ''upload-g-chk''"
definition BATCH_UPLOAD_WAIT :: string where "BATCH_UPLOAD_WAIT = ''upload-g-wait''"
definition BATCH_UPLOAD_ACK :: string where "BATCH_UPLOAD_ACK = ''upload-g-ack''"
definition SEND_FILE_LEN :: string where "SEND_FILE_LEN = ''file-len''"
definition SEND_FILE_CONT :: string where "SEND_FILE_CONT = ''file-cont''"
definition SEND_FILE_NAME :: string where "SEND_FILE_NAME = ''file-name''"
definition FILE_RECV_CHK :: string where "FILE_RECV_CHK = ''file-rcpt?''"
definition FILE_RECV_WAIT :: string where "FILE_RECV_WAIT = ''file-wait''"
definition FILE_ACK :: string where "FILE_ACK = ''file-ok''"
definition TRIANGLES :: string where "TRIANGLES = ''tria''"
definition SEND_CENTRALSTORE_TO_AGGREGATOR :: string where "SEND_CENTRALSTORE_TO_AGGREGATOR = ''aggre-copy''"
definition SEND_COMPOSITE_CENTRALSTORE_TO_AGGREGATOR :: string where "SEND_COMPOSITE_CENTRALSTORE_TO_AGGREGATOR = ''composite-aggre-copy''"
definition AGGREGATE_CENTRALSTORE_TRIANGLES :: string where "AGGREGATE_CENTRALSTORE_TRIANGLES = ''aggregate''"
definition AGGREGATE_COMPOSITE_CENTRALSTORE_TRIANGLES :: string where "AGGREGATE_COMPOSITE_CENTRALSTORE_TRIANGLES = ''aggregate-composite''"
definition CHECK_FILE_ACCESSIBLE :: string where "CHECK_FILE_ACCESSIBLE = ''check-file-accessible''"
definition SEND_FILE_TYPE :: string where "SEND_FILE_TYPE = ''send-file-type''"
definition FILE_TYPE_CENTRALSTORE_AGGREGATE :: string where "FILE_TYPE_CENTRALSTORE_AGGREGATE = ''file-type-centralstore-aggregate''"
definition FILE_TYPE_CENTRALSTORE_COMPOSITE :: string where "FILE_TYPE_CENTRALSTORE_COMPOSITE = ''file-type-centralstore-composite''"
definition FILE_TYPE_DATA :: string where "FILE_TYPE_DATA = ''file-type-data''"

lemmas messages =
  HANDSHAKE_def HANDSHAKE_OK_def HOST_OK_def CLOSE_def READY_def OK_def BATCH_UPLOAD_CHK_def
  BATCH_UPLOAD_WAIT_def BATCH_UPLOAD_ACK_def SEND_FILE_LEN_def SEND_FILE_CONT_def SEND_FILE_NAME_def
  FILE_RECV_CHK_def FILE_RECV_WAIT_def FILE_ACK_def TRIANGLES_def SEND_CENTRALSTORE_TO_AGGREGATOR_def
  SEND_COMPOSITE_CENTRALSTORE_TO_AGGREGATOR_def AGGREGATE_CENTRALSTORE_TRIANGLES_def
  AGGREGATE_COMPOSITE_CENTRALSTORE_TRIANGLES_def CHECK_FILE_ACCESSIBLE_def SEND_FILE_TYPE_def
  FILE_TYPE_CENTRALSTORE_AGGREGATE_def FILE_TYPE_CENTRALSTORE_COMPOSITE_def FILE_TYPE_DATA_def

subsection \<open>Texts in chunks\<close>

text \<open>The index is an \<^verbatim>\<open>unsigned\<close>, which wraps around.\<close>

definition CHUNK_OFFSET :: nat where
  "CHUNK_OFFSET = INSTANCE_DATA_LENGTH - 10"

partial_function (option) string_chunks_from :: "string \<Rightarrow> 32 word \<Rightarrow> string list option" where
  "string_chunks_from s i =
     (if unat i < length s then
        Option.bind (string_chunks_from s (i + of_nat CHUNK_OFFSET)) (\<lambda>chunksVector.
          Some ((take CHUNK_OFFSET (drop (unat i) s) @
            (if unat (i + of_nat CHUNK_OFFSET) < length s then ''/SEND'' else ''/CMPT'')) # chunksVector))
      else Some [])"

fun send_further :: "string list \<Rightarrow> 'a proc \<Rightarrow> 'a proc" where
  "send_further [] k = k"
| "send_further (chunk # chunksVector) k = read_str_wrapper (\<lambda>chunkStatus. Send chunk (send_further chunksVector k))"

fun send_chunks :: "string list \<Rightarrow> 'a proc \<Rightarrow> 'a proc" where
  "send_chunks [] k = k"
| "send_chunks (chunk # chunksVector) k = Send chunk (send_further chunksVector k)"

definition send_text :: "string \<Rightarrow> 'a proc \<Rightarrow> 'a proc" where
  "send_text s k = (case string_chunks_from s 0 of None \<Rightarrow> Looping | Some chunksVector \<Rightarrow> send_chunks chunksVector k)"

text \<open>\<^verbatim>\<open>substr\<close> throws if a response is shorter than its suffix.\<close>

fun receive_text :: "nat \<Rightarrow> string \<Rightarrow> (string \<Rightarrow> 'a proc) \<Rightarrow> 'a proc" where
  "receive_text 0 resultStream k = Looping"
| "receive_text (Suc n) resultStream k = read_str_trim_wrapper (\<lambda>response.
     if length response < 5 then Aborted
     else let status = drop (length response - 5) response;
              resultStream = resultStream @ take (length response - 5) response
          in if status = ''/SEND'' then Send status (receive_text n resultStream k) else k resultStream)"

subsection \<open>Commands\<close>

text \<open>The parameters of a worker: the codec of the files, its folders, the order of hash sets, the contents of
  fresh local stores, the decompression program, and what the file transfer service delivers for a
  file name, with the sizes the file is seen to have at successive checks.\<close>

record worker_env =
  we_fb :: fb_ops
  datafolder :: string
  aggregatefolder :: string
  we_enum :: "int set \<Rightarrow> int list"
  we_junk :: local_store
  gunzip :: "bytes \<Rightarrow> bytes"
  delivered :: "string \<Rightarrow> ((nat \<Rightarrow> nat) \<times> bytes) option"

record worker_state =
  ws_files :: file_system
  ws_stores :: worker_stores
  workerHighPriorityTaskCount :: int
  highestPriority :: int
  ws_masterIP :: string

definition DEFAULT_THREAD_PRIORITY :: int where
  "DEFAULT_THREAD_PRIORITY = 1"

definition raise_priority :: "int \<Rightarrow> worker_state \<Rightarrow> worker_state" where
  "raise_priority threadPriority st =
     (if threadPriority > DEFAULT_THREAD_PRIORITY
      then st\<lparr>workerHighPriorityTaskCount := workerHighPriorityTaskCount st + 1, highestPriority := threadPriority\<rparr>
      else st)"

definition lower_priority :: "int \<Rightarrow> worker_state \<Rightarrow> worker_state" where
  "lower_priority threadPriority st =
     (if threadPriority > DEFAULT_THREAD_PRIORITY then
        let st = st\<lparr>workerHighPriorityTaskCount := workerHighPriorityTaskCount st - 1\<rparr>
        in if workerHighPriorityTaskCount st = 0 then st\<lparr>highestPriority := DEFAULT_THREAD_PRIORITY\<rparr> else st
      else st)"

type_synonym command = "(worker_state \<Rightarrow> worker_state proc) \<Rightarrow> worker_state \<Rightarrow> worker_state proc"

definition handshake_command :: command where
  "handshake_command k st =
     Send HANDSHAKE_OK (read_str_trim_wrapper (\<lambda>masterIP. Send HOST_OK (k (st\<lparr>ws_masterIP := masterIP\<rparr>))))"

definition close_command :: command where
  "close_command k st = Done st"

definition ready_command :: command where
  "ready_command k st = Send OK (k st)"

definition triangles_command :: "worker_env \<Rightarrow> command" where
  "triangles_command env k st =
     Send OK (read_str_trim_wrapper (\<lambda>graphID.
     Send OK (read_str_trim_wrapper (\<lambda>partitionId.
     Send OK (read_str_trim_wrapper (\<lambda>priority.
     Send OK (read_str_trim_wrapper (\<lambda>traceContext.
       case stoi priority of None \<Rightarrow> Aborted
       | Some threadPriority \<Rightarrow>
           (let st = raise_priority threadPriority st in
            case countLocalTriangles (we_fb env) (ws_files st) (datafolder env) (we_enum env) (we_junk env) (we_junk env)
                   graphID partitionId (ws_stores st) of
              None \<Rightarrow> Aborted
            | Some (localCount, stores) \<Rightarrow>
                Send (to_string localCount) (k (lower_priority threadPriority (st\<lparr>ws_stores := stores\<rparr>))))))))))))"

definition aggregate_centralstore_triangles_command :: "worker_env \<Rightarrow> command" where
  "aggregate_centralstore_triangles_command env k st =
     Send OK (read_str_trim_wrapper (\<lambda>graphId.
     Send OK (read_str_trim_wrapper (\<lambda>partitionId.
     Send OK (read_str_trim_wrapper (\<lambda>partitionIdList.
     Send OK (read_str_trim_wrapper (\<lambda>priority.
       case stoi priority of None \<Rightarrow> Aborted
       | Some threadPriority \<Rightarrow>
           (let st = raise_priority threadPriority st in
            Send OK (read_str_trim_wrapper (\<lambda>traceContext.
              case aggregateCentralStoreTriangles (we_fb env) (ws_files st) (datafolder env) (aggregatefolder env) (we_enum env)
                     graphId partitionId partitionIdList of
                None \<Rightarrow> Aborted
              | Some aggregatedTriangles \<Rightarrow> send_text aggregatedTriangles (k (lower_priority threadPriority st)))))))))))))"

definition aggregate_composite_centralstore_triangles_command :: "nat \<Rightarrow> worker_env \<Rightarrow> command" where
  "aggregate_composite_centralstore_triangles_command n env k st =
     Send OK (read_str_trim_wrapper (\<lambda>availableFiles.
     Send OK (receive_text n [] (\<lambda>compositeFileList.
     Send OK (read_str_trim_wrapper (\<lambda>priority.
       case stoi priority of None \<Rightarrow> Aborted
       | Some threadPriority \<Rightarrow>
           (let st = raise_priority threadPriority st in
            case aggregateCompositeCentralStoreTriangles (we_fb env) (ws_files st) (datafolder env) (aggregatefolder env) (we_enum env)
                   compositeFileList availableFiles of
              None \<Rightarrow> Aborted
            | Some aggregatedTriangles \<Rightarrow> send_text aggregatedTriangles (k (lower_priority threadPriority st)))))))))"

definition fileExists :: "file_system \<Rightarrow> string \<Rightarrow> bool" where
  "fileExists fs path \<longleftrightarrow> fs path \<noteq> None"

definition check_file_accessible_command :: "worker_env \<Rightarrow> command" where
  "check_file_accessible_command env k st =
     (let answer = (\<lambda>fullFilePath. Send (if fileExists (ws_files st) fullFilePath then ''true'' else ''false'') (k st)) in
      Send SEND_FILE_TYPE (read_str_trim_wrapper (\<lambda>fileType.
        if fileType = FILE_TYPE_CENTRALSTORE_AGGREGATE then
          Send OK (read_str_trim_wrapper (\<lambda>graphId.
          Send OK (read_str_trim_wrapper (\<lambda>partitionId.
            answer (aggregatefolder env @ ''/'' @ graphId @ ''_centralstore_'' @ partitionId)))))
        else if fileType = FILE_TYPE_CENTRALSTORE_COMPOSITE then
          Send OK (read_str_trim_wrapper (\<lambda>fileName. answer (aggregatefolder env @ ''/'' @ fileName)))
        else if fileType = FILE_TYPE_DATA then
          Send OK (read_str_trim_wrapper (\<lambda>fileName. answer (datafolder env @ ''/'' @ fileName)))
        else answer [])))"

text \<open>\<^verbatim>\<open>gzip -d\<close> replaces a file by the decompressed one without the suffix, and \<^verbatim>\<open>cp\<close> copies under the name in
  the source folder.\<close>

definition unzipFile :: "(bytes \<Rightarrow> bytes) \<Rightarrow> string \<Rightarrow> file_system \<Rightarrow> file_system" where
  "unzipFile unzip path fs =
     (case fs path of
        Some f \<Rightarrow> if drop (length path - 3) path = ''.gz'' then fs(path := None, take (length path - 3) path := Some (unzip f)) else fs
      | None \<Rightarrow> fs)"

definition copyToDirectory :: "string \<Rightarrow> string \<Rightarrow> string \<Rightarrow> file_system \<Rightarrow> file_system" where
  "copyToDirectory folder name destinationDir fs =
     (case fs (folder @ ''/'' @ name) of Some f \<Rightarrow> fs(destinationDir @ ''/'' @ name := Some f) | None \<Rightarrow> fs)"

fun await_file :: "nat \<Rightarrow> (nat \<Rightarrow> nat) \<Rightarrow> nat \<Rightarrow> int \<Rightarrow> 'a proc \<Rightarrow> 'a proc \<Rightarrow> 'a proc" where
  "await_file 0 sizes i fileSize leave k = Looping"
| "await_file (Suc n) sizes i fileSize leave k =
     (if int (sizes i) < fileSize then
        read_str_wrapper (\<lambda>line.
          if line \<noteq> FILE_RECV_CHK then leave else Send FILE_RECV_WAIT (await_file n sizes (i + 1) fileSize leave k))
      else k)"

definition send_centralstore_to_aggregator_command :: "nat \<Rightarrow> worker_env \<Rightarrow> command" where
  "send_centralstore_to_aggregator_command n env k st =
     Send SEND_FILE_NAME (read_str_wrapper (\<lambda>fileName.
     Send SEND_FILE_LEN (read_str_wrapper (\<lambda>size.
     Send SEND_FILE_CONT (
       case stoi size of None \<Rightarrow> Aborted
       | Some fileSize \<Rightarrow>
         (case delivered env fileName of None \<Rightarrow> Looping
          | Some (sizes, file) \<Rightarrow>
            (let fullFilePath = datafolder env @ ''/'' @ fileName;
                 rawname = raw_file_name fileName;
                 fs = (ws_files st)(fullFilePath := Some file);
                 fs' = copyToDirectory (datafolder env) rawname (aggregatefolder env) (unzipFile (gunzip env) fullFilePath fs)
             in await_file n sizes 0 fileSize (Done (st\<lparr>ws_files := fs\<rparr>)) (
                  read_str_wrapper (\<lambda>line.
                  Send FILE_ACK (read_str_wrapper (\<lambda>line.
                    if line = BATCH_UPLOAD_CHK then Send BATCH_UPLOAD_ACK (Done (st\<lparr>ws_files := fs'\<rparr>))
                    else Done (st\<lparr>ws_files := fs'\<rparr>))))))))))))"

definition send_composite_centralstore_to_aggregator_command :: "nat \<Rightarrow> worker_env \<Rightarrow> command" where
  "send_composite_centralstore_to_aggregator_command n env k st = send_centralstore_to_aggregator_command n env k st"

subsection \<open>The session\<close>

text \<open>The commands that are not modelled are a parameter; a text that is no command ends the session.\<close>

fun instanceservicesession :: "nat \<Rightarrow> (string \<Rightarrow> command option) \<Rightarrow> worker_env \<Rightarrow> string \<Rightarrow> worker_state \<Rightarrow> worker_state proc" where
  "instanceservicesession 0 others env cmd st = Looping"
| "instanceservicesession (Suc n) others env cmd st =
     (let k = (\<lambda>st. read_str_trim_wrapper (\<lambda>cmd. instanceservicesession n others env cmd st)) in
      if cmd = HANDSHAKE then handshake_command k st
      else if cmd = CLOSE then close_command k st
      else if cmd = READY then ready_command k st
      else if cmd = TRIANGLES then triangles_command env k st
      else if cmd = SEND_CENTRALSTORE_TO_AGGREGATOR then send_centralstore_to_aggregator_command n env k st
      else if cmd = SEND_COMPOSITE_CENTRALSTORE_TO_AGGREGATOR then send_composite_centralstore_to_aggregator_command n env k st
      else if cmd = AGGREGATE_CENTRALSTORE_TRIANGLES then aggregate_centralstore_triangles_command env k st
      else if cmd = AGGREGATE_COMPOSITE_CENTRALSTORE_TRIANGLES then aggregate_composite_centralstore_triangles_command n env k st
      else if cmd = CHECK_FILE_ACCESSIBLE then check_file_accessible_command env k st
      else case others cmd of Some command \<Rightarrow> command k st | None \<Rightarrow> Done st)"

definition worker_session :: "nat \<Rightarrow> (string \<Rightarrow> command option) \<Rightarrow> worker_env \<Rightarrow> worker_state \<Rightarrow> worker_state proc" where
  "worker_session n others env st = read_str_wrapper (\<lambda>line.
     if line = [] then Looping else instanceservicesession n others env (trim_copy line) st)"

subsection \<open>Chunks carry a text\<close>

function text_chunks :: "string \<Rightarrow> string list" where
  "text_chunks s =
     (if s = [] then [] else if length s \<le> 290 then [s @ ''/CMPT''] else (take 290 s @ ''/SEND'') # text_chunks (drop 290 s))"
  by pat_completeness auto
termination
  by (relation "measure length") auto

declare text_chunks.simps [simp del]

lemma string_chunks_from_nat:
  assumes "length s + 290 \<le> 2 ^ 32" "i \<le> length s + 289"
  shows "string_chunks_from s (of_nat i) = Some (text_chunks (drop i s))"
  using assms(2)
proof (induction "length s - i" arbitrary: i rule: less_induct)
  case less
  have i: "unat (of_nat i :: 32 word) = i" using assms(1) less.prems by (simp add: unat_of_nat take_bit_nat_eq_self)
  have next_i: "(of_nat i :: 32 word) + of_nat CHUNK_OFFSET = of_nat (i + 290)"
    by (simp add: CHUNK_OFFSET_def INSTANCE_DATA_LENGTH_def)
  show ?case
  proof (cases "i < length s")
    case True
    then have next_nat: "unat (of_nat (i + 290) :: 32 word) = i + 290" using assms(1) by (simp add: unat_of_nat take_bit_nat_eq_self del: of_nat_add)
    have rest: "string_chunks_from s (of_nat (i + 290)) = Some (text_chunks (drop (i + 290) s))"
      using less.hyps [of "i + 290"] True by simp
    show ?thesis
      using True unfolding string_chunks_from.simps [of s "of_nat i"] text_chunks.simps [of "drop i s"] next_i i next_nat rest
      by (simp add: CHUNK_OFFSET_def INSTANCE_DATA_LENGTH_def text_chunks.simps [of "[]"] add.commute) linarith
  next
    case False
    then show ?thesis using i by (simp add: string_chunks_from.simps [of s "of_nat i"] text_chunks.simps [of "[]"])
  qed
qed

lemma send_text_chunks: "length s + 290 \<le> 2 ^ 32 \<Longrightarrow> send_text s k = send_chunks (text_chunks s) k"
  using string_chunks_from_nat [of s 0] by (simp add: send_text_def)

definition solid :: "string \<Rightarrow> bool" where
  "solid s \<longleftrightarrow> (\<forall>c\<in>set s. \<not> is_space c \<and> c \<noteq> CHR 0x00)"

lemma solid_NUL: "solid s \<Longrightarrow> CHR 0x00 \<notin> set s"
  by (auto simp only: solid_def)

lemma solid_no_space: "solid s \<Longrightarrow> c \<in> set s \<Longrightarrow> \<not> is_space c"
  by (simp add: solid_def)

lemma solid_plain:
  assumes "solid s" "s \<noteq> []" "length s \<le> 300"
  shows "plain s"
  using assms solid_NUL [OF assms(1)] solid_no_space [OF assms(1)] by (simp add: plain_def INSTANCE_DATA_LENGTH_def)

lemma solid_chunk:
  assumes "solid s" "length s \<le> 290" "t = ''/SEND'' \<or> t = ''/CMPT''"
  shows "plain (s @ t)"
proof -
  have chars: "\<not> is_space (CHR ''/'')" "\<not> is_space (CHR ''D'')" "\<not> is_space (CHR ''T'')" by code_simp+
  have t: "t \<noteq> []" "length t = 5" "\<not> is_space (hd t)" "\<not> is_space (last t)" "CHR 0x00 \<notin> set t"
    using assms(3) chars by (elim disjE; simp)+
  note s = solid_NUL [OF assms(1)]
  have "\<not> is_space (hd (s @ t))"
  proof (cases s)
    case (Cons c cs)
    then show ?thesis using assms(1) by (simp add: solid_def)
  qed (use t(3) in simp)
  then show ?thesis using s t assms(2) by (simp only: plain_def INSTANCE_DATA_LENGTH_def) simp
qed

lemma solid_parts: "solid s \<Longrightarrow> solid (take i s)" "solid s \<Longrightarrow> solid (drop i s)"
  by (auto simp: solid_def dest: in_set_takeD in_set_dropD)

lemma idle_receive [simp]: "idle (receive_text (Suc n) acc k)"
  by simp

declare receive_text.simps [simp del]

lemma receive_last:
  assumes "solid s" "length s \<le> 290" "idle q"
  shows "conversation (receive_text (Suc n) acc k) (Send (s @ ''/CMPT'') q) = conversation (k (acc @ s)) q"
  using assms(3) unfolding receive_text.simps by (simp add: conversation_reads(4) [OF solid_chunk [OF assms(1,2)]])

lemma receive_next:
  assumes "solid s" "length s \<le> 290"
  shows "conversation (receive_text (Suc (Suc n)) acc k) (Send (s @ ''/SEND'') (read_str_wrapper (\<lambda>_. q))) =
    conversation (receive_text (Suc n) (acc @ s) k) q"
proof -
  have "plain ''/SEND''" using solid_chunk [of "[]" "''/SEND''"] by (simp add: solid_def)
  note go = conversation_reads(1) [OF this, of "receive_text (Suc n) (acc @ s) k" "\<lambda>_. q", OF idle_receive]
  show ?thesis
    unfolding receive_text.simps(2) [of "Suc n" acc k]
    using go by (simp add: conversation_reads(4) [OF solid_chunk [OF assms]] Let_def)
qed

lemma text_chunks_cases:
  assumes "s \<noteq> []"
  shows "length s \<le> 290 \<Longrightarrow> text_chunks s = [s @ ''/CMPT'']"
    and "\<not> length s \<le> 290 \<Longrightarrow> text_chunks s = (take 290 s @ ''/SEND'') # text_chunks (drop 290 s)"
    and "text_chunks s \<noteq> []"
  using assms by (simp_all add: text_chunks.simps [of s])

lemma text_received:
  assumes "s \<noteq> []" "solid s" "length (text_chunks s) \<le> n" "idle q"
  shows "conversation (receive_text n acc k) (send_chunks (text_chunks s) q) = conversation (k (acc @ s)) q"
  using assms
proof (induction s arbitrary: n acc rule: text_chunks.induct)
  case (1 s)
  note s = text_chunks_cases [OF "1.prems"(1)]
  obtain m where n: "n = Suc m" using s(3) "1.prems"(3) by (cases n) simp_all
  show ?case
  proof (cases "length s \<le> 290")
    case True
    show ?thesis unfolding s(1) [OF True] n using receive_last [OF "1.prems"(2) True "1.prems"(4)] by simp
  next
    case False
    let ?t = "drop 290 s"
    have t: "?t \<noteq> []" "solid ?t" using False "1.prems"(2) by (simp_all add: solid_parts)
    obtain c cs where cs: "text_chunks ?t = c # cs" using text_chunks_cases(3) [OF t(1)] by (cases "text_chunks ?t") simp_all
    have fuel: "length (text_chunks ?t) \<le> m" using "1.prems"(3) unfolding s(2) [OF False] n by simp
    then obtain m' where m: "m = Suc m'" unfolding cs by (cases m) simp_all
    have "conversation (receive_text n acc k) (send_chunks (text_chunks s) q) =
        conversation (receive_text m (acc @ take 290 s) k) (send_chunks (text_chunks ?t) q)"
      unfolding s(2) [OF False] cs n m using receive_next [of "take 290 s" m' acc k "Send c (send_further cs q)"] "1.prems"(2) False
      by (simp add: solid_parts)
    also have "\<dots> = conversation (k (acc @ s)) q"
      using "1.IH" [OF "1.prems"(1) False t fuel "1.prems"(4), of "acc @ take 290 s"] by simp
    finally show ?thesis .
  qed
qed


text \<open>The same with the sides exchanged.\<close>

lemma deliver_last:
  assumes "solid s" "length s \<le> 290" "idle p"
  shows "conversation (Send (s @ ''/CMPT'') p) (receive_text (Suc n) acc k) = conversation p (k (acc @ s))"
  using assms(3) unfolding receive_text.simps by (simp add: conversation_reads(2) [OF solid_chunk [OF assms(1,2)]])

lemma deliver_next:
  assumes "solid s" "length s \<le> 290"
  shows "conversation (Send (s @ ''/SEND'') (read_str_wrapper (\<lambda>_. p))) (receive_text (Suc (Suc n)) acc k) =
    conversation p (receive_text (Suc n) (acc @ s) k)"
proof -
  have "plain ''/SEND''" using solid_chunk [of "[]" "''/SEND''"] by (simp add: solid_def)
  note go = conversation_reads(3) [OF this, of "receive_text (Suc n) (acc @ s) k" "\<lambda>_. p", OF idle_receive]
  show ?thesis
    unfolding receive_text.simps(2) [of "Suc n" acc k]
    using go by (simp add: conversation_reads(2) [OF solid_chunk [OF assms]] Let_def)
qed

lemma text_delivered:
  assumes "s \<noteq> []" "solid s" "length (text_chunks s) \<le> n" "idle p"
  shows "conversation (send_chunks (text_chunks s) p) (receive_text n acc k) = conversation p (k (acc @ s))"
  using assms
proof (induction s arbitrary: n acc rule: text_chunks.induct)
  case (1 s)
  note s = text_chunks_cases [OF "1.prems"(1)]
  obtain m where n: "n = Suc m" using s(3) "1.prems"(3) by (cases n) simp_all
  show ?case
  proof (cases "length s \<le> 290")
    case True
    show ?thesis unfolding s(1) [OF True] n using deliver_last [OF "1.prems"(2) True "1.prems"(4)] by simp
  next
    case False
    let ?t = "drop 290 s"
    have t: "?t \<noteq> []" "solid ?t" using False "1.prems"(2) by (simp_all add: solid_parts)
    obtain c cs where cs: "text_chunks ?t = c # cs" using text_chunks_cases(3) [OF t(1)] by (cases "text_chunks ?t") simp_all
    have fuel: "length (text_chunks ?t) \<le> m" using "1.prems"(3) unfolding s(2) [OF False] n by simp
    then obtain m' where m: "m = Suc m'" unfolding cs by (cases m) simp_all
    have "conversation (send_chunks (text_chunks s) p) (receive_text n acc k) =
        conversation (send_chunks (text_chunks ?t) p) (receive_text m (acc @ take 290 s) k)"
      unfolding s(2) [OF False] cs n m using deliver_next [of "take 290 s" "Send c (send_further cs p)" m' acc k] "1.prems"(2) False
      by (simp add: solid_parts)
    also have "\<dots> = conversation p (k (acc @ s))"
      using "1.IH" [OF "1.prems"(1) False t fuel "1.prems"(4), of "acc @ take 290 s"] by simp
    finally show ?thesis .
  qed
qed

subsection \<open>Opening a session\<close>

lemma plain_messages [simp]:
  "plain HANDSHAKE" "plain HANDSHAKE_OK" "plain HOST_OK" "plain CLOSE" "plain READY" "plain OK" "plain BATCH_UPLOAD_CHK"
  "plain BATCH_UPLOAD_WAIT" "plain BATCH_UPLOAD_ACK" "plain SEND_FILE_LEN" "plain SEND_FILE_CONT" "plain SEND_FILE_NAME"
  "plain FILE_RECV_CHK" "plain FILE_RECV_WAIT" "plain FILE_ACK" "plain TRIANGLES" "plain SEND_CENTRALSTORE_TO_AGGREGATOR"
  "plain SEND_COMPOSITE_CENTRALSTORE_TO_AGGREGATOR" "plain AGGREGATE_CENTRALSTORE_TRIANGLES"
  "plain AGGREGATE_COMPOSITE_CENTRALSTORE_TRIANGLES" "plain CHECK_FILE_ACCESSIBLE" "plain SEND_FILE_TYPE"
  "plain FILE_TYPE_CENTRALSTORE_AGGREGATE" "plain FILE_TYPE_CENTRALSTORE_COMPOSITE" "plain FILE_TYPE_DATA"
  by code_simp+


definition await_command :: "nat \<Rightarrow> (string \<Rightarrow> command option) \<Rightarrow> worker_env \<Rightarrow> worker_state \<Rightarrow> worker_state proc" where
  "await_command n others env st = read_str_trim_wrapper (\<lambda>cmd. instanceservicesession n others env cmd st)"

lemma idle_await_command [simp]: "idle (await_command n others env st)"
  by (simp add: await_command_def)

lemma session_commands:
  shows "instanceservicesession (Suc n) others env HANDSHAKE st = handshake_command (await_command n others env) st"
    and "instanceservicesession (Suc n) others env CLOSE st = Done st"
    and "instanceservicesession (Suc n) others env TRIANGLES st = triangles_command env (await_command n others env) st"
    and "instanceservicesession (Suc n) others env SEND_CENTRALSTORE_TO_AGGREGATOR st =
      send_centralstore_to_aggregator_command n env (await_command n others env) st"
    and "instanceservicesession (Suc n) others env SEND_COMPOSITE_CENTRALSTORE_TO_AGGREGATOR st =
      send_composite_centralstore_to_aggregator_command n env (await_command n others env) st"
    and "instanceservicesession (Suc n) others env AGGREGATE_CENTRALSTORE_TRIANGLES st =
      aggregate_centralstore_triangles_command env (await_command n others env) st"
    and "instanceservicesession (Suc n) others env AGGREGATE_COMPOSITE_CENTRALSTORE_TRIANGLES st =
      aggregate_composite_centralstore_triangles_command n env (await_command n others env) st"
    and "instanceservicesession (Suc n) others env CHECK_FILE_ACCESSIBLE st = check_file_accessible_command env (await_command n others env) st"
  by (simp_all add: await_command_def [abs_def] messages close_command_def)

declare instanceservicesession.simps [simp del]

lemma session_opens:
  assumes "plain masterIP" "plain cmd" "idle q"
  shows "conversation (Send HANDSHAKE (read_str_trim_wrapper (\<lambda>response. if response \<noteq> HANDSHAKE_OK then other response else
      Send masterIP (read_str_wrapper (\<lambda>_. Send cmd q))))) (worker_session (Suc n) others env st) =
      conversation q (instanceservicesession n others env cmd (st\<lparr>ws_masterIP := masterIP\<rparr>))"
    and "conversation (Send HANDSHAKE (read_str_trim_wrapper (\<lambda>response. if response \<noteq> HANDSHAKE_OK then other response else
      Send masterIP (read_str_trim_wrapper (\<lambda>_. Send cmd q))))) (worker_session (Suc n) others env st) =
      conversation q (instanceservicesession n others env cmd (st\<lparr>ws_masterIP := masterIP\<rparr>))"
  using assms by (simp_all add: worker_session_def conversation_reads session_commands handshake_command_def await_command_def plain_message plain_untouched)

lemma session_closes: "conversation (Send CLOSE (Done r)) (await_command (Suc n) others env st) =
    Some (Done r, Done st)"
  by (simp add: await_command_def conversation_reads session_commands conversation_end)

end
