(* ===== verification/Master_Protocol.thy ===== *)
theory Master_Protocol
  imports Worker_Protocol
begin

text \<open>
  The master's side of the conversations of a triangle count (\<^verbatim>\<open>TriangleCountExecutor.cpp\<close>), and what comes
  out when it talks to the session of a worker. The address, the socket and the connection are one
  argument: whether the worker can be reached.
\<close>

subsection \<open>Requests of the master\<close>

text \<open>\<^verbatim>\<open>return 0\<close> in a function that returns a \<^verbatim>\<open>std::string\<close> builds a string from a null pointer, which throws.\<close>

definition finish :: "'a \<Rightarrow> 'a proc" where
  "finish result = Send CLOSE (Done result)"

definition ok_then :: "string \<Rightarrow> string \<Rightarrow> (string \<Rightarrow> 'a proc) \<Rightarrow> 'a proc" where
  "ok_then message response k = (if response = OK then Send message (read_str_trim_wrapper k) else k response)"

definition countCentralStoreTriangles ::
  "nat \<Rightarrow> bool \<Rightarrow> string \<Rightarrow> string \<Rightarrow> string \<Rightarrow> string \<Rightarrow> int \<Rightarrow> string \<Rightarrow> string proc" where
  "countCentralStoreTriangles n connected partitionId partitionIdList graphId masterIP threadPriority traceContext =
     (if \<not> connected then Aborted else
      Send HANDSHAKE (read_str_trim_wrapper (\<lambda>response.
        if response \<noteq> HANDSHAKE_OK then finish response else
        Send masterIP (read_str_wrapper (\<lambda>_.
        Send AGGREGATE_CENTRALSTORE_TRIANGLES (read_str_trim_wrapper (\<lambda>response.
        ok_then graphId response (\<lambda>response.
          if response \<noteq> OK then finish response else
          ok_then partitionId response (\<lambda>response.
          ok_then partitionIdList response (\<lambda>response.
          ok_then (to_string_int threadPriority) response (\<lambda>response.
            if response \<noteq> OK then finish response else
            Send traceContext (receive_text n [] finish))))))))))))"

definition countCompositeCentralStoreTriangles ::
  "nat \<Rightarrow> bool \<Rightarrow> string \<Rightarrow> string \<Rightarrow> string \<Rightarrow> int \<Rightarrow> string list proc" where
  "countCompositeCentralStoreTriangles n connected compositeCentralStoreFileList masterIP availableFileList threadPriority =
     (if \<not> connected then Done [] else
      let leave = (\<lambda>response. finish (Utils_split response CHR '':'')) in
      Send HANDSHAKE (read_str_trim_wrapper (\<lambda>response.
        if response \<noteq> HANDSHAKE_OK then leave response else
        Send masterIP (read_str_wrapper (\<lambda>_.
        Send AGGREGATE_COMPOSITE_CENTRALSTORE_TRIANGLES (read_str_trim_wrapper (\<lambda>response.
        ok_then availableFileList response (\<lambda>response.
          let continue = (\<lambda>response.
            if response \<noteq> OK then leave response else
            Send (to_string_int threadPriority) (receive_text n [] leave))
          in if response = OK then send_text compositeCentralStoreFileList (read_str_trim_wrapper continue)
             else continue response))))))))"

definition isFileAccessibleToWorker ::
  "bool \<Rightarrow> string \<Rightarrow> string \<Rightarrow> string \<Rightarrow> string \<Rightarrow> string \<Rightarrow> string proc" where
  "isFileAccessibleToWorker connected graphId partitionId masterIP fileType fileName =
     (if \<not> connected then Aborted else
      Send HANDSHAKE (read_str_trim_wrapper (\<lambda>response.
        if response \<noteq> HANDSHAKE_OK then finish ''false'' else
        Send masterIP (read_str_trim_wrapper (\<lambda>_.
        Send CHECK_FILE_ACCESSIBLE (read_str_trim_wrapper (\<lambda>response.
        if response \<noteq> SEND_FILE_TYPE then finish ''false'' else
        Send fileType (read_str_trim_wrapper (\<lambda>response.
          if fileType = FILE_TYPE_CENTRALSTORE_AGGREGATE then
            if response \<noteq> OK then finish ''false'' else
            Send graphId (read_str_trim_wrapper (\<lambda>response.
              if response \<noteq> OK then finish ''false'' else Send partitionId (read_str_trim_wrapper finish)))
          else if fileType = FILE_TYPE_CENTRALSTORE_COMPOSITE then
            if response \<noteq> OK then finish ''false'' else
            Send (raw_file_name fileName) (read_str_trim_wrapper finish)
          else finish ''false'')))))))))"

text \<open>The loops that wait for the file ask again on every answer they do not know.\<close>

fun await_ack :: "nat \<Rightarrow> 'a proc \<Rightarrow> 'a proc" where
  "await_ack 0 k = Looping"
| "await_ack (Suc n) k = Send FILE_RECV_CHK (read_str_trim_wrapper (\<lambda>response.
     if response = FILE_RECV_WAIT then await_ack n k
     else if response = FILE_ACK then k
     else await_ack n k))"

fun await_upload :: "nat \<Rightarrow> (string \<Rightarrow> 'a proc) \<Rightarrow> 'a proc" where
  "await_upload 0 k = Looping"
| "await_upload (Suc n) k = Send BATCH_UPLOAD_CHK (read_str_wrapper (\<lambda>response.
     if response = BATCH_UPLOAD_WAIT then await_upload n k
     else if response = BATCH_UPLOAD_ACK then k response
     else await_upload n k))"

text \<open>The file itself goes through the file transfer service of the worker.\<close>

definition central_store_name :: "int \<Rightarrow> int \<Rightarrow> string" where
  "central_store_name graphId partitionId = to_string_int graphId @ ''_centralstore_'' @ to_string_int partitionId @ ''.gz''"

definition copyStoreToAggregator :: "nat \<Rightarrow> string \<Rightarrow> string \<Rightarrow> int \<Rightarrow> string \<Rightarrow> string proc" where
  "copyStoreToAggregator n command fileName fileSize masterIP =
     (let wait = await_ack n (await_upload n finish) in
      Send HANDSHAKE (read_str_trim_wrapper (\<lambda>response.
        if response \<noteq> HANDSHAKE_OK then finish response else
        Send masterIP (read_str_wrapper (\<lambda>_.
        Send command (read_str_trim_wrapper (\<lambda>response.
        if response \<noteq> SEND_FILE_NAME then wait else
        Send fileName (read_str_trim_wrapper (\<lambda>response.
        if response \<noteq> SEND_FILE_LEN then wait else
        Send (to_string_int fileSize) (read_str_trim_wrapper (\<lambda>_. wait)))))))))))"

definition copyCentralStoreToAggregator :: "nat \<Rightarrow> bool \<Rightarrow> int \<Rightarrow> int \<Rightarrow> int \<Rightarrow> string \<Rightarrow> string proc" where
  "copyCentralStoreToAggregator n connected graphId partitionId fileSize masterIP =
     (if \<not> connected then Done [] else
      copyStoreToAggregator n SEND_CENTRALSTORE_TO_AGGREGATOR (central_store_name graphId partitionId) fileSize masterIP)"

definition copyCompositeCentralStoreToAggregator :: "nat \<Rightarrow> bool \<Rightarrow> string \<Rightarrow> int \<Rightarrow> string \<Rightarrow> string proc" where
  "copyCompositeCentralStoreToAggregator n connected fileName fileSize masterIP =
     (if \<not> connected then Aborted else
      copyStoreToAggregator n SEND_COMPOSITE_CENTRALSTORE_TO_AGGREGATOR fileName fileSize masterIP)"

text \<open>\<^verbatim>\<open>atol\<close> is undefined for a value that is not a \<^verbatim>\<open>long\<close>. Without composite stores; the count is not initialised.\<close>

definition atol :: "string \<Rightarrow> int option" where
  "atol s = (if scan_number s = None then Some 0 else stol s)"

definition getTriangleCount :: "bool \<Rightarrow> int \<Rightarrow> int \<Rightarrow> int \<Rightarrow> string \<Rightarrow> int \<Rightarrow> string \<Rightarrow> int proc" where
  "getTriangleCount connected junk graphId partitionId masterIP threadPriority masterTraceContext =
     (if \<not> connected then Done 0 else
      let count = (\<lambda>response. case atol response of None \<Rightarrow> Aborted | Some c \<Rightarrow> finish c) in
      Send HANDSHAKE (read_str_trim_wrapper (\<lambda>response.
        if response \<noteq> HANDSHAKE_OK then finish 0 else
        Send masterIP (read_str_trim_wrapper (\<lambda>_.
        Send TRIANGLES (read_str_trim_wrapper (\<lambda>response.
        ok_then (to_string_int graphId) response (\<lambda>response.
        ok_then (to_string_int partitionId) response (\<lambda>response.
          if response \<noteq> OK then finish junk else
          Send (to_string_int threadPriority) (read_str_trim_wrapper (\<lambda>response.
            if response \<noteq> OK then count response else
            Send (if masterTraceContext = [] then ''NO_TRACE_CONTEXT'' else masterTraceContext)
              (read_str_trim_wrapper count))))))))))))"


subsection \<open>Conversations with a worker\<close>

lemma solid_number: "solid (to_string_int i)" "solid (to_string n)"
proof -
  have digit: "\<not> is_space c \<and> c \<noteq> CHR 0x00" if "is_digit c" for c
    using digit_not_space [OF that] digit_not_sign [OF that] by simp
  have minus: "\<not> is_space CHR ''-'' \<and> CHR ''-'' \<noteq> CHR 0x00" by code_simp
  show "solid (to_string n)" unfolding solid_def using all_digits_to_string digit by blast
  show "solid (to_string_int i)" unfolding solid_def
  proof
    fix c assume "c \<in> set (to_string_int i)"
    from set_to_string_int [OF this] show "\<not> is_space c \<and> c \<noteq> CHR 0x00" using digit minus by (elim disjE) simp_all
  qed
qed

lemma plain_number [simp]: "\<bar>i\<bar> < 10 ^ 20 \<Longrightarrow> plain (to_string_int i)" "n < 10 ^ 20 \<Longrightarrow> plain (to_string n)"
proof -
  have "to_string_int i \<noteq> []" by (simp add: to_string_int_def)
  then show "plain (to_string_int i)" if "\<bar>i\<bar> < 10 ^ 20"
    using length_to_string_int [of i 20] that by (intro solid_plain solid_number) (simp_all add: nat_less_iff)
  show "plain (to_string n)" if "n < 10 ^ 20"
    using length_to_string [of n 20] that by (intro solid_plain solid_number) simp_all
qed

definition is_int :: "int \<Rightarrow> bool" where
  "is_int i \<longleftrightarrow> - (2 ^ 31) \<le> i \<and> i < 2 ^ 31"

lemma is_int_number [simp]: "is_int i \<Longrightarrow> plain (to_string_int i)" "is_int i \<Longrightarrow> stoi (to_string_int i) = Some i"
  by (rule plain_number, simp add: is_int_def abs_less_iff) (simp add: is_int_def stoi_to_string_int)

lemma ok_then_asks [simp]: "ok_then message OK k = Send message (read_str_trim_wrapper k)"
  by (simp add: ok_then_def)

definition served :: "string \<Rightarrow> int \<Rightarrow> worker_state \<Rightarrow> worker_state" where
  "served masterIP threadPriority st = lower_priority threadPriority (raise_priority threadPriority (st\<lparr>ws_masterIP := masterIP\<rparr>))"

lemma raise_priority_keeps [simp]:
  "ws_files (raise_priority p st) = ws_files st" "ws_stores (raise_priority p st) = ws_stores st"
  by (simp_all add: raise_priority_def)

lemma served_files [simp]: "ws_files (served ip p st) = ws_files st"
  by (simp add: served_def lower_priority_def Let_def)

lemma count_conversation:
  assumes "plain masterIP" "plain graphId" "plain partitionId" "plain partitionIdList" "plain traceContext" "is_int threadPriority"
    and "aggregateCentralStoreTriangles (we_fb env) (ws_files st) (datafolder env) (aggregatefolder env) (we_enum env)
      graphId partitionId partitionIdList = Some t"
    and "t \<noteq> []" "solid t" "length t + 290 \<le> 2 ^ 32" "length (text_chunks t) \<le> n"
  shows "conversation (countCentralStoreTriangles n True partitionId partitionIdList graphId masterIP threadPriority traceContext)
      (worker_session (Suc (Suc (Suc m))) others env st) = Some (Done t, Done (served masterIP threadPriority st))"
proof -
  obtain n' where n: "n = Suc n'" using text_chunks_cases(3) [OF assms(8)] assms(11) by (cases n) auto
  show ?thesis
    using assms(1-7)
    by (simp add: text_received [OF assms(8,9,11) [unfolded n]] countCentralStoreTriangles_def session_opens session_commands aggregate_centralstore_triangles_command_def
        conversation_reads Let_def n send_text_chunks [OF assms(10)] session_closes finish_def served_def)
qed


lemma atol_number: "c < 2 ^ 63 \<Longrightarrow> atol (to_string c) = Some (int c)"
  by (simp add: atol_def scan_to_string stol_to_string)

lemma triangle_conversation:
  assumes "plain masterIP" "is_int graphId" "is_int partitionId" "is_int threadPriority"
    and "masterTraceContext = [] \<or> plain masterTraceContext"
    and "countLocalTriangles (we_fb env) (ws_files st) (datafolder env) (we_enum env) (we_junk env) (we_junk env)
      (to_string_int graphId) (to_string_int partitionId) (ws_stores st) = Some (c, stores)"
    and "c < 2 ^ 63"
  shows "\<exists>st'. ws_files st' = ws_files st \<and>
    conversation (getTriangleCount True junk graphId partitionId masterIP threadPriority masterTraceContext)
      (worker_session (Suc (Suc (Suc m))) others env st) = Some (Done (int c), Done st')"
proof -
  let ?ctx = "if masterTraceContext = [] then ''NO_TRACE_CONTEXT'' else masterTraceContext"
  have "plain ''NO_TRACE_CONTEXT''" by code_simp
  with assms(5) have ctx: "plain ?ctx" by auto
  have c: "plain (to_string c)" using assms(7) by simp
  show ?thesis
    using assms(1-4,6)
    by (simp add: getTriangleCount_def session_opens session_commands triangles_command_def conversation_reads [OF ctx]
        conversation_reads [OF c] conversation_reads Let_def session_closes finish_def atol_number [OF assms(7)] lower_priority_def)
qed

lemma accessible_conversation:
  assumes "plain masterIP" "plain graphId" "plain partitionId"
  shows "conversation (isFileAccessibleToWorker True graphId partitionId masterIP FILE_TYPE_CENTRALSTORE_AGGREGATE fileName)
      (worker_session (Suc (Suc (Suc m))) others env st) =
    Some (Done (if fileExists (ws_files st) (aggregatefolder env @ ''/'' @ graphId @ ''_centralstore_'' @ partitionId)
        then ''true'' else ''false''), Done (st\<lparr>ws_masterIP := masterIP\<rparr>))"
proof -
  have "plain ''true''" "plain ''false''" by code_simp+
  with assms show ?thesis
    by (simp add: isFileAccessibleToWorker_def session_opens session_commands check_file_accessible_command_def
        conversation_reads Let_def session_closes finish_def)
qed

text \<open>The file is complete at the check number \<open>j\<close>.\<close>

lemma idle_await_file: "idle k \<Longrightarrow> 0 < n \<Longrightarrow> idle (await_file n sizes i fileSize leave k)"
  by (cases n) simp_all

lemma answers_differ: "FILE_ACK \<noteq> FILE_RECV_WAIT" "BATCH_UPLOAD_ACK \<noteq> BATCH_UPLOAD_WAIT"
  by (simp_all add: messages)

lemma await_conversation:
  assumes "\<And>i'. i \<le> i' \<Longrightarrow> i' < j \<Longrightarrow> int (sizes i') < fileSize" "\<not> int (sizes j) < fileSize" "i \<le> j" "j - i < n" "j - i < n'"
    and "idle q"
  shows "conversation (await_ack n p) (await_file n' sizes i fileSize leave (read_str_wrapper (\<lambda>line. Send FILE_ACK q))) =
    conversation p q"
  using assms(1,3-5)
proof (induction "j - i" arbitrary: i n n')
  case 0
  then obtain n1 n1' where "n = Suc n1" "n' = Suc n1'" by (cases n; cases n') auto
  then show ?case using assms(2,6) 0 by (simp add: conversation_reads answers_differ)
next
  case (Suc d)
  then obtain n1 n1' where n: "n = Suc n1" "n' = Suc n1'" by (cases n; cases n') auto
  let ?k = "read_str_wrapper (\<lambda>line. Send FILE_ACK q)"
  have more: "0 < n1'" and small: "int (sizes i) < fileSize" using Suc.hyps(2) Suc.prems by (auto simp: n)
  have "conversation (await_ack n1 p) (await_file n1' sizes (Suc i) fileSize leave ?k) = conversation p q"
    using Suc.hyps(2) Suc.prems by (intro Suc.hyps(1)) (auto simp: n)
  then show ?case using small idle_await_file [OF _ more, of ?k] by (simp add: n conversation_reads)
qed

lemma raw_gz: "raw_file_name (s @ ''.gz'') = s"
  by (simp add: raw_file_name_def)

text \<open>The store arrives in both folders of the worker.\<close>

definition with_store :: "worker_env \<Rightarrow> string \<Rightarrow> bytes \<Rightarrow> file_system \<Rightarrow> file_system" where
  "with_store env name file fs = fs(datafolder env @ ''/'' @ name @ ''.gz'' := None,
     datafolder env @ ''/'' @ name := Some (gunzip env file), aggregatefolder env @ ''/'' @ name := Some (gunzip env file))"

lemma unzip_and_copy:
  "copyToDirectory (datafolder env) name (aggregatefolder env)
     (unzipFile (gunzip env) (datafolder env @ ''/'' @ name @ ''.gz'') (fs(datafolder env @ ''/'' @ name @ ''.gz'' := Some file))) =
   with_store env name file fs"
proof -
  let ?p = "datafolder env @ ''/'' @ name"
  have "drop (length (?p @ ''.gz'') - 3) (?p @ ''.gz'') = ''.gz''" "take (length (?p @ ''.gz'') - 3) (?p @ ''.gz'') = ?p"
    by simp_all
  then show ?thesis by (simp add: unzipFile_def copyToDirectory_def with_store_def)
qed

lemma copy_conversation:
  assumes "plain masterIP" "plain (name @ ''.gz'')" "is_int fileSize" "delivered env (name @ ''.gz'') = Some (sizes, file)"
    and "\<And>i. i < j \<Longrightarrow> int (sizes i) < fileSize" "\<not> int (sizes j) < fileSize" "j < n" "j < m"
    and "command = SEND_CENTRALSTORE_TO_AGGREGATOR \<or> command = SEND_COMPOSITE_CENTRALSTORE_TO_AGGREGATOR"
  shows "conversation (copyStoreToAggregator n command (name @ ''.gz'') fileSize masterIP) (worker_session (Suc (Suc m)) others env st) =
    Some (Done BATCH_UPLOAD_ACK, Done (st\<lparr>ws_masterIP := masterIP, ws_files := with_store env name file (ws_files st)\<rparr>))"
proof -
  have command: "plain command" using assms(9) by (elim disjE) simp_all
  have served: "instanceservicesession (Suc m) others env command st' =
      send_centralstore_to_aggregator_command m env (await_command m others env) st'" for st'
    using assms(9) by (elim disjE) (simp_all add: session_commands send_composite_centralstore_to_aggregator_command_def)
  obtain n1 where n: "n = Suc n1" using assms(7) by (cases n) auto
  let ?q = "\<lambda>st'. read_str_wrapper (\<lambda>line. if line = BATCH_UPLOAD_CHK then Send BATCH_UPLOAD_ACK (Done st') else Done st')"
  have wait: "conversation (await_ack n (await_upload n finish)) (await_file m sizes 0 fileSize leave
      (read_str_wrapper (\<lambda>line. Send FILE_ACK (?q st')))) = conversation (await_upload n finish) (?q st')" for leave st'
    using assms(5-8) by (intro await_conversation [where j = j]) auto
  have upload: "conversation (await_upload n finish) (?q st') = Some (Done BATCH_UPLOAD_ACK, Done st')" for st'
    by (simp add: n conversation_reads answers_differ [symmetric] answers_differ finish_def conversation_rules)
  have idle: "idle (await_file m sizes 0 fileSize leave (read_str_wrapper k))" for leave k
    using assms(8) by (intro idle_await_file) simp_all
  show ?thesis
    using assms(1-4) command
    by (simp add: copyStoreToAggregator_def Let_def session_opens served send_centralstore_to_aggregator_command_def
        conversation_reads raw_gz unzip_and_copy [simplified] idle wait upload)
qed


lemma composite_conversation:
  assumes "plain masterIP" "plain availableFileList" "is_int threadPriority"
    and "l \<noteq> []" "solid l" "length l + 290 \<le> 2 ^ 32" "length (text_chunks l) \<le> m"
    and "aggregateCompositeCentralStoreTriangles (we_fb env) (ws_files st) (datafolder env) (aggregatefolder env) (we_enum env)
      l availableFileList = Some t"
    and "t \<noteq> []" "solid t" "length t + 290 \<le> 2 ^ 32" "length (text_chunks t) \<le> n"
  shows "conversation (countCompositeCentralStoreTriangles n True l masterIP availableFileList threadPriority)
      (worker_session (Suc (Suc m)) others env st) = Some (Done (Utils_split t CHR '':''), Done (served masterIP threadPriority st))"
proof -
  obtain n' where n: "n = Suc n'" using text_chunks_cases(3) [OF assms(9)] assms(12) by (cases n) auto
  obtain m' where m: "m = Suc m'" using text_chunks_cases(3) [OF assms(4)] assms(7) by (cases m) auto
  show ?thesis
    using assms(1-3,8)
    by (simp add: countCompositeCentralStoreTriangles_def session_opens session_commands n m
        aggregate_composite_centralstore_triangles_command_def conversation_reads Let_def send_text_chunks [OF assms(6)]
        send_text_chunks [OF assms(11)] text_delivered [OF assms(4,5,7) [unfolded m]] text_received [OF assms(9,10,12) [unfolded n]]
        session_closes finish_def served_def)
qed

subsection \<open>Empty texts\<close>

text \<open>A text without bytes never arrives. The list of the other partitions is empty for a graph with one
  partition, the trace context is empty in a build without telemetry, and the list of files to
  transfer is empty if the partition holds all files of a combination; both sides then wait.\<close>

fun waits :: "'a proc \<Rightarrow> bool" where
  "waits (Recv _) = True"
| "waits _ = False"

lemma waits_reads [simp]: "waits (read_str_wrapper f)" "waits (read_str_trim_wrapper f)" "waits (receive_text (Suc n) acc k)"
  by (simp_all add: read_str_wrapper_def read_str_trim_wrapper_def receive_text.simps)

lemma silent_request:
  "waits p \<Longrightarrow> waits q \<Longrightarrow> conversation (Send [] p) q = Some (p, q)"
  by (cases p; cases q) (simp_all add: conversation_empty)

lemma no_partitions_hang:
  assumes "plain masterIP" "plain graphId" "plain partitionId"
  shows "\<exists>c s. conversation (countCentralStoreTriangles n True partitionId [] graphId masterIP threadPriority traceContext)
      (worker_session (Suc (Suc (Suc m))) others env st) = Some (c, s) \<and> waits c \<and> waits s"
  using assms
  by (simp add: countCentralStoreTriangles_def session_opens session_commands aggregate_centralstore_triangles_command_def
      conversation_reads silent_request)

lemma no_context_hang:
  assumes "plain masterIP" "plain graphId" "plain partitionId" "plain partitionIdList" "is_int threadPriority"
  shows "\<exists>c s. conversation (countCentralStoreTriangles (Suc n) True partitionId partitionIdList graphId masterIP threadPriority [])
      (worker_session (Suc (Suc (Suc m))) others env st) = Some (c, s) \<and> waits c \<and> waits s"
  using assms
  by (simp add: countCentralStoreTriangles_def session_opens session_commands aggregate_centralstore_triangles_command_def
      conversation_reads silent_request Let_def)

lemma conversation_waiting: "waits p \<Longrightarrow> waits q \<Longrightarrow> conversation p q = Some (p, q)"
  by (cases p; cases q) (simp_all add: conversation_def outcome_moves(3))

lemma no_transfers_hang:
  assumes "plain masterIP" "plain availableFileList"
  shows "\<exists>c s. conversation (countCompositeCentralStoreTriangles n True [] masterIP availableFileList threadPriority)
      (worker_session (Suc (Suc (Suc m))) others env st) = Some (c, s) \<and> waits c \<and> waits s"
  using assms
  by (simp add: countCompositeCentralStoreTriangles_def session_opens session_commands
      aggregate_composite_centralstore_triangles_command_def conversation_reads Let_def send_text_chunks text_chunks.simps
      conversation_waiting)

end
