(* ===== verification/Combinations.thy ===== *)
theory Combinations
  imports Main "HOL-Library.Sublist"
begin

text \<open>
  \<^verbatim>\<open>AbstractExecutor::getCombinations\<close>: the combinations of three partitions, from the permutations of a bit
  mask in the order of \<^verbatim>\<open>std::prev_permutation\<close>.
\<close>

subsection \<open>Bit masks\<close>

text \<open>\<^const>\<open>None\<close> where \<^verbatim>\<open>std::prev_permutation\<close> returns false. If the rest has no smaller permutation it is
  ascending, and the last of its elements below the head takes its place.\<close>

fun prev_permutation :: "nat list \<Rightarrow> nat list option" where
  "prev_permutation [] = None"
| "prev_permutation (x # xs) =
     (case prev_permutation xs of
        Some ys \<Rightarrow> Some (x # ys)
      | None \<Rightarrow>
          (let smaller = takeWhile (\<lambda>y. y < x) xs
           in if smaller = [] then None
              else Some (last smaller # rev (butlast smaller @ x # dropWhile (\<lambda>y. y < x) xs))))"

lemma prev_permutation_length: "prev_permutation xs = Some ys \<Longrightarrow> length ys = length xs"
proof (induction xs arbitrary: ys)
  case (Cons x xs)
  have "length (takeWhile (\<lambda>y. y < x) xs) + length (dropWhile (\<lambda>y. y < x) xs) = length xs"
    by (metis length_append takeWhile_dropWhile_id)
  moreover have "takeWhile (\<lambda>y. y < x) xs \<noteq> [] \<Longrightarrow> 0 < length (takeWhile (\<lambda>y. y < x) xs)" by simp
  ultimately show ?case using Cons by (auto simp: Let_def split: option.splits if_splits)
qed simp

lemma prev_permutation_decreases: "prev_permutation xs = Some ys \<Longrightarrow> (ys, xs) \<in> lex less_than"
proof (induction xs arbitrary: ys)
  case (Cons x xs)
  then show ?case
  proof (cases "prev_permutation xs")
    case None
    let ?smaller = "takeWhile (\<lambda>y. y < x) xs"
    from None Cons.prems have ne: "?smaller \<noteq> []" and ys: "ys = last ?smaller # rev (butlast ?smaller @ x # dropWhile (\<lambda>y. y < x) xs)"
      by (auto simp: Let_def split: if_splits)
    have "last ?smaller < x" using set_takeWhileD [OF last_in_set [OF ne]] by simp
    moreover have "length ys = length (x # xs)" using prev_permutation_length [OF Cons.prems] .
    ultimately show ?thesis by (simp add: ys)
  qed (use Cons in auto)
qed simp

function bitmasks :: "nat list \<Rightarrow> nat list list" where
  "bitmasks bitmask = bitmask # (case prev_permutation bitmask of None \<Rightarrow> [] | Some next \<Rightarrow> bitmasks next)"
  by pat_completeness auto
termination
  by (relation "lex less_than") (auto simp: wf_lex prev_permutation_decreases)

declare bitmasks.simps [simp del]

definition initial_mask :: "nat \<Rightarrow> nat list" where
  "initial_mask n = take n (replicate 3 1) @ replicate (n - 3) 0"

definition mask_indices :: "nat list \<Rightarrow> nat list" where
  "mask_indices bitmask = filter (\<lambda>i. bitmask ! i \<noteq> 0) [0..<length bitmask]"

definition getCombinations :: "'a list \<Rightarrow> 'a list list" where
  "getCombinations inputVector =
     map (\<lambda>combination. map (\<lambda>index. inputVector ! index) combination)
       (map mask_indices (bitmasks (initial_mask (length inputVector))))"

subsection \<open>All masks\<close>

fun all_masks :: "nat \<Rightarrow> nat \<Rightarrow> nat list list" where
  "all_masks 0 l = [replicate l 0]"
| "all_masks (Suc k) 0 = [replicate (Suc k) 1]"
| "all_masks (Suc k) (Suc l) = map (Cons 1) (all_masks k (Suc l)) @ map (Cons 0) (all_masks (Suc k) l)"

lemma all_masks_not_Nil [simp]: "all_masks k l \<noteq> []"
  by (induction k l rule: all_masks.induct) simp_all

lemma last_all_masks: "last (all_masks k l) = replicate l 0 @ replicate k 1"
  by (induction k l rule: all_masks.induct) (simp_all add: last_map)

lemma prev_ascending: "sorted xs \<Longrightarrow> prev_permutation xs = None"
  by (induction xs) (auto simp: Let_def takeWhile_eq_Nil_iff leD)

lemma bitmasks_Cons:
  "bitmasks (x # m) = map (Cons x) (bitmasks m) @
     (case prev_permutation (x # last (bitmasks m)) of None \<Rightarrow> [] | Some r \<Rightarrow> bitmasks r)"
proof (induction m rule: bitmasks.induct)
  case (1 m)
  show ?case
  proof (cases "prev_permutation m")
    case None
    then show ?thesis by (simp add: bitmasks.simps [of "x # m"] bitmasks.simps [of m] del: prev_permutation.simps(2)) 
  next
    case (Some m')
    have "bitmasks m' \<noteq> []" by (simp add: bitmasks.simps [of m'])
    with 1 [OF Some] Some show ?thesis
      by (simp add: bitmasks.simps [of "x # m"] bitmasks.simps [of m] prev_permutation.simps(2) [of x m] del: prev_permutation.simps(2))
  qed
qed

lemma bitmasks_all: "bitmasks (replicate k 1 @ replicate l 0) = all_masks k l"
proof (induction k l rule: all_masks.induct)
  case (1 l)
  have "prev_permutation (replicate l 0) = None" by (intro prev_ascending) simp
  then show ?case by (simp add: bitmasks.simps)
next
  case (2 k)
  have "prev_permutation (replicate (Suc k) 1) = None" by (intro prev_ascending) simp
  then show ?case
    by (simp only: all_masks.simps(2) replicate_0 append_Nil2 bitmasks.simps [of "replicate (Suc k) 1"] option.case)
next
  case (3 k l)
  let ?low = "replicate (Suc l) 0 @ replicate k (1 :: nat)"
  have "sorted ?low" "sorted (0 # replicate l 0 @ replicate (Suc k) (1 :: nat))" by (simp_all add: sorted_append)
  note low = this [THEN prev_ascending]
  have "takeWhile (\<lambda>y. y < 1) ?low = replicate (Suc l) 0" "dropWhile (\<lambda>y. y < 1) ?low = replicate k (1 :: nat)"
    by (simp_all add: takeWhile_append dropWhile_append)
  then have step: "prev_permutation (1 # ?low) = Some (0 # replicate (Suc k) 1 @ replicate l 0)"
    using low(1) by (simp add: Let_def butlast_append replicate_append_same flip: replicate_append_same)
  have "bitmasks (0 # replicate (Suc k) 1 @ replicate l 0) = map (Cons 0) (all_masks (Suc k) l)"
    using bitmasks_Cons [of 0 "replicate (Suc k) 1 @ replicate l 0"] unfolding "3.IH"(2) last_all_masks low(2) by simp
  then show ?case
    using bitmasks_Cons [of 1 "replicate k 1 @ replicate (Suc l) 0"] unfolding "3.IH"(1) last_all_masks step by simp
qed

lemma set_all_masks: "m \<in> set (all_masks k l) \<longleftrightarrow> length m = k + l \<and> set m \<subseteq> {0, 1} \<and> sum_list m = k"
proof (induction k l arbitrary: m rule: all_masks.induct)
  case (1 l)
  show ?case by (auto simp: sum_list_replicate replicate_eqI in_set_replicate)
next
  case (2 k)
  have "m = replicate (Suc k) 1" if "length m = Suc k" "set m \<subseteq> {0, 1}" "sum_list m = Suc k" for m :: "nat list"
  proof -
    have "sum_list m = length m \<Longrightarrow> set m \<subseteq> {0, 1} \<Longrightarrow> m = replicate (length m) 1" for m :: "nat list"
    proof (induction m)
      case (Cons x m)
      have "sum_list m \<le> length m" using Cons.prems(2) by (induction m) auto
      then show ?case using Cons by (auto simp: le_Suc_eq)
    qed simp
    from this [of m] that show ?thesis by simp
  qed
  then show ?case by (auto simp: sum_list_replicate in_set_replicate)
next
  case (3 k l)
  show ?case
  proof (cases m)
    case (Cons x m')
    then show ?thesis using "3.IH" [of m'] by (auto simp: image_iff)
  qed auto
qed

lemma distinct_all_masks: "distinct (all_masks k l)"
  by (induction k l rule: all_masks.induct) (auto simp: distinct_map)

lemma initial_mask: "initial_mask n = replicate (min 3 n) 1 @ replicate (n - 3) 0"
  by (simp add: initial_mask_def min.commute)

text \<open>A mask and the set of the selected elements.\<close>

lemma mask_indices_props: "distinct (mask_indices m)" "set (mask_indices m) = {i. i < length m \<and> m ! i \<noteq> 0}"
  by (auto simp: mask_indices_def)

lemma sum_list_mask:
  assumes "set m \<subseteq> {0, 1}"
  shows "sum_list m = card {i. i < length m \<and> m ! i \<noteq> 0}"
proof -
  have "sum_list m = (\<Sum>i<length m. m ! i)" by (simp add: sum_list_sum_nth atLeast0LessThan)
  also have "\<dots> = (\<Sum>i<length m. if m ! i \<noteq> 0 then 1 else 0)"
    using assms nth_mem by (intro sum.cong) fastforce+
  also have "\<dots> = card {i. i < length m \<and> m ! i \<noteq> 0}" by (simp add: sum.If_cases Int_def)
  finally show ?thesis .
qed

lemma getCombinations_masks:
  "getCombinations xs = map (\<lambda>m. map (\<lambda>i. xs ! i) (mask_indices m)) (all_masks (min 3 (length xs)) (length xs - 3))"
  by (simp only: getCombinations_def initial_mask bitmasks_all list.map_comp comp_def)

lemma mask_of_set:
  assumes "distinct xs" "S \<subseteq> set xs"
  shows "\<exists>m. length m = length xs \<and> set m \<subseteq> {0, 1} \<and> sum_list m = card S \<and> set (map (\<lambda>i. xs ! i) (mask_indices m)) = S"
proof -
  define m where "m = map (\<lambda>x. if x \<in> S then 1 else 0 :: nat) xs"
  have m: "length m = length xs" "set m \<subseteq> {0, 1}" by (auto simp: m_def)
  have ix: "{i. i < length m \<and> m ! i \<noteq> 0} = {i. i < length xs \<and> xs ! i \<in> S}" by (auto simp: m_def split: if_splits)
  have image: "(\<lambda>i. xs ! i) ` {i. i < length xs \<and> xs ! i \<in> S} = S"
    using assms(2) by (auto simp: in_set_conv_nth subset_iff image_iff)
  have "inj_on (\<lambda>i. xs ! i) {i. i < length xs \<and> xs ! i \<in> S}" using assms(1) by (auto simp: inj_on_def nth_eq_iff_index_eq)
  from card_image [OF this] have "sum_list m = card S" unfolding sum_list_mask [OF m(2)] ix image by simp
  moreover have "set (map (\<lambda>i. xs ! i) (mask_indices m)) = S" by (simp only: set_map mask_indices_props(2) ix image)
  ultimately show ?thesis using m by blast
qed

lemma mask_unique:
  assumes "distinct xs" "length m = length xs" "length m' = length xs" "set m \<subseteq> {0, 1}" "set m' \<subseteq> {0, 1}"
    and "set (map (\<lambda>i. xs ! i) (mask_indices m)) = set (map (\<lambda>i. xs ! i) (mask_indices m'))"
  shows "m = m'"
proof (rule nth_equalityI)
  fix i assume i: "i < length m"
  have "(m ! i \<noteq> 0) = (xs ! i \<in> set (map (\<lambda>i. xs ! i) (mask_indices m)))"
    "(m' ! i \<noteq> 0) = (xs ! i \<in> set (map (\<lambda>i. xs ! i) (mask_indices m')))"
    using assms(1-3) i by (auto simp: mask_indices_props nth_eq_iff_index_eq)
  with assms(6) have "(m ! i \<noteq> 0) = (m' ! i \<noteq> 0)" by simp
  moreover have "m ! i \<in> {0, 1}" "m' ! i \<in> {0, 1}" using assms(2-5) i nth_mem by (metis subsetD)+
  ultimately show "m ! i = m' ! i" by auto
qed (simp add: assms)

lemma getCombinations_sets:
  assumes "distinct xs"
  shows "distinct (map set (getCombinations xs))" (is ?d)
    and "set (map set (getCombinations xs)) = {S. S \<subseteq> set xs \<and> card S = min 3 (length xs)}" (is ?s)
    and "list_all distinct (getCombinations xs)" (is ?e)
proof -
  let ?f = "\<lambda>m. map (\<lambda>i. xs ! i) (mask_indices m)" and ?M = "all_masks (min 3 (length xs)) (length xs - 3)"
  have M: "m \<in> set ?M \<longleftrightarrow> length m = length xs \<and> set m \<subseteq> {0, 1} \<and> sum_list m = min 3 (length xs)" for m
    unfolding set_all_masks by (auto simp: min_def)
  have "inj_on (\<lambda>m. set (?f m)) (set ?M)" using mask_unique [OF assms] M by (intro inj_onI) blast
  then show ?d by (simp add: getCombinations_masks distinct_map distinct_all_masks comp_def)
  have f: "set (?f m) \<subseteq> set xs" "card (set (?f m)) = min 3 (length xs)" "distinct (?f m)" if "m \<in> set ?M" for m
  proof -
    show "set (?f m) \<subseteq> set xs" using that M by (auto simp: mask_indices_props)
    show d: "distinct (?f m)"
      using that M assms by (auto simp: distinct_map mask_indices_props inj_on_def nth_eq_iff_index_eq)
    have "length (mask_indices m) = sum_list m"
      unfolding sum_list_mask [of m, OF conjunct1 [OF conjunct2 [OF M [THEN iffD1, OF that]]]]
      using distinct_card [OF mask_indices_props(1) [of m]] unfolding mask_indices_props(2) by simp
    with distinct_card [OF d] that M show "card (set (?f m)) = min 3 (length xs)" by simp
  qed
  then show ?e by (simp add: getCombinations_masks list_all_iff)
  show ?s
  proof (intro equalityI subsetI)
    fix S assume "S \<in> set (map set (getCombinations xs))"
    then show "S \<in> {S. S \<subseteq> set xs \<and> card S = min 3 (length xs)}" using f by (auto simp: getCombinations_masks)
  next
    fix S assume "S \<in> {S. S \<subseteq> set xs \<and> card S = min 3 (length xs)}"
    with mask_of_set [OF assms, of S] M obtain m where "m \<in> set ?M" "set (?f m) = S" by auto
    then show "S \<in> set (map set (getCombinations xs))" by (force simp: getCombinations_masks)
  qed
qed

text \<open>The combinations as the subsequences of the input.\<close>

lemma selected_Cons:
  "map ((!) (x # xs)) (mask_indices (b # m)) = (if b \<noteq> 0 then [x] else []) @ map ((!) xs) (mask_indices m)"
proof -
  have "[0..<length (b # m)] = 0 # map Suc [0..<length m]" by (simp add: upt_conv_Cons map_Suc_upt del: upt_Suc)
  then have "mask_indices (b # m) = (if b \<noteq> 0 then [0] else []) @ map Suc (mask_indices m)"
    by (simp add: mask_indices_def filter_map comp_def del: upt_Suc)
  then show ?thesis by (simp add: comp_def)
qed

lemma selected_all: "length xs = n \<Longrightarrow> map ((!) xs) (mask_indices (replicate n 1)) = xs"
proof (induction n arbitrary: xs)
  case (Suc n)
  then obtain y ys where "xs = y # ys" by (cases xs) auto
  with Suc show ?case by (simp add: selected_Cons)
qed (simp add: mask_indices_def)

lemma selected_none: "length xs = n \<Longrightarrow> map ((!) xs) (mask_indices (replicate n 0)) = []"
  by (simp add: mask_indices_def)

lemma selected_subsequences:
  "length xs = k + l \<Longrightarrow> (\<lambda>m. map ((!) xs) (mask_indices m)) ` set (all_masks k l) = {c. subseq c xs \<and> length c = k}"
proof (induction k l arbitrary: xs rule: all_masks.induct)
  case (1 l)
  then show ?case by (auto simp: selected_none)
next
  case (2 k)
  then have "(\<lambda>m. map ((!) xs) (mask_indices m)) ` set (all_masks (Suc k) 0) = {xs}"
    using selected_all [of xs "Suc k"] by simp
  then show ?case using 2 subseq_same_length by fastforce
next
  case (3 k l)
  then obtain y ys where xs: "xs = y # ys" "length ys = k + Suc l" by (cases xs) auto
  have "{c. subseq c xs \<and> length c = Suc k} = Cons y ` {c. subseq c ys \<and> length c = k} \<union> {c. subseq c ys \<and> length c = Suc k}" (is "?l = ?r")
  proof (intro equalityI subsetI)
    fix c assume "c \<in> ?l"
    then show "c \<in> ?r" by (cases c) (auto simp: xs split: if_splits)
  next
    fix c assume "c \<in> ?r"
    then show "c \<in> ?l" by (auto simp: xs)
  qed
  moreover have "(\<lambda>m. map ((!) xs) (mask_indices m)) ` set (all_masks (Suc k) (Suc l)) =
      Cons y ` (\<lambda>m. map ((!) ys) (mask_indices m)) ` set (all_masks k (Suc l)) \<union>
      (\<lambda>m. map ((!) ys) (mask_indices m)) ` set (all_masks (Suc k) l)"
    by (auto simp: xs(1) selected_Cons image_Un image_image)
  ultimately show ?case using 3 xs by simp
qed

lemma length_all_masks: "length (all_masks k l) = (k + l) choose k"
  by (induction k l rule: all_masks.induct) simp_all

text \<open>C29. \<^verbatim>\<open>getCombinations\<close> terminates and returns exactly the subsequences of three elements of its input, or
  the whole input if it is shorter, with one combination for each choice of positions.\<close>

theorem getCombinations_correct:
  "set (getCombinations xs) = {c. subseq c xs \<and> length c = min 3 (length xs)} \<and>
   length (getCombinations xs) = length xs choose min 3 (length xs)"
proof -
  have "min 3 (length xs) + (length xs - 3) = length xs" by simp
  then show ?thesis
    using selected_subsequences [of xs "min 3 (length xs)" "length xs - 3"]
    by (simp add: getCombinations_masks length_all_masks image_image)
qed

end
