(* ===== verification/Master_Triangles.thy ===== *)
theory Master_Triangles
  imports Master_Protocol Combinations
begin

text \<open>
  The distributed triangle count of the master (\<^verbatim>\<open>TriangleCountExecutor::execute\<close> without composite stores): the
  counts of the partitions are added up, and for every combination of three partitions one worker
  collects their central stores and lists the triangles between partitions. A thread that talks to a
  worker is its conversation; the threads write to different places and are taken in order.
\<close>

subsection \<open>Workers on the network\<close>

type_synonym world = "string \<Rightarrow> string \<Rightarrow> (worker_env \<times> worker_state) option"

text \<open>What the master brings: the number of messages it waits for in a loop, the commands of workers that are
  not modelled, its address, the priority of the job, the trace contexts, the sizes of its files, the
  content of an uninitialised variable, and the count with composite stores, which a graph with more
  than four partitions takes.\<close>

record master_env =
  me_fuel :: nat
  me_others :: "string \<Rightarrow> command option"
  me_masterIP :: string
  me_threadPriority :: int
  me_masterTraceContext :: string
  me_traceContext :: string
  me_fileSize :: "string \<Rightarrow> int"
  me_junk :: int
  me_composite :: "(string \<times> string list) list \<Rightarrow> world \<Rightarrow> (int \<times> world) option"

text \<open>A worker serves a connection in a forked process, of which only the files remain.\<close>

definition worker_call :: "master_env \<Rightarrow> world \<Rightarrow> string \<Rightarrow> string \<Rightarrow> (bool \<Rightarrow> 'a proc) \<Rightarrow> ('a \<times> world) option" where
  "worker_call me w ip port request =
     (case w ip port of
        None \<Rightarrow> (case request False of Done r \<Rightarrow> Some (r, w) | _ \<Rightarrow> None)
      | Some (env, st) \<Rightarrow>
          (case conversation (request True) (worker_session (me_fuel me) (me_others me) env st) of
             Some (Done r, Done st') \<Rightarrow> Some (r, w(ip := (w ip)(port \<mapsto> (env, st\<lparr>ws_files := ws_files st'\<rparr>))))
           | _ \<Rightarrow> None))"

definition atoi :: "string \<Rightarrow> int option" where
  "atoi s = (if scan_number s = None then Some 0 else stoi s)"

subsection \<open>Joining central stores\<close>

definition partition_worker_map :: "(string \<times> string list) list \<Rightarrow> (string \<times> string) list" where
  "partition_worker_map partitionMap =
     fold (\<lambda>(worker, parts) m. fold (\<lambda>p m. map_put p worker m) parts m) partitionMap []"

definition map_entry :: "('k \<times> string) list \<Rightarrow> 'k \<Rightarrow> string" where
  "map_entry m k = (case map_of m k of None \<Rightarrow> [] | Some v \<Rightarrow> v)"

text \<open>The worker of a combination: weight, worker and partition.\<close>

definition weigh :: "(string \<times> int) list \<Rightarrow> (string \<times> string) list \<Rightarrow> string \<Rightarrow> int \<times> string \<times> string \<Rightarrow> int \<times> string \<times> string" where
  "weigh workerWeightMap partitionWorkerMap part best =
     (let workerId = map_entry partitionWorkerMap part in
      case map_of workerWeightMap workerId of
        Some weight \<Rightarrow> if fst best = 0 \<or> fst best > weight then (weight + 1, workerId, part) else best
      | None \<Rightarrow> (1, workerId, part))"

definition partition_id_list :: "string \<Rightarrow> string list \<Rightarrow> string" where
  "partition_id_list minPart combination =
     butlast (concat (map (\<lambda>part. if part \<noteq> minPart then part @ '','' else []) combination))"

definition ensure_store :: "master_env \<Rightarrow> string \<Rightarrow> string \<Rightarrow> string \<Rightarrow> string \<Rightarrow> world \<Rightarrow> world option" where
  "ensure_store me graphId ip port part w =
     do {
       (available, w) \<leftarrow> worker_call me w ip port (\<lambda>connected.
         isFileAccessibleToWorker connected graphId part (me_masterIP me) FILE_TYPE_CENTRALSTORE_AGGREGATE []);
       if available = ''false'' then do {
         graphIdInt \<leftarrow> atoi graphId;
         partInt \<leftarrow> atoi part;
         (_, w) \<leftarrow> worker_call me w ip port (\<lambda>connected. copyCentralStoreToAggregator (me_fuel me) connected graphIdInt partInt
           (me_fileSize me (central_store_name graphIdInt partInt)) (me_masterIP me));
         Some w
       } else Some w
     }"

fun ensure_stores :: "master_env \<Rightarrow> string \<Rightarrow> string \<Rightarrow> string \<Rightarrow> string list \<Rightarrow> world \<Rightarrow> world option" where
  "ensure_stores me graphId ip port [] w = Some w"
| "ensure_stores me graphId ip port (part # parts) w =
     do { w \<leftarrow> ensure_store me graphId ip port part w; ensure_stores me graphId ip port parts w }"

text \<open>Indexing the row of an unknown worker is undefined.\<close>

definition aggregate_combination ::
  "master_env \<Rightarrow> string \<Rightarrow> (string \<times> string) list \<Rightarrow> (string \<times> (string \<times> string)) list \<Rightarrow> string list \<Rightarrow>
   (string \<times> int) list \<times> world \<Rightarrow> (string \<times> (string \<times> int) list \<times> world) option" where
  "aggregate_combination me graphId partitionWorkerMap workerDataMap combination s =
     (let (workerWeightMap, w) = s;
          (minimumWeight, minWeightWorker, minPart) = fold (weigh workerWeightMap partitionWorkerMap) combination (0, [], [])
      in do {
        (ip, port) \<leftarrow> map_of workerDataMap minWeightWorker;
        w \<leftarrow> ensure_stores me graphId ip port (filter (\<lambda>part. map_entry partitionWorkerMap part \<noteq> minWeightWorker) combination) w;
        (res, w) \<leftarrow> worker_call me w ip port (\<lambda>connected. countCentralStoreTriangles (me_fuel me) connected minPart
          (partition_id_list minPart combination) graphId (me_masterIP me) (me_threadPriority me) (me_traceContext me));
        Some (res, map_put minWeightWorker minimumWeight workerWeightMap, w)
      })"

fun aggregate_combinations ::
  "master_env \<Rightarrow> string \<Rightarrow> (string \<times> string) list \<Rightarrow> (string \<times> (string \<times> string)) list \<Rightarrow> string list list \<Rightarrow>
   (string \<times> int) list \<times> world \<Rightarrow> (string list \<times> world) option" where
  "aggregate_combinations me graphId pw wd [] s = Some ([], snd s)"
| "aggregate_combinations me graphId pw wd (combination # combinations) s =
     do {
       (res, s) \<leftarrow> aggregate_combination me graphId pw wd combination s;
       (rest, w) \<leftarrow> aggregate_combinations me graphId pw wd combinations s;
       Some (res # rest, w)
     }"

definition unique_triangles :: "string list \<Rightarrow> string set" where
  "unique_triangles responses =
     set (filter (\<lambda>t. t \<noteq> [] \<and> t \<noteq> ''NILL'') (Utils_split (concat (map (\<lambda>res. '':'' @ res) responses)) CHR '':''))"

definition worker_data_map :: "(string \<times> string \<times> string) list \<Rightarrow> (string \<times> (string \<times> string)) list" where
  "worker_data_map workerDataResult = fold (\<lambda>(id, ip, port) m. map_put id (ip, port) m) workerDataResult []"

definition Master_aggregateCentralStoreTriangles ::
  "master_env \<Rightarrow> string \<Rightarrow> (string \<times> string list) list \<Rightarrow> (string \<times> string \<times> string) list \<Rightarrow> world \<Rightarrow> (nat \<times> world) option" where
  "Master_aggregateCentralStoreTriangles me graphId partitionMap workerDataResult w =
     do {
       (responses, w) \<leftarrow> aggregate_combinations me graphId (partition_worker_map partitionMap) (worker_data_map workerDataResult)
         (getCombinations (concat (map snd partitionMap))) ([], w);
       Some (card (unique_triangles responses), w)
     }"

subsection \<open>The whole count\<close>

definition read_partition_map :: "(string \<times> string) list \<Rightarrow> (string \<times> string list) list" where
  "read_partition_map results =
     fold (\<lambda>(workerID, partitionId) m. map_put workerID
       (case map_of m workerID of None \<Rightarrow> [partitionId] | Some partitionVec \<Rightarrow> partitionVec @ [partitionId]) m) results []"

text \<open>A host with a user is cut at the first \<^verbatim>\<open>@\<close>.\<close>

definition host_name :: "string \<Rightarrow> string option" where
  "host_name host =
     (if CHR ''@'' \<in> set host
      then (case Utils_split host CHR ''@'' of _ # h # _ \<Rightarrow> Some h | _ \<Rightarrow> None)
      else Some host)"

fun count_partitions ::
  "master_env \<Rightarrow> string \<Rightarrow> string \<Rightarrow> string \<Rightarrow> string list \<Rightarrow> world \<Rightarrow> (int \<times> world) option" where
  "count_partitions me graphId host port [] w = Some (0, w)"
| "count_partitions me graphId host port (partitionId # partitionList) w =
     do {
       graphIdInt \<leftarrow> atoi graphId;
       partitionIdInt \<leftarrow> atoi partitionId;
       h \<leftarrow> host_name host;
       (count, w) \<leftarrow> worker_call me w h port (\<lambda>connected. getTriangleCount connected (me_junk me) graphIdInt partitionIdInt
         (me_masterIP me) (me_threadPriority me) (me_masterTraceContext me));
       (rest, w) \<leftarrow> count_partitions me graphId host port partitionList w;
       Some (count + rest, w)
     }"

fun count_workers ::
  "master_env \<Rightarrow> string \<Rightarrow> (string \<times> string list) list \<Rightarrow> (string \<times> string \<times> string) list \<Rightarrow> world \<Rightarrow> (int \<times> world) option" where
  "count_workers me graphId partitionMap [] w = Some (0, w)"
| "count_workers me graphId partitionMap ((workerID, host, port) # workerList) w =
     do {
       (count, w) \<leftarrow> count_partitions me graphId host port
         (case map_of partitionMap workerID of None \<Rightarrow> [] | Some partitionList \<Rightarrow> partitionList) w;
       (rest, w) \<leftarrow> count_workers me graphId partitionMap workerList w;
       Some (count + rest, w)
     }"

definition COMPOSITE_CENTRAL_STORE_WORKER_THRESHOLD :: nat where
  "COMPOSITE_CENTRAL_STORE_WORKER_THRESHOLD = 4"

definition Master_execute ::
  "master_env \<Rightarrow> string \<Rightarrow> (string \<times> string) list \<Rightarrow> (string \<times> string \<times> string) list \<Rightarrow> world \<Rightarrow> (int \<times> world) option" where
  "Master_execute me graphId results workerList w =
     (let partitionMap = read_partition_map results in
      if length results > COMPOSITE_CENTRAL_STORE_WORKER_THRESHOLD then me_composite me partitionMap w
      else do {
        (result, w) \<leftarrow> count_workers me graphId partitionMap workerList w;
        (aggregatedTriangleCount, w) \<leftarrow> Master_aggregateCentralStoreTriangles me graphId partitionMap workerList w;
        Some (result + int aggregatedTriangleCount, w)
      })"

end
