(* ===== verification/Triangle_Split.thy ===== *)
theory Triangle_Split
  imports Worker_Triangles
begin

text \<open>
  Triangles of a partitioned graph: a triangle has two corners in one partition, and the worker of the
  partition sees it, or its corners lie in three partitions, and it consists of edges between
  partitions, of which every one is in a central store.
\<close>

definition edge_between :: "(int \<Rightarrow> int set) \<Rightarrow> int \<Rightarrow> int \<Rightarrow> bool" where
  "edge_between G a b \<longleftrightarrow> b \<in> G a \<or> a \<in> G b"

definition graph_triangles :: "(int \<Rightarrow> int set) \<Rightarrow> int set set" where
  "graph_triangles G = {{a, b, c} | a b c. distinct [a, b, c] \<and> edge_between G a b \<and> edge_between G b c \<and> edge_between G a c}"

definition small_cycle :: "(int \<Rightarrow> int set) \<Rightarrow> bool" where
  "small_cycle G \<longleftrightarrow> (\<exists>a b c. distinct [a, b, c] \<and> G a = {b} \<and> G b = {c} \<and> G c = {a})"

lemma triangles_of_sets: "triangles_of nb = graph_triangles (\<lambda>v. set (nb v))" "short_cycle nb = small_cycle (\<lambda>v. set (nb v))"
  by (simp_all add: triangles_of_def graph_triangles_def linked_by_def edge_between_def short_cycle_def small_cycle_def)

lemma adjacent_sym: "edge_between G a b \<longleftrightarrow> edge_between G b a"
  by (auto simp: edge_between_def)

lemma triangle_pairs: "T \<in> graph_triangles G \<longleftrightarrow> (\<exists>a b c. T = {a, b, c} \<and> distinct [a, b, c]) \<and> (\<forall>x\<in>T. \<forall>y\<in>T. x \<noteq> y \<longrightarrow> edge_between G x y)"
proof
  assume "T \<in> graph_triangles G"
  then obtain a b c where "T = {a, b, c}" "distinct [a, b, c]" "edge_between G a b" "edge_between G b c" "edge_between G a c"
    by (auto simp: graph_triangles_def)
  then show "(\<exists>a b c. T = {a, b, c} \<and> distinct [a, b, c]) \<and> (\<forall>x\<in>T. \<forall>y\<in>T. x \<noteq> y \<longrightarrow> edge_between G x y)"
    using adjacent_sym by blast
next
  assume r: "(\<exists>a b c. T = {a, b, c} \<and> distinct [a, b, c]) \<and> (\<forall>x\<in>T. \<forall>y\<in>T. x \<noteq> y \<longrightarrow> edge_between G x y)"
  then obtain a b c where T: "T = {a, b, c}" "distinct [a, b, c]" by blast
  with r have "edge_between G a b" "edge_between G b c" "edge_between G a c" by auto
  with T show "T \<in> graph_triangles G" unfolding graph_triangles_def by blast
qed

lemma triangle_mono: "(\<And>v. G v \<subseteq> H v) \<Longrightarrow> graph_triangles G \<subseteq> graph_triangles H"
  unfolding graph_triangles_def edge_between_def by blast

lemma finite_triangles:
  assumes "finite V" "\<And>v. v \<notin> V \<Longrightarrow> G v = {}" "\<And>v. finite (G v)"
  shows "finite (graph_triangles G)"
proof (rule finite_subset)
  let ?W = "V \<union> (\<Union>v\<in>V. G v)"
  show "finite (Pow ?W)" using assms by simp
  show "graph_triangles G \<subseteq> Pow ?W"
  proof
    fix T assume T: "T \<in> graph_triangles G"
    have "x \<in> ?W" if x: "x \<in> T" for x
    proof -
      obtain y where "y \<in> T" "x \<noteq> y" using T x unfolding triangle_pairs by auto
      with T x have "edge_between G x y" unfolding triangle_pairs by blast
      then show ?thesis using assms(2) by (auto simp: edge_between_def)
    qed
    then show "T \<in> Pow ?W" by blast
  qed
qed

subsection \<open>The share of a partition\<close>

definition share :: "('v \<Rightarrow> 'p) \<Rightarrow> 'p \<Rightarrow> 'v set \<Rightarrow> bool" where
  "share part p T \<longleftrightarrow> (\<exists>x\<in>T. \<exists>y\<in>T. x \<noteq> y \<and> part x = p \<and> part y = p)"

text \<open>The edges that a partition sees, and the edges between partitions.\<close>

definition seen :: "(int \<Rightarrow> 'p) \<Rightarrow> (int \<Rightarrow> int set) \<Rightarrow> 'p \<Rightarrow> int \<Rightarrow> int set" where
  "seen part G p v = {w \<in> G v. part v = p \<or> part w = p}"

definition crossing :: "(int \<Rightarrow> 'p) \<Rightarrow> (int \<Rightarrow> int set) \<Rightarrow> int \<Rightarrow> int set" where
  "crossing part G v = {w \<in> G v. part v \<noteq> part w}"

lemma adjacent_seen: "edge_between (seen part G p) a b \<longleftrightarrow> edge_between G a b \<and> (part a = p \<or> part b = p)"
  by (auto simp: edge_between_def seen_def)

lemma adjacent_crossing: "edge_between (crossing part G) a b \<longleftrightarrow> edge_between G a b \<and> part a \<noteq> part b"
  by (auto simp: edge_between_def crossing_def)

lemma seen_triangles: "graph_triangles (seen part G p) = {T \<in> graph_triangles G. share part p T}"
proof (intro equalityI subsetI)
  fix T assume "T \<in> graph_triangles (seen part G p)"
  then obtain a b c where T: "T = {a, b, c}" "distinct [a, b, c]" "edge_between (seen part G p) a b" "edge_between (seen part G p) b c"
      "edge_between (seen part G p) a c"
    by (auto simp: graph_triangles_def)
  then have "share part p T" unfolding adjacent_seen share_def by auto
  moreover have "T \<in> graph_triangles G" using T unfolding adjacent_seen graph_triangles_def by blast
  ultimately show "T \<in> {T \<in> graph_triangles G. share part p T}" by simp
next
  fix T assume "T \<in> {T \<in> graph_triangles G. share part p T}"
  then obtain a b c where T: "T = {a, b, c}" "distinct [a, b, c]" "edge_between G a b" "edge_between G b c" "edge_between G a c" "share part p T"
    by (auto simp: graph_triangles_def)
  then have "(part a = p \<or> part b = p) \<and> (part b = p \<or> part c = p) \<and> (part a = p \<or> part c = p)"
    unfolding share_def by auto
  with T show "T \<in> graph_triangles (seen part G p)" unfolding graph_triangles_def adjacent_seen by blast
qed

lemma crossing_triangles: "graph_triangles (crossing part G) = {T \<in> graph_triangles G. \<forall>p. \<not> share part p T}"
proof (intro equalityI subsetI)
  fix T assume "T \<in> graph_triangles (crossing part G)"
  then obtain a b c where T: "T = {a, b, c}" "distinct [a, b, c]" "edge_between (crossing part G) a b" "edge_between (crossing part G) b c"
      "edge_between (crossing part G) a c"
    by (auto simp: graph_triangles_def)
  then have "\<forall>p. \<not> share part p T" unfolding adjacent_crossing share_def by auto
  moreover have "T \<in> graph_triangles G" using T unfolding adjacent_crossing graph_triangles_def by blast
  ultimately show "T \<in> {T \<in> graph_triangles G. \<forall>p. \<not> share part p T}" by simp
next
  fix T assume "T \<in> {T \<in> graph_triangles G. \<forall>p. \<not> share part p T}"
  then obtain a b c where T: "T = {a, b, c}" "distinct [a, b, c]" "edge_between G a b" "edge_between G b c" "edge_between G a c"
      "\<forall>p. \<not> share part p T"
    by (auto simp: graph_triangles_def)
  then have "part a \<noteq> part b \<and> part b \<noteq> part c \<and> part a \<noteq> part c" unfolding share_def by auto
  with T show "T \<in> graph_triangles (crossing part G)" unfolding graph_triangles_def adjacent_crossing by blast
qed

text \<open>The counts of the partitions and the count between partitions add up.\<close>

lemma triangles_add_up:
  assumes "finite (graph_triangles G)" "distinct ps" "\<And>a b. edge_between G a b \<Longrightarrow> part a \<in> set ps"
  shows "(\<Sum>p\<leftarrow>ps. card (graph_triangles (seen part G p))) + card (graph_triangles (crossing part G)) = card (graph_triangles G)"
proof -
  let ?T = "graph_triangles G"
  have one: "p = q" if "T \<in> ?T" "share part p T" "share part q T" for p q T
    using that by (auto simp: graph_triangles_def share_def)
  have where_p: "p \<in> set ps" if t: "T \<in> ?T" "share part p T" for p T
  proof -
    obtain x y where "x \<in> T" "y \<in> T" "x \<noteq> y" "part x = p" using t(2) by (auto simp: share_def)
    with t(1) assms(3) show ?thesis unfolding triangle_pairs by blast
  qed
  have "?T = (\<Union>p\<in>set ps. graph_triangles (seen part G p)) \<union> graph_triangles (crossing part G)"
    unfolding seen_triangles crossing_triangles using where_p by blast
  moreover have "(\<Union>p\<in>set ps. graph_triangles (seen part G p)) \<inter> graph_triangles (crossing part G) = {}"
    unfolding seen_triangles crossing_triangles by blast
  moreover have "card (\<Union>p\<in>set ps. graph_triangles (seen part G p)) = (\<Sum>p\<in>set ps. card (graph_triangles (seen part G p)))"
    using assms(1) one by (intro card_UN_disjoint) (auto simp: seen_triangles)
  moreover have "finite (\<Union>p\<in>set ps. graph_triangles (seen part G p))" "finite (graph_triangles (crossing part G))"
    using assms(1) by (auto simp: seen_triangles crossing_triangles)
  ultimately have "card ?T = (\<Sum>p\<in>set ps. card (graph_triangles (seen part G p))) + card (graph_triangles (crossing part G))"
    by (metis card_Un_disjoint)
  with assms(2) show ?thesis by (simp add: sum_list_distinct_conv_sum_set)
qed

subsection \<open>Combinations of central stores\<close>

lemma triangles_of_combinations:
  assumes "\<And>S. S \<subseteq> P \<Longrightarrow> card S \<le> 3 \<Longrightarrow> \<exists>C\<in>K. S \<subseteq> C" "\<And>C. C \<in> K \<Longrightarrow> C \<subseteq> P"
  shows "(\<Union>C\<in>K. graph_triangles (\<lambda>v. \<Union>p\<in>C. H p v)) = graph_triangles (\<lambda>v. \<Union>p\<in>P. H p v)"
proof (intro equalityI subsetI)
  fix T assume "T \<in> (\<Union>C\<in>K. graph_triangles (\<lambda>v. \<Union>p\<in>C. H p v))"
  then obtain C where C: "C \<in> K" "T \<in> graph_triangles (\<lambda>v. \<Union>p\<in>C. H p v)" by blast
  have "graph_triangles (\<lambda>v. \<Union>p\<in>C. H p v) \<subseteq> graph_triangles (\<lambda>v. \<Union>p\<in>P. H p v)"
    using assms(2) [OF C(1)] by (intro triangle_mono) blast
  with C(2) show "T \<in> graph_triangles (\<lambda>v. \<Union>p\<in>P. H p v)" by blast
next
  fix T assume "T \<in> graph_triangles (\<lambda>v. \<Union>p\<in>P. H p v)"
  then obtain a b c where T: "T = {a, b, c}" "distinct [a, b, c]"
      "edge_between (\<lambda>v. \<Union>p\<in>P. H p v) a b" "edge_between (\<lambda>v. \<Union>p\<in>P. H p v) b c" "edge_between (\<lambda>v. \<Union>p\<in>P. H p v) a c"
    by (auto simp: graph_triangles_def)
  then obtain p q r where pqr: "p \<in> P" "q \<in> P" "r \<in> P" "edge_between (H p) a b" "edge_between (H q) b c" "edge_between (H r) a c"
    by (auto simp: edge_between_def)
  have "card {p, q, r} \<le> 3" by (simp add: card_insert_if)
  with assms(1) [of "{p, q, r}"] pqr obtain C where C: "C \<in> K" "p \<in> C" "q \<in> C" "r \<in> C" by auto
  with pqr have "edge_between (\<lambda>v. \<Union>p\<in>C. H p v) a b" "edge_between (\<lambda>v. \<Union>p\<in>C. H p v) b c" "edge_between (\<lambda>v. \<Union>p\<in>C. H p v) a c"
    by (auto simp: edge_between_def)
  with T have "T \<in> graph_triangles (\<lambda>v. \<Union>p\<in>C. H p v)" unfolding graph_triangles_def by blast
  with C(1) show "T \<in> (\<Union>C\<in>K. graph_triangles (\<lambda>v. \<Union>p\<in>C. H p v))" by blast
qed

end
