(* ===== verification/Triangle_Answers.thy ===== *)
theory Triangle_Answers
  imports Master_Triangles Triangle_Split
begin

text \<open>
  The texts in which workers answer: a listing of triangles is cut at the colons again, and a triangle
  has one text, so that the number of different texts is the number of different triangles.
\<close>

subsection \<open>Joining and splitting\<close>

lemma split_on_Cons: "d \<notin> set x \<Longrightarrow> split_on d acc (x @ rest) = split_on d (acc @ x) rest"
  by (induction x arbitrary: acc) auto

lemma split_on_items:
  assumes "\<And>i. i \<in> set items \<Longrightarrow> i \<noteq> [] \<and> d \<notin> set i"
  shows "split_on d acc (concat (map (\<lambda>i. d # i) items)) = (if acc = [] \<and> items = [] then [] else acc # items)"
  using assms
proof (induction items arbitrary: acc)
  case (Cons i items)
  then show ?case using split_on_Cons [of d i "[]" "concat (map (\<lambda>i. d # i) items)"] by simp
qed simp

definition joined_by :: "char \<Rightarrow> string list \<Rightarrow> string" where
  "joined_by d items = butlast (concat (map (\<lambda>i. i @ [d]) items))"

lemma joined_by_Cons: "joined_by d (i # items) = i @ concat (map (\<lambda>i. d # i) items)"
proof (induction items arbitrary: i)
  case (Cons j items)
  have "joined_by d (i # j # items) = i @ d # joined_by d (j # items)"
    by (simp add: joined_by_def butlast_append)
  with Cons show ?case by simp
qed (simp add: joined_by_def)

lemma split_joined:
  assumes "\<And>i. i \<in> set items \<Longrightarrow> i \<noteq> [] \<and> d \<notin> set i"
  shows "Utils_split (joined_by d items) d = items"
proof (cases items)
  case (Cons i js)
  then show ?thesis
    using assms split_on_Cons [of d i "[]" "concat (map (\<lambda>i. d # i) js)"] split_on_items [of js d i]
    by (simp add: Utils_split_def joined_by_Cons)
qed (simp add: Utils_split_def joined_by_def)

lemma split_responses:
  assumes "\<And>items. items \<in> set itemss \<Longrightarrow> items \<noteq> []" "\<And>items i. items \<in> set itemss \<Longrightarrow> i \<in> set items \<Longrightarrow> i \<noteq> [] \<and> d \<notin> set i"
  shows "set (Utils_split (concat (map (\<lambda>items. [d] @ joined_by d items) itemss)) d) - {[]} = \<Union> (set ` set itemss)"
proof -
  have "concat (map (\<lambda>items. [d] @ joined_by d items) itemss) = concat (map (\<lambda>i. d # i) (concat itemss))"
    using assms(1)
  proof (induction itemss)
    case (Cons items itemss)
    then obtain i js where "items = i # js" by (cases items) auto
    with Cons show ?case by (simp add: joined_by_Cons)
  qed simp
  moreover have "set (split_on d [] (concat (map (\<lambda>i. d # i) (concat itemss)))) - {[]} = set (concat itemss)"
    using assms(2) by (subst split_on_items) auto
  ultimately show ?thesis by (simp add: Utils_split_def)
qed

subsection \<open>Triangles as texts\<close>

definition triangle_item :: "int \<times> int \<times> int \<Rightarrow> string" where
  "triangle_item t = (case t of (a, b, c) \<Rightarrow> to_string_int a @ '','' @ to_string_int b @ '','' @ to_string_int c)"

lemma triangle_text_item: "triangle_text t = triangle_item t @ [CHR '':'']"
  by (cases t) (simp add: triangle_text_def triangle_item_def)

lemma number_chars [simp]:
  "CHR '','' \<notin> set (to_string_int i)" "CHR '':'' \<notin> set (to_string_int i)" "CHR ''_'' \<notin> set (to_string_int i)"
  "CHR ''.'' \<notin> set (to_string_int i)" "CHR ''N'' \<notin> set (to_string_int i)"
  using set_to_string_int [of _ i] by (force simp: is_digit_def)+

lemma number_not_Nil [simp]: "to_string_int i \<noteq> []"
  by (simp add: to_string_int_def)

lemma item_chars: "c \<in> set (triangle_item t) \<Longrightarrow> c = CHR '','' \<or> (\<exists>i. c \<in> set (to_string_int i))"
  by (auto simp: triangle_item_def split: prod.splits)

lemma triangle_item_props: "triangle_item t \<noteq> []" "CHR '':'' \<notin> set (triangle_item t)" "triangle_item t \<noteq> ''NILL''" "solid (triangle_item t)"
proof -
  show "triangle_item t \<noteq> []" by (cases t) (simp add: triangle_item_def)
  show "CHR '':'' \<notin> set (triangle_item t)" by (auto dest: item_chars)
  have "CHR ''N'' \<notin> set (triangle_item t)" by (auto dest: item_chars)
  then show "triangle_item t \<noteq> ''NILL''" by auto
  have comma: "\<not> is_space CHR '','' \<and> CHR '','' \<noteq> CHR 0x00" by code_simp
  show "solid (triangle_item t)" unfolding solid_def
  proof
    fix c assume "c \<in> set (triangle_item t)"
    from item_chars [OF this] show "\<not> is_space c \<and> c \<noteq> CHR 0x00"
      using comma solid_number(1) unfolding solid_def by blast
  qed
qed

lemma triangle_item_inj: "triangle_item s = triangle_item t \<Longrightarrow> s = t"
proof -
  assume eq: "triangle_item s = triangle_item t"
  obtain a b c where s: "s = (a, b, c)" by (cases s)
  obtain a' b' c' where t: "t = (a', b', c')" by (cases t)
  have "triangle_item (a, b, c) = joined_by CHR '','' [to_string_int a, to_string_int b, to_string_int c]" for a b c
    by (simp add: triangle_item_def joined_by_Cons)
  moreover have "Utils_split (joined_by CHR '','' [to_string_int a, to_string_int b, to_string_int c]) CHR '','' =
      [to_string_int a, to_string_int b, to_string_int c]" for a b c
    by (intro split_joined) auto
  ultimately have "[to_string_int a, to_string_int b, to_string_int c] = [to_string_int a', to_string_int b', to_string_int c']"
    using eq unfolding s t by metis
  then show "s = t" by (simp add: s t to_string_int_inject)
qed

text \<open>The answer of a worker that found the triangles \<open>L\<close>.\<close>

definition answer :: "(int \<times> int \<times> int) list \<Rightarrow> string" where
  "answer L = (if L = [] then ''NILL'' else butlast (concat (map triangle_text L)))"

definition answer_items :: "(int \<times> int \<times> int) list \<Rightarrow> string list" where
  "answer_items L = (if L = [] then [''NILL''] else map triangle_item L)"

lemma answer_joined: "answer L = joined_by CHR '':'' (answer_items L)"
  by (simp add: answer_def answer_items_def joined_by_def triangle_text_item [abs_def] comp_def)

lemma unique_answers:
  assumes "\<And>L. L \<in> set Ls \<Longrightarrow> list_all sorted_triple L"
  shows "card (unique_triangles (map answer Ls)) = card (\<Union>L\<in>set Ls. corners ` set L)"
proof -
  have items: "i \<noteq> [] \<and> CHR '':'' \<notin> set i" if "i \<in> set (answer_items L)" for i L
    using that triangle_item_props(1,2) by (auto simp: answer_items_def split: if_splits)
  have eq: "map (\<lambda>res. '':'' @ res) (map answer Ls) = map (\<lambda>items. [CHR '':''] @ joined_by CHR '':'' items) (map answer_items Ls)"
    by (simp add: answer_joined)
  have "unique_triangles (map answer Ls) =
      set (Utils_split (concat (map (\<lambda>items. [CHR '':''] @ joined_by CHR '':'' items) (map answer_items Ls))) CHR '':'') - {[]} - {''NILL''}"
    unfolding unique_triangles_def eq by auto
  also have "\<dots> = \<Union> (set ` set (map answer_items Ls)) - {''NILL''}"
  proof (subst split_responses)
    show "items \<noteq> []" if "items \<in> set (map answer_items Ls)" for items using that by (auto simp: answer_items_def)
    show "i \<noteq> [] \<and> CHR '':'' \<notin> set i" if "xs \<in> set (map answer_items Ls)" "i \<in> set xs" for xs i
      using that items by auto
  qed simp
  also have "\<dots> = triangle_item ` (\<Union>L\<in>set Ls. set L)"
    using triangle_item_props(3) by (auto simp: answer_items_def split: if_splits)
  finally have "card (unique_triangles (map answer Ls)) = card (\<Union>L\<in>set Ls. set L)"
    using triangle_item_inj by (simp add: card_image inj_on_def)
  also have "\<dots> = card (corners ` (\<Union>L\<in>set Ls. set L))"
  proof (intro card_image [symmetric] inj_onI)
    fix s t assume "s \<in> (\<Union>L\<in>set Ls. set L)" "t \<in> (\<Union>L\<in>set Ls. set L)" "corners s = corners t"
    moreover from this assms have "sorted_triple s" "sorted_triple t" unfolding list_all_iff by blast+
    ultimately show "s = t" by (blast intro: corners_inj)
  qed
  also have "corners ` (\<Union>L\<in>set Ls. set L) = (\<Union>L\<in>set Ls. corners ` set L)" by blast
  finally show ?thesis .
qed

lemma answer_solid: "solid (answer L)" "answer L \<noteq> []"
proof -
  have colon: "\<not> is_space CHR '':'' \<and> CHR '':'' \<noteq> CHR 0x00" by code_simp
  have "solid ''NILL''" by code_simp
  moreover have "solid (butlast (concat (map triangle_text L)))" unfolding solid_def
  proof
    fix c assume "c \<in> set (butlast (concat (map triangle_text L)))"
    then obtain t where "c \<in> set (triangle_text t)" by (auto dest!: in_set_butlastD)
    then show "\<not> is_space c \<and> c \<noteq> CHR 0x00"
      using colon triangle_item_props(4) [of t] unfolding triangle_text_item solid_def by (simp only: set_append) auto
  qed
  ultimately show "solid (answer L)" by (simp add: answer_def)
  show "answer L \<noteq> []"
  proof (cases L)
    case (Cons t L')
    then show ?thesis using triangle_item_props(1) by (simp add: answer_joined answer_items_def joined_by_Cons)
  qed (simp add: answer_def)
qed

end
