(* ===== verification/Distributed_Count.thy ===== *)
theory Distributed_Count
  imports Triangle_Answers
begin

text \<open>
  The distributed count is exact. Workers hold the stores of their partitions, and what the file
  transfer delivers is the central store it was asked for; then the numbers that the master adds up
  are the number of triangles of the whole graph.
\<close>

subsection \<open>Lengths of answers\<close>

definition is_long :: "int \<Rightarrow> bool" where
  "is_long v \<longleftrightarrow> - (2 ^ 63) \<le> v \<and> v < 2 ^ 63"

lemma length_number: "is_long v \<Longrightarrow> length (to_string_int v) \<le> 20"
  using length_to_string_int [of v 19] by (simp add: is_long_def nat_less_iff abs_less_iff)

lemma length_triangle_text: "\<forall>v\<in>corners t. is_long v \<Longrightarrow> length (triangle_text t) \<le> 63"
proof (cases t)
  case (fields a b c)
  assume "\<forall>v\<in>corners t. is_long v"
  then have "length (to_string_int a) \<le> 20" "length (to_string_int b) \<le> 20" "length (to_string_int c) \<le> 20"
    using length_number by (simp_all add: fields corners_def)
  then show ?thesis by (simp add: fields triangle_text_def)
qed

lemma length_answer:
  assumes "distinct (map corners L)" "\<And>t v. t \<in> set L \<Longrightarrow> v \<in> corners t \<Longrightarrow> is_long v"
  shows "length (answer L) \<le> 63 * card (set (map corners L)) + 4"
proof -
  have "length (concat (map triangle_text L)) \<le> 63 * length L"
    using assms(2) length_triangle_text by (induction L) fastforce+
  moreover have "length L = card (set (map corners L))" using distinct_card [OF assms(1)] by simp
  ultimately show ?thesis by (auto simp: answer_def)
qed

lemma length_text_chunks: "length (text_chunks s) \<le> length s"
proof (induction s rule: text_chunks.induct)
  case (1 s)
  then show ?case by (cases "s = []"; cases "length s \<le> 290") (auto simp: text_chunks.simps [of s] text_chunks.simps [of "[]"] Suc_le_eq)
qed

subsection \<open>Files of a worker\<close>

definition store_name :: "string \<Rightarrow> string \<Rightarrow> string" where
  "store_name graphId p = graphId @ ''_centralstore_'' @ p"

definition store_path :: "string \<Rightarrow> string \<Rightarrow> string \<Rightarrow> string" where
  "store_path folder graphId p = folder @ ''/'' @ store_name graphId p"

definition numeral_text :: "string \<Rightarrow> bool" where
  "numeral_text p \<longleftrightarrow> (\<exists>i. is_int i \<and> p = to_string_int i)"

lemma path_end:
  assumes "xs @ ''_'' @ p = ys @ ''_'' @ q" "CHR ''_'' \<notin> set p" "CHR ''_'' \<notin> set q"
  shows "p = q"
proof -
  have "takeWhile (\<lambda>c. c \<noteq> CHR ''_'') (rev (zs @ ''_'' @ r)) = rev r" if "CHR ''_'' \<notin> set r" for zs r
    using that by (subst rev_append, subst rev_append) (auto simp: takeWhile_append2 takeWhile_tail)
  with assms show ?thesis by (metis rev_rev_ident)
qed

lemma store_path_end: "store_path folder graphId p = (folder @ ''/'' @ graphId @ ''_centralstore'') @ ''_'' @ p"
  by (simp add: store_path_def store_name_def)

lemma numeral_text_chars: "numeral_text p \<Longrightarrow> CHR ''_'' \<notin> set p \<and> CHR ''.'' \<notin> set p \<and> CHR '','' \<notin> set p \<and> p \<noteq> [] \<and> plain p"
  by (auto simp: numeral_text_def)

lemma store_path_inj: "numeral_text p \<Longrightarrow> numeral_text q \<Longrightarrow> store_path f g p = store_path f' g q \<Longrightarrow> p = q"
  unfolding store_path_end by (erule path_end) (simp_all add: numeral_text_chars)

lemma store_path_gz: "numeral_text p \<Longrightarrow> numeral_text q \<Longrightarrow> store_path f g p @ ''.gz'' \<noteq> store_path f' g q"
proof
  assume p: "numeral_text p" "numeral_text q" and eq: "store_path f g p @ ''.gz'' = store_path f' g q"
  have "p @ ''.gz'' = q"
    using eq p numeral_text_chars unfolding store_path_end append_assoc
    by (intro path_end [of "f @ ''/'' @ g @ ''_centralstore''" "p @ ''.gz''" "f' @ ''/'' @ g @ ''_centralstore''" q]) auto
  with numeral_text_chars [OF p(2)] show False by auto
qed

text \<open>What the transfer of a central store delivers.\<close>

definition delivers :: "master_env \<Rightarrow> string \<Rightarrow> (string \<Rightarrow> edge_map) \<Rightarrow> worker_env \<Rightarrow> string \<Rightarrow> bool" where
  "delivers me graphId cm env p \<longleftrightarrow>
     (\<exists>sizes file j es. delivered env (store_name graphId p @ ''.gz'') = Some (sizes, file) \<and>
        is_int (me_fileSize me (store_name graphId p @ ''.gz'')) \<and>
        (\<forall>i<j. int (sizes i) < me_fileSize me (store_name graphId p @ ''.gz'')) \<and>
        \<not> int (sizes j) < me_fileSize me (store_name graphId p @ ''.gz'') \<and> j + 3 \<le> me_fuel me \<and>
        length (gunzip env file) < 2 ^ 31 \<and> part_decode (we_fb env) (gunzip env file) = Some es \<and>
        cm p = toLocalSubGraphMap es [])"

text \<open>The stores of the partitions \<open>own\<close> among all partitions \<open>ps\<close>; a central store of another partition may
  be present from an earlier count. A worker joins the stores that it finds in the aggregate folder,
  and the master sends it no store of its own partitions: if it has several, their central stores
  have to be in that folder, too.\<close>

definition worker_ready ::
  "master_env \<Rightarrow> string \<Rightarrow> (string \<Rightarrow> edge_map) \<Rightarrow> string list \<Rightarrow> string list \<Rightarrow> worker_env \<Rightarrow> file_system \<Rightarrow> bool" where
  "worker_ready me graphId cm ps own env fs \<longleftrightarrow>
     enumerates (we_enum env) \<and>
     (\<forall>p\<in>set own. file_edges (we_fb env) fs (store_path (datafolder env) graphId p) (cm p)) \<and>
     (length own \<le> 1 \<or> (\<forall>p\<in>set own. file_edges (we_fb env) fs (store_path (aggregatefolder env) graphId p) (cm p))) \<and>
     (\<forall>p\<in>set ps. fs (store_path (aggregatefolder env) graphId p) \<noteq> None \<longrightarrow>
        file_edges (we_fb env) fs (store_path (aggregatefolder env) graphId p) (cm p)) \<and>
     (\<forall>p\<in>set ps. delivers me graphId cm env p)"

lemma file_edges_cong: "fs path = fs' path \<Longrightarrow> file_edges fb fs path m \<longleftrightarrow> file_edges fb fs' path m"
  by (simp add: file_edges_def)

lemma with_store_other:
  assumes "numeral_text p" "numeral_text q" "p \<noteq> q"
  shows "with_store env (store_name graphId p) file fs (store_path f graphId q) = fs (store_path f graphId q)"
proof -
  have "store_path f graphId q \<noteq> store_path f' graphId p" "store_path f graphId q \<noteq> store_path f' graphId p @ ''.gz''" for f'
    using store_path_inj [of q p f graphId f'] store_path_gz [of p q f' graphId f] assms by (auto dest: sym)
  then show ?thesis by (simp add: with_store_def store_path_def)
qed

lemma with_store_new:
  assumes "numeral_text p"
  shows "with_store env (store_name graphId p) file fs (store_path (aggregatefolder env) graphId p) = Some (gunzip env file)"
  using store_path_gz [OF assms assms, of "datafolder env" graphId "aggregatefolder env"]
  by (simp add: with_store_def store_path_def)

lemma worker_ready_copy:
  assumes "worker_ready me graphId cm ps own env fs" "\<forall>q\<in>set ps. numeral_text q" "set own \<subseteq> set ps" "p \<in> set ps" "p \<notin> set own"
    and "length (gunzip env file) < 2 ^ 31" "part_decode (we_fb env) (gunzip env file) = Some es" "cm p = toLocalSubGraphMap es []"
  shows "worker_ready me graphId cm ps own env (with_store env (store_name graphId p) file fs)"
    and "file_edges (we_fb env) (with_store env (store_name graphId p) file fs) (store_path (aggregatefolder env) graphId p) (cm p)"
proof -
  let ?fs = "with_store env (store_name graphId p) file fs"
  have p: "numeral_text p" using assms(2,4) by blast
  show new: "file_edges (we_fb env) ?fs (store_path (aggregatefolder env) graphId p) (cm p)"
    using assms(6-8) by (simp add: file_edges_def with_store_new [OF p])
  have keep: "file_edges (we_fb env) ?fs (store_path f graphId q) (cm q) \<longleftrightarrow> file_edges (we_fb env) fs (store_path f graphId q) (cm q)"
    if "q \<in> set ps" "q \<noteq> p" for f q
    using with_store_other [OF p _ that(2) [symmetric]] assms(2) that(1) by (intro file_edges_cong) blast
  have same: "?fs (store_path (aggregatefolder env) graphId q) = fs (store_path (aggregatefolder env) graphId q)"
    if "q \<in> set ps" "q \<noteq> p" for q
    using with_store_other [OF p _ that(2) [symmetric]] assms(2) that(1) by blast
  show "worker_ready me graphId cm ps own env ?fs"
    unfolding worker_ready_def
  proof (intro conjI)
    have "file_edges (we_fb env) ?fs (store_path f graphId q) (cm q) \<longleftrightarrow> file_edges (we_fb env) fs (store_path f graphId q) (cm q)"
      if "q \<in> set own" for f q
      using keep [of q f] that assms(3,5) by blast
    then show "\<forall>q\<in>set own. file_edges (we_fb env) ?fs (store_path (datafolder env) graphId q) (cm q)"
      "length own \<le> 1 \<or> (\<forall>q\<in>set own. file_edges (we_fb env) ?fs (store_path (aggregatefolder env) graphId q) (cm q))"
      using assms(1) unfolding worker_ready_def by auto
    show "\<forall>q\<in>set ps. ?fs (store_path (aggregatefolder env) graphId q) \<noteq> None \<longrightarrow>
      file_edges (we_fb env) ?fs (store_path (aggregatefolder env) graphId q) (cm q)"
    proof (intro ballI impI)
    fix q assume q: "q \<in> set ps" "?fs (store_path (aggregatefolder env) graphId q) \<noteq> None"
    show "file_edges (we_fb env) ?fs (store_path (aggregatefolder env) graphId q) (cm q)"
    proof (cases "q = p")
      case False
      then show ?thesis using assms(1) q unfolding worker_ready_def keep [OF q(1) False] same [OF q(1) False] by simp
    qed (use new in simp)
    qed
  qed (use assms(1) in \<open>simp_all add: worker_ready_def\<close>)
qed


subsection \<open>The workers of a graph\<close>

definition parts_of :: "(string \<times> string list) list \<Rightarrow> string \<Rightarrow> string list" where
  "parts_of pm worker = (case map_of pm worker of None \<Rightarrow> [] | Some parts \<Rightarrow> parts)"

definition partitions :: "(string \<times> string list) list \<Rightarrow> string list" where
  "partitions pm = concat (map snd pm)"

text \<open>Every partition is listed with one worker of the table, and the workers have different addresses.\<close>

definition cluster :: "(string \<times> string list) list \<Rightarrow> (string \<times> string \<times> string) list \<Rightarrow> bool" where
  "cluster pm rows \<longleftrightarrow> distinct (map fst rows) \<and> distinct (map snd rows) \<and> distinct (map fst pm) \<and> fst ` set pm \<subseteq> fst ` set rows \<and>
     distinct (partitions pm) \<and> (\<forall>p\<in>set (partitions pm). numeral_text p)"

definition world_ready ::
  "master_env \<Rightarrow> string \<Rightarrow> (string \<Rightarrow> edge_map) \<Rightarrow> (string \<times> string list) list \<Rightarrow> (string \<times> string \<times> string) list \<Rightarrow> world \<Rightarrow> bool" where
  "world_ready me graphId cm pm rows w \<longleftrightarrow>
     (\<forall>(worker, ip, port)\<in>set rows. \<exists>env st. w ip port = Some (env, st) \<and>
        worker_ready me graphId cm (partitions pm) (parts_of pm worker) env (ws_files st))"

definition master_ready :: "master_env \<Rightarrow> string \<Rightarrow> bool" where
  "master_ready me graphId \<longleftrightarrow> plain (me_masterIP me) \<and> plain (me_traceContext me) \<and> is_int (me_threadPriority me) \<and>
     (me_masterTraceContext me = [] \<or> plain (me_masterTraceContext me)) \<and> 3 \<le> me_fuel me \<and> numeral_text graphId"

lemma parts_of_partitions: "set (parts_of pm worker) \<subseteq> set (partitions pm)"
proof (cases "map_of pm worker")
  case (Some parts)
  then show ?thesis using map_of_SomeD [OF Some] by (auto simp: parts_of_def partitions_def)
qed (simp add: parts_of_def)

lemma fold_map_put_lookup:
  "ordered m \<Longrightarrow> ordered (fold (\<lambda>(k, v) m. map_put k v m) es m) \<and>
     map_of (fold (\<lambda>(k, v) m. map_put k v m) es m) = map_of m ++ map_of (rev es)"
proof (induction es arbitrary: m)
  case (Cons e es)
  obtain k v where e: "e = (k, v)" by fastforce
  from Cons.IH [OF ordered_map_put [OF Cons.prems, of k v]] show ?case
    by (auto simp: e map_put_lookup [OF Cons.prems] fun_eq_iff map_add_def split: option.splits)
qed simp

lemma partition_worker_lookup:
  assumes "distinct (partitions pm)" "(worker, parts) \<in> set pm" "p \<in> set parts"
  shows "map_entry (partition_worker_map pm) p = worker"
proof -
  let ?es = "concat (map (\<lambda>(u, ps). map (\<lambda>p. (p, u)) ps) pm)"
  have "fold (\<lambda>(u, ps) m. fold (\<lambda>p m. map_put p u m) ps m) pm m = fold (\<lambda>(k, v) m. map_put k v m) ?es m" for m
    by (induction pm arbitrary: m) (auto simp: fold_map comp_def)
  moreover have keys: "map fst ?es = partitions pm" by (induction pm) (auto simp: partitions_def comp_def)
  ultimately have "map_of (partition_worker_map pm) = map_of (rev ?es)"
    using fold_map_put_lookup [of "[]" ?es] by (simp add: partition_worker_map_def ordered_def)
  moreover have "(p, worker) \<in> set (rev ?es)" using assms(2,3) by auto
  moreover have "distinct (map fst (rev ?es))" using assms(1) keys by (metis distinct_rev rev_map)
  ultimately show ?thesis by (simp add: map_entry_def)
qed

lemma partition_worker:
  assumes "cluster pm rows" "p \<in> set (partitions pm)"
  shows "\<exists>ip port. (map_entry (partition_worker_map pm) p, ip, port) \<in> set rows \<and> p \<in> set (parts_of pm (map_entry (partition_worker_map pm) p))"
proof -
  obtain worker parts where e: "(worker, parts) \<in> set pm" "p \<in> set parts" using assms(2) by (auto simp: partitions_def)
  have "parts_of pm worker = parts" using assms(1) e(1) by (simp add: parts_of_def cluster_def)
  moreover have "worker \<in> fst ` set rows" using assms(1) e(1) unfolding cluster_def by force
  ultimately show ?thesis using partition_worker_lookup [OF _ e] assms(1) e(2) by (fastforce simp: cluster_def)
qed

lemma worker_data_lookup:
  assumes "distinct (map fst rows)" "(worker, ip, port) \<in> set rows"
  shows "map_of (worker_data_map rows) worker = Some (ip, port)"
proof -
  have "(\<lambda>(id, ip, port) m. map_put id (ip, port) m) = (\<lambda>(k, v) m. map_put k v m)" by (auto simp: fun_eq_iff)
  then have "map_of (worker_data_map rows) = map_of (rev rows)"
    using fold_map_put_lookup [of "[]" rows] by (simp add: worker_data_map_def ordered_def)
  moreover have "distinct (map fst (rev rows))" using assms(1) by (simp add: rev_map [symmetric])
  ultimately show ?thesis using assms(2) by simp
qed


subsection \<open>Collecting the stores of a combination\<close>

lemma call_worker:
  assumes "w ip port = Some (env, st)"
    and "conversation (request True) (worker_session (me_fuel me) (me_others me) env st) = Some (Done r, Done st')"
  shows "worker_call me w ip port request = Some (r, w(ip := (w ip)(port \<mapsto> (env, st\<lparr>ws_files := ws_files st'\<rparr>))))"
    and "ws_files st' = ws_files st \<Longrightarrow> worker_call me w ip port request = Some (r, w)"
proof -
  show *: "worker_call me w ip port request = Some (r, w(ip := (w ip)(port \<mapsto> (env, st\<lparr>ws_files := ws_files st'\<rparr>))))"
    using assms by (simp add: worker_call_def)
  show "worker_call me w ip port request = Some (r, w)" if "ws_files st' = ws_files st"
  proof -
    have "st\<lparr>ws_files := ws_files st\<rparr> = st" by simp
    moreover have "(w ip)(port \<mapsto> (env, st)) = w ip" using assms(1) by (simp add: fun_upd_idem)
    ultimately show ?thesis using * that by (simp add: fun_upd_idem)
  qed
qed

lemma fuel_three: "3 \<le> me_fuel me \<Longrightarrow> \<exists>m. me_fuel me = Suc (Suc (Suc m))"
  by (intro exI [of _ "me_fuel me - 3"]) simp

lemma atoi_number: "numeral_text p \<Longrightarrow> \<exists>i. atoi p = Some i \<and> is_int i \<and> to_string_int i = p"
  by (auto simp: numeral_text_def atoi_def scan_to_string_int)

lemma solid_append: "solid (s @ t) \<longleftrightarrow> solid s \<and> solid t"
  by (auto simp: solid_def)

lemma length_int: "is_int i \<Longrightarrow> length (to_string_int i) \<le> 11"
  using length_to_string_int [of i 10] by (simp add: is_int_def nat_less_iff abs_less_iff)

lemma store_name_plain:
  assumes "is_int g" "is_int i" "to_string_int g = graphId" "to_string_int i = p"
  shows "plain (store_name graphId p @ ''.gz'')"
proof (rule solid_plain)
  have "solid ''_centralstore_''" "solid ''.gz''" by code_simp+
  then show "solid (store_name graphId p @ ''.gz'')"
    using solid_number(1) assms(3,4) by (simp only: store_name_def solid_append append_assoc) auto
  show "length (store_name graphId p @ ''.gz'') \<le> 300"
    using length_int [OF assms(1)] length_int [OF assms(2)] assms(3,4) by (simp add: store_name_def)
qed simp

definition present :: "string \<Rightarrow> string \<Rightarrow> string \<Rightarrow> string \<Rightarrow> world \<Rightarrow> bool" where
  "present graphId ip port p w \<longleftrightarrow>
     (\<exists>env st. w ip port = Some (env, st) \<and> ws_files st (store_path (aggregatefolder env) graphId p) \<noteq> None)"

lemma world_ready_update:
  assumes "world_ready me graphId cm pm rows w" "cluster pm rows" "(worker, ip, port) \<in> set rows" "w ip port = Some (env, st)"
    and "worker_ready me graphId cm (partitions pm) (parts_of pm worker) env fs"
  shows "world_ready me graphId cm pm rows (w(ip := (w ip)(port \<mapsto> (env, st\<lparr>ws_files := fs\<rparr>))))"
  unfolding world_ready_def
proof (clarify)
  fix worker' ip' port' assume row: "(worker', ip', port') \<in> set rows"
  show "\<exists>env' st'. (w(ip := (w ip)(port \<mapsto> (env, st\<lparr>ws_files := fs\<rparr>)))) ip' port' = Some (env', st') \<and>
      worker_ready me graphId cm (partitions pm) (parts_of pm worker') env' (ws_files st')"
  proof (cases "(ip', port') = (ip, port)")
    case True
    with row assms(2,3) have "worker' = worker"
      by (auto simp: cluster_def distinct_map dest: inj_onD [of snd "set rows" "(worker', ip, port)" "(worker, ip, port)"])
    with True assms(5) show ?thesis by simp
  next
    case False
    with row assms(1) show ?thesis unfolding world_ready_def by (auto simp: fun_upd_def)
  qed
qed

lemma ensure_store_ready:
  assumes "world_ready me graphId cm pm rows w" "cluster pm rows" "master_ready me graphId" "(worker, ip, port) \<in> set rows"
    and "p \<in> set (partitions pm)" "p \<notin> set (parts_of pm worker)"
  shows "\<exists>w'. ensure_store me graphId ip port p w = Some w' \<and> world_ready me graphId cm pm rows w' \<and>
    present graphId ip port p w' \<and> (\<forall>q\<in>set (partitions pm). present graphId ip port q w \<longrightarrow> present graphId ip port q w')"
proof -
  obtain env st where st: "w ip port = Some (env, st)"
      "worker_ready me graphId cm (partitions pm) (parts_of pm worker) env (ws_files st)"
    using assms(1,4) unfolding world_ready_def by blast
  have nums: "\<forall>q\<in>set (partitions pm). numeral_text q" and p: "numeral_text p" "plain p" and g: "plain graphId" "plain (me_masterIP me)"
    using assms(2,3,5) numeral_text_chars by (auto simp: cluster_def master_ready_def)
  obtain m where m: "me_fuel me = Suc (Suc (Suc m))" using assms(3) fuel_three unfolding master_ready_def by blast
  let ?path = "store_path (aggregatefolder env) graphId p"
  have ask: "worker_call me w ip port (\<lambda>connected. isFileAccessibleToWorker connected graphId p (me_masterIP me) FILE_TYPE_CENTRALSTORE_AGGREGATE [])
      = Some (if fileExists (ws_files st) ?path then ''true'' else ''false'', w)"
    using accessible_conversation [OF g(2,1) p(2), of "[]" m "me_others me" env st]
    by (intro call_worker(2) [of w ip port env st _ _ _ "st\<lparr>ws_masterIP := me_masterIP me\<rparr>", OF st(1)]) (simp_all add: m store_path_def store_name_def)
  show ?thesis
  proof (cases "fileExists (ws_files st) ?path")
    case True
    then have "present graphId ip port p w" using st(1) by (auto simp: present_def fileExists_def)
    with True ask assms(1) show ?thesis by (simp add: ensure_store_def)
  next
    case False
    obtain gi where gi: "atoi graphId = Some gi" "is_int gi" "to_string_int gi = graphId"
      using atoi_number assms(3) unfolding master_ready_def by blast
    obtain i where i: "atoi p = Some i" "is_int i" "to_string_int i = p" using atoi_number [OF p(1)] by blast
    have name: "central_store_name gi i = store_name graphId p @ ''.gz''"
      using gi i by (simp add: central_store_name_def store_name_def)
    let ?size = "me_fileSize me (store_name graphId p @ ''.gz'')"
    have "delivers me graphId cm env p" using st(2) assms(5) by (simp add: worker_ready_def)
    then obtain sizes f j es where d: "delivered env (store_name graphId p @ ''.gz'') = Some (sizes, f)" "is_int ?size"
        "\<forall>i<j. int (sizes i) < ?size" "\<not> int (sizes j) < ?size" "j + 3 \<le> me_fuel me" "length (gunzip env f) < 2 ^ 31"
        "part_decode (we_fb env) (gunzip env f) = Some es" "cm p = toLocalSubGraphMap es []"
      unfolding delivers_def by blast
    have plain: "plain (store_name graphId p @ ''.gz'')"
      using store_name_plain gi i by blast
    let ?fs = "with_store env (store_name graphId p) f (ws_files st)"
    let ?w = "w(ip := (w ip)(port \<mapsto> (env, st\<lparr>ws_files := ?fs\<rparr>)))"
    have copy: "worker_call me w ip port (\<lambda>connected. copyCentralStoreToAggregator (me_fuel me) connected gi i ?size (me_masterIP me)) =
        Some (BATCH_UPLOAD_ACK, ?w)"
    proof -
      let ?st = "st\<lparr>ws_masterIP := me_masterIP me, ws_files := ?fs\<rparr>"
      have "conversation (copyCentralStoreToAggregator (me_fuel me) True gi i ?size (me_masterIP me))
          (worker_session (me_fuel me) (me_others me) env st) = Some (Done BATCH_UPLOAD_ACK, Done ?st)"
        using copy_conversation [OF g(2) plain d(2,1), of j "me_fuel me" "Suc m" SEND_CENTRALSTORE_TO_AGGREGATOR "me_others me" st] d(3,4,5)
        by (simp add: m copyCentralStoreToAggregator_def name)
      from call_worker(1) [of w ip port env st "\<lambda>connected. copyCentralStoreToAggregator (me_fuel me) connected gi i ?size (me_masterIP me)",
          OF st(1) this] show ?thesis by simp
    qed
    note ready = worker_ready_copy [OF st(2) nums parts_of_partitions assms(5,6) d(6-8)]
    have "present graphId ip port q ?w" if "q \<in> set (partitions pm)" "present graphId ip port q w" for q
      using that st(1) nums p(1) by (cases "q = p") (auto simp: present_def with_store_new with_store_other)
    moreover have "present graphId ip port p ?w" by (simp add: present_def with_store_new [OF p(1)])
    ultimately show ?thesis
      using world_ready_update [OF assms(1,2,4) st(1) ready(1)] False ask
      by (simp add: ensure_store_def gi(1) i(1) name copy)
  qed
qed


lemma ensure_stores_ready:
  assumes "world_ready me graphId cm pm rows w" "cluster pm rows" "master_ready me graphId" "(worker, ip, port) \<in> set rows"
    and "set ps \<subseteq> set (partitions pm) - set (parts_of pm worker)"
  shows "\<exists>w'. ensure_stores me graphId ip port ps w = Some w' \<and> world_ready me graphId cm pm rows w' \<and>
    (\<forall>p\<in>set ps. present graphId ip port p w') \<and>
    (\<forall>q\<in>set (partitions pm). present graphId ip port q w \<longrightarrow> present graphId ip port q w')"
  using assms(1,5)
proof (induction ps arbitrary: w)
  case (Cons p ps)
  then have p: "p \<in> set (partitions pm)" "p \<notin> set (parts_of pm worker)" by auto
  from ensure_store_ready [OF Cons.prems(1) assms(2-4) p] obtain w1 where w1: "ensure_store me graphId ip port p w = Some w1"
      "world_ready me graphId cm pm rows w1" "present graphId ip port p w1"
      "\<forall>q\<in>set (partitions pm). present graphId ip port q w \<longrightarrow> present graphId ip port q w1" by blast
  from Cons.IH [OF w1(2)] Cons.prems(2) obtain w2 where "ensure_stores me graphId ip port ps w1 = Some w2"
      "world_ready me graphId cm pm rows w2" "\<forall>p\<in>set ps. present graphId ip port p w2"
      "\<forall>q\<in>set (partitions pm). present graphId ip port q w1 \<longrightarrow> present graphId ip port q w2" by auto
  with w1 p(1) show ?case by auto
qed simp

subsection \<open>One combination\<close>

lemma weigh_chooses:
  assumes "combination \<noteq> []" "fold (weigh wm pw) combination (0, [], []) = (weight, worker, p)"
  shows "p \<in> set combination \<and> worker = map_entry pw p"
proof -
  have step: "p \<in> set (c # cs) \<and> worker = map_entry pw p"
    if "fold (weigh wm pw) cs best = (weight, worker, p)" "snd best = (map_entry pw c, c)" for cs c best
    using that
  proof (induction cs arbitrary: best c)
    case (Cons c' cs)
    have "snd (weigh wm pw c' best) = (map_entry pw c', c') \<or> weigh wm pw c' best = best"
      by (simp add: weigh_def Let_def split: option.split)
    then show ?case using Cons.IH [of "weigh wm pw c' best" c'] Cons.IH [of best c] Cons.prems by auto
  qed auto
  obtain c cs where c: "combination = c # cs" using assms(1) by (cases combination) auto
  have "snd (weigh wm pw c (0, [], [])) = (map_entry pw c, c)" by (simp add: weigh_def Let_def split: option.split)
  with step [of cs "weigh wm pw c (0, [], [])" c] assms(2) show ?thesis by (simp add: c)
qed

lemma partition_id_list_joined: "partition_id_list p ps = joined_by CHR '','' (filter (\<lambda>q. q \<noteq> p) ps)"
  unfolding partition_id_list_def joined_by_def by (rule arg_cong [where f = butlast]) (induction ps, auto)

text \<open>The triangles between the partitions \<open>ps\<close>.\<close>

definition between :: "(string \<Rightarrow> edge_map) \<Rightarrow> string set \<Rightarrow> int \<Rightarrow> int set" where
  "between cm P v = (\<Union>p\<in>P. links (cm p) v)"

lemma worker_answers:
  assumes "worker_ready me graphId cm ps own env fs" "p \<in> set own" "set own \<subseteq> set ps" "set qs \<subseteq> set ps" "p \<notin> set qs"
    and "\<forall>q\<in>set qs. q \<in> set own \<or> fs (store_path (aggregatefolder env) graphId q) \<noteq> None"
    and "\<forall>q\<in>set ps. numeral_text q" "\<not> small_cycle (between cm (insert p (set qs)))"
  shows "\<exists>L. distinct (map corners L) \<and> corners ` set L = graph_triangles (between cm (insert p (set qs))) \<and> list_all sorted_triple L \<and>
    aggregateCentralStoreTriangles (we_fb env) fs (datafolder env) (aggregatefolder env) (we_enum env) graphId p
      (joined_by CHR '','' qs) = Some (answer L)"
proof -
  let ?nb = "\<lambda>v. we_enum env (joined (cm p # map cm qs) v)"
  have enum: "enumerates (we_enum env)" using assms(1) by (simp add: worker_ready_def)
  have "Utils_split (joined_by CHR '','' qs) CHR '','' = qs"
    using assms(4,7) numeral_text_chars by (intro split_joined) blast
  moreover have own: "file_edges (we_fb env) fs (datafolder env @ ''/'' @ graphId @ ''_centralstore_'' @ p) (cm p)"
    using assms(1,2) by (simp add: worker_ready_def store_path_def store_name_def)
  moreover have others: "file_edges (we_fb env) fs (aggregatefolder env @ ''/'' @ graphId @ ''_centralstore_'' @ q) (cm q)" if "q \<in> set qs" for q
  proof -
    have "q \<notin> set own" if "length own \<le> 1" using assms(2,5) that \<open>q \<in> set qs\<close> by (cases own) auto
    then show ?thesis using that assms(1,4,6) unfolding worker_ready_def store_path_def store_name_def by blast
  qed
  ultimately have files: "list_all2 (file_edges (we_fb env) fs) (map (\<lambda>p. aggregatefolder env @ ''/'' @ graphId @ ''_centralstore_'' @ p)
      (Utils_split (joined_by CHR '','' qs) CHR '','')) (map cm qs)"
    by (simp add: list_all2_map1 list_all2_map2 list.rel_refl_strong)
  have "finite (joined (cm p # map cm qs) v)" for v
    using file_edges_ok [OF own] file_edges_ok [OF others] by (auto simp: joined_def intro!: finite_UN_I finite_links)
  then have nb: "set (?nb v) = between cm (insert p (set qs)) v" for v
    using enum by (simp add: enumerates_def joined_def between_def)
  from aggregateCentralStoreTriangles_lists [OF own files enum] assms(8)
  show ?thesis unfolding triangles_of_sets nb answer_def by auto
qed


text \<open>The triangles can be listed: their corners are \<^verbatim>\<open>long\<close> values, and the text is shorter than the index of its
  chunks allows and than the number of messages that the master waits for.\<close>

definition listable :: "master_env \<Rightarrow> int set set \<Rightarrow> bool" where
  "listable me TT \<longleftrightarrow> finite TT \<and> (\<forall>T\<in>TT. \<forall>v\<in>T. is_long v) \<and> 63 * card TT + 294 \<le> 2 ^ 32 \<and> 63 * card TT + 4 \<le> me_fuel me"

lemma listable_mono:
  assumes "listable me TT" "SS \<subseteq> TT"
  shows "listable me SS"
proof -
  have "card SS \<le> card TT" using assms by (auto simp: listable_def intro: card_mono)
  then have "63 * card SS + 294 \<le> 63 * card TT + 294" "63 * card SS + 4 \<le> 63 * card TT + 4" by simp_all
  with assms show ?thesis unfolding listable_def by (meson finite_subset le_trans subsetD)
qed

definition lists_triangles :: "(int \<times> int \<times> int) list \<Rightarrow> int set set \<Rightarrow> bool" where
  "lists_triangles L TT \<longleftrightarrow> distinct (map corners L) \<and> corners ` set L = TT \<and> list_all sorted_triple L"

lemma other_partitions_plain:
  assumes "\<forall>q\<in>set qs. numeral_text q" "qs \<noteq> []" "length qs \<le> 2"
  shows "plain (joined_by CHR '','' qs)"
proof -
  have q: "solid q \<and> q \<noteq> [] \<and> length q \<le> 11" if "q \<in> set qs" for q
    using bspec [OF assms(1) that] solid_number(1) length_int by (auto simp: numeral_text_def)
  have comma: "solid '',''" by code_simp
  from assms(2,3) consider q where "qs = [q]" | q r where "qs = [q, r]"
    by (cases qs rule: list.exhaust; cases "tl qs" rule: list.exhaust) (auto simp: length_Suc_conv numeral_2_eq_2)
  then show ?thesis
  proof cases
    case 1
    then show ?thesis using q by (intro solid_plain) (auto simp: joined_by_Cons)
  next
    case (2 x y)
    then have "joined_by CHR '','' qs = x @ '','' @ y" by (simp add: joined_by_Cons)
    moreover have "solid (x @ '','' @ y)" using q 2 comma by (simp only: solid_append) auto
    ultimately show ?thesis using q [of x] q [of y] 2 by (intro solid_plain) auto
  qed
qed

lemma owned_partition:
  assumes "cluster pm rows" "q \<in> set (partitions pm)"
  shows "q \<in> set (parts_of pm worker) \<longleftrightarrow> map_entry (partition_worker_map pm) q = worker"
proof
  assume "q \<in> set (parts_of pm worker)"
  then obtain parts where "map_of pm worker = Some parts" "q \<in> set parts" by (cases "map_of pm worker") (auto simp: parts_of_def)
  then show "map_entry (partition_worker_map pm) q = worker"
    using partition_worker_lookup [OF _ map_of_SomeD] assms(1) by (simp add: cluster_def)
qed (use partition_worker [OF assms] in blast)

lemma count_call:
  assumes "w ip port = Some (env, st)" "master_ready me graphId" "plain p" "plain qs" "listable me TT" "lists_triangles L TT"
    and "aggregateCentralStoreTriangles (we_fb env) (ws_files st) (datafolder env) (aggregatefolder env) (we_enum env) graphId p qs =
      Some (answer L)"
  shows "worker_call me w ip port (\<lambda>connected. countCentralStoreTriangles (me_fuel me) connected p qs graphId
      (me_masterIP me) (me_threadPriority me) (me_traceContext me)) = Some (answer L, w)"
proof -
  obtain m where m: "me_fuel me = Suc (Suc (Suc m))" using assms(2) fuel_three unfolding master_ready_def by blast
  have "length (answer L) \<le> 63 * card TT + 4"
    using length_answer [of L] assms(5,6) unfolding lists_triangles_def listable_def by auto
  then have "length (answer L) + 290 \<le> 2 ^ 32" "length (text_chunks (answer L)) \<le> me_fuel me"
    using length_text_chunks [of "answer L"] assms(5) unfolding listable_def by linarith+
  moreover have "plain graphId" using assms(2) numeral_text_chars unfolding master_ready_def by blast
  ultimately have "conversation (countCentralStoreTriangles (me_fuel me) True p qs graphId (me_masterIP me)
      (me_threadPriority me) (me_traceContext me)) (worker_session (me_fuel me) (me_others me) env st) =
      Some (Done (answer L), Done (served (me_masterIP me) (me_threadPriority me) st))"
    using assms(2-4) answer_solid [of L] unfolding master_ready_def m
    by (intro count_conversation [OF _ _ _ _ _ _ assms(7)]) auto
  from call_worker(2) [of w ip port env st "\<lambda>connected. countCentralStoreTriangles (me_fuel me) connected p qs graphId
      (me_masterIP me) (me_threadPriority me) (me_traceContext me)", OF assms(1) this] show ?thesis by simp
qed

lemma combination_counted:
  assumes ready: "world_ready me graphId cm pm rows w" "cluster pm rows" "master_ready me graphId"
    and comb: "distinct combination" "set combination \<subseteq> set (partitions pm)" "2 \<le> length combination" "length combination \<le> 3"
    and tri: "\<not> small_cycle (between cm (set combination))" "listable me (graph_triangles (between cm (set combination)))"
  shows "\<exists>L wm' w'. aggregate_combination me graphId (partition_worker_map pm) (worker_data_map rows) combination (wm, w) =
      Some (answer L, wm', w') \<and> world_ready me graphId cm pm rows w' \<and> lists_triangles L (graph_triangles (between cm (set combination)))"
proof -
  let ?pw = "partition_worker_map pm"
  obtain weight worker p where best: "fold (weigh wm ?pw) combination (0, [], []) = (weight, worker, p)" by (metis prod_cases3)
  have "combination \<noteq> []" using comb(3) by auto
  from weigh_chooses [OF this best] have p: "p \<in> set combination" "worker = map_entry ?pw p" by blast+
  obtain ip port where row: "(worker, ip, port) \<in> set rows" and own: "p \<in> set (parts_of pm worker)"
    using partition_worker [OF ready(2), of p] p comb(2) by blast
  have data: "map_of (worker_data_map rows) worker = Some (ip, port)"
    using worker_data_lookup [OF _ row] ready(2) by (simp add: cluster_def)
  let ?far = "filter (\<lambda>q. map_entry ?pw q \<noteq> worker) combination"
  note far = owned_partition [OF ready(2)]
  from ensure_stores_ready [OF ready row, of ?far] far comb(2) obtain w1 where
      w1: "ensure_stores me graphId ip port ?far w = Some w1" "world_ready me graphId cm pm rows w1"
        "\<forall>q\<in>set ?far. present graphId ip port q w1" by auto
  obtain env st where st: "w1 ip port = Some (env, st)"
      "worker_ready me graphId cm (partitions pm) (parts_of pm worker) env (ws_files st)"
    using w1(2) row unfolding world_ready_def by blast
  let ?qs = "filter (\<lambda>q. q \<noteq> p) combination"
  have qs: "insert p (set ?qs) = set combination" using p(1) by auto
  have nums: "\<forall>q\<in>set (partitions pm). numeral_text q" using ready(2) by (simp add: cluster_def)
  have "q \<in> set (parts_of pm worker) \<or> ws_files st (store_path (aggregatefolder env) graphId q) \<noteq> None" if "q \<in> set ?qs" for q
  proof (cases "map_entry ?pw q = worker")
    case True
    then show ?thesis using far [of q] that comb(2) by auto
  next
    case False
    then have "present graphId ip port q w1" using w1(3) that by simp
    then show ?thesis using st(1) by (simp add: present_def)
  qed
  with worker_answers [OF st(2) own parts_of_partitions, of ?qs] nums comb(2) tri(1) obtain L where
      L: "lists_triangles L (graph_triangles (between cm (set combination)))"
      and listing: "aggregateCentralStoreTriangles (we_fb env) (ws_files st) (datafolder env) (aggregatefolder env) (we_enum env) graphId p
        (partition_id_list p combination) = Some (answer L)"
    unfolding qs partition_id_list_joined lists_triangles_def by auto
  have "set ?qs = set combination - {p}" by auto
  then have "length ?qs = length combination - 1"
    using distinct_card [OF distinct_filter [OF comb(1)]] distinct_card [OF comb(1)] p(1) by (metis card_Diff_singleton)
  then have "?qs \<noteq> []" "length ?qs \<le> 2" using comb(3,4) by (auto simp del: filter_empty_conv)
  from other_partitions_plain [OF _ this] have list: "plain (partition_id_list p combination)"
    using comb(2) nums unfolding partition_id_list_joined by auto
  have "plain p" using p(1) comb(2) nums numeral_text_chars by blast
  from count_call [of w1 ip port env st, OF st(1) ready(3) this list tri(2) L listing] show ?thesis
    using w1(1,2) L by (auto simp: aggregate_combination_def best data)
qed


subsection \<open>All combinations\<close>

lemma combinations_counted:
  assumes "world_ready me graphId cm pm rows w" "cluster pm rows" "master_ready me graphId"
    and "\<And>c. c \<in> set combinations \<Longrightarrow> distinct c \<and> set c \<subseteq> set (partitions pm) \<and> 2 \<le> length c \<and> length c \<le> 3 \<and>
      \<not> small_cycle (between cm (set c)) \<and> listable me (graph_triangles (between cm (set c)))"
  shows "\<exists>Ls w'. aggregate_combinations me graphId (partition_worker_map pm) (worker_data_map rows) combinations (wm, w) =
      Some (map answer Ls, w') \<and> world_ready me graphId cm pm rows w' \<and>
      list_all2 (\<lambda>L c. lists_triangles L (graph_triangles (between cm (set c)))) Ls combinations"
  using assms(1,4)
proof (induction combinations arbitrary: wm w)
  case (Cons c combinations)
  from combination_counted [OF Cons.prems(1) assms(2,3), of c wm] Cons.prems(2) obtain L wm1 w1 where
      1: "aggregate_combination me graphId (partition_worker_map pm) (worker_data_map rows) c (wm, w) = Some (answer L, wm1, w1)"
        "world_ready me graphId cm pm rows w1" "lists_triangles L (graph_triangles (between cm (set c)))" by auto
  from Cons.IH [OF 1(2), of wm1] Cons.prems(2) obtain Ls w2 where
      "aggregate_combinations me graphId (partition_worker_map pm) (worker_data_map rows) combinations (wm1, w1) = Some (map answer Ls, w2)"
      "world_ready me graphId cm pm rows w2"
      "list_all2 (\<lambda>L c. lists_triangles L (graph_triangles (between cm (set c)))) Ls combinations" by auto
  with 1 show ?case by (intro exI [of _ "L # Ls"]) simp
qed auto

lemma combination_covers:
  assumes "distinct xs" "S \<subseteq> set xs" "card S \<le> 3"
  shows "\<exists>c\<in>set (getCombinations xs). S \<subseteq> set c"
proof -
  let ?k = "min 3 (length xs)"
  have "card S \<le> card (set xs)" using assms(2) by (simp add: card_mono)
  then have "card S \<le> ?k" "?k \<le> card (set xs)" using assms(3) distinct_card [OF assms(1)] by simp_all
  from exists_subset_between [OF this assms(2)] obtain C where "S \<subseteq> C" "C \<subseteq> set xs" "card C = ?k" by auto
  with getCombinations_sets(2) [OF assms(1)] have "C \<in> set (map set (getCombinations xs))" by auto
  with \<open>S \<subseteq> C\<close> show ?thesis by auto
qed

lemma combination_shape:
  assumes "distinct xs" "c \<in> set (getCombinations xs)"
  shows "distinct c" "set c \<subseteq> set xs" "length c = min 3 (length xs)"
proof -
  show d: "distinct c" using getCombinations_sets(3) [OF assms(1)] assms(2) by (simp add: list_all_iff)
  have "set c \<in> {S. S \<subseteq> set xs \<and> card S = min 3 (length xs)}" using getCombinations_sets(2) [OF assms(1)] assms(2) by auto
  then show "set c \<subseteq> set xs" "length c = min 3 (length xs)" using distinct_card [OF d] by auto
qed

lemma aggregate_is_exact:
  assumes "world_ready me graphId cm pm rows w" "cluster pm rows" "master_ready me graphId" "2 \<le> length (partitions pm)"
    and "\<And>P. P \<subseteq> set (partitions pm) \<Longrightarrow> \<not> small_cycle (between cm P)"
    and "listable me (graph_triangles (between cm (set (partitions pm))))"
  shows "\<exists>w'. Master_aggregateCentralStoreTriangles me graphId pm rows w =
    Some (card (graph_triangles (between cm (set (partitions pm)))), w') \<and> world_ready me graphId cm pm rows w'"
proof -
  let ?K = "getCombinations (partitions pm)" and ?T = "\<lambda>P. graph_triangles (between cm P)"
  have d: "distinct (partitions pm)" using assms(2) by (simp add: cluster_def)
  have sub: "?T P \<subseteq> ?T (set (partitions pm))" if "P \<subseteq> set (partitions pm)" for P
    using that by (intro triangle_mono) (auto simp: between_def)
  have "distinct c \<and> set c \<subseteq> set (partitions pm) \<and> 2 \<le> length c \<and> length c \<le> 3 \<and> \<not> small_cycle (between cm (set c)) \<and>
      listable me (?T (set c))" if "c \<in> set ?K" for c
    using combination_shape [OF d that] assms(4,5) listable_mono [OF assms(6) sub] by auto
  from combinations_counted [OF assms(1-3) this, of ?K "[]"] obtain Ls w' where
      run: "aggregate_combinations me graphId (partition_worker_map pm) (worker_data_map rows) ?K ([], w) = Some (map answer Ls, w')"
      and ready: "world_ready me graphId cm pm rows w'" and Ls: "list_all2 (\<lambda>L c. lists_triangles L (?T (set c))) Ls ?K" by blast
  have "(\<Union>L\<in>set Ls. corners ` set L) = (\<Union>c\<in>set ?K. ?T (set c))"
    using Ls by (induction rule: list_all2_induct) (auto simp: lists_triangles_def)
  also have "\<dots> = (\<Union>C\<in>set ` set ?K. graph_triangles (\<lambda>v. \<Union>p\<in>C. links (cm p) v))" by (simp add: between_def [abs_def])
  also have "\<dots> = graph_triangles (\<lambda>v. \<Union>p\<in>set (partitions pm). links (cm p) v)"
    using combination_covers [OF d] combination_shape(2) [OF d] by (intro triangles_of_combinations) auto
  also have "\<dots> = ?T (set (partitions pm))" by (simp add: between_def [abs_def])
  finally have "(\<Union>L\<in>set Ls. corners ` set L) = ?T (set (partitions pm))" .
  moreover have "list_all sorted_triple L" if "L \<in> set Ls" for L
    using Ls that by (induction rule: list_all2_induct) (auto simp: lists_triangles_def)
  ultimately have "card (unique_triangles (map answer Ls)) = card (?T (set (partitions pm)))" using unique_answers by metis
  with run ready show ?thesis by (simp add: Master_aggregateCentralStoreTriangles_def partitions_def)
qed

end
