(* ===== verification/Distributed_Exact.thy ===== *)
theory Distributed_Exact
  imports Distributed_Count
begin

text \<open>
  The number of triangles that \<^verbatim>\<open>TriangleCountExecutor::execute\<close> reports, from the stores of the workers to the
  sum on the master.
\<close>

subsection \<open>Counts of the partitions\<close>

definition local_ready ::
  "string \<Rightarrow> (string \<Rightarrow> edge_map) \<Rightarrow> (string \<Rightarrow> edge_map) \<Rightarrow> (string \<Rightarrow> edge_map) \<Rightarrow> string \<Rightarrow> worker_env \<times> worker_state \<Rightarrow> bool" where
  "local_ready graphId lm cm dm p node \<longleftrightarrow>
     (case node of (env, st) \<Rightarrow>
        file_edges (we_fb env) (ws_files st) (datafolder env @ ''/'' @ graphId @ ''_'' @ p) (lm p) \<and>
        file_edges (we_fb env) (ws_files st) (datafolder env @ ''/'' @ graphId @ ''_centralstore_'' @ p) (cm p) \<and>
        file_edges (we_fb env) (ws_files st) (datafolder env @ ''/'' @ graphId @ ''_centralstore_dp_'' @ p) (dm p) \<and>
        caches_hold graphId p (lm p) (cm p) (dm p) (ws_stores st) \<and> enumerates (we_enum env))"

definition stored :: "(string \<Rightarrow> edge_map) \<Rightarrow> (string \<Rightarrow> edge_map) \<Rightarrow> (string \<Rightarrow> edge_map) \<Rightarrow> string \<Rightarrow> int \<Rightarrow> int set" where
  "stored lm cm dm p v = links (lm p) v \<union> links (cm p) v \<union> links (dm p) v"

lemma partition_graph_set:
  assumes "edge_map_ok lm" "edge_map_ok cm" "edge_map_ok dm" "enumerates enum"
  shows "set (partition_graph enum lm cm dm v) = links lm v \<union> links cm v \<union> links dm v"
  using assms by (simp add: partition_graph_def union_graph_def enumerated_links Un_assoc)

lemma local_call:
  assumes "w ip port = Some (env, st)" "local_ready graphId lm cm dm p (env, st)" "master_ready me graphId" "numeral_text p"
    and "\<not> small_cycle (stored lm cm dm p)" "card (graph_triangles (stored lm cm dm p)) < 2 ^ 63"
    and "atoi graphId = Some g" "atoi p = Some i"
  shows "worker_call me w ip port (\<lambda>connected. getTriangleCount connected (me_junk me) g i (me_masterIP me) (me_threadPriority me)
      (me_masterTraceContext me)) = Some (int (card (graph_triangles (stored lm cm dm p))), w)"
proof -
  have g: "is_int g" "to_string_int g = graphId" "stoi graphId = Some g" and i: "is_int i" "to_string_int i = p" "stoi p = Some i"
    using atoi_number [of graphId] atoi_number [OF assms(4)] assms(3,7,8) is_int_number(2) by (auto simp: master_ready_def)
  have ready: "file_edges (we_fb env) (ws_files st) (datafolder env @ ''/'' @ graphId @ ''_'' @ p) (lm p)"
      "file_edges (we_fb env) (ws_files st) (datafolder env @ ''/'' @ graphId @ ''_centralstore_'' @ p) (cm p)"
      "file_edges (we_fb env) (ws_files st) (datafolder env @ ''/'' @ graphId @ ''_centralstore_dp_'' @ p) (dm p)"
      "caches_hold graphId p (lm p) (cm p) (dm p) (ws_stores st)" "enumerates (we_enum env)"
    using assms(2) by (simp_all add: local_ready_def)
  have "set (partition_graph (we_enum env) (lm p) (cm p) (dm p) v) = stored lm cm dm p v" for v
    unfolding stored_def using partition_graph_set ready(1-3,5) file_edges_ok by blast
  note sets = triangles_of_sets [of "partition_graph (we_enum env) (lm p) (cm p) (dm p)", unfolded this]
  obtain stores where "countLocalTriangles (we_fb env) (ws_files st) (datafolder env) (we_enum env) (we_junk env) (we_junk env)
      (to_string_int g) (to_string_int i) (ws_stores st) = Some (card (graph_triangles (stored lm cm dm p)), stores)"
    using countLocalTriangles_correct [OF g(3) i(3) g(2) i(2) ready, of "we_junk env" "we_junk env"] assms(5) unfolding sets g(2) i(2) by auto
  note count = triangle_conversation [OF _ g(1) i(1) _ _ this assms(6)]
  obtain m where m: "me_fuel me = Suc (Suc (Suc m))" using assms(3) fuel_three unfolding master_ready_def by blast
  obtain st' where "ws_files st' = ws_files st"
      "conversation (getTriangleCount True (me_junk me) g i (me_masterIP me) (me_threadPriority me) (me_masterTraceContext me))
        (worker_session (me_fuel me) (me_others me) env st) = Some (Done (int (card (graph_triangles (stored lm cm dm p)))), Done st')"
    using count assms(3) unfolding m master_ready_def by blast
  then show ?thesis
    using call_worker(2) [of w ip port env st "\<lambda>connected. getTriangleCount connected (me_junk me) g i (me_masterIP me)
      (me_threadPriority me) (me_masterTraceContext me)", OF assms(1)] by blast
qed

lemma partitions_counted:
  assumes "w ip port = Some (env, st)" "master_ready me graphId" "CHR ''@'' \<notin> set ip"
    and "\<And>p. p \<in> set ps \<Longrightarrow> local_ready graphId lm cm dm p (env, st) \<and> numeral_text p \<and> \<not> small_cycle (stored lm cm dm p) \<and>
      card (graph_triangles (stored lm cm dm p)) < 2 ^ 63"
  shows "count_partitions me graphId ip port ps w = Some (\<Sum>p\<leftarrow>ps. int (card (graph_triangles (stored lm cm dm p))), w)"
  using assms(4)
proof (induction ps)
  case (Cons p ps)
  obtain g where g: "atoi graphId = Some g" using atoi_number assms(2) unfolding master_ready_def by blast
  obtain i where i: "atoi p = Some i" using atoi_number Cons.prems [of p] by auto
  have "worker_call me w ip port (\<lambda>connected. getTriangleCount connected (me_junk me) g i (me_masterIP me) (me_threadPriority me)
      (me_masterTraceContext me)) = Some (int (card (graph_triangles (stored lm cm dm p))), w)"
    using Cons.prems [of p] local_call [of w ip port env st, OF assms(1) _ assms(2) _ _ _ g i] by simp
  with Cons assms(3) show ?case by (simp add: g i host_name_def)
qed simp


subsection \<open>The sum\<close>

definition locals_ready ::
  "string \<Rightarrow> (string \<Rightarrow> edge_map) \<Rightarrow> (string \<Rightarrow> edge_map) \<Rightarrow> (string \<Rightarrow> edge_map) \<Rightarrow> (string \<times> string list) list \<Rightarrow>
   (string \<times> string \<times> string) list \<Rightarrow> world \<Rightarrow> bool" where
  "locals_ready graphId lm cm dm pm rows w \<longleftrightarrow>
     (\<forall>(worker, ip, port)\<in>set rows. CHR ''@'' \<notin> set ip \<and>
        (\<exists>node. w ip port = Some node \<and> (\<forall>p\<in>set (parts_of pm worker). local_ready graphId lm cm dm p node)))"

lemma workers_counted:
  assumes "locals_ready graphId lm cm dm pm rows w" "master_ready me graphId"
    and "\<And>p. p \<in> set (partitions pm) \<Longrightarrow> numeral_text p \<and> \<not> small_cycle (stored lm cm dm p) \<and>
      card (graph_triangles (stored lm cm dm p)) < 2 ^ 63"
  shows "count_workers me graphId pm rows w =
    Some (\<Sum>(worker, _)\<leftarrow>rows. \<Sum>p\<leftarrow>parts_of pm worker. int (card (graph_triangles (stored lm cm dm p))), w)"
  using assms(1)
proof (induction rows)
  case (Cons row rows)
  obtain worker ip port where row: "row = (worker, ip, port)" by (metis prod_cases3)
  from Cons.prems obtain env st where st: "w ip port = Some (env, st)" "CHR ''@'' \<notin> set ip"
      "\<forall>p\<in>set (parts_of pm worker). local_ready graphId lm cm dm p (env, st)"
    by (auto simp: locals_ready_def row)
  have "count_partitions me graphId ip port (parts_of pm worker) w =
      Some (\<Sum>p\<leftarrow>parts_of pm worker. int (card (graph_triangles (stored lm cm dm p))), w)"
    using st(3) assms(3) parts_of_partitions by (intro partitions_counted [of w ip port env st, OF st(1) assms(2) st(2)]) blast
  moreover have "locals_ready graphId lm cm dm pm rows w" using Cons.prems by (simp add: locals_ready_def)
  ultimately show ?case using Cons.IH by (simp add: row parts_of_def [symmetric])
qed simp

lemma sum_list_int: "(\<Sum>p\<leftarrow>ps. int (f p)) = int (\<Sum>p\<leftarrow>ps. f p)"
  by (induction ps) simp_all

lemma sum_over_workers:
  fixes f :: "string \<Rightarrow> int"
  assumes "cluster pm rows"
  shows "(\<Sum>(worker, _)\<leftarrow>rows. \<Sum>p\<leftarrow>parts_of pm worker. f p) = (\<Sum>p\<leftarrow>partitions pm. f p)"
proof -
  have d: "distinct (map fst rows)" "distinct (partitions pm)" "distinct (map fst pm)" using assms by (simp_all add: cluster_def)
  have parts: "distinct (parts_of pm worker)" for worker
  proof (cases "map_of pm worker")
    case (Some parts)
    with map_of_SomeD [OF Some] d(2) show ?thesis by (auto simp: parts_of_def partitions_def distinct_concat_iff)
  qed (simp add: parts_of_def)
  have one: "u = v" if "p \<in> set (parts_of pm u)" "p \<in> set (parts_of pm v)" for p u v
    using that owned_partition [OF assms, of p] parts_of_partitions [of pm u] by auto
  have "(\<Sum>(worker, _)\<leftarrow>rows. \<Sum>p\<leftarrow>parts_of pm worker. f p) = (\<Sum>worker\<leftarrow>map fst rows. \<Sum>p\<leftarrow>parts_of pm worker. f p)"
    unfolding map_map by (intro arg_cong [where f = sum_list] map_cong) auto
  also have "\<dots> = (\<Sum>worker\<in>fst ` set rows. \<Sum>p\<in>set (parts_of pm worker). f p)"
    using d(1) parts by (simp only: sum_list_distinct_conv_sum_set) simp
  also have "\<dots> = (\<Sum>p\<in>(\<Union>worker\<in>fst ` set rows. set (parts_of pm worker)). f p)"
  proof (rule sum.UNION_disjoint [symmetric])
    show "\<forall>u\<in>fst ` set rows. \<forall>v\<in>fst ` set rows. u \<noteq> v \<longrightarrow> set (parts_of pm u) \<inter> set (parts_of pm v) = {}"
      using one by blast
  qed simp_all
  also have "(\<Union>worker\<in>fst ` set rows. set (parts_of pm worker)) = set (partitions pm)"
  proof (intro equalityI subsetI)
    fix p assume "p \<in> set (partitions pm)"
    from partition_worker [OF assms this] show "p \<in> (\<Union>worker\<in>fst ` set rows. set (parts_of pm worker))" by force
  qed (use parts_of_partitions [of pm] in blast)
  finally show ?thesis using d(2) by (simp add: sum_list_distinct_conv_sum_set)
qed

text \<open>How the edges of a graph \<open>G\<close> are spread over the stores: a partition stores the edges with an end in it, and
  the central stores together hold the edges between partitions.\<close>

definition spread ::
  "(int \<Rightarrow> int set) \<Rightarrow> (int \<Rightarrow> string) \<Rightarrow> string list \<Rightarrow> (string \<Rightarrow> edge_map) \<Rightarrow> (string \<Rightarrow> edge_map) \<Rightarrow> (string \<Rightarrow> edge_map) \<Rightarrow> bool" where
  "spread G part ps lm cm dm \<longleftrightarrow>
     (\<forall>p\<in>set ps. stored lm cm dm p = seen part G p) \<and> between cm (set ps) = crossing part G \<and>
     (\<forall>a b. edge_between G a b \<longrightarrow> part a \<in> set ps)"

text \<open>C13. The master's triangle count is exact. Let the edges of a graph be spread over the stores of the
  partitions, let every partition be listed with one worker that has its stores (also in its
  aggregate folder, if it has several partitions), and let the transfer of a central store deliver
  it. Then the counts of the partitions, gathered over the
  protocol, and the triangles that workers list for the combinations of three partitions add up to
  the number of triangles of the graph. The graph has two to four partitions, and no three vertices
  of out-degree 1 form a directed cycle in what a worker looks at.\<close>

theorem Master_execute_exact:
  assumes "cluster (read_partition_map results) rows" "master_ready me graphId"
    and "world_ready me graphId cm (read_partition_map results) rows w"
    and "locals_ready graphId lm cm dm (read_partition_map results) rows w"
    and "spread G part (partitions (read_partition_map results)) lm cm dm"
    and "2 \<le> length (partitions (read_partition_map results))" "length results \<le> COMPOSITE_CENTRAL_STORE_WORKER_THRESHOLD"
    and "\<And>p. \<not> small_cycle (seen part G p)" "\<And>P. \<not> small_cycle (between cm P)" "listable me (graph_triangles G)"
  shows "map_option fst (Master_execute me graphId results rows w) = Some (int (card (graph_triangles G)))"
proof -
  let ?pm = "read_partition_map results"
  have d: "distinct (partitions ?pm)" and nums: "\<And>p. p \<in> set (partitions ?pm) \<Longrightarrow> numeral_text p"
    using assms(1) by (simp_all add: cluster_def)
  have fin: "finite (graph_triangles G)" and small: "card (graph_triangles G) < 2 ^ 63" using assms(10) by (simp_all add: listable_def)
  have stored: "stored lm cm dm p = seen part G p" if "p \<in> set (partitions ?pm)" for p using assms(5) that by (simp add: spread_def)
  have "card (graph_triangles (seen part G p)) < 2 ^ 63" for p
    using card_mono [OF fin, of "graph_triangles (seen part G p)"] small by (auto simp: seen_triangles)
  then have "count_workers me graphId ?pm rows w =
      Some (\<Sum>(worker, _)\<leftarrow>rows. \<Sum>p\<leftarrow>parts_of ?pm worker. int (card (graph_triangles (stored lm cm dm p))), w)"
    using stored nums assms(8) by (intro workers_counted [OF assms(4,2)]) simp
  also have "\<dots> = Some (\<Sum>p\<leftarrow>partitions ?pm. int (card (graph_triangles (seen part G p))), w)"
    unfolding sum_over_workers [OF assms(1)] using stored by (simp cong: map_cong)
  finally have locals: "count_workers me graphId ?pm rows w = \<dots>" .
  have crossing: "between cm (set (partitions ?pm)) = crossing part G" using assms(5) by (simp add: spread_def)
  have "listable me (graph_triangles (crossing part G))"
    by (rule listable_mono [OF assms(10)]) (auto simp: crossing_triangles)
  then obtain w' where "Master_aggregateCentralStoreTriangles me graphId ?pm rows w = Some (card (graph_triangles (crossing part G)), w')"
    using aggregate_is_exact [OF assms(3,1,2,6,9)] unfolding crossing by blast
  moreover have "(\<Sum>p\<leftarrow>partitions ?pm. card (graph_triangles (seen part G p))) + card (graph_triangles (crossing part G)) =
      card (graph_triangles G)"
    using assms(5) by (intro triangles_add_up [OF fin d]) (auto simp: spread_def)
  then have "(\<Sum>p\<leftarrow>partitions ?pm. int (card (graph_triangles (seen part G p)))) + int (card (graph_triangles (crossing part G))) =
      int (card (graph_triangles G))"
    by (simp add: sum_list_int flip: of_nat_add)
  ultimately show ?thesis using assms(7) by (simp add: Master_execute_def locals)
qed


subsection \<open>A graph on two workers\<close>

text \<open>Four vertices in three partitions, with a triangle that has two corners in one partition and a triangle
  between three partitions.\<close>

definition demo_graph :: "int \<Rightarrow> int set" where
  "demo_graph v = (if v = 1 then {2, 3, 4} else if v = 2 then {3} else if v = 4 then {2} else {})"

definition demo_part :: "int \<Rightarrow> string" where
  "demo_part v = (if v = 2 then ''1'' else if v = 3 then ''2'' else ''0'')"

definition demo_local :: "string \<Rightarrow> edge_map" where
  "demo_local p = (if p = ''0'' then [(1, {4})] else [])"

definition demo_central :: "string \<Rightarrow> edge_map" where
  "demo_central p = (if p = ''0'' then [(1, {2, 3}), (4, {2})] else if p = ''1'' then [(2, {3})] else [])"

definition demo_duplicate :: "string \<Rightarrow> edge_map" where
  "demo_duplicate p = (if p = ''1'' then [(1, {2}), (4, {2})] else if p = ''2'' then [(1, {3}), (2, {3})] else [])"

definition demo_files :: file_system where
  "demo_files = map_of [(''d/4_0'', tiny_encode [(1, [4])]), (''d/4_centralstore_0'', tiny_encode [(1, [2, 3]), (4, [2])]),
     (''g/4_centralstore_0'', tiny_encode [(1, [2, 3]), (4, [2])]), (''d/4_centralstore_1'', tiny_encode [(2, [3])]),
     (''g/4_centralstore_1'', tiny_encode [(2, [3])]), (''d/4_centralstore_dp_1'', tiny_encode [(1, [2]), (4, [2])]),
     (''d/4_centralstore_dp_2'', tiny_encode [(1, [3]), (2, [3])])]"

definition demo_env :: worker_env where
  "demo_env = \<lparr>we_fb = tiny_fb, datafolder = ''d'', aggregatefolder = ''g'', we_enum = sorted_list_of_set, we_junk = blank_store, gunzip = id,
     delivered = (\<lambda>name. Some (\<lambda>i. i, tiny_encode (if name = ''4_centralstore_0.gz'' then [(1, [2, 3]), (4, [2])]
       else if name = ''4_centralstore_1.gz'' then [(2, [3])] else [])))\<rparr>"

definition demo_state :: worker_state where
  "demo_state = \<lparr>ws_files = demo_files, ws_stores = no_stores, workerHighPriorityTaskCount = 0, highestPriority = 1, ws_masterIP = []\<rparr>"

definition demo_world :: world where
  "demo_world ip port = (if ip = ''x'' \<or> ip = ''y'' then Some (demo_env, demo_state) else None)"

definition demo_master :: master_env where
  "demo_master = \<lparr>me_fuel = 1000, me_others = (\<lambda>_. None), me_masterIP = ''m'', me_threadPriority = 1, me_masterTraceContext = [],
     me_traceContext = ''NO_TRACE_CONTEXT'', me_fileSize = (\<lambda>_. 5), me_junk = 7, me_composite = (\<lambda>_ _. None)\<rparr>"

definition demo_results :: "(string \<times> string) list" where
  "demo_results = [(''a'', ''0''), (''b'', ''2''), (''a'', ''1'')]"

definition demo_rows :: "(string \<times> string \<times> string) list" where
  "demo_rows = [(''a'', ''x'', ''1''), (''b'', ''y'', ''1'')]"

lemma demo_map: "read_partition_map demo_results = [(''a'', [''0'', ''1'']), (''b'', [''2''])]"
  by code_simp

lemma demo_partitions: "partitions (read_partition_map demo_results) = [''0'', ''1'', ''2'']"
  by (simp add: demo_map partitions_def)

lemma demo_numbers: "numeral_text ''0''" "numeral_text ''1''" "numeral_text ''2''" "numeral_text ''4''"
proof -
  have texts: "to_string_int 0 = ''0''" "to_string_int 1 = ''1''" "to_string_int 2 = ''2''" "to_string_int 4 = ''4''" by code_simp+
  have "numeral_text (to_string_int i)" if "0 \<le> i" "i < 9" for i
    using that unfolding numeral_text_def is_int_def by (intro exI [of _ i]) simp
  from this [of 0] this [of 1] this [of 2] this [of 4]
  show "numeral_text ''0''" "numeral_text ''1''" "numeral_text ''2''" "numeral_text ''4''" by (simp_all add: texts)
qed

lemma demo_decodes:
  "part_decode tiny_fb (tiny_encode [(1, [4])]) = Some [(1, [4])]"
  "part_decode tiny_fb (tiny_encode [(1, [2, 3]), (4, [2])]) = Some [(1, [2, 3]), (4, [2])]"
  "part_decode tiny_fb (tiny_encode [(2, [3])]) = Some [(2, [3])]"
  "part_decode tiny_fb (tiny_encode [(1, [2]), (4, [2])]) = Some [(1, [2]), (4, [2])]"
  "part_decode tiny_fb (tiny_encode [(1, [3]), (2, [3])]) = Some [(1, [3]), (2, [3])]"
  "part_decode tiny_fb (tiny_encode []) = Some []"
  by code_simp+

lemma demo_sizes:
  "length (tiny_encode [(1, [4])]) < 2 ^ 31" "length (tiny_encode [(1, [2, 3]), (4, [2])]) < 2 ^ 31"
  "length (tiny_encode [(2, [3])]) < 2 ^ 31" "length (tiny_encode [(1, [2]), (4, [2])]) < 2 ^ 31"
  "length (tiny_encode [(1, [3]), (2, [3])]) < 2 ^ 31" "length (tiny_encode []) < 2 ^ 31"
  by (simp_all add: tiny_encode_def)

lemma demo_local_files:
  "file_edges tiny_fb demo_files ''d/4_0'' (demo_local ''0'')" "file_edges tiny_fb demo_files ''d/4_1'' (demo_local ''1'')"
  "file_edges tiny_fb demo_files ''d/4_2'' (demo_local ''2'')"
  using demo_decodes demo_sizes by (simp_all add: file_edges_def demo_files_def demo_local_def toLocalSubGraphMap_def)

lemma demo_central_files:
  "file_edges tiny_fb demo_files ''d/4_centralstore_0'' (demo_central ''0'')" "file_edges tiny_fb demo_files ''d/4_centralstore_1'' (demo_central ''1'')"
  "file_edges tiny_fb demo_files ''d/4_centralstore_2'' (demo_central ''2'')"
  "file_edges tiny_fb demo_files ''g/4_centralstore_0'' (demo_central ''0'')" "file_edges tiny_fb demo_files ''g/4_centralstore_1'' (demo_central ''1'')"
  "file_edges tiny_fb demo_files ''g/4_centralstore_2'' (demo_central ''2'')"
  using demo_decodes demo_sizes by (simp_all add: file_edges_def demo_files_def demo_central_def toLocalSubGraphMap_def)

lemma demo_duplicate_files:
  "file_edges tiny_fb demo_files ''d/4_centralstore_dp_0'' (demo_duplicate ''0'')"
  "file_edges tiny_fb demo_files ''d/4_centralstore_dp_1'' (demo_duplicate ''1'')"
  "file_edges tiny_fb demo_files ''d/4_centralstore_dp_2'' (demo_duplicate ''2'')"
  using demo_decodes demo_sizes by (simp_all add: file_edges_def demo_files_def demo_duplicate_def toLocalSubGraphMap_def)

lemma demo_cluster: "cluster (read_partition_map demo_results) demo_rows"
  unfolding cluster_def demo_partitions by (simp add: demo_map demo_rows_def demo_numbers)

lemma demo_master_ready: "master_ready demo_master ''4''"
  by (simp add: master_ready_def demo_master_def demo_numbers plain_def is_int_def INSTANCE_DATA_LENGTH_def is_space_def)

lemma demo_delivers: "p \<in> {''0'', ''1'', ''2''} \<Longrightarrow> delivers demo_master ''4'' demo_central demo_env p"
  unfolding delivers_def
  by (rule exI [of _ "\<lambda>i. i"], rule exI [of _ "tiny_encode (if p = ''0'' then [(1, [2, 3]), (4, [2])] else if p = ''1'' then [(2, [3])] else [])"],
      rule exI [of _ 5], rule exI [of _ "if p = ''0'' then [(1, [2, 3]), (4, [2])] else if p = ''1'' then [(2, [3])] else []"])
    (use demo_decodes demo_sizes in \<open>auto simp: demo_env_def demo_master_def store_name_def is_int_def demo_central_def toLocalSubGraphMap_def\<close>)

lemma demo_world_ready: "world_ready demo_master ''4'' demo_central (read_partition_map demo_results) demo_rows demo_world"
proof -
  have "worker_ready demo_master ''4'' demo_central [''0'', ''1'', ''2''] own demo_env demo_files" if "set own \<subseteq> {''0'', ''1'', ''2''}" for own
  proof -
    have "file_edges tiny_fb demo_files (store_path f ''4'' p) (demo_central p)" if "p \<in> {''0'', ''1'', ''2''}" "f \<in> {''d'', ''g''}" for f p
      using that demo_central_files by (auto simp: store_path_def store_name_def)
    with that demo_delivers show ?thesis by (auto simp: worker_ready_def demo_env_def enumerates_sorted)
  qed
  then show ?thesis
    unfolding world_ready_def demo_partitions by (auto simp: demo_rows_def demo_map parts_of_def demo_world_def demo_state_def)
qed

lemma demo_locals_ready: "locals_ready ''4'' demo_local demo_central demo_duplicate (read_partition_map demo_results) demo_rows demo_world"
proof -
  have "local_ready ''4'' demo_local demo_central demo_duplicate p (demo_env, demo_state)" if "p \<in> {''0'', ''1'', ''2''}" for p
    using that demo_local_files demo_central_files demo_duplicate_files
    by (auto simp: local_ready_def demo_env_def demo_state_def caches_hold_def no_stores_def enumerates_sorted)
  then show ?thesis by (simp add: locals_ready_def demo_rows_def demo_map parts_of_def demo_world_def)
qed

lemma demo_adjacent: "edge_between demo_graph a b \<longleftrightarrow> (a, b) \<in> {(1, 2), (2, 1), (1, 3), (3, 1), (1, 4), (4, 1), (2, 3), (3, 2), (2, 4), (4, 2)}"
  by (auto simp: edge_between_def demo_graph_def)

lemma demo_triangles: "graph_triangles demo_graph = {{1, 2, 3}, {1, 2, 4}}"
proof (intro equalityI subsetI)
  fix T assume "T \<in> graph_triangles demo_graph"
  then show "T \<in> {{1, 2, 3}, {1, 2, 4}}" by (auto simp: graph_triangles_def demo_adjacent)
next
  have "distinct [1, 2, x] \<and> edge_between demo_graph 1 2 \<and> edge_between demo_graph 2 x \<and> edge_between demo_graph 1 x" if "x = 3 \<or> x = 4" for x
    using that by (auto simp: demo_adjacent)
  then have "{1, 2, x} \<in> graph_triangles demo_graph" if "x = 3 \<or> x = 4" for x
    using that unfolding graph_triangles_def by blast
  then show "T \<in> graph_triangles demo_graph" if "T \<in> {{1, 2, 3}, {1, 2, 4}}" for T using that by auto
qed

lemma demo_stores:
  "links (demo_local p) v = (if p = ''0'' \<and> v = 1 then {4} else {})"
  "links (demo_central p) v = (if p = ''0'' \<and> v = 1 then {2, 3} else if p = ''0'' \<and> v = 4 then {2} else if p = ''1'' \<and> v = 2 then {3} else {})"
  "links (demo_duplicate p) v = (if p = ''1'' \<and> (v = 1 \<or> v = 4) then {2} else if p = ''2'' \<and> (v = 1 \<or> v = 2) then {3} else {})"
  by (auto simp: links_def demo_local_def demo_central_def demo_duplicate_def)

lemma demo_spread: "spread demo_graph demo_part (partitions (read_partition_map demo_results)) demo_local demo_central demo_duplicate"
proof -
  have "stored demo_local demo_central demo_duplicate p = seen demo_part demo_graph p" if "p \<in> {''0'', ''1'', ''2''}" for p
    using that by (auto simp: fun_eq_iff stored_def seen_def demo_stores demo_part_def demo_graph_def)
  moreover have "between demo_central {''0'', ''1'', ''2''} = crossing demo_part demo_graph"
    by (auto simp: fun_eq_iff between_def crossing_def demo_stores demo_part_def demo_graph_def)
  ultimately show ?thesis by (simp add: spread_def demo_partitions demo_part_def)
qed

lemma demo_acyclic: "(\<And>v. G v \<subseteq> demo_graph v) \<Longrightarrow> \<not> small_cycle G"
proof
  assume sub: "\<And>v. G v \<subseteq> demo_graph v" and "small_cycle G"
  then obtain a b c where "G a = {b}" "G b = {c}" "G c = {a}" by (auto simp: small_cycle_def)
  with sub [of a] sub [of b] sub [of c] show False by (auto simp: demo_graph_def split: if_splits)
qed

theorem Master_execute_exact_witness:
  "map_option fst (Master_execute demo_master ''4'' demo_results demo_rows demo_world) = Some 2 \<and> card (graph_triangles demo_graph) = 2"
proof -
  have card: "card (graph_triangles demo_graph) = 2"
  proof -
    have "4 \<in> {1, 2, 4 :: int}" "4 \<notin> {1, 2, 3 :: int}" by simp_all
    then have "{1, 2, 3} \<noteq> ({1, 2, 4} :: int set)" by metis
    then show ?thesis by (simp add: demo_triangles)
  qed
  have "\<not> small_cycle (seen demo_part demo_graph p)" for p by (rule demo_acyclic) (auto simp: seen_def)
  moreover have "\<not> small_cycle (between demo_central P)" for P
    by (rule demo_acyclic) (auto simp: between_def demo_stores demo_graph_def split: if_splits)
  moreover have "listable demo_master (graph_triangles demo_graph)"
    unfolding listable_def card by (auto simp: demo_triangles is_long_def demo_master_def)
  moreover have "length demo_results \<le> COMPOSITE_CENTRAL_STORE_WORKER_THRESHOLD"
    by (simp add: demo_results_def COMPOSITE_CENTRAL_STORE_WORKER_THRESHOLD_def)
  ultimately have "map_option fst (Master_execute demo_master ''4'' demo_results demo_rows demo_world) =
      Some (int (card (graph_triangles demo_graph)))"
    by (intro Master_execute_exact [OF demo_cluster demo_master_ready demo_world_ready demo_locals_ready demo_spread])
      (simp_all add: demo_partitions)
  with card show ?thesis by simp
qed

end
