(* ===== verification/Protocol_Schedules.thy ===== *)
theory Protocol_Schedules
  imports Distributed_Exact
begin

text \<open>
  What the conversations between the master and a worker come to when the operating system decides
  who moves next, and the graph with one partition, for which the master asks a question that
  never arrives.
\<close>

subsection \<open>Schedules of a conversation\<close>

definition opened :: "'a proc \<Rightarrow> 'b proc \<Rightarrow> ('a, 'b) link" where
  "opened c s = \<lparr>client = c, server = s, to_server = [], to_client = []\<rparr>"

definition at_rest :: "('a, 'b) link \<Rightarrow> bool" where
  "at_rest l \<longleftrightarrow> link_step Client l = None \<and> link_step Server l = None"

lemma reaches_trans: "reaches f b c \<Longrightarrow> reaches f a b \<Longrightarrow> reaches f a c"
  by (induction rule: reaches.induct) (auto intro: reaches.step)

lemma outcome_reached: "outcome l = Some l' \<Longrightarrow> reaches link_step l l' \<and> at_rest l'"
proof (induction l rule: outcome.induct)
  case (1 l)
  have first: "reaches link_step l l'" if "link_step e l = Some l1" "reaches link_step l1 l'" for e l1
    using reaches_trans [OF that(2)] reaches.step [of link_step l l e l1] reaches.refl [of link_step l] that(1) by blast
  show ?case
  proof (cases "link_step Client l")
    case None
    then show ?thesis
      using 1 first [of Server]
      by (cases "link_step Server l") (auto simp: outcome.simps [of l] at_rest_def simp del: link_step.simps intro: reaches.refl)
  next
    case (Some l1)
    then show ?thesis
      using 1 first [of Client]
      by (cases "link_step Server l") (auto simp: outcome.simps [of l] simp del: link_step.simps)
  qed
qed

lemma every_schedule:
  assumes "conversation c s = Some (p, q)" "reaches link_step (opened c s) l"
  shows "at_rest l \<Longrightarrow> client l = p \<and> server l = q"
    and "\<exists>l'. reaches link_step l l' \<and> at_rest l' \<and> client l' = p \<and> server l' = q"
proof -
  from assms(1) obtain l' where l': "outcome (opened c s) = Some l'" "client l' = p" "server l' = q"
    by (auto simp: conversation_def opened_def)
  show "client l = p \<and> server l = q" if "at_rest l"
  proof -
    have "link_step e l = None" for e using that by (cases e) (simp_all add: at_rest_def)
    with outcome_of_every_schedule(2) [OF l'(1) assms(2)] l' show ?thesis by blast
  qed
  show "\<exists>l'. reaches link_step l l' \<and> at_rest l' \<and> client l' = p \<and> server l' = q"
    using outcome_reached [OF outcome_of_every_schedule(1) [OF l'(1) assms(2)]] l' by blast
qed

text \<open>A conversation cannot go on for ever.\<close>

lemma no_endless_schedule: "\<not> (\<forall>i. \<exists>e. link_step e (l i) = Some (l (Suc i)))"
proof
  assume "\<forall>i. \<exists>e. link_step e (l i) = Some (l (Suc i))"
  then have "\<forall>i. (l (Suc i), l i) \<in> link_order" using link_step_order by blast
  with wf_link_order show False unfolding wf_iff_no_infinite_down_chain by blast
qed

text \<open>C15. Asking a worker for the triangles between partitions works under every schedule. Let the worker's
  routine return the listing \<open>t\<close>. However the moves of master and worker interleave, whatever was
  said so far can be completed, no run goes on for ever, and once neither side can move the master
  has exactly the listing, put together from its chunks, and the worker has closed the session with
  its files untouched.\<close>

theorem count_every_schedule:
  assumes "plain masterIP" "plain graphId" "plain partitionId" "plain partitionIdList" "plain traceContext" "is_int threadPriority"
    and "aggregateCentralStoreTriangles (we_fb env) (ws_files st) (datafolder env) (aggregatefolder env) (we_enum env)
      graphId partitionId partitionIdList = Some t"
    and "t \<noteq> []" "solid t" "length t + 290 \<le> 2 ^ 32" "length (text_chunks t) \<le> n"
    and "reaches link_step (opened (countCentralStoreTriangles n True partitionId partitionIdList graphId masterIP threadPriority traceContext)
      (worker_session (Suc (Suc (Suc m))) others env st)) l"
  shows "(at_rest l \<longrightarrow> client l = Done t \<and> (\<exists>st'. server l = Done st' \<and> ws_files st' = ws_files st)) \<and>
    (\<exists>l'. reaches link_step l l' \<and> client l' = Done t) \<and>
    (\<forall>run. run 0 = l \<longrightarrow> \<not> (\<forall>i. \<exists>e. link_step e (run i) = Some (run (Suc i))))"
  using every_schedule [OF count_conversation [OF assms(1-11)] assms(12)] no_endless_schedule
  by (auto simp del: link_step.simps)


theorem count_every_schedule_witness:
  "\<exists>l'. reaches link_step (opened (countCentralStoreTriangles 5 True ''0'' ''1,2'' ''4'' ''m'' 1 ''NO_TRACE_CONTEXT'')
      (worker_session (Suc (Suc (Suc 0))) (\<lambda>_. None) demo_env demo_state)) l' \<and> client l' = Done ''1,2,3''"
proof -
  have "aggregateCentralStoreTriangles (we_fb demo_env) (ws_files demo_state) (datafolder demo_env) (aggregatefolder demo_env)
      (we_enum demo_env) ''4'' ''0'' ''1,2'' = Some ''1,2,3''"
    by code_simp
  moreover have "plain ''m''" "plain ''4''" "plain ''0''" "plain ''1,2''" "plain ''NO_TRACE_CONTEXT''" "is_int 1"
    "solid ''1,2,3''" "length (text_chunks ''1,2,3'') \<le> 5"
    by code_simp+
  ultimately show ?thesis
    using count_every_schedule [of "''m''" "''4''" "''0''" "''1,2''" "''NO_TRACE_CONTEXT''" 1 demo_env demo_state "''1,2,3''" 5 0
        "\<lambda>_. None", OF _ _ _ _ _ _ _ _ _ _ _ reaches.refl] by simp
qed


subsection \<open>A graph with one partition\<close>

text \<open>C34. The triangles of a graph with one partition are never counted. The only combination is the partition
  itself, so the list of the other partitions that the master sends is the empty text, which is no
  message at all: under every schedule master and worker end up waiting for each other, and the
  master's aggregation does not return.\<close>

theorem single_partition_hangs:
  assumes "cluster pm rows" "master_ready me graphId" "partitions pm = [p]"
    and "(worker, ip, port) \<in> set rows" "p \<in> set (parts_of pm worker)" "w ip port = Some (env, st)"
  shows "Master_aggregateCentralStoreTriangles me graphId pm rows w = None \<and>
    (\<forall>l. reaches link_step (opened (countCentralStoreTriangles (me_fuel me) True p (partition_id_list p [p]) graphId (me_masterIP me)
        (me_threadPriority me) (me_traceContext me)) (worker_session (me_fuel me) (me_others me) env st)) l \<and> at_rest l \<longrightarrow>
      waits (client l) \<and> waits (server l))"
proof -
  obtain m where m: "me_fuel me = Suc (Suc (Suc m))" using assms(2) fuel_three unfolding master_ready_def by blast
  have "plain p" "plain graphId" "plain (me_masterIP me)"
    using assms(1-3) numeral_text_chars by (auto simp: cluster_def master_ready_def)
  then obtain c s where talk: "conversation (countCentralStoreTriangles (me_fuel me) True p [] graphId (me_masterIP me)
        (me_threadPriority me) (me_traceContext me)) (worker_session (me_fuel me) (me_others me) env st) = Some (c, s)" "waits c" "waits s"
    using no_partitions_hang [of "me_masterIP me" graphId p] unfolding m by blast
  have "p \<in> set (partitions pm)" using assms(3) by simp
  from owned_partition [OF assms(1) this] assms(5) have worker: "map_entry (partition_worker_map pm) p = worker" by blast
  have "map_of (worker_data_map rows) worker = Some (ip, port)"
    using worker_data_lookup [OF _ assms(4)] assms(1) by (simp add: cluster_def)
  moreover have "worker_call me w ip port (\<lambda>connected. countCentralStoreTriangles (me_fuel me) connected p [] graphId (me_masterIP me)
      (me_threadPriority me) (me_traceContext me)) = None"
    using talk assms(6) by (cases c) (simp_all add: worker_call_def)
  moreover have list: "partition_id_list p [p] = []" by (simp add: partition_id_list_def)
  moreover have "getCombinations [p] = [[p]]"
    by (simp add: getCombinations_masks mask_indices_def)
  ultimately have "Master_aggregateCentralStoreTriangles me graphId pm rows w = None"
    using assms(3) worker
    by (simp add: Master_aggregateCentralStoreTriangles_def aggregate_combination_def partitions_def weigh_def)
  then show ?thesis using every_schedule(1) [OF talk(1)] talk(2,3) unfolding list by blast
qed

theorem single_partition_hangs_witness:
  "Master_aggregateCentralStoreTriangles demo_master ''4'' [(''a'', [''0''])] demo_rows demo_world = None"
proof -
  have "cluster [(''a'', [''0''])] demo_rows" by (simp add: cluster_def partitions_def demo_rows_def demo_numbers)
  from single_partition_hangs [OF this demo_master_ready, of "''0''" "''a''" "''x''" "''1''" demo_world demo_env demo_state] show ?thesis
    by (simp add: partitions_def parts_of_def demo_rows_def demo_world_def)
qed

end
