(* ===== verification/Edge_List.thy ===== *)
theory Edge_List
  imports Cpp_Numbers
begin

text \<open>
  Reading an edge list, one edge per line, as \<^verbatim>\<open>MetisPartitioner::loadDataSet\<close> and
  \<^verbatim>\<open>MetisPartitioner::reformatDataSet\<close> do: the loop runs until a line is empty, and \<^verbatim>\<open>std::getline\<close> leaves its
  argument as it was if the stream has already met its end.
\<close>

subsection \<open>Lines\<close>

text \<open>A text stream: what is left of it, and whether a read has met the end.\<close>

record text_stream =
  remaining :: string
  at_end :: bool

definition text_of :: "string \<Rightarrow> text_stream" where
  "text_of s = \<lparr>remaining = s, at_end = False\<rparr>"

definition getline :: "string \<Rightarrow> text_stream \<Rightarrow> string \<times> text_stream" where
  "getline line f =
     (if at_end f then (line, f)
      else if CHR 0x0A \<in> set (remaining f)
      then (takeWhile (\<lambda>c. c \<noteq> CHR 0x0A) (remaining f), f\<lparr>remaining := tl (dropWhile (\<lambda>c. c \<noteq> CHR 0x0A) (remaining f))\<rparr>)
      else (remaining f, \<lparr>remaining = [], at_end = True\<rparr>))"

text \<open>The separator of the first line; without one the variable has no value.\<close>

definition splitter_of :: "string \<Rightarrow> char option" where
  "splitter_of line =
     (if CHR '' '' \<in> set line then Some CHR '' ''
      else if CHR 0x09 \<in> set line then Some CHR 0x09
      else if CHR '','' \<in> set line then Some CHR '',''
      else None)"

definition parse_edge :: "char \<Rightarrow> string \<Rightarrow> (int \<times> int) option" where
  "parse_edge splitter line =
     (let vertexOne = takeWhile (\<lambda>c. c \<noteq> splitter) line;
          vertexTwo = takeWhile (\<lambda>c. \<not> is_space c) (dropWhile is_space (tl (dropWhile (\<lambda>c. c \<noteq> splitter) line)))
      in do { firstVertex \<leftarrow> stoi vertexOne; secondVertex \<leftarrow> stoi vertexTwo; Some (firstVertex, secondVertex) })"

partial_function (option) skip_blank :: "char \<Rightarrow> string \<Rightarrow> text_stream \<Rightarrow> (string \<times> text_stream) option" where
  "skip_blank splitter line f =
     (if line \<noteq> [] \<and> set line \<subseteq> {splitter}
      then (case getline line f of (line', f') \<Rightarrow> skip_blank splitter line' f')
      else Some (line, f))"

text \<open>
  The loops return nothing, \<^const>\<open>None\<close>, exactly if they do not end. A loop that is left by an exception of
  \<^verbatim>\<open>std::stoi\<close>, or by reading the separator that was never set, returns the error.
\<close>

datatype load_error = Bad_number | No_splitter

partial_function (option) edge_loop ::
  "(int \<times> int \<Rightarrow> 's \<Rightarrow> 's) \<Rightarrow> char \<Rightarrow> string \<Rightarrow> text_stream \<Rightarrow> 's \<Rightarrow> (load_error + 's) option" where
  "edge_loop process splitter line f s =
     (if line = [] then Some (Inr s)
      else case parse_edge splitter line of
        None \<Rightarrow> Some (Inl Bad_number)
      | Some e \<Rightarrow> (case getline line f of (line', f') \<Rightarrow>
          Option.bind (skip_blank splitter line' f') (\<lambda>(line'', f'').
            edge_loop process splitter line'' f'' (process e s))))"

definition read_edge_list :: "(int \<times> int \<Rightarrow> 's \<Rightarrow> 's) \<Rightarrow> string \<Rightarrow> 's \<Rightarrow> (load_error + 's) option" where
  "read_edge_list process file_text s =
     (case getline [] (text_of file_text) of (line, f) \<Rightarrow>
        if line = [] then Some (Inr s)
        else case splitter_of line of None \<Rightarrow> Some (Inl No_splitter) | Some splitter \<Rightarrow> edge_loop process splitter line f s)"

declare skip_blank.simps [code] edge_loop.simps [code]

text \<open>Going on after a part that may fail or not end.\<close>

definition after_load :: "(load_error + 'a) option \<Rightarrow> ('a \<Rightarrow> (load_error + 'b) option) \<Rightarrow> (load_error + 'b) option" where
  "after_load r f = Option.bind r (\<lambda>x. case x of Inl err \<Rightarrow> Some (Inl err) | Inr a \<Rightarrow> f a)"

lemma after_load_simps [simp]:
  "after_load (Some (Inr a)) f = f a" "after_load (Some (Inl err)) f = Some (Inl err)" "after_load None f = None"
  by (simp_all add: after_load_def)

subsection \<open>Files that end with a newline\<close>

lemma getline_lines:
  assumes "CHR 0x0A \<notin> set l"
  shows "getline line \<lparr>remaining = l @ CHR 0x0A # rest, at_end = False\<rparr> = (l, \<lparr>remaining = rest, at_end = False\<rparr>)"
proof -
  have "takeWhile (\<lambda>c. c \<noteq> CHR 0x0A) (l @ CHR 0x0A # rest) = l" "dropWhile (\<lambda>c. c \<noteq> CHR 0x0A) (l @ CHR 0x0A # rest) = CHR 0x0A # rest"
    using assms by (auto simp: takeWhile_append dropWhile_append)
  then show ?thesis by (simp add: getline_def)
qed

lemma getline_last: "getline line \<lparr>remaining = [], at_end = False\<rparr> = ([], \<lparr>remaining = [], at_end = True\<rparr>)"
  by (simp add: getline_def)

definition unlines :: "string list \<Rightarrow> string" where
  "unlines ls = concat (map (\<lambda>l. l @ [CHR 0x0A]) ls)"

lemma unlines_simps [simp]: "unlines [] = []" "unlines (l # ls) = l @ CHR 0x0A # unlines ls"
  by (simp_all add: unlines_def)

text \<open>A line of an edge list: it has no newline, and unless it consists of separators it is an edge.\<close>

definition blank_line :: "char \<Rightarrow> string \<Rightarrow> bool" where
  "blank_line splitter l \<longleftrightarrow> l \<noteq> [] \<and> set l \<subseteq> {splitter}"

definition edges_of :: "char \<Rightarrow> string list \<Rightarrow> (int \<times> int) list" where
  "edges_of splitter ls = map (\<lambda>l. the (parse_edge splitter l)) (filter (\<lambda>l. \<not> blank_line splitter l) ls)"

definition edge_lines :: "char \<Rightarrow> string list \<Rightarrow> bool" where
  "edge_lines splitter ls \<longleftrightarrow>
     (\<forall>l\<in>set ls. l \<noteq> [] \<and> CHR 0x0A \<notin> set l \<and> (\<not> blank_line splitter l \<longrightarrow> parse_edge splitter l \<noteq> None))"

lemma skip_blank_lines:
  assumes "edge_lines splitter ls"
  shows "(case getline line \<lparr>remaining = unlines ls, at_end = False\<rparr> of (line', f') \<Rightarrow> skip_blank splitter line' f') =
    Some (case dropWhile (blank_line splitter) ls of
        [] \<Rightarrow> ([], \<lparr>remaining = [], at_end = True\<rparr>)
      | l # ls' \<Rightarrow> (l, \<lparr>remaining = unlines ls', at_end = False\<rparr>))"
  using assms
proof (induction ls arbitrary: line)
  case Nil
  show ?case by (simp add: getline_last skip_blank.simps [of splitter "[]"])
next
  case (Cons l ls)
  have l: "CHR 0x0A \<notin> set l" "edge_lines splitter ls" using Cons.prems by (simp_all add: edge_lines_def)
  show ?case
    using Cons.IH [OF l(2)] l(1)
    by (cases "blank_line splitter l") (simp_all add: getline_lines skip_blank.simps [of splitter l] blank_line_def [symmetric])
qed

lemma edges_of_dropWhile: "edges_of splitter (dropWhile (blank_line splitter) ls) = edges_of splitter ls"
  by (induction ls) (simp_all add: edges_of_def)

lemma edge_loop_lines:
  assumes "edge_lines splitter (l # ls)" "\<not> blank_line splitter l"
  shows "edge_loop process splitter l \<lparr>remaining = unlines ls, at_end = False\<rparr> s = Some (Inr (fold process (edges_of splitter (l # ls)) s))"
  using assms
proof (induction "length ls" arbitrary: l ls s rule: less_induct)
  case less
  from less.prems obtain e where e: "parse_edge splitter l = Some e" "l \<noteq> []" by (auto simp: edge_lines_def)
  have ls: "edge_lines splitter ls" using less.prems(1) by (simp add: edge_lines_def)
  let ?rest = "dropWhile (blank_line splitter) ls"
  have step: "edge_loop process splitter l \<lparr>remaining = unlines ls, at_end = False\<rparr> s =
      (case ?rest of [] \<Rightarrow> edge_loop process splitter [] \<lparr>remaining = [], at_end = True\<rparr> (process e s)
       | l' # ls' \<Rightarrow> edge_loop process splitter l' \<lparr>remaining = unlines ls', at_end = False\<rparr> (process e s))"
    using e skip_blank_lines [OF ls, of l]
    by (subst edge_loop.simps) (auto simp del: dropWhile_eq_Nil_conv split: list.splits prod.splits)
  show ?case
  proof (cases ?rest)
    case Nil
    then have "edges_of splitter ls = []" using edges_of_dropWhile [of splitter ls] by (simp add: edges_of_def)
    then show ?thesis using step Nil e less.prems(2) by (simp add: edge_loop.simps [of process splitter "[]"] edges_of_def)
  next
    case (Cons l' ls')
    have "length ?rest \<le> length ls" by (rule length_dropWhile_le)
    moreover have "\<not> blank_line splitter l'" using Cons by (metis hd_dropWhile list.distinct(1) list.sel(1))
    moreover have "edge_lines splitter (l' # ls')"
      using ls set_dropWhileD [of _ "blank_line splitter" ls] unfolding Cons edge_lines_def by blast
    ultimately have "edge_loop process splitter l' \<lparr>remaining = unlines ls', at_end = False\<rparr> (process e s) =
        Some (Inr (fold process (edges_of splitter (l' # ls')) (process e s)))"
      using less.hyps [of ls' l'] Cons by simp
    moreover have "edges_of splitter (l # ls) = e # edges_of splitter (l' # ls')"
      using edges_of_dropWhile [of splitter ls] Cons e less.prems(2) by (simp add: edges_of_def)
    ultimately show ?thesis using step Cons by simp
  qed
qed

lemma read_edge_list_lines:
  assumes "edge_lines splitter (l # ls)" "splitter_of l = Some splitter" "\<not> blank_line splitter l"
  shows "read_edge_list process (unlines (l # ls)) s = Some (Inr (fold process (edges_of splitter (l # ls)) s))"
proof -
  have "CHR 0x0A \<notin> set l" "l \<noteq> []" using assms(1) by (simp_all add: edge_lines_def)
  then show ?thesis
    using edge_loop_lines [OF assms(1,3)] assms(2) by (simp add: read_edge_list_def text_of_def getline_lines)
qed

subsection \<open>Files without a newline at their end\<close>

text \<open>After the last line every read leaves it in place, and the loop goes on with it.\<close>

definition repeating :: "char \<Rightarrow> string \<Rightarrow> text_stream \<Rightarrow> bool" where
  "repeating splitter line f \<longleftrightarrow> at_end f \<and> line \<noteq> [] \<and> parse_edge splitter line \<noteq> None"

lemma skip_blank_stuck:
  "skip_blank splitter line f = Some r \<Longrightarrow> \<not> (at_end f \<and> blank_line splitter line)"
proof (erule skip_blank.raw_induct [of "\<lambda>splitter line f r. \<not> (at_end f \<and> blank_line splitter line)", rotated])
  fix skip splitter line f and r :: "string \<times> text_stream"
  assume "\<And>splitter line f r. skip splitter line f = Some r \<Longrightarrow> \<not> (at_end f \<and> blank_line splitter line)"
    and "(if line \<noteq> [] \<and> set line \<subseteq> {splitter} then case getline line f of (line', f') \<Rightarrow> skip splitter line' f'
      else Some (line, f)) = Some r"
  then show "\<not> (at_end f \<and> blank_line splitter line)"
    by (cases r) (fastforce simp: blank_line_def getline_def split: if_splits)
qed

lemma skip_blank_full: "\<not> blank_line splitter line \<Longrightarrow> skip_blank splitter line f = Some (line, f)"
  unfolding blank_line_def by (subst skip_blank.simps) (simp only: if_False)

lemma edge_loop_repeating: "edge_loop process splitter line f s = Some r \<Longrightarrow> \<not> repeating splitter line f"
proof (erule edge_loop.raw_induct [of "\<lambda>_ splitter line f _ _. \<not> repeating splitter line f", rotated])
  fix loop process splitter line f s r
  assume IH: "\<And>process splitter line f s r. loop process splitter line f s = Some r \<Longrightarrow> \<not> repeating splitter line f"
    and body: "(if line = [] then Some (Inr s) else case parse_edge splitter line of None \<Rightarrow> Some (Inl Bad_number)
      | Some e \<Rightarrow> (case getline line f of (line', f') \<Rightarrow> Option.bind (skip_blank splitter line' f') (\<lambda>(line'', f'').
          loop process splitter line'' f'' (process e s)))) = Some r"
  show "\<not> repeating splitter line f"
  proof
    assume rep: "repeating splitter line f"
    then have "getline line f = (line, f)" "line \<noteq> []" by (simp_all add: repeating_def getline_def)
    with body rep obtain e line' f' where more: "skip_blank splitter line f = Some (line', f')"
        "loop process splitter line' f' (process e s) = Some r"
      by (auto simp: repeating_def bind_eq_Some_conv split: prod.splits option.splits)
    then have "\<not> blank_line splitter line" using skip_blank_stuck [OF more(1)] rep by (simp add: repeating_def)
    with more skip_blank_full have "loop process splitter line f (process e s) = Some r" by simp
    with IH rep show False by blast
  qed
qed

lemma getline_unended: "CHR 0x0A \<notin> set l \<Longrightarrow> getline line \<lparr>remaining = l, at_end = False\<rparr> = (l, \<lparr>remaining = [], at_end = True\<rparr>)"
  by (simp add: getline_def)

lemma skip_blank_unended:
  assumes "edge_lines splitter (ls @ [l])"
    and "(case getline line \<lparr>remaining = unlines ls @ l, at_end = False\<rparr> of (line', f') \<Rightarrow> skip_blank splitter line' f') = Some (line'', f'')"
  shows "repeating splitter line'' f'' \<or> (\<exists>ls'. edge_lines splitter (line'' # ls' @ [l]) \<and> \<not> blank_line splitter line'' \<and>
    length ls' < length ls \<and> f'' = \<lparr>remaining = unlines ls' @ l, at_end = False\<rparr>)"
  using assms
proof (induction ls arbitrary: line)
  case Nil
  then have l: "skip_blank splitter l \<lparr>remaining = [], at_end = True\<rparr> = Some (line'', f'')" "l \<noteq> []"
    by (simp_all add: getline_unended edge_lines_def)
  then have "\<not> blank_line splitter l" using skip_blank_stuck [OF l(1)] by simp
  with l Nil.prems(1) show ?case by (auto simp: skip_blank_full repeating_def edge_lines_def)
next
  case (Cons k ls)
  have k: "CHR 0x0A \<notin> set k" "edge_lines splitter (ls @ [l])" using Cons.prems(1) by (simp_all add: edge_lines_def)
  note read = getline_lines [OF k(1), of line "unlines ls @ l"]
  show ?case
  proof (cases "blank_line splitter k")
    case True
    with Cons.prems(2) read have "(case getline k \<lparr>remaining = unlines ls @ l, at_end = False\<rparr> of (line', f') \<Rightarrow> skip_blank splitter line' f') =
        Some (line'', f'')"
      by (simp add: skip_blank.simps [of splitter k] blank_line_def [symmetric])
    from Cons.IH [OF k(2) this] show ?thesis by (auto intro: less_SucI)
  next
    case False
    with Cons.prems(2) read have "line'' = k" "f'' = \<lparr>remaining = unlines ls @ l, at_end = False\<rparr>"
      by (simp_all add: skip_blank_full)
    with False Cons.prems(1) show ?thesis by auto
  qed
qed

lemma edge_loop_unended:
  assumes "edge_lines splitter (line # ls @ [l])" "\<not> blank_line splitter line"
  shows "edge_loop process splitter line \<lparr>remaining = unlines ls @ l, at_end = False\<rparr> s = None"
  using assms
proof (induction "length ls" arbitrary: line ls s rule: less_induct)
  case less
  let ?f = "\<lparr>remaining = unlines ls @ l, at_end = False\<rparr>"
  obtain e where line: "line \<noteq> []" "parse_edge splitter line = Some e" and ls: "edge_lines splitter (ls @ [l])"
    using less.prems by (auto simp: edge_lines_def)
  have "edge_loop process splitter line'' f'' s' = None"
    if more: "(case getline line ?f of (line', f') \<Rightarrow> skip_blank splitter line' f') = Some (line'', f'')" for line'' f'' s'
    using skip_blank_unended [OF ls more] less.hyps edge_loop_repeating [of process splitter line'' f'' s'] by fastforce
  then have "Option.bind (case getline line ?f of (line', f') \<Rightarrow> skip_blank splitter line' f')
      (\<lambda>(line'', f''). edge_loop process splitter line'' f'' s') = None" for s'
    by (cases "case getline line ?f of (line', f') \<Rightarrow> skip_blank splitter line' f'") auto
  then show ?case
    using line by (subst edge_loop.simps) (cases "getline line ?f"; simp)
qed

lemma read_edge_list_unended:
  assumes "edge_lines splitter (ls @ [l])" "splitter_of (hd (ls @ [l])) = Some splitter" "\<not> blank_line splitter (hd (ls @ [l]))"
  shows "read_edge_list process (unlines ls @ l) s = None"
proof (cases ls)
  case Nil
  then have l: "CHR 0x0A \<notin> set l" "repeating splitter l \<lparr>remaining = [], at_end = True\<rparr>" "l \<noteq> []"
    using assms(1,3) by (simp_all add: edge_lines_def repeating_def)
  moreover have "edge_loop process splitter l \<lparr>remaining = [], at_end = True\<rparr> s = None"
    using edge_loop_repeating [of process splitter l _ s] l(2) by fastforce
  ultimately show ?thesis using Nil assms(2) by (simp add: read_edge_list_def text_of_def getline_unended)
next
  case (Cons k ks)
  then have "CHR 0x0A \<notin> set k" "k \<noteq> []" using assms(1) by (simp_all add: edge_lines_def)
  then show ?thesis
    using edge_loop_unended [of splitter k ks l] Cons assms by (simp add: read_edge_list_def text_of_def getline_lines)
qed

end
