(* ===== verification/Metis_Graph.thy ===== *)
theory Metis_Graph
  imports Edge_List Ordered_Map
begin

text \<open>
  \<^verbatim>\<open>MetisPartitioner\<close> up to the call of \<^verbatim>\<open>gpmetis\<close>: loading an edge list, writing it in the format of METIS, and
  renumbering the vertices if they are not consecutive. The counters, of type \<^verbatim>\<open>idx_t\<close> and so of 32 bits, are
  integers; \<^verbatim>\<open>Metis_Load\<close> shows that they stay in the range of 32 bits for files of fewer than 2^30 lines.
\<close>

subsection \<open>State\<close>

record metis_graph =
  graphStorageMap :: "(int \<times> int list) list"
  graphEdgeMap :: "(int \<times> int list) list"
  mg_vertexCount :: int
  mg_edgeCount :: int
  edgeCountForMetis :: int
  largestVertex :: int
  smallestVertex :: int
  zeroflag :: bool
  vertexToIDMap :: "(int \<times> int) list"
  idToVertexMap :: "(int \<times> int) list"
  graphType :: string

definition INT_MAX :: int where
  "INT_MAX = 2 ^ 31 - 1"

definition fresh_metis :: metis_graph where
  "fresh_metis = \<lparr>graphStorageMap = [], graphEdgeMap = [], mg_vertexCount = 0, mg_edgeCount = 0, edgeCountForMetis = 0,
     largestVertex = 0, smallestVertex = INT_MAX, zeroflag = False, vertexToIDMap = [], idToVertexMap = [], graphType = []\<rparr>"

text \<open>\<^verbatim>\<open>operator[]\<close> of a map of vectors.\<close>

definition vector_at :: "('k \<times> 'a list) list \<Rightarrow> 'k \<Rightarrow> 'a list" where
  "vector_at m k = (case map_of m k of None \<Rightarrow> [] | Some v \<Rightarrow> v)"

subsection \<open>Loading\<close>

definition load_first :: "int \<Rightarrow> int \<Rightarrow> metis_graph \<Rightarrow> metis_graph" where
  "load_first firstVertex secondVertex m =
     (let firstEdgeSet = vector_at (graphStorageMap m) firstVertex;
          vertexEdgeSet = vector_at (graphEdgeMap m) firstVertex @ [secondVertex];
          (m, firstEdgeSet) =
            (if firstEdgeSet = []
             then (m\<lparr>mg_vertexCount := mg_vertexCount m + 1, edgeCountForMetis := edgeCountForMetis m + 1\<rparr>, [secondVertex])
             else if secondVertex \<notin> set firstEdgeSet
             then (m\<lparr>edgeCountForMetis := edgeCountForMetis m + 1\<rparr>, firstEdgeSet @ [secondVertex])
             else (m, firstEdgeSet))
      in m\<lparr>mg_edgeCount := mg_edgeCount m + 1, graphStorageMap := map_put firstVertex firstEdgeSet (graphStorageMap m),
           graphEdgeMap := map_put firstVertex vertexEdgeSet (graphEdgeMap m)\<rparr>)"

definition load_second :: "int \<Rightarrow> int \<Rightarrow> metis_graph \<Rightarrow> metis_graph" where
  "load_second firstVertex secondVertex m =
     (let secondEdgeSet = vector_at (graphStorageMap m) secondVertex;
          (m, secondEdgeSet) =
            (if secondEdgeSet = [] then (m\<lparr>mg_vertexCount := mg_vertexCount m + 1\<rparr>, [firstVertex])
             else if firstVertex \<notin> set secondEdgeSet then (m, secondEdgeSet @ [firstVertex])
             else (m, secondEdgeSet))
      in m\<lparr>graphStorageMap := map_put secondVertex secondEdgeSet (graphStorageMap m)\<rparr>)"

definition load_edge :: "int \<times> int \<Rightarrow> metis_graph \<Rightarrow> metis_graph" where
  "load_edge e m =
     (let (firstVertex, secondVertex) = e;
          m = m\<lparr>zeroflag := zeroflag m \<or> firstVertex = 0 \<or> secondVertex = 0\<rparr>;
          m = load_second firstVertex secondVertex (load_first firstVertex secondVertex m)
      in m\<lparr>largestVertex := max (max (largestVertex m) firstVertex) secondVertex,
           smallestVertex := min (min (smallestVertex m) firstVertex) secondVertex\<rparr>)"

definition loadDataSet :: "string \<Rightarrow> metis_graph \<Rightarrow> (load_error + metis_graph) option" where
  "loadDataSet file_text m = read_edge_list load_edge file_text m"

subsection \<open>The format of METIS\<close>

definition metis_line :: "bool \<Rightarrow> int \<Rightarrow> int list \<Rightarrow> string" where
  "metis_line zero vertexNum vertexSet =
     concat (map (\<lambda>i. let entry = to_string_int (if zero then i + 1 else i) @ '' '' in if vertexNum = i then entry @ entry else entry) vertexSet)"

fun metis_lines :: "metis_graph \<Rightarrow> int list \<Rightarrow> string option" where
  "metis_lines m [] = Some []"
| "metis_lines m (vertexNum # vertexNums) =
     (let vertexSet = vector_at (graphStorageMap m) vertexNum in
      if vertexNum > smallestVertex m \<and> vertexSet = [] then None
      else map_option (\<lambda>rest. (if \<not> zeroflag m \<and> vertexNum = 0 then []
          else metis_line (zeroflag m) vertexNum (sort vertexSet) @ [CHR 0x0A]) @ rest) (metis_lines m vertexNums))"

text \<open>The result, the file \<^verbatim>\<open>grf\<close> and the new state. The entries without neighbours that the lookup adds to
  \<^verbatim>\<open>graphStorageMap\<close> are left out, since nothing reads that map afterwards, and \<^verbatim>\<open>xadj\<close> is never read; the loop
  variable does not overflow as long as \<^verbatim>\<open>largestVertex\<close> is less than \<^verbatim>\<open>INT_MAX\<close>.\<close>

definition constructMetisFormat :: "string \<Rightarrow> metis_graph \<Rightarrow> int \<times> string \<times> metis_graph" where
  "constructMetisFormat graph_type m =
     (let m = m\<lparr>graphType := graph_type\<rparr>;
          header = to_string_int (mg_vertexCount m) @ '' '' @ to_string_int (edgeCountForMetis m) @ [CHR 0x0A]
      in case metis_lines m [0..largestVertex m] of
           Some ls \<Rightarrow> (1, header @ ls, m)
         | None \<Rightarrow> (0, header, m\<lparr>mg_vertexCount := 0, mg_edgeCount := 0, edgeCountForMetis := 0, graphEdgeMap := [],
             graphStorageMap := [], smallestVertex := INT_MAX, largestVertex := 0, zeroflag := False\<rparr>))"

subsection \<open>Renumbering\<close>

record renumbering =
  vertexToID :: "(int \<times> int) list"
  idToVertex :: "(int \<times> int) list"
  idCounter :: int
  outFile :: string

definition number_vertex :: "int \<Rightarrow> renumbering \<Rightarrow> renumbering" where
  "number_vertex v r =
     (if map_of (vertexToID r) v = None
      then r\<lparr>vertexToID := map_put v (idCounter r) (vertexToID r), idToVertex := map_put (idCounter r) v (idToVertex r),
             idCounter := idCounter r + 1\<rparr>
      else r)"

definition reformat_edge :: "int \<times> int \<Rightarrow> renumbering \<Rightarrow> renumbering" where
  "reformat_edge e r =
     (let (firstVertex, secondVertex) = e;
          r = number_vertex secondVertex (number_vertex firstVertex r)
      in r\<lparr>outFile := outFile r @ to_string_int (the (map_of (vertexToID r) firstVertex)) @ '' '' @
             to_string_int (the (map_of (vertexToID r) secondVertex)) @ [CHR 0x0A]\<rparr>)"

definition reformatDataSet :: "string \<Rightarrow> metis_graph \<Rightarrow> (load_error + string \<times> metis_graph) option" where
  "reformatDataSet file_text m =
     after_load (read_edge_list reformat_edge file_text
         \<lparr>vertexToID = vertexToIDMap m, idToVertex = idToVertexMap m, idCounter = 1, outFile = []\<rparr>)
       (\<lambda>r. Some (Inr (outFile r, m\<lparr>vertexToIDMap := vertexToID r, idToVertexMap := idToVertex r\<rparr>)))"

end
