(* ===== verification/Metis_Load.thy ===== *)
theory Metis_Load
  imports Metis_Graph
begin

text \<open>
  What \<^verbatim>\<open>MetisPartitioner::loadDataSet\<close> knows of an edge list: the neighbours of every vertex, the counters
  and the range of the vertices.
\<close>

subsection \<open>The graph of an edge list\<close>

definition ends :: "(int \<times> int) list \<Rightarrow> int set" where
  "ends es = fst ` set es \<union> snd ` set es"

definition adjacent_to :: "(int \<times> int) list \<Rightarrow> int \<Rightarrow> int set" where
  "adjacent_to es v = {w. (v, w) \<in> set es \<or> (w, v) \<in> set es}"

definition undirected :: "(int \<times> int) list \<Rightarrow> int set set" where
  "undirected es = (\<lambda>(a, b). {a, b}) ` set es"

definition successors :: "(int \<times> int) list \<Rightarrow> int \<Rightarrow> int list" where
  "successors es v = map snd (filter (\<lambda>e. fst e = v) es)"

lemma finite_ends [simp]: "finite (ends es)"
  by (simp add: ends_def)

lemma adjacent_to_empty: "adjacent_to es v = {} \<longleftrightarrow> v \<notin> ends es"
  by (force simp: adjacent_to_def ends_def)

lemma ends_snoc: "ends (es @ [(a, b)]) = insert b (insert a (ends es))"
  by (auto simp: ends_def)

lemma adjacent_to_snoc: "adjacent_to (es @ [(a, b)]) v = adjacent_to es v \<union> (if v = a then {b} else {}) \<union> (if v = b then {a} else {})"
  by (auto simp: adjacent_to_def)

lemma undirected_snoc: "undirected (es @ [(a, b)]) = insert {a, b} (undirected es)"
  by (auto simp: undirected_def)

lemma undirected_adjacent_to: "{a, b} \<in> undirected es \<longleftrightarrow> b \<in> adjacent_to es a"
  by (auto simp: undirected_def adjacent_to_def doubleton_eq_iff image_iff)

lemma successors_snoc: "successors (es @ [(a, b)]) v = successors es v @ (if v = a then [b] else [])"
  by (simp add: successors_def)

subsection \<open>The loaded graph\<close>

definition stores_neighbours :: "(int \<times> int) list \<Rightarrow> (int \<times> int list) list \<Rightarrow> bool" where
  "stores_neighbours es m \<longleftrightarrow> ordered m \<and> (\<forall>v. distinct (vector_at m v) \<and> set (vector_at m v) = adjacent_to es v)"

definition stores_edges :: "(int \<times> int) list \<Rightarrow> (int \<times> int list) list \<Rightarrow> bool" where
  "stores_edges es m \<longleftrightarrow> ordered m \<and> fst ` set m = fst ` set es \<and> (\<forall>v. vector_at m v = successors es v)"

definition loaded :: "(int \<times> int) list \<Rightarrow> metis_graph \<Rightarrow> bool" where
  "loaded es m \<longleftrightarrow>
     stores_neighbours es (graphStorageMap m) \<and> stores_edges es (graphEdgeMap m) \<and>
     mg_vertexCount m = int (card (ends es)) \<and> mg_edgeCount m = int (length es) \<and>
     edgeCountForMetis m = int (card (undirected es)) \<and> zeroflag m = (0 \<in> ends es) \<and>
     largestVertex m = Max (insert 0 (ends es)) \<and> smallestVertex m = Min (insert INT_MAX (ends es))"

lemma vector_at_put: "ordered m \<Longrightarrow> vector_at (map_put k vs m) k' = (if k' = k then vs else vector_at m k')"
  by (simp add: vector_at_def map_put_lookup)

lemma loaded_empty: "loaded [] fresh_metis"
  by (simp add: loaded_def fresh_metis_def stores_neighbours_def stores_edges_def ordered_def vector_at_def adjacent_to_def
      ends_def undirected_def successors_def)

lemma stores_edges_put:
  assumes "stores_edges es m"
  shows "stores_edges (es @ [(a, b)]) (map_put a (vector_at m a @ [b]) m)"
  using assms unfolding stores_edges_def
  by (auto simp: vector_at_put successors_snoc map_put_keys)

text \<open>The set of the first vertex, then the set of the second.\<close>

definition add_once :: "'a \<Rightarrow> 'a list \<Rightarrow> 'a list" where
  "add_once x xs = (if x \<in> set xs then xs else xs @ [x])"

lemma add_once_set [simp]: "set (add_once x xs) = insert x (set xs)" "distinct (add_once x xs) \<longleftrightarrow> distinct xs" "add_once x xs \<noteq> []"
  by (auto simp: add_once_def)

lemma stores_neighbours_put:
  fixes a b :: int
  assumes "stores_neighbours es m"
  defines "m1 \<equiv> map_put a (add_once b (vector_at m a)) m"
  shows "stores_neighbours (es @ [(a, b)]) (map_put b (add_once a (vector_at m1 b)) m1)" "ordered m1"
    and "vector_at m1 b = [] \<longleftrightarrow> b \<noteq> a \<and> b \<notin> ends es"
proof -
  have m: "ordered m" "\<And>v. distinct (vector_at m v)" "\<And>v. set (vector_at m v) = adjacent_to es v"
    using assms(1) by (simp_all add: stores_neighbours_def)
  show m1: "ordered m1" using m(1) by (auto simp: m1_def)
  have at: "vector_at m1 v = (if v = a then add_once b (vector_at m a) else vector_at m v)" for v
    by (simp add: m1_def vector_at_put [OF m(1)])
  show "stores_neighbours (es @ [(a, b)]) (map_put b (add_once a (vector_at m1 b)) m1)"
    using m m1 unfolding stores_neighbours_def
    by (auto simp: vector_at_put at adjacent_to_snoc)
  show "vector_at m1 b = [] \<longleftrightarrow> b \<noteq> a \<and> b \<notin> ends es"
    using m(3) [of b] adjacent_to_empty [of es b] by (auto simp: at)
qed

lemma load_first_add_once:
  "load_first a b m = m\<lparr>mg_vertexCount := mg_vertexCount m + (if vector_at (graphStorageMap m) a = [] then 1 else 0),
     edgeCountForMetis := edgeCountForMetis m + (if b \<in> set (vector_at (graphStorageMap m) a) then 0 else 1),
     mg_edgeCount := mg_edgeCount m + 1,
     graphStorageMap := map_put a (add_once b (vector_at (graphStorageMap m) a)) (graphStorageMap m),
     graphEdgeMap := map_put a (vector_at (graphEdgeMap m) a @ [b]) (graphEdgeMap m)\<rparr>"
  by (cases "vector_at (graphStorageMap m) a = []"; cases "b \<in> set (vector_at (graphStorageMap m) a)")
    (simp_all add: load_first_def Let_def add_once_def)

lemma load_second_add_once:
  "load_second a b m = m\<lparr>mg_vertexCount := mg_vertexCount m + (if vector_at (graphStorageMap m) b = [] then 1 else 0),
     graphStorageMap := map_put b (add_once a (vector_at (graphStorageMap m) b)) (graphStorageMap m)\<rparr>"
  by (cases "vector_at (graphStorageMap m) b = []") (simp_all add: load_second_def Let_def add_once_def)

lemma load_edge_fields:
  fixes a b :: int
  assumes "stores_neighbours es (graphStorageMap m)"
  defines "m1 \<equiv> map_put a (add_once b (vector_at (graphStorageMap m) a)) (graphStorageMap m)"
  shows "zeroflag (load_edge (a, b) m) = (zeroflag m \<or> a = 0 \<or> b = 0)"
    and "mg_vertexCount (load_edge (a, b) m) = mg_vertexCount m + (if a \<in> ends es then 0 else 1) + (if b \<noteq> a \<and> b \<notin> ends es then 1 else 0)"
    and "edgeCountForMetis (load_edge (a, b) m) = edgeCountForMetis m + (if b \<in> adjacent_to es a then 0 else 1)"
    and "mg_edgeCount (load_edge (a, b) m) = mg_edgeCount m + 1"
    and "graphStorageMap (load_edge (a, b) m) = map_put b (add_once a (vector_at m1 b)) m1"
    and "graphEdgeMap (load_edge (a, b) m) = map_put a (vector_at (graphEdgeMap m) a @ [b]) (graphEdgeMap m)"
    and "largestVertex (load_edge (a, b) m) = max (max (largestVertex m) a) b"
    and "smallestVertex (load_edge (a, b) m) = min (min (smallestVertex m) a) b"
proof -
  have s: "set (vector_at (graphStorageMap m) a) = adjacent_to es a" using assms(1) by (simp add: stores_neighbours_def)
  then have e: "vector_at (graphStorageMap m) a = [] \<longleftrightarrow> a \<notin> ends es" using adjacent_to_empty [of es a] by auto
  note b = stores_neighbours_put(3) [OF assms(1), where a = a and b = b, folded m1_def]
  note fields = load_edge_def load_second_add_once load_first_add_once m1_def [symmetric] Let_def
  show "mg_vertexCount (load_edge (a, b) m) = mg_vertexCount m + (if a \<in> ends es then 0 else 1) + (if b \<noteq> a \<and> b \<notin> ends es then 1 else 0)"
    using b e by (simp add: fields)
  show "edgeCountForMetis (load_edge (a, b) m) = edgeCountForMetis m + (if b \<in> adjacent_to es a then 0 else 1)"
    using s by (simp add: fields)
qed (simp_all add: load_edge_def load_second_add_once load_first_add_once m1_def Let_def)

lemma loaded_snoc:
  assumes "loaded es m"
  shows "loaded (es @ [(a, b)]) (load_edge (a, b) m)"
proof -
  have m: "stores_neighbours es (graphStorageMap m)" "stores_edges es (graphEdgeMap m)" using assms by (simp_all add: loaded_def)
  have "card (ends (es @ [(a, b)])) = card (ends es) + (if a \<in> ends es then 0 else 1) + (if b \<noteq> a \<and> b \<notin> ends es then 1 else 0)"
    by (auto simp: ends_snoc card_insert_if)
  moreover have "card (undirected (es @ [(a, b)])) = card (undirected es) + (if b \<in> adjacent_to es a then 0 else 1)"
    by (simp add: undirected_snoc card_insert_if undirected_adjacent_to [symmetric] undirected_def)
  moreover have "Max (insert 0 (ends (es @ [(a, b)]))) = max (max (Max (insert 0 (ends es))) a) b"
    "Min (insert INT_MAX (ends (es @ [(a, b)]))) = min (min (Min (insert INT_MAX (ends es))) a) b"
    using Max_insert [of "insert a (insert 0 (ends es))" b] Max_insert [of "insert 0 (ends es)" a]
      Min_insert [of "insert a (insert INT_MAX (ends es))" b] Min_insert [of "insert INT_MAX (ends es)" a]
    by (simp_all add: ends_snoc insert_commute max.commute min.commute del: Max_insert Min_insert)
  moreover have "0 \<in> ends (es @ [(a, b)]) \<longleftrightarrow> 0 \<in> ends es \<or> a = 0 \<or> b = 0" by (auto simp: ends_snoc)
  ultimately show ?thesis
    using assms stores_neighbours_put(1) [OF m(1), where a = a and b = b] stores_edges_put [OF m(2), of a b]
    by (simp add: loaded_def load_edge_fields [OF m(1)] del: Max_insert Min_insert)
qed

lemma loaded_fold: "loaded es m \<Longrightarrow> loaded (es @ es') (fold load_edge es' m)"
proof (induction es' arbitrary: es m)
  case (Cons e es')
  obtain a b where e: "e = (a, b)" by fastforce
  from Cons.IH [OF loaded_snoc [OF Cons.prems, of a b]] show ?case by (simp add: e)
qed simp

subsection \<open>Loading a file\<close>

definition counters_fit :: "metis_graph \<Rightarrow> bool" where
  "counters_fit m \<longleftrightarrow> (\<forall>c\<in>{mg_vertexCount m, mg_edgeCount m, edgeCountForMetis m, largestVertex m, smallestVertex m}.
     - INT_MAX - 1 \<le> c \<and> c \<le> INT_MAX)"

lemma card_ends_le: "card (ends es) \<le> 2 * length es"
proof -
  have "card (ends es) \<le> card (fst ` set es) + card (snd ` set es)" unfolding ends_def by (rule card_Un_le)
  also have "\<dots> \<le> card (set es) + card (set es)" by (intro add_mono card_image_le) simp_all
  also have "\<dots> \<le> 2 * length es" using card_length [of es] by simp
  finally show ?thesis .
qed

lemma card_undirected_le: "card (undirected es) \<le> length es"
  unfolding undirected_def by (rule order_trans [OF card_image_le card_length]) simp

lemma loaded_counters_fit:
  assumes "loaded es m" "2 * int (length es) \<le> INT_MAX" "\<forall>v\<in>ends es. - INT_MAX - 1 \<le> v \<and> v \<le> INT_MAX"
  shows "counters_fit m"
proof -
  have "Max (insert 0 (ends es)) \<in> insert 0 (ends es)" "Min (insert INT_MAX (ends es)) \<in> insert INT_MAX (ends es)"
    by (rule Max_in Min_in; simp)+
  moreover have "v \<in> insert 0 (ends es) \<Longrightarrow> - INT_MAX - 1 \<le> v \<and> v \<le> INT_MAX"
    "v \<in> insert INT_MAX (ends es) \<Longrightarrow> - INT_MAX - 1 \<le> v \<and> v \<le> INT_MAX" for v
    using assms(3) by (auto simp: INT_MAX_def)
  ultimately have "\<forall>c\<in>{Max (insert 0 (ends es)), Min (insert INT_MAX (ends es))}. - INT_MAX - 1 \<le> c \<and> c \<le> INT_MAX" by blast
  moreover have "int (card (ends es)) \<le> INT_MAX" "int (card (undirected es)) \<le> INT_MAX" "int (length es) \<le> INT_MAX" "0 \<le> INT_MAX"
    using card_ends_le [of es] card_undirected_le [of es] assms(2) by (simp_all add: INT_MAX_def)
  ultimately show ?thesis using assms(1) by (simp add: counters_fit_def loaded_def del: Max_insert Min_insert)
qed

lemma parse_edge_bounds:
  assumes "parse_edge splitter l = Some (a, b)"
  shows "- INT_MAX - 1 \<le> a \<and> a \<le> INT_MAX" "- INT_MAX - 1 \<le> b \<and> b \<le> INT_MAX"
proof -
  have "- INT_MAX - 1 \<le> v \<and> v \<le> INT_MAX" if "stoi s = Some v" for s v
    using that by (auto simp: stoi_def INT_MAX_def split: option.splits if_splits)
  with assms show "- INT_MAX - 1 \<le> a \<and> a \<le> INT_MAX" "- INT_MAX - 1 \<le> b \<and> b \<le> INT_MAX"
    by (auto simp: parse_edge_def Let_def bind_eq_Some_conv)
qed

lemma edges_of_bounds:
  assumes "edge_lines splitter ls"
  shows "length (edges_of splitter ls) \<le> length ls" "\<forall>v\<in>ends (take n (edges_of splitter ls)). - INT_MAX - 1 \<le> v \<and> v \<le> INT_MAX"
proof -
  show "length (edges_of splitter ls) \<le> length ls" by (simp add: edges_of_def)
  have "\<forall>(a, b)\<in>set (edges_of splitter ls). - INT_MAX - 1 \<le> a \<and> a \<le> INT_MAX \<and> - INT_MAX - 1 \<le> b \<and> b \<le> INT_MAX"
    using assms parse_edge_bounds [of splitter] by (fastforce simp: edges_of_def edge_lines_def)
  then show "\<forall>v\<in>ends (take n (edges_of splitter ls)). - INT_MAX - 1 \<le> v \<and> v \<le> INT_MAX"
    by (auto simp: ends_def dest!: in_set_takeD)
qed

text \<open>C30. Loading an edge list is exact. For a file of lines that each end with a newline and each hold an
  edge or separators only, \<^verbatim>\<open>loadDataSet\<close> of a fresh partitioner returns, and the partitioner then has the
  neighbours of every vertex without repetition, the targets of every vertex in the order of the file, the
  numbers of vertices, of edge lines and of distinct undirected edges, and the range of the vertices. If the
  file has at most 2^30 - 1 lines, none of the counters leaves the 32 bits of \<^verbatim>\<open>idx_t\<close> after any of them.\<close>

theorem loadDataSet_exact:
  assumes "edge_lines splitter (l # ls)" "splitter_of l = Some splitter" "\<not> blank_line splitter l"
    and "2 * int (length (l # ls)) \<le> INT_MAX"
  shows "\<exists>m. loadDataSet (unlines (l # ls)) fresh_metis = Some (Inr m) \<and> loaded (edges_of splitter (l # ls)) m \<and>
    m = fold load_edge (edges_of splitter (l # ls)) fresh_metis \<and>
    (\<forall>n. counters_fit (fold load_edge (take n (edges_of splitter (l # ls))) fresh_metis))"
proof -
  let ?es = "edges_of splitter (l # ls)"
  have "loadDataSet (unlines (l # ls)) fresh_metis = Some (Inr (fold load_edge ?es fresh_metis))"
    unfolding loadDataSet_def by (rule read_edge_list_lines [OF assms(1-3)])
  moreover have "loaded ?es (fold load_edge ?es fresh_metis)"
    using loaded_fold [OF loaded_empty, of ?es] by simp
  moreover have "counters_fit (fold load_edge (take n ?es) fresh_metis)" for n
    by (rule loaded_counters_fit [OF loaded_fold [OF loaded_empty, of "take n ?es", simplified]])
      (use edges_of_bounds [OF assms(1)] assms(4) in simp_all)
  ultimately show ?thesis by blast
qed

theorem loadDataSet_exact_witness:
  "\<exists>m. loadDataSet (unlines [''0 1'', ''2  1'', ''  '', ''2 2'', ''1 0'']) fresh_metis = Some (Inr m) \<and>
    loaded [(0, 1), (2, 1), (2, 2), (1, 0)] m \<and> (\<forall>n. counters_fit (fold load_edge (take n [(0, 1), (2, 1), (2, 2), (1, 0)]) fresh_metis))"
proof -
  have "edge_lines CHR '' '' [''0 1'', ''2  1'', ''  '', ''2 2'', ''1 0'']" "splitter_of ''0 1'' = Some CHR '' ''"
    "\<not> blank_line CHR '' '' ''0 1''" by code_simp+
  moreover have "edges_of CHR '' '' [''0 1'', ''2  1'', ''  '', ''2 2'', ''1 0''] = [(0, 1), (2, 1), (2, 2), (1, 0)]" by code_simp
  ultimately show ?thesis using loadDataSet_exact [of "CHR '' ''" "''0 1''" "[''2  1'', ''  '', ''2 2'', ''1 0'']"]
    by (auto simp: INT_MAX_def simp del: fold_simps)
qed

text \<open>C35. An edge list whose last line does not end with a newline is never loaded: \<^verbatim>\<open>std::getline\<close> leaves the
  last line in place, and \<^verbatim>\<open>loadDataSet\<close> processes it again and again, whatever was loaded before: it neither
  returns nor throws. (The loop has no exit besides an empty line; a run would end only with the behaviour of
  \<^verbatim>\<open>edgeCount++\<close>, a signed counter of 32 bits, being undefined after 2^31 rounds.)\<close>

theorem loadDataSet_unended:
  assumes "edge_lines splitter (ls @ [l])" "splitter_of (hd (ls @ [l])) = Some splitter" "\<not> blank_line splitter (hd (ls @ [l]))"
  shows "loadDataSet (unlines ls @ l) m = None"
  unfolding loadDataSet_def by (rule read_edge_list_unended [OF assms])

theorem loadDataSet_unended_witness:
  "loadDataSet (''0 1'' @ CHR 0x0A # ''1 2'') fresh_metis = None"
proof -
  have "edge_lines CHR '' '' ([''0 1''] @ [''1 2''])" "splitter_of (hd ([''0 1''] @ [''1 2''])) = Some CHR '' ''"
    "\<not> blank_line CHR '' '' (hd ([''0 1''] @ [''1 2'']))" by code_simp+
  from loadDataSet_unended [OF this, of fresh_metis] show ?thesis by simp
qed

end
