(* ===== verification/Metis_Format.thy ===== *)
theory Metis_Format
  imports Metis_Load
begin

text \<open>
  The file that \<^verbatim>\<open>constructMetisFormat\<close> writes and the renumbering of vertices that are not consecutive.
\<close>

subsection \<open>The format of METIS\<close>

text \<open>In the format of METIS vertices are numbered from 1 in the order of their lines.\<close>

definition int_graph :: "(int \<times> int) list \<Rightarrow> bool" where
  "int_graph es \<longleftrightarrow> es \<noteq> [] \<and> (\<forall>v\<in>ends es. 0 \<le> v \<and> v < INT_MAX)"

definition consecutive :: "(int \<times> int) list \<Rightarrow> bool" where
  "consecutive es \<longleftrightarrow> {Min (ends es)..Max (ends es)} \<subseteq> ends es"

definition neighbour_list :: "(int \<times> int) list \<Rightarrow> int \<Rightarrow> int list" where
  "neighbour_list es v = sorted_list_of_set (adjacent_to es v)"

lemma loaded_range:
  assumes "loaded es m" "int_graph es"
  shows "smallestVertex m = Min (ends es)" "largestVertex m = Max (ends es)" "0 \<le> Min (ends es)" "Min (ends es) \<le> Max (ends es)"
    "zeroflag m \<longleftrightarrow> Min (ends es) = 0"
proof -
  have ne: "ends es \<noteq> {}" using assms(2) by (auto simp: int_graph_def ends_def)
  have lo: "0 \<le> v" "v \<le> INT_MAX" if "v \<in> ends es" for v using assms(2) that by (simp_all add: int_graph_def less_imp_le)
  have in': "Min (ends es) \<in> ends es" "Max (ends es) \<in> ends es" using ne by simp_all
  show nonneg: "0 \<le> Min (ends es)" using lo in' by blast
  show "Min (ends es) \<le> Max (ends es)" using in' by simp
  show "smallestVertex m = Min (ends es)" "largestVertex m = Max (ends es)"
    using assms(1) ne lo in' by (simp_all add: loaded_def Min_insert Max_insert min_absorb2 max_absorb2)
  have "0 \<in> ends es \<longleftrightarrow> Min (ends es) = 0"
    using in'(1) nonneg Min_le [of "ends es" 0] by (metis finite_ends order_antisym)
  then show "zeroflag m \<longleftrightarrow> Min (ends es) = 0" using assms(1) by (simp add: loaded_def)
qed

lemma loaded_neighbours:
  assumes "loaded es m"
  shows "vector_at (graphStorageMap m) v = [] \<longleftrightarrow> v \<notin> ends es" "sort (vector_at (graphStorageMap m) v) = neighbour_list es v"
proof -
  have s: "distinct (vector_at (graphStorageMap m) v)" "set (vector_at (graphStorageMap m) v) = adjacent_to es v"
    using assms by (simp_all add: loaded_def stores_neighbours_def)
  then show "vector_at (graphStorageMap m) v = [] \<longleftrightarrow> v \<notin> ends es" using adjacent_to_empty [of es v] by auto
  show "sort (vector_at (graphStorageMap m) v) = neighbour_list es v"
    unfolding neighbour_list_def s(2) [symmetric] using s(1) by (simp add: sorted_list_of_set_sort_remdups distinct_remdups_id)
qed

lemma metis_lines_loaded:
  assumes "loaded es m"
  shows "metis_lines m vs =
    (if \<forall>v\<in>set vs. smallestVertex m < v \<longrightarrow> v \<in> ends es
     then Some (unlines (map (\<lambda>v. metis_line (zeroflag m) v (neighbour_list es v)) (filter (\<lambda>v. zeroflag m \<or> v \<noteq> 0) vs)))
     else None)"
  by (induction vs) (auto simp: Let_def loaded_neighbours [OF assms])

lemma range_covered:
  fixes lo hi :: int
  assumes "lo \<in> E" "0 \<le> lo"
  shows "(\<forall>v\<in>set [0..hi]. lo < v \<longrightarrow> v \<in> E) \<longleftrightarrow> {lo..hi} \<subseteq> E"
proof
  assume E: "\<forall>v\<in>set [0..hi]. lo < v \<longrightarrow> v \<in> E"
  show "{lo..hi} \<subseteq> E"
  proof
    fix v assume "v \<in> {lo..hi}"
    with E assms show "v \<in> E" by (cases "v = lo") auto
  qed
qed auto

lemma constructMetisFormat_result:
  assumes "loaded es m" "int_graph es"
  shows "fst (constructMetisFormat t m) = 1 \<longleftrightarrow> consecutive es" "fst (constructMetisFormat t m) \<in> {0, 1}"
proof -
  note r = loaded_range [OF assms]
  have "(\<forall>v\<in>set [0..largestVertex m]. smallestVertex m < v \<longrightarrow> v \<in> ends es) \<longleftrightarrow> consecutive es"
  proof -
    have "Min (ends es) \<in> ends es" using assms(2) by (intro Min_in) (auto simp: int_graph_def ends_def)
    from range_covered [OF this r(3)] show ?thesis unfolding r consecutive_def .
  qed
  then show "fst (constructMetisFormat t m) = 1 \<longleftrightarrow> consecutive es" "fst (constructMetisFormat t m) \<in> {0, 1}"
    using metis_lines_loaded [of es "m\<lparr>graphType := t\<rparr>" "[0..largestVertex m]"] assms(1)
    by (auto simp: constructMetisFormat_def Let_def loaded_def split: option.split)
qed

lemma outside_lines: "v \<notin> ends es \<Longrightarrow> metis_line z v (neighbour_list es v) = []"
  using adjacent_to_empty [of es v] by (simp add: neighbour_list_def metis_line_def)

lemma printed_vertices:
  fixes lo hi :: int
  assumes "0 \<le> lo" "lo \<le> hi"
  shows "filter (\<lambda>v. lo = 0 \<or> v \<noteq> 0) [0..hi] = (if lo = 0 then [] else [1..lo - 1]) @ [lo..hi]"
proof (cases "lo = 0")
  case False
  then have "[0..hi] = 0 # [1..lo - 1] @ [lo..hi]"
    using assms upto_split1 [of 1 lo hi] upto_rec1 [of 0 hi] by simp
  moreover have "filter (\<lambda>v. v \<noteq> 0) [1..lo - 1] = [1..lo - 1]" "filter (\<lambda>v. v \<noteq> 0) [lo..hi] = [lo..hi]"
    using assms False by (auto simp: filter_id_conv)
  ultimately show ?thesis using False by simp
qed simp

lemma map_replicate: "(\<And>x. x \<in> set xs \<Longrightarrow> f x = c) \<Longrightarrow> map f xs = replicate (length xs) c"
  by (induction xs) simp_all

text \<open>Below the smallest vertex the file has a blank line for every number from 1 on.\<close>

lemma constructMetisFormat_text:
  assumes "loaded es m" "int_graph es" "consecutive es"
  shows "constructMetisFormat t m = (1, unlines ((to_string_int (int (card (ends es))) @ '' '' @ to_string_int (int (card (undirected es)))) #
    replicate (nat (Min (ends es) - 1)) [] @
    map (\<lambda>v. metis_line (Min (ends es) = 0) v (neighbour_list es v)) [Min (ends es)..Max (ends es)]), m\<lparr>graphType := t\<rparr>)"
proof -
  let ?m = "m\<lparr>graphType := t\<rparr>" and ?lo = "Min (ends es)" and ?hi = "Max (ends es)"
  have m: "loaded es ?m" using assms(1) by (simp add: loaded_def)
  note r = loaded_range [OF m assms(2)]
  have "?lo \<in> ends es" using assms(2) by (intro Min_in) (auto simp: int_graph_def ends_def)
  from range_covered [OF this r(3), of ?hi] assms(3) have all: "\<forall>v\<in>set [0..?hi]. ?lo < v \<longrightarrow> v \<in> ends es"
    unfolding consecutive_def by blast
  have "v \<notin> ends es" if "v \<in> set [1..?lo - 1]" for v using that Min_le [OF finite_ends, of v es] by fastforce
  then have blank: "map (\<lambda>v. metis_line z v (neighbour_list es v)) [1..?lo - 1] = replicate (nat (?lo - 1)) []" for z
    using map_replicate [of "[1..?lo - 1]" "\<lambda>v. metis_line z v (neighbour_list es v)" "[]"] outside_lines by simp
  have cond: "\<forall>v\<in>set [0..?hi]. smallestVertex ?m < v \<longrightarrow> v \<in> ends es" unfolding r(1) by (rule all)
  have "map (\<lambda>v. metis_line z v (neighbour_list es v)) ((if ?lo = 0 then [] else [1..?lo - 1]) @ [?lo..?hi]) =
      replicate (nat (?lo - 1)) [] @ map (\<lambda>v. metis_line z v (neighbour_list es v)) [?lo..?hi]" for z
    using blank [of z] by (cases "?lo = 0") simp_all
  then have "metis_lines ?m [0..?hi] = Some (unlines (replicate (nat (?lo - 1)) [] @
      map (\<lambda>v. metis_line (?lo = 0) v (neighbour_list es v)) [?lo..?hi]))"
    unfolding metis_lines_loaded [OF m] if_P [OF cond] r(5) printed_vertices [OF r(3,4)] by (rule arg_cong)
  moreover have "mg_vertexCount ?m = int (card (ends es))" "edgeCountForMetis ?m = int (card (undirected es))" using m by (simp_all add: loaded_def)
  ultimately show ?thesis using r(2) by (simp add: constructMetisFormat_def Let_def)
qed

subsection \<open>Renumbering\<close>

definition renumber :: "renumbering \<Rightarrow> int \<Rightarrow> int" where
  "renumber r v = the (map_of (vertexToID r) v)"

definition edge_text :: "int \<times> int \<Rightarrow> string" where
  "edge_text e = to_string_int (fst e) @ '' '' @ to_string_int (snd e)"

definition numbered :: "int set \<Rightarrow> renumbering \<Rightarrow> bool" where
  "numbered V r \<longleftrightarrow> ordered (vertexToID r) \<and> ordered (idToVertex r) \<and> finite V \<and> dom (map_of (vertexToID r)) = V \<and>
     (\<forall>v i. map_of (vertexToID r) v = Some i \<longleftrightarrow> map_of (idToVertex r) i = Some v) \<and>
     dom (map_of (idToVertex r)) = {1..int (card V)} \<and> idCounter r = int (card V) + 1"

lemma numbered_empty: "numbered {} \<lparr>vertexToID = [], idToVertex = [], idCounter = 1, outFile = s\<rparr>"
  by (simp add: numbered_def ordered_def)

lemma number_vertex:
  assumes "numbered V r"
  shows "numbered (insert v V) (number_vertex v r)" "u \<in> V \<Longrightarrow> renumber (number_vertex v r) u = renumber r u"
    "outFile (number_vertex v r) = outFile r"
proof -
  have r: "ordered (vertexToID r)" "ordered (idToVertex r)" "finite V" "dom (map_of (vertexToID r)) = V"
      "\<And>v i. map_of (vertexToID r) v = Some i \<longleftrightarrow> map_of (idToVertex r) i = Some v"
      "dom (map_of (idToVertex r)) = {1..int (card V)}" "idCounter r = int (card V) + 1"
    using assms by (simp_all add: numbered_def)
  show "numbered (insert v V) (number_vertex v r)"
  proof (cases "v \<in> V")
    case True
    then show ?thesis using assms r(4) by (auto simp: number_vertex_def insert_absorb)
  next
    case False
    have "idCounter r \<notin> dom (map_of (idToVertex r))" unfolding r(6,7) by simp
    then have fresh: "map_of (idToVertex r) (idCounter r) = None" by blast
    have v: "map_of (vertexToID r) v = None" using False r(4) by auto
    have "((map_of (vertexToID r))(v \<mapsto> idCounter r)) u = Some i \<longleftrightarrow> ((map_of (idToVertex r))(idCounter r \<mapsto> v)) i = Some u" for u i
      using r(5) [of u i] fresh v by (auto simp: fun_upd_def)
    moreover have "insert (int (card V) + 1) {1..int (card V)} = {1..int (card V) + 1}" by auto
    ultimately show ?thesis
      using r False v by (simp add: numbered_def number_vertex_def ordered_map_put map_put_lookup)
  qed
  show "renumber (number_vertex v r) u = renumber r u" if "u \<in> V"
    using r(4) that map_put_lookup [OF r(1)] by (auto simp: number_vertex_def renumber_def)
  show "outFile (number_vertex v r) = outFile r" by (simp add: number_vertex_def)
qed

definition renumbered :: "(int \<times> int) list \<Rightarrow> renumbering \<Rightarrow> bool" where
  "renumbered es r \<longleftrightarrow> numbered (ends es) r \<and> outFile r = unlines (map (\<lambda>(a, b). edge_text (renumber r a, renumber r b)) es)"

lemma unlines_append: "unlines (xs @ ys) = unlines xs @ unlines ys"
  by (simp add: unlines_def)

lemma renumbered_snoc:
  assumes "renumbered es r"
  shows "renumbered (es @ [(a, b)]) (reformat_edge (a, b) r)"
proof -
  let ?r1 = "number_vertex a r" and ?r2 = "number_vertex b (number_vertex a r)"
  have r: "numbered (ends es) r" "outFile r = unlines (map (\<lambda>(a, b). edge_text (renumber r a, renumber r b)) es)"
    using assms by (simp_all add: renumbered_def)
  note 1 = number_vertex [OF r(1), where v = a]
  note 2 = number_vertex [OF 1(1), where v = b]
  have same: "renumber ?r2 u = renumber r u" if "u \<in> ends es" for u using that 1(2) 2(2) by simp
  have texts: "map (\<lambda>(a, b). edge_text (renumber ?r2 a, renumber ?r2 b)) es = map (\<lambda>(a, b). edge_text (renumber r a, renumber r b)) es"
  proof (rule map_cong [OF refl])
    fix e assume "e \<in> set es"
    then have "fst e \<in> ends es" "snd e \<in> ends es" by (auto simp: ends_def)
    then show "(case e of (a, b) \<Rightarrow> edge_text (renumber ?r2 a, renumber ?r2 b)) = (case e of (a, b) \<Rightarrow> edge_text (renumber r a, renumber r b))"
      using same by (simp add: case_prod_beta)
  qed
  have r3: "reformat_edge (a, b) r = ?r2\<lparr>outFile := outFile r @ edge_text (renumber ?r2 a, renumber ?r2 b) @ [CHR 0x0A]\<rparr>"
    using 1(3) 2(3) by (simp add: reformat_edge_def Let_def edge_text_def renumber_def)
  have "renumber (reformat_edge (a, b) r) = renumber ?r2" by (simp add: fun_eq_iff r3 renumber_def)
  moreover have "numbered (ends (es @ [(a, b)])) (reformat_edge (a, b) r)"
    using 2(1) unfolding r3 ends_snoc by (simp add: numbered_def)
  moreover have "outFile (reformat_edge (a, b) r) = unlines (map (\<lambda>(a, b). edge_text (renumber ?r2 a, renumber ?r2 b)) (es @ [(a, b)]))"
    unfolding r3 map_append unlines_append texts by (simp add: r(2))
  ultimately show ?thesis unfolding renumbered_def by (simp only:)
qed

lemma renumbered_fold: "renumbered es r \<Longrightarrow> renumbered (es @ es') (fold reformat_edge es' r)"
proof (induction es' arbitrary: es r)
  case (Cons e es')
  obtain a b where e: "e = (a, b)" by fastforce
  from Cons.IH [OF renumbered_snoc [OF Cons.prems, of a b]] show ?case by (simp add: e)
qed simp


subsection \<open>Reading the renumbered edges\<close>

lemma number_char: "c \<in> set (to_string_int k) \<Longrightarrow> \<not> is_space c \<and> c \<noteq> CHR '' '' \<and> c \<noteq> CHR 0x0A"
  by (drule set_to_string_int) (auto simp: is_space_def is_digit_def Let_def)

lemma parse_edge_text:
  assumes "0 \<le> i" "i \<le> INT_MAX" "0 \<le> j" "j \<le> INT_MAX"
  shows "parse_edge CHR '' '' (edge_text (i, j)) = Some (i, j)"
proof -
  have chars: "CHR '' '' \<notin> set (to_string_int k)" "\<forall>c\<in>set (to_string_int k). \<not> is_space c" for k
    using number_char by blast+
  have "stoi (to_string_int i) = Some i" "stoi (to_string_int j) = Some j"
    using assms by (simp_all add: stoi_to_string_int INT_MAX_def)
  moreover have "dropWhile is_space (to_string_int j) = to_string_int j"
    using chars(2) [of j] by (cases "to_string_int j") auto
  moreover have "takeWhile (\<lambda>c. c \<noteq> CHR '' '') (edge_text (i, j)) = to_string_int i"
    "tl (dropWhile (\<lambda>c. c \<noteq> CHR '' '') (edge_text (i, j))) = to_string_int j"
    using chars(1) [of i] by (auto simp: edge_text_def takeWhile_append dropWhile_append)
  moreover have "takeWhile (\<lambda>c. \<not> is_space c) (to_string_int j) = to_string_int j"
    using chars(2) [of j] by (simp add: takeWhile_eq_all_conv)
  ultimately show ?thesis by (simp only: parse_edge_def Let_def Option.bind.simps)
qed

lemma edge_text_line: "edge_text e \<noteq> []" "CHR 0x0A \<notin> set (edge_text e)" "\<not> blank_line CHR '' '' (edge_text e)" "splitter_of (edge_text e) = Some CHR '' ''"
proof -
  show "edge_text e \<noteq> []" "splitter_of (edge_text e) = Some CHR '' ''" by (simp_all add: edge_text_def splitter_of_def)
  show "CHR 0x0A \<notin> set (edge_text e)" using number_char [of "CHR 0x0A"] by (auto simp: edge_text_def)
  have "to_string_int (fst e) \<noteq> []" by (simp add: to_string_int_def)
  then obtain c where "c \<in> set (to_string_int (fst e))" by fastforce
  then have "c \<in> set (edge_text e)" "c \<noteq> CHR '' ''" using number_char by (auto simp: edge_text_def)
  then show "\<not> blank_line CHR '' '' (edge_text e)" by (auto simp: blank_line_def)
qed

lemma read_edge_texts:
  assumes "es \<noteq> []" "\<forall>v\<in>ends es. 0 \<le> v \<and> v \<le> INT_MAX"
  shows "read_edge_list process (unlines (map edge_text es)) s = Some (Inr (fold process es s))"
proof -
  have parse: "parse_edge CHR '' '' (edge_text e) = Some e" if "e \<in> set es" for e
  proof -
    have "fst e \<in> ends es" "snd e \<in> ends es" using that by (auto simp: ends_def)
    with assms(2) show ?thesis using parse_edge_text [of "fst e" "snd e"] by simp
  qed
  then have lines: "edge_lines CHR '' '' (map edge_text es)" by (auto simp: edge_lines_def edge_text_line)
  have "filter (\<lambda>l. \<not> blank_line CHR '' '' l) (map edge_text es) = map edge_text es"
    by (auto simp: filter_id_conv edge_text_line)
  then have edges: "edges_of CHR '' '' (map edge_text es) = es"
    using parse by (simp add: edges_of_def map_idI)
  obtain e es' where es: "es = e # es'" using assms(1) by (cases es) auto
  from read_edge_list_lines [of "CHR '' ''" "edge_text e" "map edge_text es'" process s] lines edges show ?thesis
    by (simp add: es edge_text_line)
qed


subsection \<open>Preparing a graph for METIS\<close>

definition GRAPH_TYPE_NORMAL :: string where
  "GRAPH_TYPE_NORMAL = ''NORMAL_GRAPH''"

definition GRAPH_TYPE_NORMAL_REFORMATTED :: string where
  "GRAPH_TYPE_NORMAL_REFORMATTED = ''REFORMATTED_GRAPH''"

definition prepare_graph :: "string \<Rightarrow> metis_graph \<Rightarrow> (load_error + string \<times> metis_graph) option" where
  "prepare_graph file_text m =
     after_load (loadDataSet file_text m) (\<lambda>m.
       case constructMetisFormat GRAPH_TYPE_NORMAL m of (result, grf, m) \<Rightarrow>
         if result = 0 then
           after_load (reformatDataSet file_text m) (\<lambda>(reformatted, m).
             after_load (loadDataSet reformatted m) (\<lambda>m.
               case constructMetisFormat GRAPH_TYPE_NORMAL_REFORMATTED m of (_, grf, m) \<Rightarrow> Some (Inr (grf, m))))
         else Some (Inr (grf, m)))"

definition actual_vertex :: "metis_graph \<Rightarrow> int \<Rightarrow> int" where
  "actual_vertex m v =
     (if graphType m = GRAPH_TYPE_NORMAL_REFORMATTED
      then (case map_of (idToVertexMap m) v of None \<Rightarrow> 0 | Some u \<Rightarrow> u) else v)"

definition metis_text :: "(int \<times> int) list \<Rightarrow> string" where
  "metis_text es = unlines ((to_string_int (int (card (ends es))) @ '' '' @ to_string_int (int (card (undirected es)))) #
    replicate (nat (Min (ends es) - 1)) [] @
    map (\<lambda>v. metis_line (Min (ends es) = 0) v (neighbour_list es v)) [Min (ends es)..Max (ends es)])"

text \<open>The loaded graph is the given one, up to a renaming of its vertices that is undone later.\<close>

definition prepared :: "(int \<times> int) list \<Rightarrow> (int \<times> int) list \<Rightarrow> string \<Rightarrow> metis_graph \<Rightarrow> bool" where
  "prepared es es' grf m \<longleftrightarrow> loaded es' m \<and> int_graph es' \<and> consecutive es' \<and> grf = metis_text es' \<and>
     map (\<lambda>(a, b). (actual_vertex m a, actual_vertex m b)) es' = es \<and> inj_on (actual_vertex m) (ends es')"

lemma loaded_again: "loaded es m \<Longrightarrow> loaded es (m\<lparr>vertexToIDMap := f, idToVertexMap := g, graphType := t\<rparr>)"
  "loaded es m \<Longrightarrow> loaded es (m\<lparr>vertexToIDMap := f, idToVertexMap := g\<rparr>)" "loaded es m \<Longrightarrow> loaded es (m\<lparr>graphType := t\<rparr>)"
  by (simp_all add: loaded_def)

lemma load_edge_ids [simp]:
  "vertexToIDMap (fold load_edge es m) = vertexToIDMap m" "idToVertexMap (fold load_edge es m) = idToVertexMap m"
  by (induction es arbitrary: m)
    (auto simp: load_edge_def load_first_add_once load_second_add_once Let_def split: prod.splits)

lemma reset_loaded:
  assumes "loaded es m" "int_graph es" "\<not> consecutive es"
  shows "\<exists>grf m'. constructMetisFormat t m = (0, grf, m') \<and> loaded [] m' \<and> vertexToIDMap m' = vertexToIDMap m \<and> idToVertexMap m' = idToVertexMap m"
proof -
  have "metis_lines (m\<lparr>graphType := t\<rparr>) [0..largestVertex m] = None"
    using constructMetisFormat_result(1) [OF assms(1,2), of t] assms(3) by (auto simp: constructMetisFormat_def Let_def split: option.splits)
  then show ?thesis
    using loaded_empty by (simp add: constructMetisFormat_def Let_def loaded_def fresh_metis_def)
qed

lemma renumber_image:
  assumes "renumbered es r"
  shows "ends (map (\<lambda>(a, b). (renumber r a, renumber r b)) es) = {1..int (card (ends es))}"
    and "v \<in> ends es \<Longrightarrow> map_of (idToVertex r) (renumber r v) = Some v"
proof -
  have r: "dom (map_of (vertexToID r)) = ends es" "dom (map_of (idToVertex r)) = {1..int (card (ends es))}"
      "\<And>v i. map_of (vertexToID r) v = Some i \<longleftrightarrow> map_of (idToVertex r) i = Some v"
    using assms by (simp_all add: renumbered_def numbered_def)
  show inv: "map_of (idToVertex r) (renumber r v) = Some v" if "v \<in> ends es" for v
  proof -
    from that obtain i where i: "map_of (vertexToID r) v = Some i" unfolding r(1) [symmetric] by blast
    then show ?thesis using r(3) [of v i] by (simp add: renumber_def)
  qed
  have "renumber r ` ends es = dom (map_of (idToVertex r))"
  proof (intro equalityI subsetI)
    fix i assume "i \<in> dom (map_of (idToVertex r))"
    then obtain v where "map_of (vertexToID r) v = Some i" using r(3) by blast
    then show "i \<in> renumber r ` ends es" unfolding r(1) [symmetric] by (auto simp: renumber_def intro!: image_eqI [of _ _ v])
  qed (use inv in blast)
  moreover have "ends (map (\<lambda>(a, b). (renumber r a, renumber r b)) es) = renumber r ` ends es"
    by (force simp: ends_def)
  ultimately show "ends (map (\<lambda>(a, b). (renumber r a, renumber r b)) es) = {1..int (card (ends es))}" using r(2) by simp
qed


lemma prepared_directly:
  assumes "loaded es m" "int_graph es" "consecutive es"
  shows "\<exists>grf m'. constructMetisFormat GRAPH_TYPE_NORMAL m = (1, grf, m') \<and> prepared es es grf m'"
proof -
  have "actual_vertex (m\<lparr>graphType := GRAPH_TYPE_NORMAL\<rparr>) v = v" for v
    by (simp add: actual_vertex_def GRAPH_TYPE_NORMAL_def GRAPH_TYPE_NORMAL_REFORMATTED_def)
  then show ?thesis
    using constructMetisFormat_text [OF assms, of GRAPH_TYPE_NORMAL] assms loaded_again(3) [OF assms(1)]
    by (simp add: prepared_def metis_text_def inj_on_def)
qed

lemma prepared_renumbered:
  assumes "loaded [] m" "renumbered es r" "es \<noteq> []" "int (card (ends es)) < INT_MAX" "idToVertexMap m = idToVertex r"
  shows "\<exists>m1 grf m2. loadDataSet (outFile r) m = Some (Inr m1) \<and>
    constructMetisFormat GRAPH_TYPE_NORMAL_REFORMATTED m1 = (1, grf, m2) \<and>
    prepared es (map (\<lambda>(a, b). (renumber r a, renumber r b)) es) grf m2"
proof -
  let ?es = "map (\<lambda>(a, b). (renumber r a, renumber r b)) es"
  let ?m1 = "fold load_edge ?es m" and ?n = "int (card (ends es))"
  let ?m2 = "?m1\<lparr>graphType := GRAPH_TYPE_NORMAL_REFORMATTED\<rparr>"
  have "ends es \<noteq> {}" using assms(3) by (auto simp: ends_def)
  then have n: "1 \<le> ?n" by (simp add: Suc_leI card_gt_0_iff)
  note img = renumber_image [OF assms(2)]
  have g: "int_graph ?es" "consecutive ?es"
    using assms(3,4) n unfolding int_graph_def consecutive_def img(1) by auto
  have out: "outFile r = unlines (map edge_text ?es)"
    using assms(2) unfolding renumbered_def by (simp add: comp_def case_prod_unfold)
  have load: "loadDataSet (outFile r) m = Some (Inr ?m1)"
    unfolding loadDataSet_def out using read_edge_texts [of ?es load_edge m] g(1) unfolding int_graph_def by (meson less_imp_le)
  have loaded: "loaded ?es ?m1" using loaded_fold [OF assms(1), of ?es] by simp
  have act: "actual_vertex ?m2 (renumber r v) = v" if "v \<in> ends es" for v
    using img(2) [OF that] assms(5) by (simp add: actual_vertex_def)
  have "map (\<lambda>(a, b). (actual_vertex ?m2 a, actual_vertex ?m2 b)) ?es = es"
    unfolding map_map
  proof (rule map_idI)
    fix e assume "e \<in> set es"
    then have "fst e \<in> ends es" "snd e \<in> ends es" by (auto simp: ends_def)
    then show "((\<lambda>(a, b). (actual_vertex ?m2 a, actual_vertex ?m2 b)) \<circ> (\<lambda>(a, b). (renumber r a, renumber r b))) e = e"
      using act by (simp add: case_prod_beta)
  qed
  moreover have "inj_on (actual_vertex ?m2) (ends ?es)"
  proof (rule inj_on_inverseI [of _ "renumber r"])
    fix i assume "i \<in> ends ?es"
    then obtain v where "i = renumber r v" "v \<in> ends es" by (force simp: ends_def)
    then show "renumber r (actual_vertex ?m2 i) = i" using act by simp
  qed
  ultimately have "prepared es ?es (metis_text ?es) ?m2"
    using g loaded_again(3) [OF loaded] by (simp add: prepared_def)
  then show ?thesis
    using load constructMetisFormat_text [OF loaded g, of GRAPH_TYPE_NORMAL_REFORMATTED] by (auto simp: metis_text_def)
qed

lemma prepare_graph_prepared:
  assumes "edge_lines splitter (l # ls)" "splitter_of l = Some splitter" "\<not> blank_line splitter l"
    and "int_graph (edges_of splitter (l # ls))" "int (card (ends (edges_of splitter (l # ls)))) < INT_MAX"
  shows "\<exists>grf m es'. prepare_graph (unlines (l # ls)) fresh_metis = Some (Inr (grf, m)) \<and> prepared (edges_of splitter (l # ls)) es' grf m"
proof -
  let ?es = "edges_of splitter (l # ls)" and ?file = "unlines (l # ls)"
  let ?m = "fold load_edge ?es fresh_metis"
  have load: "loadDataSet ?file fresh_metis = Some (Inr ?m)" unfolding loadDataSet_def by (rule read_edge_list_lines [OF assms(1-3)])
  have loaded: "loaded ?es ?m" using loaded_fold [OF loaded_empty, of ?es] by simp
  show ?thesis
  proof (cases "consecutive ?es")
    case True
    from prepared_directly [OF loaded assms(4) True] load show ?thesis by (auto simp: prepare_graph_def)
  next
    case False
    from reset_loaded [OF loaded assms(4) False, of GRAPH_TYPE_NORMAL] obtain grf m where
        m: "constructMetisFormat GRAPH_TYPE_NORMAL ?m = (0, grf, m)" "loaded [] m" "vertexToIDMap m = []" "idToVertexMap m = []"
      by (auto simp: fresh_metis_def)
    let ?r = "fold reformat_edge ?es \<lparr>vertexToID = [], idToVertex = [], idCounter = 1, outFile = []\<rparr>"
    let ?m2 = "m\<lparr>vertexToIDMap := vertexToID ?r, idToVertexMap := idToVertex ?r\<rparr>"
    have ref: "reformatDataSet ?file m = Some (Inr (outFile ?r, ?m2))"
      unfolding reformatDataSet_def m read_edge_list_lines [OF assms(1-3)] by simp
    have "renumbered [] \<lparr>vertexToID = [], idToVertex = [], idCounter = 1, outFile = []\<rparr>"
      using numbered_empty by (simp add: renumbered_def ends_def)
    from renumbered_fold [OF this, of ?es] have ren: "renumbered ?es ?r" by simp
    have "?es \<noteq> []" "idToVertexMap ?m2 = idToVertex ?r" using assms(4) by (simp_all add: int_graph_def)
    from prepared_renumbered [of ?m2 ?es ?r, OF loaded_again(2) [OF m(2)] ren this(1) assms(5) this(2)] obtain m1 grf2 m3 where
        "loadDataSet (outFile ?r) ?m2 = Some (Inr m1)" "constructMetisFormat GRAPH_TYPE_NORMAL_REFORMATTED m1 = (1, grf2, m3)"
        "prepared ?es (map (\<lambda>(a, b). (renumber ?r a, renumber ?r b)) ?es) grf2 m3"
      by blast
    with load m(1) ref show ?thesis unfolding prepare_graph_def by auto
  qed
qed

end
