(* ===== verification/Metis_Stores.thy ===== *)
theory Metis_Stores
  imports Metis_Format Hash_Contract
begin

text \<open>
  \<^verbatim>\<open>MetisPartitioner\<close> after the call of \<^verbatim>\<open>gpmetis\<close>: the edges of every partition, the edges that leave it, the
  edges that enter it, and the files. Which vertex belongs to which partition is an argument.
\<close>

subsection \<open>Edges of the partitions\<close>

definition part_of :: "(int \<times> int) list \<Rightarrow> int \<Rightarrow> int" where
  "part_of partMap v = (case map_of partMap v of None \<Rightarrow> 0 | Some p \<Rightarrow> p)"

definition map_at :: "('k \<times> ('a \<times> 'b) list) list \<Rightarrow> 'k \<Rightarrow> ('a \<times> 'b) list" where
  "map_at m k = (case map_of m k of None \<Rightarrow> [] | Some v \<Rightarrow> v)"

record part_edges =
  partEdgesSet :: "(int \<times> int list) list"
  partMasterEdgesSet :: "(int \<times> int list) list"
  commonMasterEdgeSet :: "(int \<times> (int \<times> int list) list) list"
  partitionEdgeCount :: nat
  masterEdgeCount :: nat
  centralPartVertices :: "int set"

text \<open>One vertex of \<^verbatim>\<open>graphEdgeMap\<close>; both branches of \<^verbatim>\<open>populatePartMaps\<close>, which differ in \<^verbatim>\<open>idToVertexMap\<close> only.\<close>

definition add_common :: "int \<Rightarrow> int \<Rightarrow> int \<Rightarrow> (int \<times> (int \<times> int list) list) list \<Rightarrow> (int \<times> (int \<times> int list) list) list" where
  "add_common endPart start end' common =
     map_put endPart (map_put start (vector_at (map_at common endPart) start @ [end']) (map_at common endPart)) common"

fun split_ends ::
  "(int \<Rightarrow> int) \<Rightarrow> (int \<times> int) list \<Rightarrow> int \<Rightarrow> int \<Rightarrow> int list \<Rightarrow> int list \<times> int list \<times> part_edges \<Rightarrow> int list \<times> int list \<times> part_edges" where
  "split_ends actual partMap part start [] s = s"
| "split_ends actual partMap part start (endVertex # targets) (locals, centrals, pe) =
     split_ends actual partMap part start targets
       (if part_of partMap endVertex = part
        then (locals @ [actual endVertex], centrals, pe\<lparr>partitionEdgeCount := partitionEdgeCount pe + 1\<rparr>)
        else (locals, centrals @ [actual endVertex],
          pe\<lparr>masterEdgeCount := masterEdgeCount pe + 1, centralPartVertices := insert (actual endVertex) (centralPartVertices pe),
             commonMasterEdgeSet := add_common (part_of partMap endVertex) start (actual endVertex) (commonMasterEdgeSet pe)\<rparr>))"

definition populate_vertex :: "(int \<Rightarrow> int) \<Rightarrow> (int \<times> int) list \<Rightarrow> int \<Rightarrow> int \<times> int list \<Rightarrow> part_edges \<Rightarrow> part_edges" where
  "populate_vertex actual partMap part e pe =
     (if part_of partMap (fst e) = part
      then (case split_ends actual partMap part (actual (fst e)) (snd e) ([], [], pe) of (locals, centrals, pe) \<Rightarrow>
              pe\<lparr>partEdgesSet := (if locals \<noteq> [] then map_put (actual (fst e)) locals (partEdgesSet pe) else partEdgesSet pe),
                 partMasterEdgesSet :=
                   (if centrals \<noteq> [] then map_put (actual (fst e)) centrals (partMasterEdgesSet pe) else partMasterEdgesSet pe)\<rparr>)
      else pe)"

definition populatePartMaps :: "metis_graph \<Rightarrow> (int \<times> int) list \<Rightarrow> int \<Rightarrow> part_edges" where
  "populatePartMaps m partMap part =
     fold (populate_vertex (actual_vertex m) partMap part) (graphEdgeMap m)
       \<lparr>partEdgesSet = [], partMasterEdgesSet = [], commonMasterEdgeSet = [], partitionEdgeCount = 0, masterEdgeCount = 0,
        centralPartVertices = {}\<rparr>"

subsection \<open>Edges that enter a partition\<close>

definition append_edges :: "(int \<times> int list) list \<Rightarrow> (int \<times> int list) list \<Rightarrow> (int \<times> int list) list" where
  "append_edges common m = fold (\<lambda>(start, targets) m. map_put start (vector_at m start @ targets) m) common m"

text \<open>\<^verbatim>\<open>duplicateMasterGraphStorageMap[subPart]\<close> after the loop over the parts, and its share of
  \<^verbatim>\<open>masterEdgeCountsWithDups\<close>.\<close>

definition duplicate_edges :: "metis_graph \<Rightarrow> (int \<times> int) list \<Rightarrow> int \<Rightarrow> int \<Rightarrow> (int \<times> int list) list" where
  "duplicate_edges m partMap nParts subPart =
     fold (\<lambda>part. append_edges (map_at (commonMasterEdgeSet (populatePartMaps m partMap part)) subPart))
       (filter (\<lambda>part. part \<noteq> subPart) [0..nParts - 1]) []"

definition master_count_with_dups :: "metis_graph \<Rightarrow> (int \<times> int) list \<Rightarrow> int \<Rightarrow> int \<Rightarrow> nat" where
  "master_count_with_dups m partMap nParts subPart =
     masterEdgeCount (populatePartMaps m partMap subPart) +
     (\<Sum>part\<leftarrow>filter (\<lambda>part. part \<noteq> subPart) [0..nParts - 1].
        \<Sum>(_, targets)\<leftarrow>map_at (commonMasterEdgeSet (populatePartMaps m partMap part)) subPart. length targets)"

definition part_vertex_count :: "metis_graph \<Rightarrow> (int \<times> int) list \<Rightarrow> int \<Rightarrow> nat" where
  "part_vertex_count m partMap part = length (filter (\<lambda>i. part_of partMap i = part) [smallestVertex m..largestVertex m])"

subsection \<open>Files\<close>

text \<open>\<^verbatim>\<open>gzip\<close> replaces a file by its compressed form.\<close>

definition compressFile :: "(bytes \<Rightarrow> bytes) \<Rightarrow> string \<Rightarrow> file_system \<Rightarrow> file_system" where
  "compressFile gzip path fs =
     (case fs path of None \<Rightarrow> fs | Some f \<Rightarrow> (fs(path := None))(path @ ''.gz'' \<mapsto> gzip f))"

definition part_path :: "string \<Rightarrow> int \<Rightarrow> string \<Rightarrow> int \<Rightarrow> string" where
  "part_path outputFilePath graphID kind part = outputFilePath @ ''/'' @ to_string_int graphID @ kind @ to_string_int part"

definition writeSerializedPartitionFiles ::
  "fb_ops \<Rightarrow> (bytes \<Rightarrow> bytes) \<Rightarrow> string \<Rightarrow> int \<Rightarrow> metis_graph \<Rightarrow> (int \<times> int) list \<Rightarrow> int \<Rightarrow> file_system \<Rightarrow> file_system" where
  "writeSerializedPartitionFiles fb gzip outputFilePath graphID m partMap part fs =
     (let path = part_path outputFilePath graphID ''_'' part
      in compressFile gzip path (snd (storePartEdgeMap fb (partEdgesSet (populatePartMaps m partMap part)) path fs)))"

definition writeSerializedMasterFiles ::
  "fb_ops \<Rightarrow> (bytes \<Rightarrow> bytes) \<Rightarrow> string \<Rightarrow> int \<Rightarrow> metis_graph \<Rightarrow> (int \<times> int) list \<Rightarrow> int \<Rightarrow> file_system \<Rightarrow> file_system" where
  "writeSerializedMasterFiles fb gzip outputFilePath graphID m partMap part fs =
     (let path = part_path outputFilePath graphID ''_centralstore_'' part
      in compressFile gzip path (snd (CentralStore_storePartEdgeMap fb (partMasterEdgesSet (populatePartMaps m partMap part)) path fs)))"

definition writeSerializedDuplicateMasterFiles ::
  "fb_ops \<Rightarrow> (bytes \<Rightarrow> bytes) \<Rightarrow> string \<Rightarrow> int \<Rightarrow> metis_graph \<Rightarrow> (int \<times> int) list \<Rightarrow> int \<Rightarrow> int \<Rightarrow> file_system \<Rightarrow> file_system" where
  "writeSerializedDuplicateMasterFiles fb gzip outputFilePath graphID m partMap nParts part fs =
     (let path = part_path outputFilePath graphID ''_centralstore_dp_'' part
      in compressFile gzip path (snd (CentralStore_storePartEdgeMap fb (duplicate_edges m partMap nParts part) path fs)))"

text \<open>The threads write different files, in any order.\<close>

definition write_part ::
  "fb_ops \<Rightarrow> (bytes \<Rightarrow> bytes) \<Rightarrow> string \<Rightarrow> int \<Rightarrow> metis_graph \<Rightarrow> (int \<times> int) list \<Rightarrow> int \<Rightarrow> int \<Rightarrow> file_system \<Rightarrow> file_system" where
  "write_part fb gzip outputFilePath graphID m partMap nParts part fs =
     writeSerializedDuplicateMasterFiles fb gzip outputFilePath graphID m partMap nParts part
       (writeSerializedMasterFiles fb gzip outputFilePath graphID m partMap part
         (writeSerializedPartitionFiles fb gzip outputFilePath graphID m partMap part fs))"

text \<open>The files and the rows of the table of partitions: partition, vertices, central vertices, edges, central
  edges and central edges with duplicates.\<close>

definition createPartitionFiles ::
  "fb_ops \<Rightarrow> (bytes \<Rightarrow> bytes) \<Rightarrow> string \<Rightarrow> int \<Rightarrow> metis_graph \<Rightarrow> int \<Rightarrow> (int \<times> int) list \<Rightarrow> file_system \<Rightarrow>
   (int \<times> nat \<times> nat \<times> nat \<times> nat \<times> nat) list \<times> file_system" where
  "createPartitionFiles fb gzip outputFilePath graphID m nParts partMap fs =
     (map (\<lambda>part. let pe = populatePartMaps m partMap part in
        (part, part_vertex_count m partMap part, card (centralPartVertices pe), partitionEdgeCount pe, masterEdgeCount pe,
         master_count_with_dups m partMap nParts part)) [0..nParts - 1],
      fold (write_part fb gzip outputFilePath graphID m partMap nParts) [0..nParts - 1] fs)"

end
