(* ===== verification/Metis_Spread.thy ===== *)
theory Metis_Spread
  imports Metis_Stores Distributed_Exact
begin

text \<open>
  The stores that \<^verbatim>\<open>MetisPartitioner\<close> writes hold every edge where the triangle count expects it.
\<close>

subsection \<open>Edges of a map of vectors\<close>

definition vector_arcs :: "(int \<times> int list) list \<Rightarrow> (int \<times> int) set" where
  "vector_arcs m = {(k, w). w \<in> set (vector_at m k)}"

lemma arcs_put: "ordered m \<Longrightarrow> vector_arcs (map_put k ws m) = {(k', w) \<in> vector_arcs m. k' \<noteq> k} \<union> {k} \<times> set ws"
  by (auto simp: vector_arcs_def vector_at_put split: if_splits)

lemma arcs_append: "ordered m \<Longrightarrow> vector_arcs (map_put k (vector_at m k @ ws) m) = vector_arcs m \<union> {k} \<times> set ws"
  by (auto simp: vector_arcs_def vector_at_put split: if_splits)

lemma arcs_Nil [simp]: "vector_arcs [] = {}"
  by (simp add: vector_arcs_def vector_at_def)

lemma arcs_list: "ordered m \<Longrightarrow> vector_arcs m = {(k, w). \<exists>ws. (k, ws) \<in> set m \<and> w \<in> set ws}"
  using ordered_distinct [of m] by (auto simp: vector_arcs_def vector_at_def split: option.splits dest: map_of_SomeD)

lemma links_arcs: "ordered m \<Longrightarrow> links (map (\<lambda>(k, ws). (k, set ws)) m) v = {w. (v, w) \<in> vector_arcs m}"
  by (auto simp: links_def arcs_list)

lemma append_edges_arcs:
  assumes "ordered m"
  shows "ordered (append_edges c m) \<and> vector_arcs (append_edges c m) = vector_arcs m \<union> {(k, w). \<exists>ws. (k, ws) \<in> set c \<and> w \<in> set ws}"
  using assms
proof (induction c arbitrary: m)
  case (Cons e c)
  obtain k ws where e: "e = (k, ws)" by fastforce
  from Cons.IH [OF ordered_map_put [OF Cons.prems, of k "vector_at m k @ ws"]] show ?case
    by (auto simp: append_edges_def e arcs_append [OF Cons.prems])
qed (simp add: append_edges_def)

subsection \<open>One partition\<close>

definition commons_ordered :: "(int \<times> (int \<times> int list) list) list \<Rightarrow> bool" where
  "commons_ordered common \<longleftrightarrow> ordered common \<and> (\<forall>q. ordered (map_at common q))"

lemma map_at_put: "ordered m \<Longrightarrow> map_at (map_put k v m) k' = (if k' = k then v else map_at m k')"
  by (simp add: map_at_def map_put_lookup)

lemma add_common:
  assumes "commons_ordered common"
  shows "commons_ordered (add_common p s t common)"
    and "vector_arcs (map_at (add_common p s t common) q) = vector_arcs (map_at common q) \<union> (if q = p then {(s, t)} else {})"
proof -
  have c: "ordered common" "ordered (map_at common q)" for q using assms by (simp_all add: commons_ordered_def)
  show "commons_ordered (add_common p s t common)"
    using c by (auto simp: commons_ordered_def add_common_def map_at_put)
  show "vector_arcs (map_at (add_common p s t common) q) = vector_arcs (map_at common q) \<union> (if q = p then {(s, t)} else {})"
    using arcs_append [OF c(2) [of p], of s "[t]"] by (simp add: add_common_def map_at_put [OF c(1)])
qed

text \<open>What the targets of one start vertex change.\<close>

definition after_targets ::
  "(int \<Rightarrow> int) \<Rightarrow> (int \<times> int) list \<Rightarrow> int \<Rightarrow> int \<Rightarrow> int list \<Rightarrow> part_edges \<Rightarrow> part_edges \<Rightarrow> bool" where
  "after_targets actual pm part s ts pe pe' \<longleftrightarrow>
     partEdgesSet pe' = partEdgesSet pe \<and> partMasterEdgesSet pe' = partMasterEdgesSet pe \<and> commons_ordered (commonMasterEdgeSet pe') \<and>
     (\<forall>q. vector_arcs (map_at (commonMasterEdgeSet pe') q) =
        vector_arcs (map_at (commonMasterEdgeSet pe) q) \<union> {s} \<times> actual ` {v \<in> set ts. part_of pm v = q \<and> q \<noteq> part}) \<and>
     partitionEdgeCount pe' = partitionEdgeCount pe + length (filter (\<lambda>v. part_of pm v = part) ts) \<and>
     masterEdgeCount pe' = masterEdgeCount pe + length (filter (\<lambda>v. part_of pm v \<noteq> part) ts) \<and>
     centralPartVertices pe' = centralPartVertices pe \<union> actual ` {v \<in> set ts. part_of pm v \<noteq> part}"

lemma after_local:
  assumes "part_of pm t = part" "after_targets actual pm part s ts (pe\<lparr>partitionEdgeCount := partitionEdgeCount pe + 1\<rparr>) pe'"
  shows "after_targets actual pm part s (t # ts) pe pe'"
proof -
  have "{v \<in> set (t # ts). part_of pm v = q \<and> q \<noteq> part} = {v \<in> set ts. part_of pm v = q \<and> q \<noteq> part}"
    "{v \<in> set (t # ts). part_of pm v \<noteq> part} = {v \<in> set ts. part_of pm v \<noteq> part}" for q
    using assms(1) by auto
  with assms show ?thesis by (simp add: after_targets_def)
qed

lemma after_central:
  assumes "part_of pm t \<noteq> part" "commons_ordered (commonMasterEdgeSet pe)"
    and "after_targets actual pm part s ts (pe\<lparr>masterEdgeCount := masterEdgeCount pe + 1,
        centralPartVertices := insert (actual t) (centralPartVertices pe),
        commonMasterEdgeSet := add_common (part_of pm t) s (actual t) (commonMasterEdgeSet pe)\<rparr>) pe'"
  shows "after_targets actual pm part s (t # ts) pe pe'"
proof -
  have sets: "{v \<in> set (t # ts). part_of pm v = q \<and> q \<noteq> part} =
      (if q = part_of pm t then {t} else {}) \<union> {v \<in> set ts. part_of pm v = q \<and> q \<noteq> part}"
    "{v \<in> set (t # ts). part_of pm v \<noteq> part} = insert t {v \<in> set ts. part_of pm v \<noteq> part}" for q
    using assms(1) by auto
  have "vector_arcs (map_at (add_common (part_of pm t) s (actual t) (commonMasterEdgeSet pe)) q) \<union>
        {s} \<times> actual ` {v \<in> set ts. part_of pm v = q \<and> q \<noteq> part} =
      vector_arcs (map_at (commonMasterEdgeSet pe) q) \<union> {s} \<times> actual ` {v \<in> set (t # ts). part_of pm v = q \<and> q \<noteq> part}" for q
    unfolding sets add_common(2) [OF assms(2)] by auto
  with assms(1,3) show ?thesis unfolding after_targets_def sets(2) by simp
qed

lemma split_ends:
  assumes "commons_ordered (commonMasterEdgeSet pe)"
  shows "\<exists>pe'. split_ends actual pm part s ts (ls, cs, pe) =
      (ls @ map actual (filter (\<lambda>v. part_of pm v = part) ts), cs @ map actual (filter (\<lambda>v. part_of pm v \<noteq> part) ts), pe') \<and>
    after_targets actual pm part s ts pe pe'"
  using assms
proof (induction ts arbitrary: ls cs pe)
  case Nil
  then show ?case by (simp add: after_targets_def)
next
  case (Cons t ts)
  show ?case
  proof (cases "part_of pm t = part")
    case True
    have "commons_ordered (commonMasterEdgeSet (pe\<lparr>partitionEdgeCount := partitionEdgeCount pe + 1\<rparr>))" using Cons.prems by simp
    from Cons.IH [OF this, of "ls @ [actual t]" cs] obtain pe' where
        "split_ends actual pm part s (t # ts) (ls, cs, pe) = (ls @ map actual (filter (\<lambda>v. part_of pm v = part) (t # ts)),
          cs @ map actual (filter (\<lambda>v. part_of pm v \<noteq> part) (t # ts)), pe')"
        "after_targets actual pm part s ts (pe\<lparr>partitionEdgeCount := partitionEdgeCount pe + 1\<rparr>) pe'"
      using True by auto
    with after_local [OF True] show ?thesis by blast
  next
    case False
    let ?pe = "pe\<lparr>masterEdgeCount := masterEdgeCount pe + 1, centralPartVertices := insert (actual t) (centralPartVertices pe),
        commonMasterEdgeSet := add_common (part_of pm t) s (actual t) (commonMasterEdgeSet pe)\<rparr>"
    have "commons_ordered (commonMasterEdgeSet ?pe)" using add_common(1) [OF Cons.prems] by simp
    from Cons.IH [OF this, of ls "cs @ [actual t]"] obtain pe' where
        "split_ends actual pm part s (t # ts) (ls, cs, pe) = (ls @ map actual (filter (\<lambda>v. part_of pm v = part) (t # ts)),
          cs @ map actual (filter (\<lambda>v. part_of pm v \<noteq> part) (t # ts)), pe')"
        "after_targets actual pm part s ts ?pe pe'"
      using False by auto
    with after_central [OF False Cons.prems] show ?thesis by blast
  qed
qed

text \<open>What the vertices processed so far have left behind.\<close>

definition edge_pairs :: "(int \<times> int list) list \<Rightarrow> (int \<times> int) set" where
  "edge_pairs xs = {(u, v). \<exists>ts. (u, ts) \<in> set xs \<and> v \<in> set ts}"

definition renamed :: "(int \<Rightarrow> int) \<Rightarrow> (int \<times> int list) list \<Rightarrow> (int \<Rightarrow> int \<Rightarrow> bool) \<Rightarrow> (int \<times> int) set" where
  "renamed actual xs P = {(actual u, actual v) | u v. (u, v) \<in> edge_pairs xs \<and> P u v}"

definition count_pairs :: "(int \<times> int list) list \<Rightarrow> (int \<Rightarrow> int \<Rightarrow> bool) \<Rightarrow> nat" where
  "count_pairs xs P = (\<Sum>(u, ts)\<leftarrow>xs. length (filter (P u) ts))"

definition after_vertices :: "(int \<Rightarrow> int) \<Rightarrow> (int \<times> int) list \<Rightarrow> int \<Rightarrow> (int \<times> int list) list \<Rightarrow> part_edges \<Rightarrow> bool" where
  "after_vertices actual pm part xs pe \<longleftrightarrow>
     ordered (partEdgesSet pe) \<and> ordered (partMasterEdgesSet pe) \<and> commons_ordered (commonMasterEdgeSet pe) \<and>
     vector_arcs (partEdgesSet pe) = renamed actual xs (\<lambda>u v. part_of pm u = part \<and> part_of pm v = part) \<and>
     vector_arcs (partMasterEdgesSet pe) = renamed actual xs (\<lambda>u v. part_of pm u = part \<and> part_of pm v \<noteq> part) \<and>
     (\<forall>q. vector_arcs (map_at (commonMasterEdgeSet pe) q) =
        renamed actual xs (\<lambda>u v. part_of pm u = part \<and> part_of pm v = q \<and> q \<noteq> part)) \<and>
     partitionEdgeCount pe = count_pairs xs (\<lambda>u v. part_of pm u = part \<and> part_of pm v = part) \<and>
     masterEdgeCount pe = count_pairs xs (\<lambda>u v. part_of pm u = part \<and> part_of pm v \<noteq> part) \<and>
     centralPartVertices pe = snd ` renamed actual xs (\<lambda>u v. part_of pm u = part \<and> part_of pm v \<noteq> part)"

lemma renamed_snoc: "renamed actual (xs @ [(u, ts)]) P = renamed actual xs P \<union> {actual u} \<times> actual ` {v \<in> set ts. P u v}"
  by (auto simp: renamed_def edge_pairs_def)

lemma count_pairs_snoc: "count_pairs (xs @ [(u, ts)]) P = count_pairs xs P + length (filter (P u) ts)"
  by (simp add: count_pairs_def)

lemma arcs_put_fresh:
  assumes "ordered m" "\<And>w. (k, w) \<notin> vector_arcs m"
  shows "ordered (if ws \<noteq> [] then map_put k ws m else m)" "vector_arcs (if ws \<noteq> [] then map_put k ws m else m) = vector_arcs m \<union> {k} \<times> set ws"
  using assms by (auto simp: arcs_put)

lemma populate_vertex:
  assumes "after_vertices actual pm part xs pe" "actual u \<notin> actual ` fst ` set xs"
  shows "after_vertices actual pm part (xs @ [(u, ts)]) (populate_vertex actual pm part (u, ts) pe)"
proof (cases "part_of pm u = part")
  case False
  then show ?thesis
    using assms(1) by (simp add: after_vertices_def populate_vertex_def renamed_snoc count_pairs_snoc)
next
  case True
  let ?ls = "map actual (filter (\<lambda>v. part_of pm v = part) ts)" and ?cs = "map actual (filter (\<lambda>v. part_of pm v \<noteq> part) ts)"
  have pe: "ordered (partEdgesSet pe)" "ordered (partMasterEdgesSet pe)" "commons_ordered (commonMasterEdgeSet pe)"
    using assms(1) by (simp_all add: after_vertices_def)
  from split_ends [OF pe(3), of actual pm part "actual u" ts "[]" "[]"] obtain pe' where
      s: "split_ends actual pm part (actual u) ts ([], [], pe) = (?ls, ?cs, pe')" "after_targets actual pm part (actual u) ts pe pe'"
    by auto
  let ?pe = "pe'\<lparr>partEdgesSet := (if ?ls \<noteq> [] then map_put (actual u) ?ls (partEdgesSet pe) else partEdgesSet pe),
      partMasterEdgesSet := (if ?cs \<noteq> [] then map_put (actual u) ?cs (partMasterEdgesSet pe) else partMasterEdgesSet pe)\<rparr>"
  have run: "populate_vertex actual pm part (u, ts) pe = ?pe"
    using s True by (simp add: populate_vertex_def after_targets_def)
  have "(actual u, w) \<notin> renamed actual xs P" for w P using assms(2) by (force simp: renamed_def edge_pairs_def)
  then have fresh: "(actual u, w) \<notin> vector_arcs (partEdgesSet pe)" "(actual u, w) \<notin> vector_arcs (partMasterEdgesSet pe)" for w
    using assms(1) by (simp_all add: after_vertices_def)
  note puts = arcs_put_fresh [OF pe(1) fresh(1), of ?ls] arcs_put_fresh [OF pe(2) fresh(2), of ?cs]
  have sets: "set ?ls = actual ` {v \<in> set ts. part_of pm v = part}" "set ?cs = actual ` {v \<in> set ts. part_of pm v \<noteq> part}" by auto
  show ?thesis
    using assms(1) s(2) True puts
    unfolding run after_vertices_def after_targets_def renamed_snoc count_pairs_snoc sets
    by (simp add: image_Un)
qed

lemma populate_fold:
  assumes "after_vertices actual pm part ys pe" "distinct (map fst (ys @ xs))" "inj_on actual (fst ` set (ys @ xs))"
  shows "after_vertices actual pm part (ys @ xs) (fold (populate_vertex actual pm part) xs pe)"
  using assms
proof (induction xs arbitrary: ys pe)
  case (Cons x xs)
  obtain u ts where x: "x = (u, ts)" by fastforce
  have "u \<notin> fst ` set ys" using Cons.prems(2) by (force simp: x)
  moreover have "inj_on actual (insert u (fst ` set ys))" using Cons.prems(3) by (rule inj_on_subset) (auto simp: x)
  ultimately have "actual u \<notin> actual ` fst ` set ys" by (auto simp: inj_on_def)
  from Cons.IH [OF populate_vertex [OF Cons.prems(1) this, of ts]] Cons.prems(2,3) show ?case by (simp add: x)
qed simp

lemma populatePartMaps_edges:
  assumes "distinct (map fst (graphEdgeMap m))" "inj_on (actual_vertex m) (fst ` set (graphEdgeMap m))"
  shows "after_vertices (actual_vertex m) pm part (graphEdgeMap m) (populatePartMaps m pm part)"
  unfolding populatePartMaps_def
  using populate_fold [of "actual_vertex m" pm part "[]" _ "graphEdgeMap m"] assms
  by (simp add: after_vertices_def renamed_def edge_pairs_def count_pairs_def commons_ordered_def ordered_def map_at_def)


subsection \<open>All partitions\<close>

definition arcs_where :: "metis_graph \<Rightarrow> (int \<times> int) list \<Rightarrow> (int \<Rightarrow> int \<Rightarrow> bool) \<Rightarrow> (int \<times> int) set" where
  "arcs_where m es P = {(actual_vertex m u, actual_vertex m v) | u v. (u, v) \<in> set es \<and> P u v}"

lemma pairs_stored:
  assumes "stores_edges es m"
  shows "edge_pairs m = set es"
proof -
  have m: "ordered m" "\<And>v. vector_at m v = successors es v" using assms by (simp_all add: stores_edges_def)
  have "edge_pairs m = vector_arcs m" by (simp add: edge_pairs_def arcs_list [OF m(1)])
  also have "\<dots> = set es" by (force simp: vector_arcs_def m(2) successors_def)
  finally show ?thesis .
qed

lemma prepared_parts:
  fixes pm :: "(int \<times> int) list"
  assumes "prepared es es' grf m"
  defines "pe \<equiv> \<lambda>part. populatePartMaps m pm part"
  shows "ordered (partEdgesSet (pe part))" "ordered (partMasterEdgesSet (pe part))" "\<And>q. ordered (map_at (commonMasterEdgeSet (pe part)) q)"
    and "vector_arcs (partEdgesSet (pe part)) = arcs_where m es' (\<lambda>u v. part_of pm u = part \<and> part_of pm v = part)"
    and "vector_arcs (partMasterEdgesSet (pe part)) = arcs_where m es' (\<lambda>u v. part_of pm u = part \<and> part_of pm v \<noteq> part)"
    and "\<And>q. vector_arcs (map_at (commonMasterEdgeSet (pe part)) q) =
      arcs_where m es' (\<lambda>u v. part_of pm u = part \<and> part_of pm v = q \<and> q \<noteq> part)"
proof -
  have st: "stores_edges es' (graphEdgeMap m)" and inj: "inj_on (actual_vertex m) (ends es')"
    using assms(1) by (simp_all add: prepared_def loaded_def)
  then have o: "ordered (graphEdgeMap m)" "fst ` set (graphEdgeMap m) \<subseteq> ends es'" by (auto simp: stores_edges_def ends_def)
  have "after_vertices (actual_vertex m) pm part (graphEdgeMap m) (pe part)"
    unfolding pe_def by (rule populatePartMaps_edges [OF ordered_distinct [OF o(1)] inj_on_subset [OF inj o(2)]])
  moreover have "renamed (actual_vertex m) (graphEdgeMap m) P = arcs_where m es' P" for P
    by (simp add: renamed_def arcs_where_def pairs_stored [OF st])
  ultimately show "ordered (partEdgesSet (pe part))" "ordered (partMasterEdgesSet (pe part))"
      "\<And>q. ordered (map_at (commonMasterEdgeSet (pe part)) q)"
      "vector_arcs (partEdgesSet (pe part)) = arcs_where m es' (\<lambda>u v. part_of pm u = part \<and> part_of pm v = part)"
      "vector_arcs (partMasterEdgesSet (pe part)) = arcs_where m es' (\<lambda>u v. part_of pm u = part \<and> part_of pm v \<noteq> part)"
      "\<And>q. vector_arcs (map_at (commonMasterEdgeSet (pe part)) q) =
        arcs_where m es' (\<lambda>u v. part_of pm u = part \<and> part_of pm v = q \<and> q \<noteq> part)"
    by (simp_all add: after_vertices_def commons_ordered_def)
qed

lemma duplicate_fold:
  fixes pm :: "(int \<times> int) list" and sub :: int
  assumes "prepared es es' grf m" "ordered acc"
  defines "c \<equiv> \<lambda>part. map_at (commonMasterEdgeSet (populatePartMaps m pm part)) sub"
  shows "ordered (fold (\<lambda>part. append_edges (c part)) parts acc) \<and>
    vector_arcs (fold (\<lambda>part. append_edges (c part)) parts acc) = vector_arcs acc \<union> (\<Union>part\<in>set parts. vector_arcs (c part))"
  using assms(2)
proof (induction parts arbitrary: acc)
  case (Cons part parts)
  have "{(k, w). \<exists>ws. (k, ws) \<in> set (c part) \<and> w \<in> set ws} = vector_arcs (c part)"
    unfolding c_def using prepared_parts(3) [OF assms(1)] by (simp add: arcs_list)
  with Cons.IH append_edges_arcs [OF Cons.prems, of "c part"] show ?case by auto
qed simp

lemma duplicate_edges_arcs:
  assumes "prepared es es' grf m" "\<forall>v\<in>ends es'. 0 \<le> part_of pm v \<and> part_of pm v < nParts"
  shows "ordered (duplicate_edges m pm nParts sub)"
    and "vector_arcs (duplicate_edges m pm nParts sub) = arcs_where m es' (\<lambda>u v. part_of pm u \<noteq> sub \<and> part_of pm v = sub)"
proof -
  have o: "ordered ([] :: (int \<times> int list) list)" by (simp add: ordered_def)
  note d = duplicate_fold [OF assms(1) o, of pm sub "filter (\<lambda>part. part \<noteq> sub) [0..nParts - 1]", folded duplicate_edges_def]
  show "ordered (duplicate_edges m pm nParts sub)" using d by blast
  have "part_of pm u \<in> set (filter (\<lambda>part. part \<noteq> sub) [0..nParts - 1]) \<longleftrightarrow> part_of pm u \<noteq> sub" if "(u, v) \<in> set es'" for u v
    using assms(2) that by (force simp: ends_def)
  then show "vector_arcs (duplicate_edges m pm nParts sub) = arcs_where m es' (\<lambda>u v. part_of pm u \<noteq> sub \<and> part_of pm v = sub)"
    using d unfolding prepared_parts(6) [OF assms(1)] by (auto simp: arcs_where_def)
qed

subsection \<open>The stores together\<close>

definition part_number :: "string \<Rightarrow> int" where
  "part_number p = (case stoi p of None \<Rightarrow> 0 | Some i \<Rightarrow> i)"

definition as_sets :: "(int \<times> int list) list \<Rightarrow> edge_map" where
  "as_sets m = map (\<lambda>(k, ws). (k, set ws)) m"

definition local_map :: "metis_graph \<Rightarrow> (int \<times> int) list \<Rightarrow> string \<Rightarrow> edge_map" where
  "local_map m pm p = as_sets (partEdgesSet (populatePartMaps m pm (part_number p)))"

definition central_map :: "metis_graph \<Rightarrow> (int \<times> int) list \<Rightarrow> string \<Rightarrow> edge_map" where
  "central_map m pm p = as_sets (partMasterEdgesSet (populatePartMaps m pm (part_number p)))"

definition duplicate_map :: "metis_graph \<Rightarrow> (int \<times> int) list \<Rightarrow> int \<Rightarrow> string \<Rightarrow> edge_map" where
  "duplicate_map m pm nParts p = as_sets (duplicate_edges m pm nParts (part_number p))"

definition part_name :: "metis_graph \<Rightarrow> (int \<times> int) list \<Rightarrow> (int \<times> int) list \<Rightarrow> int \<Rightarrow> string" where
  "part_name m es pm v = to_string_int (part_of pm (the_inv_into (ends es) (actual_vertex m) v))"

definition part_names :: "int \<Rightarrow> string list" where
  "part_names nParts = map to_string_int [0..nParts - 1]"

definition successors_of :: "(int \<times> int) list \<Rightarrow> int \<Rightarrow> int set" where
  "successors_of es v = {w. (v, w) \<in> set es}"

lemma metis_spread:
  assumes "prepared es es' grf m" "\<forall>v\<in>ends es'. 0 \<le> part_of pm v \<and> part_of pm v < nParts" "nParts \<le> INT_MAX"
  shows "spread (successors_of es) (part_name m es' pm) (part_names nParts) (local_map m pm) (central_map m pm) (duplicate_map m pm nParts)"
proof -
  let ?act = "actual_vertex m" and ?name = "part_name m es' pm"
  have inj: "inj_on ?act (ends es')" and es: "es = map (\<lambda>(a, b). (?act a, ?act b)) es'" using assms(1) by (simp_all add: prepared_def)
  have name: "?name (?act u) = to_string_int (part_of pm u)" if "u \<in> ends es'" for u
    using the_inv_into_f_f [OF inj that] by (simp add: part_name_def)
  have edge: "(v, w) \<in> set es \<longleftrightarrow> (\<exists>u x. (u, x) \<in> set es' \<and> v = ?act u \<and> w = ?act x)" for v w by (auto simp: es)
  have in_ends: "u \<in> ends es'" "x \<in> ends es'" if "(u, x) \<in> set es'" for u x using that by (force simp: ends_def)+
  have number: "part_number (to_string_int p) = p" if "0 \<le> p" "p < nParts" for p
    using that assms(3) by (simp add: part_number_def stoi_to_string_int INT_MAX_def)
  note parts = prepared_parts [OF assms(1), where pm = pm] and dup = duplicate_edges_arcs [OF assms(1,2)]
  have maps: "links (local_map m pm p) v = {w. (v, w) \<in> arcs_where m es' (\<lambda>u x. part_of pm u = part_number p \<and> part_of pm x = part_number p)}"
    "links (central_map m pm p) v = {w. (v, w) \<in> arcs_where m es' (\<lambda>u x. part_of pm u = part_number p \<and> part_of pm x \<noteq> part_number p)}"
    "links (duplicate_map m pm nParts p) v = {w. (v, w) \<in> arcs_where m es' (\<lambda>u x. part_of pm u \<noteq> part_number p \<and> part_of pm x = part_number p)}"
    for p v
    unfolding local_map_def central_map_def duplicate_map_def as_sets_def
    using links_arcs [OF parts(1)] links_arcs [OF parts(2)] links_arcs [OF dup(1)] by (simp_all add: parts(4,5) dup(2))
  have "stored (local_map m pm) (central_map m pm) (duplicate_map m pm nParts) p v = seen ?name (successors_of es) p v"
    if p: "p \<in> set (part_names nParts)" for p v
  proof -
    from p obtain i where i: "p = to_string_int i" "part_number p = i" using number by (auto simp: part_names_def)
    have A: "(\<exists>u x. (u, x) \<in> set es' \<and> v = ?act u \<and> w = ?act x \<and> (part_of pm u = i \<or> part_of pm x = i)) \<longleftrightarrow>
        (\<exists>u x. (u, x) \<in> set es' \<and> v = ?act u \<and> w = ?act x) \<and> (?name v = p \<or> ?name w = p)" for w
    proof -
      have "(part_of pm u = i \<or> part_of pm x = i) = (?name (?act u) = p \<or> ?name (?act x) = p)" if "(u, x) \<in> set es'" for u x
        using name in_ends [OF that] by (simp add: i(1) to_string_int_inject)
      then show ?thesis by blast
    qed
    have B: "w \<in> stored (local_map m pm) (central_map m pm) (duplicate_map m pm nParts) p v \<longleftrightarrow>
        (\<exists>u x. (u, x) \<in> set es' \<and> v = ?act u \<and> w = ?act x \<and> (part_of pm u = i \<or> part_of pm x = i))" for w
      unfolding stored_def maps i(2) arcs_where_def by blast
    have C: "w \<in> seen ?name (successors_of es) p v \<longleftrightarrow>
        (\<exists>u x. (u, x) \<in> set es' \<and> v = ?act u \<and> w = ?act x) \<and> (?name v = p \<or> ?name w = p)" for w
      by (simp add: seen_def successors_of_def edge)
    show ?thesis by (rule set_eqI) (simp only: A B C)
  qed
  moreover have "between (central_map m pm) (set (part_names nParts)) v = crossing ?name (successors_of es) v" for v
  proof -
    have A: "(\<exists>u x. (u, x) \<in> set es' \<and> v = ?act u \<and> w = ?act x \<and> part_of pm u \<noteq> part_of pm x) \<longleftrightarrow>
        (\<exists>u x. (u, x) \<in> set es' \<and> v = ?act u \<and> w = ?act x) \<and> ?name v \<noteq> ?name w" for w
    proof -
      have "(part_of pm u \<noteq> part_of pm x) = (?name (?act u) \<noteq> ?name (?act x))" if "(u, x) \<in> set es'" for u x
        using name in_ends [OF that] by (simp add: to_string_int_inject)
      then show ?thesis by blast
    qed
    have D: "(\<exists>p\<in>set (part_names nParts). part_of pm u = part_number p \<and> part_of pm x \<noteq> part_number p) \<longleftrightarrow> part_of pm u \<noteq> part_of pm x"
      if "(u, x) \<in> set es'" for u x
      using assms(2) in_ends [OF that] number by (force simp: part_names_def)
    have B: "w \<in> between (central_map m pm) (set (part_names nParts)) v \<longleftrightarrow> (\<exists>u x. (u, x) \<in> set es' \<and> v = ?act u \<and> w = ?act x \<and>
        (\<exists>p\<in>set (part_names nParts). part_of pm u = part_number p \<and> part_of pm x \<noteq> part_number p))" for w
      unfolding between_def maps arcs_where_def by blast
    have C: "w \<in> crossing ?name (successors_of es) v \<longleftrightarrow>
        (\<exists>u x. (u, x) \<in> set es' \<and> v = ?act u \<and> w = ?act x) \<and> ?name v \<noteq> ?name w" for w
      by (simp add: crossing_def successors_of_def edge)
    have "w \<in> between (central_map m pm) (set (part_names nParts)) v \<longleftrightarrow>
        (\<exists>u x. (u, x) \<in> set es' \<and> v = ?act u \<and> w = ?act x \<and> part_of pm u \<noteq> part_of pm x)" for w
      unfolding B
    proof (intro ex_cong1)
      fix u x
      show "((u, x) \<in> set es' \<and> v = ?act u \<and> w = ?act x \<and>
          (\<exists>p\<in>set (part_names nParts). part_of pm u = part_number p \<and> part_of pm x \<noteq> part_number p)) \<longleftrightarrow>
        ((u, x) \<in> set es' \<and> v = ?act u \<and> w = ?act x \<and> part_of pm u \<noteq> part_of pm x)"
        using D [of u x] by argo
    qed
    then show ?thesis by (intro set_eqI) (simp only: A C)
  qed
  moreover have "?name a \<in> set (part_names nParts)" if "edge_between (successors_of es) a b" for a b
  proof -
    have "a \<in> ?act ` ends es'" using that in_ends unfolding edge_between_def successors_of_def by (auto simp: edge)
    then show ?thesis using name assms(2) by (auto simp: part_names_def)
  qed
  ultimately show ?thesis by (simp add: spread_def fun_eq_iff)
qed

text \<open>C14. From an edge list to the stores. For a file as above whose vertices are non-negative numbers, the
  front end's calls of the partitioner (loading, and if the vertices are not consecutive renumbering and
  loading again) return with a graph that is the given one up to an injective renaming, written in the
  format of METIS. For every assignment of its vertices to the partitions, the local, central and duplicate
  central stores then hold, under the original vertices, the edges inside a partition, those that leave it
  and those that enter it: together each partition sees exactly the edges with an end in it, and the central
  stores together hold exactly the edges between partitions.\<close>

theorem metis_stores_spread:
  assumes "edge_lines splitter (l # ls)" "splitter_of l = Some splitter" "\<not> blank_line splitter l"
    and "int_graph (edges_of splitter (l # ls))" "int (card (ends (edges_of splitter (l # ls)))) < INT_MAX"
  shows "\<exists>grf m es. prepare_graph (unlines (l # ls)) fresh_metis = Some (Inr (grf, m)) \<and>
    prepared (edges_of splitter (l # ls)) es grf m \<and>
    (\<forall>pm nParts. (\<forall>v\<in>ends es. 0 \<le> part_of pm v \<and> part_of pm v < nParts) \<and> nParts \<le> INT_MAX \<longrightarrow>
      spread (successors_of (edges_of splitter (l # ls))) (part_name m es pm) (part_names nParts)
        (local_map m pm) (central_map m pm) (duplicate_map m pm nParts))"
proof -
  from prepare_graph_prepared [OF assms] obtain grf m es where
      "prepare_graph (unlines (l # ls)) fresh_metis = Some (Inr (grf, m))" "prepared (edges_of splitter (l # ls)) es grf m" by blast
  with metis_spread show ?thesis by blast
qed

theorem metis_stores_spread_witness:
  "\<exists>grf m es. prepare_graph (unlines [''5 9'', ''9 7'', ''5 7'']) fresh_metis = Some (Inr (grf, m)) \<and>
    prepared [(5, 9), (9, 7), (5, 7)] es grf m \<and>
    (\<forall>pm nParts. (\<forall>v\<in>ends es. 0 \<le> part_of pm v \<and> part_of pm v < nParts) \<and> nParts \<le> INT_MAX \<longrightarrow>
      spread (successors_of [(5, 9), (9, 7), (5, 7)]) (part_name m es pm) (part_names nParts)
        (local_map m pm) (central_map m pm) (duplicate_map m pm nParts))"
proof -
  have "edge_lines CHR '' '' [''5 9'', ''9 7'', ''5 7'']" "splitter_of ''5 9'' = Some CHR '' ''"
    "\<not> blank_line CHR '' '' ''5 9''" by code_simp+
  moreover have "edges_of CHR '' '' [''5 9'', ''9 7'', ''5 7''] = [(5, 9), (9, 7), (5, 7)]" by code_simp
  moreover have "int_graph [(5, 9), (9, 7), (5, 7)]" "int (card (ends [(5, 9), (9, 7), (5, 7)])) < INT_MAX"
    by (simp_all add: int_graph_def ends_def INT_MAX_def card_insert_if)
  ultimately show ?thesis
    using metis_stores_spread [of "CHR '' ''" "''5 9''" "[''9 7'', ''5 7'']"] by (simp only: simp_thms)
qed

end
