(* ===== verification/Shared_Buffer.thy ===== *)
theory Shared_Buffer
  imports Prelude Schedules
begin

text \<open>
  \<^verbatim>\<open>SharedBuffer\<close>, the bounded queue between the threads of a Cypher query. Every operation holds the
  mutex except while it waits, so an execution is a sequence of critical sections: a thread enters
  one when it calls an operation or is woken, and leaves it by returning or by waiting on the one
  condition variable of the buffer. The scheduler chooses who runs and whom \<^verbatim>\<open>notify_one\<close> wakes.
\<close>

subsection \<open>The operations\<close>

record shared_buffer =
  sb_buffer :: "string list"
  max_size :: nat

datatype notification = NotifyNone | NotifyOne | NotifyAll

text \<open>One pass through the critical section: the thread waits, or returns a value and notifies.\<close>

datatype outcome = Waits | Returns "string option" shared_buffer notification

definition SharedBuffer_new :: "nat \<Rightarrow> shared_buffer" where
  "SharedBuffer_new capacity = \<lparr>sb_buffer = [], max_size = capacity\<rparr>"

definition SharedBuffer_add :: "string \<Rightarrow> shared_buffer \<Rightarrow> outcome" where
  "SharedBuffer_add data b =
     (if length (sb_buffer b) < max_size b
      then Returns None (b\<lparr>sb_buffer := sb_buffer b @ [data]\<rparr>) NotifyOne
      else Waits)"

definition SharedBuffer_get :: "shared_buffer \<Rightarrow> outcome" where
  "SharedBuffer_get b =
     (case sb_buffer b of
        [] \<Rightarrow> Waits
      | data # rest \<Rightarrow> Returns (Some data) (b\<lparr>sb_buffer := rest\<rparr>) NotifyOne)"

definition SharedBuffer_tryGet :: "shared_buffer \<Rightarrow> outcome" where
  "SharedBuffer_tryGet b =
     (case sb_buffer b of
        [] \<Rightarrow> Returns None b NotifyNone
      | data # rest \<Rightarrow> Returns (Some data) (b\<lparr>sb_buffer := rest\<rparr>) NotifyOne)"

definition SharedBuffer_empty :: "shared_buffer \<Rightarrow> bool" where
  "SharedBuffer_empty b \<longleftrightarrow> sb_buffer b = []"

definition SharedBuffer_clear :: "shared_buffer \<Rightarrow> outcome" where
  "SharedBuffer_clear b = Returns None (b\<lparr>sb_buffer := []\<rparr>) NotifyAll"

definition SharedBuffer_getWithTimeout :: "bool \<Rightarrow> shared_buffer \<Rightarrow> outcome" where
  "SharedBuffer_getWithTimeout expired b =
     (case sb_buffer b of
        [] \<Rightarrow> (if expired then Returns None b NotifyNone else Waits)
      | data # rest \<Rightarrow> Returns (Some data) (b\<lparr>sb_buffer := rest\<rparr>) NotifyOne)"

subsection \<open>Threads\<close>

datatype call = Add string | Get | TryGet | Clear | GetWithTimeout

definition enter :: "bool \<Rightarrow> call \<Rightarrow> shared_buffer \<Rightarrow> outcome" where
  "enter expired c b =
     (case c of
        Add data \<Rightarrow> SharedBuffer_add data b
      | Get \<Rightarrow> SharedBuffer_get b
      | TryGet \<Rightarrow> SharedBuffer_tryGet b
      | Clear \<Rightarrow> SharedBuffer_clear b
      | GetWithTimeout \<Rightarrow> SharedBuffer_getWithTimeout expired b)"

text \<open>A thread has calls to make, the first of which it is in, and may be waiting in it. A configuration
  has the buffer, the threads, and the calls that have returned, oldest first.\<close>

record thread =
  calls :: "call list"
  waiting :: bool

record config =
  shared :: shared_buffer
  threads :: "thread list"
  returned :: "(call \<times> string option) list"

definition waiters :: "thread list \<Rightarrow> nat set" where
  "waiters ths = {t. t < length ths \<and> waiting (ths ! t)}"

text \<open>\<open>chosen\<close> is the thread that \<^verbatim>\<open>notify_one\<close> wakes.\<close>

definition notify :: "notification \<Rightarrow> nat option \<Rightarrow> thread list \<Rightarrow> thread list option" where
  "notify n chosen ths =
     (case n of
        NotifyNone \<Rightarrow> Some ths
      | NotifyOne \<Rightarrow>
          (case chosen of
             None \<Rightarrow> if \<exists>th\<in>set ths. waiting th then None else Some ths
           | Some t \<Rightarrow> if t < length ths \<and> waiting (ths ! t) then Some (ths[t := (ths ! t)\<lparr>waiting := False\<rparr>]) else None)
      | NotifyAll \<Rightarrow> Some (map (\<lambda>th. th\<lparr>waiting := False\<rparr>) ths))"

datatype event = Run nat "nat option" | Timeout nat "nat option" | Spurious nat

definition critical :: "bool \<Rightarrow> nat \<Rightarrow> nat option \<Rightarrow> config \<Rightarrow> config option" where
  "critical expired t chosen cf =
     (let th = threads cf ! t
      in case calls th of
           [] \<Rightarrow> None
         | c # cs \<Rightarrow>
             (case enter expired c (shared cf) of
                Waits \<Rightarrow> Some (cf\<lparr>threads := (threads cf)[t := th\<lparr>waiting := True\<rparr>]\<rparr>)
              | Returns v b n \<Rightarrow>
                  map_option (\<lambda>ths. \<lparr>shared = b, threads = ths, returned = returned cf @ [(c, v)]\<rparr>)
                    (notify n chosen ((threads cf)[t := \<lparr>calls = cs, waiting = False\<rparr>]))))"

text \<open>A thread that is not waiting runs; the wait of \<^verbatim>\<open>getWithTimeout\<close> may expire; and any wait may end
  spuriously.\<close>

fun sb_step :: "event \<Rightarrow> config \<Rightarrow> config option" where
  "sb_step (Run t chosen) cf =
     (if t < length (threads cf) \<and> \<not> waiting (threads cf ! t) then critical False t chosen cf else None)"
| "sb_step (Timeout t chosen) cf =
     (if t < length (threads cf) \<and> waiting (threads cf ! t) \<and> hd (calls (threads cf ! t) @ [Get]) = GetWithTimeout
      then critical True t chosen cf else None)"
| "sb_step (Spurious t) cf =
     (if t < length (threads cf) \<and> waiting (threads cf ! t)
      then Some (cf\<lparr>threads := (threads cf)[t := (threads cf ! t)\<lparr>waiting := False\<rparr>]\<rparr>) else None)"

definition start :: "nat \<Rightarrow> call list list \<Rightarrow> config" where
  "start capacity css =
     \<lparr>shared = SharedBuffer_new capacity, threads = map (\<lambda>cs. \<lparr>calls = cs, waiting = False\<rparr>) css, returned = []\<rparr>"

subsection \<open>What was added comes out in order\<close>

fun added :: "call \<times> string option \<Rightarrow> string list" where
  "added (Add d, v) = [d]"
| "added (_, v) = []"

fun taken :: "call \<times> string option \<Rightarrow> string list" where
  "taken (Add d, v) = []"
| "taken (c, None) = []"
| "taken (c, Some d) = [d]"

definition fifo :: "config \<Rightarrow> bool" where
  "fifo cf \<longleftrightarrow> length (sb_buffer (shared cf)) \<le> max_size (shared cf) \<and>
     ((\<forall>(c, v)\<in>set (returned cf). c \<noteq> Clear) \<longrightarrow>
        concat (map added (returned cf)) = concat (map taken (returned cf)) @ sb_buffer (shared cf))"

lemma enter_fifo:
  assumes "enter expired c b = Returns v b' n" "length (sb_buffer b) \<le> max_size b"
  shows "max_size b' = max_size b" "length (sb_buffer b') \<le> max_size b"
    "c \<noteq> Clear \<Longrightarrow> sb_buffer b @ added (c, v) = taken (c, v) @ sb_buffer b'"
  using assms
  by (auto simp: enter_def SharedBuffer_add_def SharedBuffer_get_def SharedBuffer_tryGet_def SharedBuffer_clear_def
      SharedBuffer_getWithTimeout_def split: call.splits list.splits if_splits)

lemma fifo_threads [simp]: "fifo (cf\<lparr>threads := ths\<rparr>) \<longleftrightarrow> fifo cf"
  by (simp add: fifo_def)

lemma critical_fifo:
  assumes "critical expired t chosen cf = Some cf'" "fifo cf"
  shows "fifo cf' \<and> max_size (shared cf') = max_size (shared cf)"
proof (cases "calls (threads cf ! t)")
  case (Cons c cs)
  show ?thesis
  proof (cases "enter expired c (shared cf)")
    case (Returns v b n)
    then obtain ths where cf': "cf' = \<lparr>shared = b, threads = ths, returned = returned cf @ [(c, v)]\<rparr>"
      using assms(1) by (auto simp: critical_def Cons)
    have "length (sb_buffer (shared cf)) \<le> max_size (shared cf)" using assms(2) by (simp add: fifo_def)
    note e = enter_fifo [OF Returns this]
    show ?thesis
      using assms(2) e unfolding fifo_def cf'
      by (cases "c = Clear") auto
  qed (use assms in \<open>auto simp: critical_def Cons fifo_def\<close>)
qed (use assms in \<open>simp add: critical_def\<close>)

lemma sb_step_fifo: "sb_step e cf = Some cf' \<Longrightarrow> fifo cf \<Longrightarrow> fifo cf' \<and> max_size (shared cf') = max_size (shared cf)"
  using critical_fifo by (cases e) (auto split: if_splits)

text \<open>C19. In every execution, with any number of threads and with spurious wake-ups and timeouts, the buffer
  never holds more than its maximal size, and as long as nobody clears it the texts taken are the
  texts added, in the order in which they were added, each once, with the rest still in the buffer.\<close>

theorem shared_buffer_fifo:
  assumes "reaches sb_step (start capacity css) cf"
  shows "length (sb_buffer (shared cf)) \<le> capacity \<and>
    ((\<forall>(c, v)\<in>set (returned cf). c \<noteq> Clear) \<longrightarrow>
       concat (map added (returned cf)) = concat (map taken (returned cf)) @ sb_buffer (shared cf))"
proof -
  have "fifo cf \<and> max_size (shared cf) = capacity"
    using assms
  proof (induction "start capacity css" cf rule: reaches.induct)
    case refl
    then show ?case by (simp add: fifo_def start_def SharedBuffer_new_def)
  next
    case (step cf' e cf'')
    then show ?case using sb_step_fifo by auto
  qed
  then show ?thesis by (simp add: fifo_def)
qed

theorem shared_buffer_fifo_witness:
  "\<exists>cf. reaches sb_step (start 1 [[Add ''a'', Add ''b''], [Get]]) cf \<and> sb_buffer (shared cf) = [''b''] \<and>
     concat (map added (returned cf)) = concat (map taken (returned cf)) @ [''b'']"
proof -
  let ?s = "start 1 [[Add ''a'', Add ''b''], [Get]]"
  let ?cf = "\<lparr>shared = \<lparr>sb_buffer = [''b''], max_size = 1\<rparr>, threads = [\<lparr>calls = [], waiting = False\<rparr>, \<lparr>calls = [], waiting = False\<rparr>],
      returned = [(Add ''a'', None), (Get, Some ''a''), (Add ''b'', None)]\<rparr>"
  have r: "run_events sb_step [Run 0 None, Run 0 None, Run 1 (Some 0), Run 0 None] ?s = Some ?cf" by code_simp
  have "reaches sb_step ?s ?cf" by (rule run_events_reaches [OF r reaches.refl])
  with shared_buffer_fifo [OF this] show ?thesis by (intro exI [of _ ?cf]) simp
qed

subsection \<open>One producer and one consumer\<close>

definition producer :: "string list \<Rightarrow> call list" where
  "producer ds = map Add ds"

definition consumer :: "nat \<Rightarrow> call list" where
  "consumer k = replicate k Get"

definition pair_state :: "string list \<Rightarrow> nat \<Rightarrow> bool \<Rightarrow> bool \<Rightarrow> shared_buffer \<Rightarrow> (call \<times> string option) list \<Rightarrow> config" where
  "pair_state ds k p w b r =
     \<lparr>shared = b, threads = [\<lparr>calls = producer ds, waiting = p\<rparr>, \<lparr>calls = consumer k, waiting = w\<rparr>], returned = r\<rparr>"

definition pair_ok :: "nat \<Rightarrow> string list \<Rightarrow> config \<Rightarrow> bool" where
  "pair_ok n all cf \<longleftrightarrow> (\<exists>ds k p w b r. cf = pair_state ds k p w b r \<and> max_size b = n \<and> fifo cf \<and>
     length ds + length (sb_buffer b) = k \<and> (p \<longrightarrow> ds \<noteq> [] \<and> length (sb_buffer b) = n) \<and> (w \<longrightarrow> sb_buffer b = []) \<and>
     concat (map added r) @ ds = all \<and> (\<forall>(c, v)\<in>set r. c \<noteq> Clear))"

definition work :: "config \<Rightarrow> nat" where
  "work cf = sum_list (map (\<lambda>th. 3 * length (calls th) - (if waiting th then 1 else 0)) (threads cf))"

lemma notify_pair:
  "notify NotifyOne ch [\<lparr>calls = cs, waiting = False\<rparr>, \<lparr>calls = cs', waiting = w\<rparr>] = Some ths \<Longrightarrow>
     ths = [\<lparr>calls = cs, waiting = False\<rparr>, \<lparr>calls = cs', waiting = False\<rparr>]"
  "notify NotifyOne ch [\<lparr>calls = cs', waiting = w\<rparr>, \<lparr>calls = cs, waiting = False\<rparr>] = Some ths \<Longrightarrow>
     ths = [\<lparr>calls = cs', waiting = False\<rparr>, \<lparr>calls = cs, waiting = False\<rparr>]"
  by (auto simp: notify_def less_Suc_eq split: option.splits if_splits)

lemma pair_okE:
  assumes "pair_ok n all cf"
  obtains ds k p w b r where "cf = pair_state ds k p w b r" "max_size b = n" "fifo cf" "length ds + length (sb_buffer b) = k"
    "p \<Longrightarrow> ds \<noteq> [] \<and> length (sb_buffer b) = n" "w \<Longrightarrow> sb_buffer b = []" "concat (map added r) @ ds = all" "\<forall>(c, v)\<in>set r. c \<noteq> Clear"
    "length (sb_buffer b) \<le> n"
proof -
  obtain ds k p w b r where o: "cf = pair_state ds k p w b r" "max_size b = n" "fifo cf" "length ds + length (sb_buffer b) = k"
      "p \<longrightarrow> ds \<noteq> [] \<and> length (sb_buffer b) = n" "w \<longrightarrow> sb_buffer b = []" "concat (map added r) @ ds = all" "\<forall>(c, v)\<in>set r. c \<noteq> Clear"
    using assms unfolding pair_ok_def by blast
  moreover have "length (sb_buffer b) \<le> n" using o(1-3) by (simp add: fifo_def pair_state_def)
  ultimately show thesis using that by blast
qed

lemma pair_okI:
  assumes "fifo (pair_state ds k p w b r)" "max_size b = n" "length ds + length (sb_buffer b) = k"
    "p \<Longrightarrow> ds \<noteq> [] \<and> length (sb_buffer b) = n" "w \<Longrightarrow> sb_buffer b = []" "concat (map added r) @ ds = all" "\<forall>(c, v)\<in>set r. c \<noteq> Clear"
  shows "pair_ok n all (pair_state ds k p w b r)"
  using assms unfolding pair_ok_def by blast

lemma produce:
  assumes "sb_step (Run 0 ch) (pair_state ds k p w b r) = Some cf'"
  obtains (adds) d ds' where "ds = d # ds'" "\<not> p" "length (sb_buffer b) < max_size b"
    "cf' = pair_state ds' k False False (b\<lparr>sb_buffer := sb_buffer b @ [d]\<rparr>) (r @ [(Add d, None)])"
  | (waits) "ds \<noteq> []" "\<not> p" "max_size b \<le> length (sb_buffer b)" "cf' = pair_state ds k True w b r"
proof (cases ds)
  case Nil
  with assms show thesis by (simp add: pair_state_def critical_def producer_def split: if_splits)
next
  case (Cons d ds')
  with assms have p: "\<not> p" by (simp add: pair_state_def split: if_splits)
  show thesis
  proof (cases "length (sb_buffer b) < max_size b")
    case True
    with assms p Cons obtain ths where "notify NotifyOne ch [\<lparr>calls = producer ds', waiting = False\<rparr>, \<lparr>calls = consumer k, waiting = w\<rparr>] = Some ths"
        "cf' = \<lparr>shared = b\<lparr>sb_buffer := sb_buffer b @ [d]\<rparr>, threads = ths, returned = r @ [(Add d, None)]\<rparr>"
      by (auto simp: pair_state_def critical_def producer_def enter_def SharedBuffer_add_def)
    with notify_pair(1) adds [OF Cons p True] show thesis by (simp add: pair_state_def)
  next
    case False
    with assms p Cons show thesis
      by (intro waits) (auto simp: pair_state_def critical_def producer_def enter_def SharedBuffer_add_def)
  qed
qed

lemma consume:
  assumes "sb_step (Run 1 ch) (pair_state ds k p w b r) = Some cf'"
  obtains (takes) d rest k' where "k = Suc k'" "\<not> w" "sb_buffer b = d # rest"
    "cf' = pair_state ds k' False False (b\<lparr>sb_buffer := rest\<rparr>) (r @ [(Get, Some d)])"
  | (waits) "k > 0" "\<not> w" "sb_buffer b = []" "cf' = pair_state ds k p True b r"
proof (cases k)
  case 0
  with assms show thesis by (simp add: pair_state_def critical_def consumer_def split: if_splits)
next
  case (Suc k')
  with assms have w: "\<not> w" by (simp add: pair_state_def split: if_splits)
  show thesis
  proof (cases "sb_buffer b")
    case Nil
    with assms w Suc show thesis
      by (intro waits) (auto simp: pair_state_def critical_def consumer_def enter_def SharedBuffer_get_def)
  next
    case (Cons d rest)
    with assms w Suc obtain ths where "notify NotifyOne ch [\<lparr>calls = producer ds, waiting = p\<rparr>, \<lparr>calls = consumer k', waiting = False\<rparr>] = Some ths"
        "cf' = \<lparr>shared = b\<lparr>sb_buffer := rest\<rparr>, threads = ths, returned = r @ [(Get, Some d)]\<rparr>"
      by (auto simp: pair_state_def critical_def consumer_def enter_def SharedBuffer_get_def)
    with notify_pair(2) takes [OF Suc w Cons] show thesis by (simp add: pair_state_def)
  qed
qed

lemma work_pair: "work (pair_state ds k p w b r) = 3 * length ds - (if p then 1 else 0) + (3 * k - (if w then 1 else 0))"
  by (simp add: work_def pair_state_def producer_def consumer_def)

lemma pair_run:
  assumes "pair_ok n all cf" "sb_step (Run t ch) cf = Some cf'"
  shows "pair_ok n all cf' \<and> work cf' < work cf"
proof -
  obtain ds k p w b r where o: "cf = pair_state ds k p w b r" "max_size b = n" "fifo cf" "length ds + length (sb_buffer b) = k"
      "p \<Longrightarrow> ds \<noteq> [] \<and> length (sb_buffer b) = n" "w \<Longrightarrow> sb_buffer b = []" "concat (map added r) @ ds = all" "\<forall>(c, v)\<in>set r. c \<noteq> Clear"
      "length (sb_buffer b) \<le> n"
    by (rule pair_okE [OF assms(1)]) blast
  have fifo: "fifo cf'" using sb_step_fifo [OF assms(2) o(3)] by simp
  have "t = 0 \<or> t = 1" using assms(2) by (auto simp: o(1) pair_state_def split: if_splits)
  then show ?thesis
  proof
    assume t: "t = 0"
    from assms(2) [unfolded t o(1)] show ?thesis
    proof (cases rule: produce)
      case (adds d ds')
      with o fifo show ?thesis by (auto simp: work_pair o(1) intro!: pair_okI)
    next
      case waits
      with o fifo show ?thesis by (auto simp: work_pair o(1) intro!: pair_okI)
    qed
  next
    assume t: "t = 1"
    from assms(2) [unfolded t o(1)] show ?thesis
    proof (cases rule: consume)
      case (takes d rest k')
      with o fifo show ?thesis by (auto simp: work_pair o(1) intro!: pair_okI)
    next
      case waits
      with o fifo show ?thesis by (cases ds) (auto simp: work_pair o(1) intro!: pair_okI)
    qed
  qed
qed

lemma pair_step: "pair_ok n all cf \<Longrightarrow> sb_step e cf = Some cf' \<Longrightarrow> pair_ok n all cf'"
proof (cases e)
  case (Timeout t ch)
  assume "pair_ok n all cf" "sb_step e cf = Some cf'"
  then have "t = 0 \<or> t = 1" "\<exists>ds k p w b r. cf = pair_state ds k p w b r"
    using Timeout by (auto simp: pair_ok_def pair_state_def split: if_splits)
  then have "hd (calls (threads cf ! t) @ [Get]) \<noteq> GetWithTimeout"
    by (auto simp: pair_state_def producer_def consumer_def hd_append hd_map)
  with Timeout \<open>sb_step e cf = Some cf'\<close> show ?thesis by (simp split: if_splits)
next
  case (Spurious t)
  assume a: "pair_ok n all cf" "sb_step e cf = Some cf'"
  obtain ds k p w b r where o: "cf = pair_state ds k p w b r" "max_size b = n" "fifo cf" "length ds + length (sb_buffer b) = k"
      "p \<Longrightarrow> ds \<noteq> [] \<and> length (sb_buffer b) = n" "w \<Longrightarrow> sb_buffer b = []" "concat (map added r) @ ds = all" "\<forall>(c, v)\<in>set r. c \<noteq> Clear"
    by (rule pair_okE [OF a(1)]) blast
  have "fifo cf'" using sb_step_fifo [OF a(2) o(3)] by simp
  moreover have "cf' = pair_state ds k False w b r \<or> cf' = pair_state ds k p False b r"
    using a(2) Spurious by (auto simp: o(1) pair_state_def less_Suc_eq split: if_splits)
  ultimately show ?thesis using o by (auto intro!: pair_okI)
qed (auto dest: pair_run)

lemma pair_start: "pair_ok n ds (start n [producer ds, consumer (length ds)])"
proof -
  have "start n [producer ds, consumer (length ds)] = pair_state ds (length ds) False False (SharedBuffer_new n) []"
    by (simp add: start_def pair_state_def)
  moreover have "fifo (pair_state ds (length ds) False False (SharedBuffer_new n) [])"
    by (simp add: fifo_def pair_state_def SharedBuffer_new_def)
  ultimately show ?thesis by (auto simp: SharedBuffer_new_def intro!: pair_okI)
qed

lemma pair_progress:
  assumes "pair_ok n all cf" "0 < n" "\<And>t ch. sb_step (Run t ch) cf = None"
  shows "(\<forall>th\<in>set (threads cf). calls th = []) \<and> concat (map taken (returned cf)) = all"
proof -
  obtain ds k p w b r where o: "cf = pair_state ds k p w b r" "max_size b = n" "fifo cf" "length ds + length (sb_buffer b) = k"
      "p \<Longrightarrow> ds \<noteq> [] \<and> length (sb_buffer b) = n" "w \<Longrightarrow> sb_buffer b = []" "concat (map added r) @ ds = all" "\<forall>(c, v)\<in>set r. c \<noteq> Clear"
    by (rule pair_okE [OF assms(1)]) blast
  have "k = 0"
  proof (rule ccontr)
    assume "k \<noteq> 0"
    show False
    proof (cases w)
      case True
      with o(4,5,6) assms(2) \<open>k \<noteq> 0\<close> have "ds \<noteq> []" "\<not> p" "sb_buffer b = []" by auto
      with assms(2) o(2) True have "sb_step (Run 0 (Some 1)) cf \<noteq> None"
        by (cases ds) (simp_all add: o(1) pair_state_def critical_def producer_def enter_def SharedBuffer_add_def notify_def)
      with assms(3) [of 0 "Some 1"] show False by contradiction
    next
      case False
      have "sb_step (Run 1 (if p then Some 0 else None)) cf \<noteq> None"
      proof (cases "sb_buffer b")
        case Nil
        with False \<open>k \<noteq> 0\<close> show ?thesis
          by (cases k) (simp_all add: o(1) pair_state_def critical_def consumer_def enter_def SharedBuffer_get_def)
      next
        case (Cons d rest)
        with False \<open>k \<noteq> 0\<close> show ?thesis
          by (cases k) (simp_all add: o(1) pair_state_def critical_def consumer_def enter_def SharedBuffer_get_def notify_def)
      qed
      with assms(3) [of 1 "if p then Some 0 else None"] show False by contradiction
    qed
  qed
  with o(4) have "ds = []" "sb_buffer b = []" by auto
  with \<open>k = 0\<close> o show ?thesis
    by (auto simp: pair_state_def producer_def consumer_def fifo_def)
qed

definition is_run :: "event \<Rightarrow> bool" where
  "is_run e \<longleftrightarrow> (\<exists>t ch. e = Run t ch)"

definition pair_initial :: "config \<Rightarrow> bool" where
  "pair_initial c0 \<longleftrightarrow> (\<exists>n ds. 0 < n \<and> c0 = start n [producer ds, consumer (length ds)])"

definition pair_inv :: "config \<Rightarrow> config \<Rightarrow> bool" where
  "pair_inv c0 cf \<longleftrightarrow> (\<exists>n ds. 0 < n \<and> c0 = start n [producer ds, consumer (length ds)] \<and> pair_ok n ds cf)"

definition pair_finished :: "config \<Rightarrow> config \<Rightarrow> bool" where
  "pair_finished c0 cf \<longleftrightarrow> (\<forall>th\<in>set (threads cf). calls th = []) \<and>
     map Add (concat (map taken (returned cf))) = calls (threads c0 ! 0)"

interpretation shared_pair: scheduled sb_step pair_initial is_run pair_inv work pair_finished
proof
  show "pair_initial c0 \<Longrightarrow> pair_inv c0 c0" for c0
    unfolding pair_initial_def pair_inv_def using pair_start by blast
  show "pair_inv c0 cf \<Longrightarrow> sb_step e cf = Some cf' \<Longrightarrow> pair_inv c0 cf'" for c0 cf e cf'
    unfolding pair_inv_def using pair_step by blast
  show "pair_inv c0 cf \<Longrightarrow> is_run e \<Longrightarrow> sb_step e cf = Some cf' \<Longrightarrow> work cf' < work cf" for c0 cf e cf'
    unfolding pair_inv_def is_run_def using pair_run by blast
  fix c0 cf
  assume "pair_inv c0 cf" and stuck: "\<And>e. is_run e \<Longrightarrow> sb_step e cf = None"
  then obtain n ds where "0 < n" "c0 = start n [producer ds, consumer (length ds)]" "pair_ok n ds cf"
    unfolding pair_inv_def by blast
  with pair_progress [of n ds cf] stuck show "pair_finished c0 cf"
    by (simp add: pair_finished_def is_run_def start_def producer_def del: sb_step.simps)
qed

text \<open>C18. One thread adds texts to a buffer of positive size and another gets as many: no schedule makes the two
  wait for each other. Whatever the interleaving, with or without spurious wake-ups, when neither
  thread can run both have finished and the consumer has got all texts in order, and without
  spurious wake-ups this takes at most six critical sections per text.\<close>

theorem shared_buffer_delivers:
  fixes n ds
  assumes "0 < n"
  defines "c0 \<equiv> start n [producer ds, consumer (length ds)]"
  shows "(\<forall>cf. reaches sb_step c0 cf \<longrightarrow> (\<forall>t ch. sb_step (Run t ch) cf = None) \<longrightarrow>
      (\<forall>th\<in>set (threads cf). calls th = []) \<and> concat (map taken (returned cf)) = ds) \<and>
    (\<forall>es cf. run_events sb_step (map (\<lambda>(t, ch). Run t ch) es) c0 = Some cf \<longrightarrow> length es \<le> 6 * length ds)"
proof (intro conjI allI impI)
  have init: "pair_initial c0" unfolding pair_initial_def c0_def using assms(1) by blast
  fix cf
  assume "reaches sb_step c0 cf" "\<forall>t ch. sb_step (Run t ch) cf = None"
  then have "pair_finished c0 cf"
    by (intro shared_pair.stuck_is_finished [OF _ init]) (auto simp: is_run_def)
  then show "\<forall>th\<in>set (threads cf). calls th = []" "concat (map taken (returned cf)) = ds"
    by (simp_all add: pair_finished_def c0_def start_def producer_def inj_map_eq_map inj_def)
next
  have init: "pair_initial c0" unfolding pair_initial_def c0_def using assms(1) by blast
  fix es cf
  assume "run_events sb_step (map (\<lambda>(t, ch). Run t ch) es) c0 = Some cf"
  then have "length (map (\<lambda>(t, ch). Run t ch) es) \<le> work c0"
    by (rule shared_pair.runs_are_bounded [OF init]) (auto simp: is_run_def)
  then show "length es \<le> 6 * length ds" by (simp add: work_def c0_def start_def producer_def consumer_def)
qed

definition sample_schedule :: "(nat \<times> nat option) list" where
  "sample_schedule = [(1, None), (0, Some 1), (0, None), (1, Some 0), (0, None), (1, None)]"

theorem shared_buffer_delivers_witness:
  "length sample_schedule \<le> 6 * length [''a'', ''b''] \<and>
   (\<exists>cf. run_events sb_step (map (\<lambda>(t, ch). Run t ch) sample_schedule) (start 1 [producer [''a'', ''b''], consumer (length [''a'', ''b''])]) = Some cf \<and>
      concat (map taken (returned cf)) = [''a'', ''b''])"
proof -
  let ?cf = "\<lparr>shared = \<lparr>sb_buffer = [], max_size = 1\<rparr>, threads = [\<lparr>calls = [], waiting = False\<rparr>, \<lparr>calls = [], waiting = False\<rparr>],
      returned = [(Add ''a'', None), (Get, Some ''a''), (Add ''b'', None), (Get, Some ''b'')]\<rparr>"
  have r: "run_events sb_step (map (\<lambda>(t, ch). Run t ch) sample_schedule) (start 1 [producer [''a'', ''b''], consumer (length [''a'', ''b''])]) = Some ?cf"
    by code_simp
  have one: "0 < (1::nat)" by simp
  note d = shared_buffer_delivers [OF one, of "[''a'', ''b'']"]
  have bound: "length sample_schedule \<le> 6 * length [''a'', ''b'']" by (rule mp [OF spec [OF spec [OF conjunct2 [OF d]]] r])
  have stuck: "\<forall>t ch. sb_step (Run t ch) ?cf = None" by (simp add: critical_def nth_Cons split: nat.split)
  have "concat (map taken (returned ?cf)) = [''a'', ''b'']"
    by (rule conjunct2 [OF mp [OF mp [OF spec [OF conjunct1 [OF d]] run_events_reaches [OF r reaches.refl]] stuck]])
  with bound r show ?thesis by blast
qed

subsection \<open>Several producers and consumers\<close>

definition runs :: "config \<Rightarrow> config \<Rightarrow> bool" where
  "runs cf cf' \<longleftrightarrow> (\<exists>es. run_events sb_step (map (\<lambda>(t, ch). Run t ch) es) cf = Some cf')"

lemma runs_refl: "runs cf cf"
  unfolding runs_def by (rule exI [of _ "[]"]) simp

lemma runs_step:
  assumes "sb_step (Run t ch) cf = Some cf1" "runs cf1 cf2"
  shows "runs cf cf2"
proof -
  obtain es where "run_events sb_step (map (\<lambda>(t, ch). Run t ch) es) cf1 = Some cf2"
    using assms(2) unfolding runs_def by blast
  then show ?thesis
    using assms(1) unfolding runs_def by (intro exI [of _ "(t, ch) # es"]) (simp del: sb_step.simps)
qed

lemma runs_trans [trans]: "runs cf1 cf2 \<Longrightarrow> runs cf2 cf3 \<Longrightarrow> runs cf1 cf3"
proof -
  assume "runs cf1 cf2" "runs cf2 cf3"
  then obtain es1 es2 where e: "run_events sb_step (map (\<lambda>(t, ch). Run t ch) es1) cf1 = Some cf2"
      "run_events sb_step (map (\<lambda>(t, ch). Run t ch) es2) cf2 = Some cf3" unfolding runs_def by blast
  from e(1) show "runs cf1 cf3"
  proof (induction es1 arbitrary: cf1)
    case Nil
    then show ?case using e(2) unfolding runs_def by auto
  next
    case (Cons x es1)
    then show ?case by (cases x) (auto simp del: sb_step.simps split: option.splits intro: runs_step)
  qed
qed

text \<open>Consumers with one \<^verbatim>\<open>get\<close> that have returned, wait or can run.\<close>

abbreviation served :: thread where
  "served \<equiv> \<lparr>calls = [], waiting = False\<rparr>"

abbreviation hungry :: thread where
  "hungry \<equiv> \<lparr>calls = [Get], waiting = True\<rparr>"

abbreviation ready :: thread where
  "ready \<equiv> \<lparr>calls = [Get], waiting = False\<rparr>"

lemma consumers_wait:
  assumes "sb_buffer b = []"
  shows "runs \<lparr>shared = b, threads = as @ replicate m ready @ bs, returned = r\<rparr>
    \<lparr>shared = b, threads = as @ replicate m hungry @ bs, returned = r\<rparr>"
proof (induction m arbitrary: as)
  case (Suc m)
  have "sb_step (Run (length as) None) \<lparr>shared = b, threads = as @ ready # replicate m ready @ bs, returned = r\<rparr> =
      Some \<lparr>shared = b, threads = as @ hungry # replicate m ready @ bs, returned = r\<rparr>"
    using assms by (simp add: critical_def enter_def SharedBuffer_get_def)
  from runs_step [OF this] Suc.IH [of "as @ [hungry]"] show ?case by simp
qed (simp add: runs_refl)

lemma producer_fills:
  assumes "length (sb_buffer b) + length ds \<le> max_size b"
  shows "runs \<lparr>shared = b, threads = as @ replicate (length ds) hungry @ bs @ [\<lparr>calls = producer (ds @ ds'), waiting = False\<rparr>], returned = r\<rparr>
    \<lparr>shared = b\<lparr>sb_buffer := sb_buffer b @ ds\<rparr>, threads = as @ replicate (length ds) ready @ bs @ [\<lparr>calls = producer ds', waiting = False\<rparr>],
      returned = r @ map (\<lambda>d. (Add d, None)) ds\<rparr>"
  using assms
proof (induction ds arbitrary: as b r)
  case (Cons d ds)
  let ?b = "b\<lparr>sb_buffer := sb_buffer b @ [d]\<rparr>" and ?p = "\<lambda>ds. \<lparr>calls = producer (ds @ ds'), waiting = False\<rparr>"
  have "sb_step (Run (length as + 1 + length ds + length bs) (Some (length as)))
        \<lparr>shared = b, threads = as @ hungry # replicate (length ds) hungry @ bs @ [?p (d # ds)], returned = r\<rparr> =
      Some \<lparr>shared = ?b, threads = as @ ready # replicate (length ds) hungry @ bs @ [?p ds], returned = r @ [(Add d, None)]\<rparr>"
    using Cons.prems
    by (simp add: critical_def enter_def SharedBuffer_add_def producer_def notify_def nth_append list_update_append)
  from runs_step [OF this] Cons.IH [of ?b "as @ [ready]" "r @ [(Add d, None)]"] Cons.prems show ?case by simp
qed (simp add: runs_refl)

lemma consumers_pass_on:
  "runs \<lparr>shared = \<lparr>sb_buffer = ds, max_size = n\<rparr>,
      threads = as @ replicate (length ds) ready @ bs @ replicate (length ds) hungry @ cs, returned = r\<rparr>
    \<lparr>shared = \<lparr>sb_buffer = [], max_size = n\<rparr>,
      threads = as @ replicate (length ds) served @ bs @ replicate (length ds) ready @ cs, returned = r @ map (\<lambda>d. (Get, Some d)) ds\<rparr>"
proof (induction ds arbitrary: as bs r)
  case (Cons d ds)
  let ?m = "length ds"
  have "sb_step (Run (length as) (Some (length as + 1 + ?m + length bs))) \<lparr>shared = \<lparr>sb_buffer = d # ds, max_size = n\<rparr>,
        threads = as @ ready # replicate ?m ready @ bs @ hungry # replicate ?m hungry @ cs, returned = r\<rparr> =
      Some \<lparr>shared = \<lparr>sb_buffer = ds, max_size = n\<rparr>,
        threads = as @ served # replicate ?m ready @ bs @ ready # replicate ?m hungry @ cs, returned = r @ [(Get, Some d)]\<rparr>"
    by (simp add: critical_def enter_def SharedBuffer_get_def notify_def nth_append list_update_append Let_def)
  from runs_step [OF this] Cons.IH [of "as @ [served]" "bs @ [ready]" "r @ [(Get, Some d)]"] show ?case by simp
qed (simp add: runs_refl)

lemma nobody_runs:
  assumes "\<forall>th\<in>set (threads cf). waiting th \<or> calls th = []"
  shows "sb_step (Run t ch) cf = None"
  using assms nth_mem [of t "threads cf"] by (auto simp: critical_def)

text \<open>C40. Producers and consumers wait on the same condition variable and \<^verbatim>\<open>notify_one\<close> may wake the wrong one.
  For every size of the buffer, with twice as many consumers that get one text each and a producer that has
  more texts than fit into the buffer, there is a schedule without spurious wake-ups after which the buffer is
  empty, the producer waits for room that it has, half of the consumers wait for a text, and no thread can run.\<close>

theorem shared_buffer_lost_wakeup:
  assumes "n < length ds"
  shows "\<exists>es cf. run_events sb_step (map (\<lambda>(t, ch). Run t ch) es) (start n (replicate (2 * n) [Get] @ [producer ds])) = Some cf \<and>
     (\<forall>t ch. sb_step (Run t ch) cf = None) \<and> sb_buffer (shared cf) = [] \<and>
     threads cf = replicate n \<lparr>calls = [], waiting = False\<rparr> @ replicate n \<lparr>calls = [Get], waiting = True\<rparr> @
       [\<lparr>calls = producer (drop n ds), waiting = True\<rparr>]"
proof -
  let ?r = "map (\<lambda>d. (Add d, None)) (take n ds)" and ?p = "\<lambda>ds w. [\<lparr>calls = producer ds, waiting = w\<rparr>]"
  let ?all = "replicate n served @ replicate n hungry @ ?p (drop n ds) True"
  have n: "length (take n ds) = n" "ds = take n ds @ drop n ds" using assms by simp_all
  have split: "replicate (2 * n) th = replicate n th @ replicate n th" for th :: thread
    by (simp add: mult_2 replicate_add)
  let ?b = "\<lambda>xs. \<lparr>sb_buffer = xs, max_size = n\<rparr>"
  have "runs (start n (replicate (2 * n) [Get] @ [producer ds]))
      \<lparr>shared = ?b [], threads = replicate n hungry @ replicate n hungry @ ?p ds False, returned = []\<rparr>"
    using consumers_wait [of "?b []" "[]" "2 * n" "?p ds False" "[]"] by (simp add: start_def SharedBuffer_new_def split)
  also have "runs \<dots> \<lparr>shared = ?b (take n ds), threads = replicate n ready @ replicate n hungry @ ?p (drop n ds) False, returned = ?r\<rparr>"
    using producer_fills [of "?b []" "take n ds" "[]" "replicate n hungry" "drop n ds" "[]"] n(1) by simp
  also have "runs \<dots> \<lparr>shared = ?b (take n ds), threads = replicate n ready @ replicate n hungry @ ?p (drop n ds) True, returned = ?r\<rparr>"
  proof (rule runs_step [OF _ runs_refl, of "2 * n" None])
    obtain d ds' where "drop n ds = d # ds'" using assms by (metis Cons_nth_drop_Suc)
    then show "sb_step (Run (2 * n) None) \<lparr>shared = ?b (take n ds), threads = replicate n ready @ replicate n hungry @ ?p (drop n ds) False, returned = ?r\<rparr> =
        Some \<lparr>shared = ?b (take n ds), threads = replicate n ready @ replicate n hungry @ ?p (drop n ds) True, returned = ?r\<rparr>"
      using n(1) by (simp add: critical_def enter_def SharedBuffer_add_def producer_def nth_append list_update_append)
  qed
  also have "runs \<dots> \<lparr>shared = ?b [], threads = replicate n served @ replicate n ready @ ?p (drop n ds) True,
      returned = ?r @ map (\<lambda>d. (Get, Some d)) (take n ds)\<rparr>"
    using consumers_pass_on [of "take n ds" n "[]" "[]" "?p (drop n ds) True" ?r] n(1) by simp
  also have "runs \<dots> \<lparr>shared = ?b [], threads = ?all, returned = ?r @ map (\<lambda>d. (Get, Some d)) (take n ds)\<rparr>"
    by (rule consumers_wait) simp
  finally obtain es where es: "run_events sb_step (map (\<lambda>(t, ch). Run t ch) es) (start n (replicate (2 * n) [Get] @ [producer ds])) =
      Some \<lparr>shared = ?b [], threads = ?all, returned = ?r @ map (\<lambda>d. (Get, Some d)) (take n ds)\<rparr>"
    unfolding runs_def by blast
  have "sb_step (Run t ch) \<lparr>shared = ?b [], threads = ?all, returned = ?r @ map (\<lambda>d. (Get, Some d)) (take n ds)\<rparr> = None" for t ch
    by (rule nobody_runs) auto
  with es show ?thesis by fastforce
qed

theorem shared_buffer_lost_wakeup_witness:
  "\<exists>es cf. run_events sb_step (map (\<lambda>(t, ch). Run t ch) es) (start 1 [[Get], [Get], [Add ''a'', Add ''b'']]) = Some cf \<and>
     (\<forall>t ch. sb_step (Run t ch) cf = None) \<and> sb_buffer (shared cf) = [] \<and>
     threads cf = [\<lparr>calls = [], waiting = False\<rparr>, \<lparr>calls = [Get], waiting = True\<rparr>, \<lparr>calls = [Add ''b''], waiting = True\<rparr>]"
  using shared_buffer_lost_wakeup [of 1 "[''a'', ''b'']"] by (simp add: producer_def numeral_2_eq_2 del: sb_step.simps)

end
