(* ===== verification/Parallel_Executor.thy ===== *)
theory Parallel_Executor
  imports Cpp_Numbers
begin

text \<open>
  \<^verbatim>\<open>IntraPartitionParallelExecutor\<close>: the division of a range of items into chunks, the thread pool that runs
  the chunks, and the merging of their results. Sizes are 64-bit words, \<^verbatim>\<open>long\<close> is an integer whose
  overflow is undefined behaviour. The pool is a transition system: the client thread submits tasks,
  collects the results and stops the pool, the workers take tasks, run them, wait and exit.
\<close>

subsection \<open>Sizes and chunks\<close>

type_synonym size_t = "64 word"

text \<open>The limit is read from a property; \<^verbatim>\<open>cores\<close> is what the system reports.\<close>

definition max_worker_count :: "string \<Rightarrow> int" where
  "max_worker_count maxWorkerStr =
     (if maxWorkerStr = [] then 32 else (case stoi maxWorkerStr of None \<Rightarrow> 32 | Some n \<Rightarrow> n))"

definition optimalWorkerCount :: "string \<Rightarrow> int \<Rightarrow> int" where
  "optimalWorkerCount maxWorkerStr cores = max 1 (min (max_worker_count maxWorkerStr) cores)"

definition calculateOptimalChunkSize :: "size_t \<Rightarrow> int \<Rightarrow> size_t option" where
  "calculateOptimalChunkSize totalItems workers =
     (let chunksPerWorker = 3; minChunkSize = 1000; maxChunkSize = 100000;
          targetChunks = of_int workers * chunksPerWorker
      in if targetChunks = 0 then None
         else let chunkSize = totalItems div targetChunks
              in Some (max minChunkSize (min maxChunkSize chunkSize)))"

definition shouldUseParallelProcessing :: "int \<Rightarrow> size_t \<Rightarrow> bool" where
  "shouldUseParallelProcessing workerCount dataSize \<longleftrightarrow> 1000 < dataSize \<and> 1 < workerCount"

record work_chunk =
  startIndex :: int
  endIndex :: int
  estimatedSize :: size_t

definition in_long :: "int \<Rightarrow> bool" where
  "in_long i \<longleftrightarrow> - (2 ^ 63) \<le> i \<and> i < 2 ^ 63"

text \<open>The loop: not returning is \<^const>\<open>None\<close>, and so is the overflow of an index.\<close>

partial_function (option) chunks_from :: "int \<Rightarrow> int \<Rightarrow> int \<Rightarrow> work_chunk list option" where
  "chunks_from totalItems chunkSize start =
     (if start < totalItems
      then if in_long (start + chunkSize) \<and> in_long (start + chunkSize - 1)
           then let e = min (start + chunkSize - 1) (totalItems - 1)
                in Option.bind (chunks_from totalItems chunkSize (start + chunkSize))
                     (\<lambda>chunks. Some (\<lparr>startIndex = start, endIndex = e, estimatedSize = of_int (e - start + 1)\<rparr> # chunks))
           else None
      else Some [])"

declare chunks_from.simps [code]

definition createWorkChunks :: "int \<Rightarrow> size_t \<Rightarrow> work_chunk list option" where
  "createWorkChunks totalItems chunkSize = chunks_from totalItems (sint chunkSize) 0"

text \<open>The results of the chunks one after the other; repeated results are kept, unlike the comment says.\<close>

definition mergeResults :: "'a list list \<Rightarrow> 'a list" where
  "mergeResults chunkResults = concat chunkResults"

subsection \<open>The chunks divide the range\<close>

definition chunk_items :: "work_chunk \<Rightarrow> int list" where
  "chunk_items c = [startIndex c..endIndex c]"

definition chunk_ok :: "int \<Rightarrow> int \<Rightarrow> work_chunk \<Rightarrow> bool" where
  "chunk_ok totalItems n c \<longleftrightarrow> 0 \<le> startIndex c \<and> startIndex c \<le> endIndex c \<and> endIndex c < totalItems \<and>
     endIndex c - startIndex c < n \<and> uint (estimatedSize c) = endIndex c - startIndex c + 1"

lemma upto_join: "i \<le> j + 1 \<Longrightarrow> j \<le> k \<Longrightarrow> [i..j] @ [j + 1..k] = [i..k]"
  using upto_split2 [of i j k] by (cases "i = j + 1") auto

lemma uint_of_small: "0 \<le> x \<Longrightarrow> x < 2 ^ 63 \<Longrightarrow> uint (word_of_int x :: size_t) = x"
  by (simp add: unsigned_of_int take_bit_int_eq_self)

lemma chunks_from_ok:
  assumes "0 < n" "0 \<le> start" "totalItems + n < 2 ^ 63"
  shows "\<exists>cs. chunks_from totalItems n start = Some cs \<and> concat (map chunk_items cs) = [start..totalItems - 1] \<and>
    list_all (chunk_ok totalItems n) cs \<and> int (length cs) = (max 0 (totalItems - start) + n - 1) div n"
  using assms(2)
proof (induction "nat (totalItems - start)" arbitrary: start rule: less_induct)
  case less
  show ?case
  proof (cases "start < totalItems")
    case False
    with assms(1) show ?thesis by (subst chunks_from.simps) (simp add: div_pos_pos_trivial)
  next
    case True
    let ?e = "min (start + n - 1) (totalItems - 1)"
    let ?c = "\<lparr>startIndex = start, endIndex = ?e, estimatedSize = of_int (?e - start + 1)\<rparr> :: work_chunk"
    have long: "in_long (start + n)" "in_long (start + n - 1)"
      using True less.prems assms by (auto simp: in_long_def)
    from less.hyps [of "start + n"] True less.prems assms(1) obtain cs where cs:
        "chunks_from totalItems n (start + n) = Some cs" "concat (map chunk_items cs) = [start + n..totalItems - 1]"
        "list_all (chunk_ok totalItems n) cs" "int (length cs) = (max 0 (totalItems - (start + n)) + n - 1) div n"
      by auto
    have "chunks_from totalItems n start = Some (?c # cs)"
      by (subst chunks_from.simps) (simp add: True long cs(1) Let_def)
    moreover have "[start..?e] @ [start + n..totalItems - 1] = [start..totalItems - 1]"
      using upto_join [of start "start + n - 1" "totalItems - 1"] True assms(1) less.prems
      by (cases "start + n \<le> totalItems") (auto simp: min_def)
    moreover have "uint (word_of_int (?e - start + 1) :: size_t) = ?e - start + 1"
      by (rule uint_of_small) (use True assms less.prems in auto)
    then have "chunk_ok totalItems n ?c"
      unfolding chunk_ok_def work_chunk.simps using True less.prems assms(1) by auto
    moreover have "int (length (?c # cs)) = (max 0 (totalItems - start) + n - 1) div n"
    proof (cases "start + n \<le> totalItems")
      case le: True
      have "totalItems - start + n - 1 = (totalItems - (start + n) + n - 1) + n" by simp
      then have "(totalItems - start + n - 1) div n = (totalItems - (start + n) + n - 1) div n + 1"
        using assms(1) by (metis div_add_self2 less_irrefl)
      with le True cs(4) show ?thesis by (simp add: max_def)
    next
      case gt: False
      then have "(totalItems - start + n - 1) div n = 1" "(n - 1) div n = 0"
        using True assms(1) by (auto simp: div_pos_pos_trivial intro!: int_div_pos_eq [of _ _ _ "totalItems - start - 1"])
      with gt True cs(4) show ?thesis by (simp add: max_def)
    qed
    ultimately show ?thesis using cs(2,3) by (simp add: chunk_items_def)
  qed
qed

lemma worker_count_range:
  assumes "cores < 2 ^ 31"
  shows "1 \<le> optimalWorkerCount maxWorkerStr cores" "optimalWorkerCount maxWorkerStr cores < 2 ^ 31"
  using assms by (auto simp: optimalWorkerCount_def)

lemma chunk_size_range:
  assumes "1 \<le> w" "w < 2 ^ 31"
  shows "\<exists>c. calculateOptimalChunkSize totalItems w = Some c \<and> 1000 \<le> uint c \<and> uint c \<le> 100000"
proof -
  have "of_int w * 3 = (word_of_int (w * 3) :: size_t)" by simp
  moreover have "uint (word_of_int (w * 3) :: size_t) = w * 3" using assms by (intro uint_of_small) auto
  ultimately have "uint (of_int w * 3 :: size_t) = w * 3" by (simp only:)
  then have nz: "of_int w * 3 \<noteq> (0 :: size_t)" using assms(1) by (auto simp del: of_int_mult)
  let ?c = "max 1000 (min 100000 (totalItems div (of_int w * 3))) :: size_t"
  have "1000 \<le> ?c" "?c \<le> 100000" by (auto simp: max_def min_def)
  then have "1000 \<le> uint ?c" "uint ?c \<le> 100000" by (simp_all only: word_le_def) simp_all
  with nz show ?thesis by (simp add: calculateOptimalChunkSize_def Let_def)
qed

lemma created_chunks_ok:
  assumes "0 \<le> totalItems" "totalItems < 2 ^ 62" "1000 \<le> uint c" "uint c \<le> 100000"
  shows "\<exists>cs. createWorkChunks totalItems c = Some cs \<and> concat (map chunk_items cs) = [0..totalItems - 1] \<and>
    list_all (chunk_ok totalItems (uint c)) cs \<and> int (length cs) = (totalItems + uint c - 1) div uint c"
proof -
  have "sint c = uint c"
    unfolding sint_uint by (rule signed_take_bit_int_eq_self) (use assms(3,4) in simp_all)
  with chunks_from_ok [of "uint c" 0 totalItems] assms show ?thesis by (simp add: createWorkChunks_def)
qed

text \<open>C22. For up to 2^62 items and any number of processors the chunk size lies between 1000 and 100000,
  \<^verbatim>\<open>createWorkChunks\<close> returns without an overflow, and its chunks list every index once, in order;
  each is inside the range, not empty, at most as long as the chunk size, and states its length.\<close>

theorem chunks_divide_range:
  assumes "0 \<le> totalItems" "totalItems < 2 ^ 62" "cores < 2 ^ 31"
  shows "\<exists>c cs. calculateOptimalChunkSize (of_int totalItems) (optimalWorkerCount maxWorkerStr cores) = Some c \<and>
    1000 \<le> uint c \<and> uint c \<le> 100000 \<and> createWorkChunks totalItems c = Some cs \<and>
    concat (map chunk_items cs) = [0..totalItems - 1] \<and> list_all (chunk_ok totalItems (uint c)) cs \<and>
    int (length cs) = (totalItems + uint c - 1) div uint c"
  using chunk_size_range [OF worker_count_range [OF assms(3)]] created_chunks_ok [OF assms(1,2)] by metis

theorem chunks_divide_range_witness:
  "calculateOptimalChunkSize (of_int 2500) (optimalWorkerCount ''8'' 4) = Some 1000 \<and>
   (\<exists>cs. createWorkChunks 2500 1000 = Some cs \<and> concat (map chunk_items cs) = [0..2499] \<and> length cs = 3)"
proof -
  have "calculateOptimalChunkSize (of_int 2500) (optimalWorkerCount ''8'' 4) = Some 1000" by code_simp
  with chunks_divide_range [of 2500 4 "''8''"] show ?thesis by auto
qed

end
