(* ===== verification/Thread_Pool.thy ===== *)
theory Thread_Pool
  imports Parallel_Executor Schedules
begin

text \<open>
  \<^verbatim>\<open>DynamicThreadPool\<close> and its use in \<^verbatim>\<open>executeChunkedTasks\<close>: the client thread enqueues the tasks, takes the
  results from the futures in the order of submission and destroys the pool; the workers run
  \<^verbatim>\<open>workerFunction\<close>. What happens under the mutex is one step; notifications outside of it are steps of
  their own.
\<close>

subsection \<open>The transition system\<close>

text \<open>The client is about to enqueue task \<open>k\<close>, to notify after it, to collect result \<open>k\<close>, to notify after
  setting \<^verbatim>\<open>stop\<close>, or joins the workers.\<close>

datatype client = Submitting nat | Notifying nat | Collecting nat | Stopping | Joining

text \<open>A worker is about to lock the mutex, waits for the condition, runs a task, or has returned.\<close>

datatype worker = Ready | Blocked | Busy nat | Exited

record 'r pool =
  pool_client :: client
  pool_tasks :: "nat list"
  pool_stop :: bool
  pool_workers :: "worker list"
  pool_results :: "nat \<rightharpoonup> 'r"
  pool_collected :: "'r list"

datatype pool_event = Client "nat option" | Worker nat | Wakeup nat

definition wake_one :: "nat option \<Rightarrow> worker list \<Rightarrow> worker list option" where
  "wake_one chosen ws =
     (case chosen of
        None \<Rightarrow> if Blocked \<in> set ws then None else Some ws
      | Some w \<Rightarrow> if w < length ws \<and> ws ! w = Blocked then Some (ws[w := Ready]) else None)"

definition wake_all :: "worker list \<Rightarrow> worker list" where
  "wake_all ws = map (\<lambda>w. if w = Blocked then Ready else w) ws"

definition client_step :: "nat \<Rightarrow> nat option \<Rightarrow> 'r pool \<Rightarrow> 'r pool option" where
  "client_step n chosen p =
     (case pool_client p of
        Submitting k \<Rightarrow>
          if k < n
          then if pool_stop p then None
               else Some (p\<lparr>pool_tasks := pool_tasks p @ [k], pool_client := Notifying k\<rparr>)
          else Some (p\<lparr>pool_client := Collecting 0\<rparr>)
      | Notifying k \<Rightarrow>
          map_option (\<lambda>ws. p\<lparr>pool_workers := ws, pool_client := Submitting (Suc k)\<rparr>) (wake_one chosen (pool_workers p))
      | Collecting k \<Rightarrow>
          if k < n
          then map_option (\<lambda>r. p\<lparr>pool_collected := pool_collected p @ [r], pool_client := Collecting (Suc k)\<rparr>) (pool_results p k)
          else Some (p\<lparr>pool_stop := True, pool_client := Stopping\<rparr>)
      | Stopping \<Rightarrow> Some (p\<lparr>pool_workers := wake_all (pool_workers p), pool_client := Joining\<rparr>)
      | Joining \<Rightarrow> None)"

definition workerFunction_step :: "(nat \<Rightarrow> 'r) \<Rightarrow> nat \<Rightarrow> 'r pool \<Rightarrow> 'r pool option" where
  "workerFunction_step f w p =
     (case pool_workers p ! w of
        Ready \<Rightarrow>
          if pool_stop p \<and> pool_tasks p = [] then Some (p\<lparr>pool_workers := (pool_workers p)[w := Exited]\<rparr>)
          else (case pool_tasks p of
                  [] \<Rightarrow> Some (p\<lparr>pool_workers := (pool_workers p)[w := Blocked]\<rparr>)
                | t # ts \<Rightarrow> Some (p\<lparr>pool_tasks := ts, pool_workers := (pool_workers p)[w := Busy t]\<rparr>))
      | Blocked \<Rightarrow> None
      | Busy t \<Rightarrow> Some (p\<lparr>pool_results := (pool_results p)(t \<mapsto> f t), pool_workers := (pool_workers p)[w := Ready]\<rparr>)
      | Exited \<Rightarrow> None)"

fun pool_step :: "(nat \<Rightarrow> 'r) \<Rightarrow> nat \<Rightarrow> pool_event \<Rightarrow> 'r pool \<Rightarrow> 'r pool option" where
  "pool_step f n (Client chosen) p = client_step n chosen p"
| "pool_step f n (Worker w) p = (if w < length (pool_workers p) then workerFunction_step f w p else None)"
| "pool_step f n (Wakeup w) p =
     (if w < length (pool_workers p) \<and> pool_workers p ! w = Blocked
      then Some (p\<lparr>pool_workers := (pool_workers p)[w := Ready]\<rparr>) else None)"

definition pool_start :: "nat \<Rightarrow> 'r pool" where
  "pool_start m = \<lparr>pool_client = Submitting 0, pool_tasks = [], pool_stop = False, pool_workers = replicate m Ready,
     pool_results = Map.empty, pool_collected = []\<rparr>"

subsection \<open>Invariant\<close>

fun submitted :: "nat \<Rightarrow> client \<Rightarrow> nat" where
  "submitted n (Submitting k) = k"
| "submitted n (Notifying k) = Suc k"
| "submitted n _ = n"

fun collected_count :: "nat \<Rightarrow> client \<Rightarrow> nat" where
  "collected_count n (Submitting k) = 0"
| "collected_count n (Notifying k) = 0"
| "collected_count n (Collecting k) = k"
| "collected_count n _ = n"

definition pool_inv :: "(nat \<Rightarrow> 'r) \<Rightarrow> nat \<Rightarrow> nat \<Rightarrow> 'r pool \<Rightarrow> bool" where
  "pool_inv f n m p \<longleftrightarrow>
     length (pool_workers p) = m \<and> submitted n (pool_client p) \<le> n \<and> collected_count n (pool_client p) \<le> n \<and>
     (\<forall>t < submitted n (pool_client p). t \<in> set (pool_tasks p) \<or> Busy t \<in> set (pool_workers p) \<or> pool_results p t \<noteq> None) \<and>
     (\<forall>t r. pool_results p t = Some r \<longrightarrow> r = f t) \<and>
     pool_collected p = map f [0..<collected_count n (pool_client p)] \<and>
     pool_stop p = (pool_client p \<in> {Stopping, Joining}) \<and>
     (Exited \<in> set (pool_workers p) \<longrightarrow> pool_stop p) \<and>
     (pool_client p = Joining \<longrightarrow> Blocked \<notin> set (pool_workers p)) \<and>
     (pool_tasks p \<noteq> [] \<longrightarrow> \<not> pool_stop p \<longrightarrow> (\<exists>k. pool_client p = Notifying k) \<or>
        (\<exists>w\<in>set (pool_workers p). w \<noteq> Blocked))"

fun worker_work :: "worker \<Rightarrow> nat" where
  "worker_work Ready = 1"
| "worker_work Blocked = 0"
| "worker_work (Busy t) = 2"
| "worker_work Exited = 0"

fun client_work :: "nat \<Rightarrow> nat \<Rightarrow> client \<Rightarrow> nat" where
  "client_work n m (Submitting k) = 5 * (n - k) + n + m + 3"
| "client_work n m (Notifying k) = 5 * (n - Suc k) + n + m + 5"
| "client_work n m (Collecting k) = (n - k) + m + 2"
| "client_work n m Stopping = m + 1"
| "client_work n m Joining = 0"

definition pool_work :: "nat \<Rightarrow> 'r pool \<Rightarrow> nat" where
  "pool_work n p = client_work n (length (pool_workers p)) (pool_client p) + 2 * length (pool_tasks p) +
     sum_list (map worker_work (pool_workers p))"

lemma sum_list_update_nat:
  fixes xs :: "nat list"
  assumes "i < length xs"
  shows "sum_list (xs[i := v]) + xs ! i = sum_list xs + v"
  using assms by (induction xs arbitrary: i) (auto split: nat.split)

lemma work_update:
  assumes "w < length ws"
  shows "sum_list (map worker_work (ws[w := v])) + worker_work (ws ! w) = sum_list (map worker_work ws) + worker_work v"
  using sum_list_update_nat [of w "map worker_work ws"] assms by (simp add: map_update)

lemma work_wake_one:
  "wake_one chosen ws = Some ws' \<Longrightarrow> sum_list (map worker_work ws') \<le> sum_list (map worker_work ws) + 1"
  using work_update [of "the chosen" ws Ready] by (auto simp: wake_one_def split: option.splits if_splits)

lemma work_wake_all: "sum_list (map worker_work (wake_all ws)) \<le> sum_list (map worker_work ws) + length ws"
  unfolding wake_all_def by (induction ws) (auto split: if_splits)

lemma client_step_work:
  assumes "client_step n chosen p = Some p'"
  shows "pool_work n p' < pool_work n p"
proof (cases "pool_client p")
  case (Submitting k)
  with assms show ?thesis by (auto simp: client_step_def pool_work_def split: if_splits)
next
  case (Notifying k)
  then obtain ws where ws: "wake_one chosen (pool_workers p) = Some ws" "p' = p\<lparr>pool_workers := ws, pool_client := Submitting (Suc k)\<rparr>"
    using assms by (auto simp: client_step_def)
  then have "length ws = length (pool_workers p)" by (auto simp: wake_one_def split: option.splits if_splits)
  with work_wake_one [OF ws(1)] ws(2) Notifying show ?thesis by (simp add: pool_work_def)
next
  case (Collecting k)
  with assms show ?thesis by (auto simp: client_step_def pool_work_def split: if_splits)
next
  case Stopping
  with assms work_wake_all [of "pool_workers p"] show ?thesis
    by (auto simp: client_step_def pool_work_def wake_all_def)
qed (use assms in \<open>simp add: client_step_def\<close>)

lemma worker_step_work:
  assumes "workerFunction_step f w p = Some p'" "w < length (pool_workers p)"
  shows "pool_work n p' < pool_work n p"
  using assms work_update [OF assms(2), of Exited] work_update [OF assms(2), of Blocked] work_update [OF assms(2), of Ready]
    work_update [OF assms(2), of "Busy (hd (pool_tasks p))"]
  by (auto simp: workerFunction_step_def pool_work_def split: worker.splits if_splits list.splits)

lemma keep_other: "x \<in> set ws \<Longrightarrow> x \<noteq> ws ! w \<Longrightarrow> x \<in> set (ws[w := v])"
  by (metis in_set_conv_nth length_list_update nth_list_update_neq)

lemma wake_one_set:
  assumes "wake_one chosen ws = Some ws'"
  shows "length ws' = length ws" "Busy t \<in> set ws \<Longrightarrow> Busy t \<in> set ws'" "Exited \<in> set ws' \<Longrightarrow> Exited \<in> set ws"
    "ws \<noteq> [] \<Longrightarrow> \<exists>w\<in>set ws'. w \<noteq> Blocked"
proof -
  show "length ws' = length ws" "Busy t \<in> set ws \<Longrightarrow> Busy t \<in> set ws'" "Exited \<in> set ws' \<Longrightarrow> Exited \<in> set ws"
    using assms set_update_subset_insert [of ws "the chosen" Ready] keep_other [of "Busy t" ws "the chosen" Ready]
    by (auto simp: wake_one_def split: option.splits if_splits)
  assume "ws \<noteq> []"
  then show "\<exists>w\<in>set ws'. w \<noteq> Blocked"
    using assms set_update_memI [of "the chosen" ws Ready]
    by (cases ws) (fastforce simp: wake_one_def split: option.splits if_splits)+
qed

lemma client_step_inv:
  assumes "client_step n chosen p = Some p'" "pool_inv f n m p" "0 < m"
  shows "pool_inv f n m p'"
proof (cases "pool_client p")
  case (Submitting k)
  with assms show ?thesis by (auto simp: client_step_def pool_inv_def less_Suc_eq split: if_splits)
next
  case (Notifying k)
  then obtain ws where ws: "wake_one chosen (pool_workers p) = Some ws" "p' = p\<lparr>pool_workers := ws, pool_client := Submitting (Suc k)\<rparr>"
    using assms(1) by (auto simp: client_step_def)
  from assms(2,3) have "pool_workers p \<noteq> []" by (auto simp: pool_inv_def)
  with wake_one_set [OF ws(1)] assms(2) Notifying show ?thesis unfolding pool_inv_def ws(2) by auto
next
  case (Collecting k)
  with assms(1,2) show ?thesis
    by (auto simp: client_step_def pool_inv_def split: if_splits)
next
  case Stopping
  have "Busy t \<in> set ws \<Longrightarrow> Busy t \<in> set (wake_all ws)" "Exited \<in> set (wake_all ws) \<Longrightarrow> Exited \<in> set ws" "Blocked \<notin> set (wake_all ws)"
      "length (wake_all ws) = length ws" for ws t
    by (auto simp: wake_all_def image_iff split: if_splits)
  with assms(1,2) Stopping show ?thesis by (auto simp: client_step_def pool_inv_def)
qed (use assms(1) in \<open>simp add: client_step_def\<close>)

lemma worker_step_inv:
  assumes "workerFunction_step f w p = Some p'" "w < length (pool_workers p)" "pool_inv f n m p"
  shows "pool_inv f n m p'"
proof (cases "pool_workers p ! w")
  case Ready
  let ?ws = "pool_workers p"
  have busy: "Busy t \<in> set ?ws \<Longrightarrow> Busy t \<in> set (?ws[w := v])" for t v using Ready by (intro keep_other) auto
  have sub: "x \<in> set (?ws[w := v]) \<Longrightarrow> x = v \<or> x \<in> set ?ws" for x v using set_update_subset_insert [of ?ws w v] by auto
  have new: "v \<in> set (?ws[w := v])" for v using assms(2) by (rule set_update_memI)
  show ?thesis
  proof (cases "pool_tasks p")
    case Nil
    have "Blocked \<in> set (?ws[w := Exited]) \<Longrightarrow> Blocked \<in> set ?ws" "Exited \<in> set (?ws[w := Blocked]) \<Longrightarrow> Exited \<in> set ?ws"
      using sub by fastforce+
    with Nil assms(1,3) Ready busy show ?thesis
      by (auto simp: workerFunction_step_def pool_inv_def split: if_splits)
  next
    case (Cons t ts)
    with assms(1) Ready have p': "p' = p\<lparr>pool_tasks := ts, pool_workers := ?ws[w := Busy t]\<rparr>"
      by (simp add: workerFunction_step_def)
    have "x < submitted n (pool_client p) \<Longrightarrow> x \<in> set ts \<or> Busy x \<in> set (?ws[w := Busy t]) \<or> pool_results p x \<noteq> None" for x
      using assms(3) Cons busy new unfolding pool_inv_def by fastforce
    moreover have "Exited \<in> set (?ws[w := Busy t]) \<Longrightarrow> Exited \<in> set ?ws" "Blocked \<in> set (?ws[w := Busy t]) \<Longrightarrow> Blocked \<in> set ?ws"
      using sub by fastforce+
    moreover have "\<exists>x\<in>set (?ws[w := Busy t]). x \<noteq> Blocked" using new by blast
    ultimately show ?thesis using assms(3) unfolding pool_inv_def p' by auto
  qed
next
  case (Busy t)
  let ?ws = "pool_workers p"
  have busy: "Busy x \<in> set ?ws \<Longrightarrow> x \<noteq> t \<Longrightarrow> Busy x \<in> set (?ws[w := Ready])" for x using Busy by (intro keep_other) auto
  have "x \<in> set (?ws[w := Ready]) \<Longrightarrow> x = Ready \<or> x \<in> set ?ws" for x using set_update_subset_insert [of ?ws w Ready] by auto
  then have sub: "Exited \<in> set (?ws[w := Ready]) \<Longrightarrow> Exited \<in> set ?ws" "Blocked \<in> set (?ws[w := Ready]) \<Longrightarrow> Blocked \<in> set ?ws"
    by fastforce+
  have "\<exists>x\<in>set (?ws[w := Ready]). x \<noteq> Blocked" using set_update_memI [OF assms(2), of Ready] by blast
  moreover have "p' = p\<lparr>pool_results := (pool_results p)(t \<mapsto> f t), pool_workers := ?ws[w := Ready]\<rparr>"
    using assms(1) Busy by (simp add: workerFunction_step_def)
  ultimately show ?thesis using assms(3) busy sub unfolding pool_inv_def by auto
qed (use assms(1) in \<open>simp_all add: workerFunction_step_def\<close>)

lemma pool_step_inv: "pool_step f n e p = Some p' \<Longrightarrow> pool_inv f n m p \<Longrightarrow> 0 < m \<Longrightarrow> pool_inv f n m p'"
proof (cases e)
  case (Wakeup w)
  assume a: "pool_step f n e p = Some p'" "pool_inv f n m p"
  let ?ws = "pool_workers p"
  have w: "w < length ?ws" "?ws ! w = Blocked" "p' = p\<lparr>pool_workers := ?ws[w := Ready]\<rparr>"
    using a(1) Wakeup by (auto split: if_splits)
  have busy: "Busy t \<in> set ?ws \<Longrightarrow> Busy t \<in> set (?ws[w := Ready])" for t using w(2) by (intro keep_other) auto
  have "x \<in> set (?ws[w := Ready]) \<Longrightarrow> x = Ready \<or> x \<in> set ?ws" for x using set_update_subset_insert [of ?ws w Ready] by auto
  then have "Exited \<in> set (?ws[w := Ready]) \<Longrightarrow> Exited \<in> set ?ws" "Blocked \<in> set (?ws[w := Ready]) \<Longrightarrow> Blocked \<in> set ?ws"
    by fastforce+
  moreover have "\<exists>x\<in>set (?ws[w := Ready]). x \<noteq> Blocked" using set_update_memI [OF w(1), of Ready] by blast
  ultimately show ?thesis using a(2) busy unfolding pool_inv_def w(3) by auto
qed (auto intro: client_step_inv worker_step_inv split: if_splits)

lemma pool_progress:
  assumes "pool_inv f n m p" "0 < m" "\<And>c. client_step n c p = None" "\<And>w. w < m \<Longrightarrow> workerFunction_step f w p = None"
  shows "pool_client p = Joining \<and> (\<forall>w\<in>set (pool_workers p). w = Exited) \<and> pool_collected p = map f [0..<n]"
proof -
  have idle: "w \<in> {Blocked, Exited}" if w: "w \<in> set (pool_workers p)" for w
  proof -
    obtain i where i: "i < m" "pool_workers p ! i = w" using w assms(1) by (auto simp: in_set_conv_nth pool_inv_def)
    with assms(4) [OF i(1)] show ?thesis
      by (cases w; cases "pool_tasks p") (auto simp: workerFunction_step_def split: if_splits)
  qed
  have "pool_client p = Joining"
  proof (cases "pool_client p")
    case (Submitting k)
    with assms(1) assms(3) [of None] show ?thesis by (auto simp: client_step_def pool_inv_def split: if_splits)
  next
    case (Notifying k)
    show ?thesis
    proof (cases "Blocked \<in> set (pool_workers p)")
      case True
      then obtain i where "i < length (pool_workers p)" "pool_workers p ! i = Blocked" by (auto simp: in_set_conv_nth)
      with assms(3) [of "Some i"] Notifying show ?thesis by (simp add: client_step_def wake_one_def)
    next
      case False
      with assms(3) [of None] Notifying show ?thesis by (simp add: client_step_def wake_one_def)
    qed
  next
    case (Collecting k)
    with assms(3) [of None] have k: "k < n" "pool_results p k = None" by (auto simp: client_step_def split: if_splits)
    with assms(1) Collecting have "k \<in> set (pool_tasks p) \<or> Busy k \<in> set (pool_workers p)" "\<not> pool_stop p"
      by (auto simp: pool_inv_def)
    with idle have tasks: "pool_tasks p \<noteq> []" "\<not> pool_stop p" by auto
    with assms(1) Collecting obtain w where "w \<in> set (pool_workers p)" "w \<noteq> Blocked" by (auto simp: pool_inv_def)
    with idle have "Exited \<in> set (pool_workers p)" by blast
    with assms(1) tasks(2) show ?thesis by (simp add: pool_inv_def)
  next
    case Stopping
    with assms(3) [of None] show ?thesis by (simp add: client_step_def)
  qed
  with assms(1) idle show ?thesis by (auto simp: pool_inv_def)
qed

subsection \<open>Every task is run\<close>

definition pool_initial :: "'r pool \<Rightarrow> bool" where
  "pool_initial p \<longleftrightarrow> (\<exists>m. 0 < m \<and> p = pool_start m)"

definition pool_invariant :: "(nat \<Rightarrow> 'r) \<Rightarrow> nat \<Rightarrow> 'r pool \<Rightarrow> 'r pool \<Rightarrow> bool" where
  "pool_invariant f n p0 p \<longleftrightarrow> (\<exists>m. 0 < m \<and> pool_inv f n m p)"

definition pool_counted :: "pool_event \<Rightarrow> bool" where
  "pool_counted e \<longleftrightarrow> (\<forall>w. e \<noteq> Wakeup w)"

definition pool_finished :: "(nat \<Rightarrow> 'r) \<Rightarrow> nat \<Rightarrow> 'r pool \<Rightarrow> 'r pool \<Rightarrow> bool" where
  "pool_finished f n p0 p \<longleftrightarrow> pool_client p = Joining \<and> (\<forall>w\<in>set (pool_workers p). w = Exited) \<and> pool_collected p = map f [0..<n]"

interpretation chunk_pool: scheduled "pool_step f n" pool_initial pool_counted "pool_invariant f n" "pool_work n" "pool_finished f n"
  for f n
proof
  show "pool_initial p0 \<Longrightarrow> pool_invariant f n p0 p0" for p0 :: "'a pool"
    by (auto simp: pool_initial_def pool_invariant_def pool_inv_def pool_start_def)
  show "pool_invariant f n p0 p \<Longrightarrow> pool_step f n e p = Some p' \<Longrightarrow> pool_invariant f n p0 p'" for p0 p e p'
    unfolding pool_invariant_def using pool_step_inv by blast
  show "pool_invariant f n p0 p \<Longrightarrow> pool_counted e \<Longrightarrow> pool_step f n e p = Some p' \<Longrightarrow> pool_work n p' < pool_work n p" for p0 p e p'
    by (cases e) (auto simp: pool_counted_def intro: client_step_work worker_step_work split: if_splits)
  fix p0 p
  assume "pool_invariant f n p0 p" and stuck: "\<And>e. pool_counted e \<Longrightarrow> pool_step f n e p = None"
  then obtain m where m: "0 < m" "pool_inv f n m p" unfolding pool_invariant_def by blast
  have "client_step n c p = None" for c using stuck [of "Client c"] by (simp add: pool_counted_def)
  moreover have "workerFunction_step f w p = None" if "w < m" for w
    using stuck [of "Worker w"] that m(2) by (simp add: pool_counted_def pool_inv_def)
  ultimately show "pool_finished f n p0 p" using pool_progress [OF m(2,1)] by (simp add: pool_finished_def)
qed

text \<open>C20. A pool with at least one worker runs every task of \<^verbatim>\<open>executeChunkedTasks\<close> and shuts down, whatever the
  scheduling: when neither the client nor a worker can go on, the client has all results in the
  order of the chunks and every worker has returned, and without spurious wake-ups this state is
  reached after at most 6n + 2m + 3 steps for n tasks and m workers.\<close>

theorem pool_runs_all_tasks:
  fixes f :: "nat \<Rightarrow> 'a"
  assumes "0 < m"
  shows "(\<forall>p. reaches (pool_step f n) (pool_start m) p \<longrightarrow> (\<forall>e. pool_counted e \<longrightarrow> pool_step f n e p = None) \<longrightarrow>
      pool_client p = Joining \<and> (\<forall>w\<in>set (pool_workers p). w = Exited) \<and> pool_collected p = map f [0..<n]) \<and>
    (\<forall>es p. run_events (pool_step f n) es (pool_start m) = Some p \<longrightarrow> (\<forall>e\<in>set es. pool_counted e) \<longrightarrow> length es \<le> 6 * n + 2 * m + 3)"
proof -
  have init: "pool_initial (pool_start m :: 'a pool)" using assms by (auto simp: pool_initial_def)
  have "pool_finished f n (pool_start m) p" if "reaches (pool_step f n) (pool_start m) p" "\<forall>e. pool_counted e \<longrightarrow> pool_step f n e p = None" for p
    using chunk_pool.stuck_is_finished [OF that(1) init] that(2) by blast
  moreover have "length es \<le> pool_work n (pool_start m :: 'a pool)"
    if "run_events (pool_step f n) es (pool_start m) = Some p" "\<forall>e\<in>set es. pool_counted e" for es p
    using chunk_pool.runs_are_bounded [OF init that(1)] that(2) by blast
  moreover have "pool_work n (pool_start m :: 'a pool) = 6 * n + 2 * m + 3"
    by (simp add: pool_work_def pool_start_def sum_list_replicate)
  ultimately show ?thesis unfolding pool_finished_def by metis
qed

definition pool_schedule :: "pool_event list" where
  "pool_schedule = [Worker 0, Client None, Client (Some 0), Worker 0, Worker 0, Worker 0, Client None, Client None, Client None,
     Client None, Worker 0]"

definition pool_end :: "nat pool" where
  "pool_end = \<lparr>pool_client = Joining, pool_tasks = [], pool_stop = True, pool_workers = [Exited], pool_results = Map.empty(0 \<mapsto> 7),
     pool_collected = [7]\<rparr>"

lemma pool_schedule_run: "run_events (pool_step (\<lambda>t. t + 7) 1) pool_schedule (pool_start 1) = Some pool_end"
  by (simp add: pool_schedule_def pool_start_def pool_end_def client_step_def workerFunction_step_def wake_one_def wake_all_def)

theorem pool_runs_all_tasks_witness:
  "length pool_schedule \<le> 6 * 1 + 2 * 1 + 3 \<and> pool_collected pool_end = map (\<lambda>t. t + 7) [0..<1]"
proof -
  have one: "0 < (1::nat)" by simp
  note all = pool_runs_all_tasks [OF one, of "\<lambda>t. t + 7 :: nat" 1]
  have c: "\<forall>e\<in>set pool_schedule. pool_counted e" by (simp add: pool_schedule_def pool_counted_def)
  have "pool_step (\<lambda>t. t + 7) 1 e pool_end = None" if "pool_counted e" for e
    using that by (cases e) (simp_all add: pool_counted_def pool_end_def client_step_def workerFunction_step_def)
  then have stuck: "\<forall>e. pool_counted e \<longrightarrow> pool_step (\<lambda>t. t + 7) 1 e pool_end = None" by blast
  from conjunct2 [OF all] pool_schedule_run c have "length pool_schedule \<le> 6 * 1 + 2 * 1 + 3" by blast
  moreover from conjunct1 [OF all] run_events_reaches [OF pool_schedule_run reaches.refl] stuck
  have "pool_collected pool_end = map (\<lambda>t. t + 7) [0..<1]" by blast
  ultimately show ?thesis by blast
qed

subsection \<open>The executor\<close>

text \<open>\<^verbatim>\<open>processInParallel\<close> divides the items into chunks and gives the results of the processor in the order of the
  chunks; \<open>p\<close> is the pool when the client is done.\<close>

definition processInParallel :: "string \<Rightarrow> int \<Rightarrow> (work_chunk \<Rightarrow> 'r) \<Rightarrow> int \<Rightarrow> 'r pool \<Rightarrow> bool" where
  "processInParallel maxWorkerStr cores processor totalItemCount p \<longleftrightarrow>
     (\<exists>c cs. calculateOptimalChunkSize (of_int totalItemCount) (optimalWorkerCount maxWorkerStr cores) = Some c \<and>
        createWorkChunks totalItemCount c = Some cs \<and>
        reaches (pool_step (\<lambda>t. processor (cs ! t)) (length cs)) (pool_start (nat (optimalWorkerCount maxWorkerStr cores))) p \<and>
        pool_client p = Joining)"

lemma joining_collected: "pool_inv f n m p \<Longrightarrow> pool_client p = Joining \<Longrightarrow> pool_collected p = map f [0..<n]"
  by (simp add: pool_inv_def)

text \<open>C21. Processing in parallel gives what processing item by item gives: for a processor that maps a function
  over the indices of its chunk, the merged results are the function mapped over all indices, in
  order, for every scheduling of the workers. Equal results of different indices are all kept:
  \<^verbatim>\<open>mergeResults\<close> concatenates, although its comment announces a deduplication.\<close>

theorem parallel_is_sequential:
  assumes "0 \<le> totalItemCount" "totalItemCount < 2 ^ 62" "cores < 2 ^ 31"
    and "processInParallel maxWorkerStr cores (\<lambda>c. map g (chunk_items c)) totalItemCount p"
  shows "mergeResults (pool_collected p) = map g [0..totalItemCount - 1]"
proof -
  obtain c cs where c: "calculateOptimalChunkSize (of_int totalItemCount) (optimalWorkerCount maxWorkerStr cores) = Some c"
      "createWorkChunks totalItemCount c = Some cs" "pool_client p = Joining"
      "reaches (pool_step (\<lambda>t. map g (chunk_items (cs ! t))) (length cs)) (pool_start (nat (optimalWorkerCount maxWorkerStr cores))) p"
    using assms(4) unfolding processInParallel_def by blast
  have "1000 \<le> uint c" "uint c \<le> 100000"
    using chunk_size_range [OF worker_count_range [OF assms(3), of maxWorkerStr], of "of_int totalItemCount"] c(1) by auto
  with created_chunks_ok [OF assms(1,2)] c(2) have cs: "concat (map chunk_items cs) = [0..totalItemCount - 1]" by force
  have "pool_initial (pool_start (nat (optimalWorkerCount maxWorkerStr cores)) :: 'a list pool)"
    using worker_count_range(1) [OF assms(3), of maxWorkerStr] unfolding pool_initial_def
    by (intro exI [of _ "nat (optimalWorkerCount maxWorkerStr cores)"]) simp
  from chunk_pool.reachable_inv [OF c(4) this] c(3)
  have "pool_collected p = map (\<lambda>t. map g (chunk_items (cs ! t))) [0..<length cs]"
    unfolding pool_invariant_def using joining_collected by blast
  also have "\<dots> = map (\<lambda>c. map g (chunk_items c)) cs"
    by (rule nth_equalityI) simp_all
  finally show ?thesis
    by (simp add: mergeResults_def cs [symmetric] map_concat comp_def)
qed

theorem parallel_is_sequential_witness:
  "\<exists>p. processInParallel ''1'' 1 (\<lambda>c. map (\<lambda>i. i + 5) (chunk_items c)) 1 p \<and> mergeResults (pool_collected p) = [5]"
proof -
  let ?cs = "[\<lparr>startIndex = 0, endIndex = 0, estimatedSize = 1\<rparr>] :: work_chunk list"
  let ?p = "\<lparr>pool_client = Joining, pool_tasks = [], pool_stop = True, pool_workers = [Exited], pool_results = Map.empty(0 \<mapsto> [5]),
     pool_collected = [[5]]\<rparr> :: int list pool"
  have "optimalWorkerCount ''1'' 1 = 1" "calculateOptimalChunkSize (of_int 1) 1 = Some 1000" "createWorkChunks 1 1000 = Some ?cs"
    by code_simp+
  moreover have "run_events (pool_step (\<lambda>t. map (\<lambda>i. i + 5) (chunk_items (?cs ! t))) 1) pool_schedule (pool_start 1) = Some ?p"
    by (simp add: pool_schedule_def pool_start_def client_step_def workerFunction_step_def wake_one_def wake_all_def chunk_items_def)
  from run_events_reaches [OF this reaches.refl]
  have "reaches (pool_step (\<lambda>t. map (\<lambda>i. i + 5) (chunk_items (?cs ! t))) (length ?cs)) (pool_start (nat 1)) ?p" by simp
  ultimately have p: "processInParallel ''1'' 1 (\<lambda>c. map (\<lambda>i. i + 5) (chunk_items c)) 1 ?p"
    unfolding processInParallel_def by (intro exI [of _ 1000] exI [of _ ?cs]) simp
  have "mergeResults (pool_collected ?p) = map (\<lambda>i. i + 5) [0..1 - 1]" by (rule parallel_is_sequential [OF _ _ _ p]) simp_all
  with p show ?thesis by (intro exI [of _ ?p]) simp
qed

end
