(* ===== verification/Semantic_Analysis.thy ===== *)
theory Semantic_Analysis
  imports Prelude
begin

text \<open>
  The semantic analysis of Cypher queries (\<^verbatim>\<open>query/processor/cypher/semanticanalyzer\<close>): \<^verbatim>\<open>Scope\<close>,
  \<^verbatim>\<open>ScopeManager\<close> and \<^verbatim>\<open>SemanticAnalyzer\<close>. The analyser walks over the tree of a query, declares the
  variables it meets in the innermost scope with a type, and checks the uses of variables. It is
  shown that the variables of an accepted query have consistent types.
\<close>

subsection \<open>Scopes\<close>

text \<open>
  A scope is its symbol table. The parent of a scope is the scope below it on the stack of the
  manager, and the current scope is the top of the stack: \<^verbatim>\<open>enterScope\<close> is the only place where scopes
  are made and sets both. The null pointer is the empty stack.
\<close>

type_synonym symbol_table = "(string \<times> string) list"
type_synonym scope_stack = "symbol_table list"

definition Scope_addSymbol :: "string \<Rightarrow> string \<Rightarrow> symbol_table \<Rightarrow> symbol_table" where
  "Scope_addSymbol symbolName symbolType t =
    (if symbolName \<in> fst ` set t then t else t @ [(symbolName, symbolType)])"

definition Scope_getType :: "string \<Rightarrow> symbol_table \<Rightarrow> string option" where
  "Scope_getType symbolName t = map_of t symbolName"

fun Scope_lookup :: "string \<Rightarrow> scope_stack \<Rightarrow> string option" where
  "Scope_lookup symbolName [] = None"
| "Scope_lookup symbolName (t # parents) =
    (case map_of t symbolName of Some ty \<Rightarrow> Some ty | None \<Rightarrow> Scope_lookup symbolName parents)"

definition enterScope :: "scope_stack \<Rightarrow> scope_stack" where
  "enterScope s = [] # s"

definition exitScope :: "scope_stack \<Rightarrow> scope_stack" where
  "exitScope s = (if s \<noteq> [] then tl s else s)"

fun ScopeManager_addSymbol :: "string \<Rightarrow> string \<Rightarrow> scope_stack \<Rightarrow> scope_stack" where
  "ScopeManager_addSymbol symbolName symbolType [] = []"
| "ScopeManager_addSymbol symbolName symbolType (t # s) = Scope_addSymbol symbolName symbolType t # s"

fun ScopeManager_clearTable :: "scope_stack \<Rightarrow> scope_stack" where
  "ScopeManager_clearTable [] = []"
| "ScopeManager_clearTable (t # s) = [] # s"

fun ScopeManager_getType :: "string \<Rightarrow> scope_stack \<Rightarrow> string option" where
  "ScopeManager_getType symbolName [] = None"
| "ScopeManager_getType symbolName (t # s) = Scope_getType symbolName t"

definition ScopeManager_lookup :: "string \<Rightarrow> scope_stack \<Rightarrow> string option" where
  "ScopeManager_lookup symbolName s = (if s \<noteq> [] then Scope_lookup symbolName s else None)"

subsection \<open>The analyser\<close>

datatype ASTNode = ASTNode (nodeType: string) (node_value: string) (elements: "ASTNode list")

record analyzer =
  scopeManager :: scope_stack
  temp :: symbol_table

definition SemanticAnalyzer_new :: analyzer where
  "SemanticAnalyzer_new = \<lparr>scopeManager = enterScope [], temp = []\<rparr>"

definition checkVariableDeclarations :: "ASTNode \<Rightarrow> string \<Rightarrow> analyzer \<Rightarrow> bool \<times> analyzer" where
  "checkVariableDeclarations node type a =
    (case ScopeManager_lookup (node_value node) (scopeManager a) of
      None \<Rightarrow> (True, a\<lparr>scopeManager := ScopeManager_addSymbol (node_value node) type (scopeManager a)\<rparr>)
    | Some t \<Rightarrow> (t = type, a))"

definition checkVariableUsage :: "ASTNode \<Rightarrow> string \<Rightarrow> analyzer \<Rightarrow> bool" where
  "checkVariableUsage node type a =
    (case ScopeManager_lookup (node_value node) (scopeManager a) of
      None \<Rightarrow> False
    | Some t \<Rightarrow> type = ''ANY'' \<or> t = type \<or>
        type = ''LOOKUP'' \<and> (t = ''NODE'' \<or> t = ''RELATIONSHIP'' \<or> t = ''MAP''))"

text \<open>\<open>if (!first) return false;\<close> followed by the rest.\<close>

definition unless_false ::
  "(bool \<times> 's) option \<Rightarrow> ('s \<Rightarrow> (bool \<times> 's) option) \<Rightarrow> (bool \<times> 's) option" where
  "unless_false m k = (case m of None \<Rightarrow> None | Some (ok, s) \<Rightarrow> if ok then k s else Some (False, s))"

lemma unless_false_cong [fundef_cong]:
  "m = m' \<Longrightarrow> (\<And>s. m' = Some (True, s) \<Longrightarrow> k s = k' s) \<Longrightarrow> unless_false m k = unless_false m' k'"
  by (auto simp: unless_false_def split: option.splits)

lemma unless_false_True:
  "unless_false m k = Some (True, s) \<longleftrightarrow> (\<exists>s'. m = Some (True, s') \<and> k s' = Some (True, s))"
  by (auto simp: unless_false_def split: option.splits)

text \<open>
  The items of a \<^verbatim>\<open>WITH\<close> clause: the table of the variables that are carried on is collected in
  \<^verbatim>\<open>temp\<close>. The result is \<^const>\<open>None\<close> where \<^verbatim>\<open>symbolTable->at\<close> throws, and where an element that does not
  exist is accessed.
\<close>

definition item_type :: "ASTNode \<Rightarrow> analyzer \<Rightarrow> string option" where
  "item_type e a =
    (if nodeType e = ''VARIABLE'' then ScopeManager_getType (node_value e) (scopeManager a)
     else if nodeType e = ''PROPERTIES_MAP'' then Some ''MAP''
     else if nodeType e = ''LIST'' then Some ''LIST''
     else Some ''ANY'')"

definition temp_insert :: "string \<Rightarrow> string \<Rightarrow> analyzer \<Rightarrow> analyzer" where
  "temp_insert n t a = a\<lparr>temp := Scope_addSymbol n t (temp a)\<rparr>"

fun with_items :: "ASTNode list \<Rightarrow> analyzer \<Rightarrow> (bool \<times> analyzer) option" where
  "with_items [] a = Some (True, a)"
| "with_items (child # cs) a =
    (if nodeType child = ''AS'' then
       (case elements child of e0 # e1 # _ \<Rightarrow> do {
          t \<leftarrow> item_type e0 a;
          with_items cs (temp_insert (node_value e1) t a)
        } | _ \<Rightarrow> None)
     else if nodeType child = ''VARIABLE'' then do {
       t \<leftarrow> ScopeManager_getType (node_value child) (scopeManager a);
       with_items cs (temp_insert (node_value child) t a)
     }
     else Some (False, a))"

definition carry_on :: "analyzer \<Rightarrow> analyzer" where
  "carry_on a = a\<lparr>scopeManager := fold (\<lambda>(n, t). ScopeManager_addSymbol n t) (temp a)
    (ScopeManager_clearTable (scopeManager a))\<rparr>"

definition with_clause :: "ASTNode list \<Rightarrow> analyzer \<Rightarrow> (bool \<times> analyzer) option" where
  "with_clause es a =
    (case es of e0 # _ \<Rightarrow>
       (case elements e0 of node # _ \<Rightarrow>
          unless_false (with_items (elements node) (a\<lparr>temp := []\<rparr>)) (\<lambda>a. Some (True, carry_on a))
        | [] \<Rightarrow> None)
     | [] \<Rightarrow> None)"

definition alias_type :: "ASTNode \<Rightarrow> string" where
  "alias_type e =
    (if nodeType e = ''LIST'' \<or> nodeType e = ''LIST_COMPREHENSION'' then ''LIST''
     else if nodeType e = ''PROPERTIES_MAP'' then ''MAP''
     else ''ANY'')"

text \<open>
  \<^verbatim>\<open>elements[i]\<close> of a vector that is too short is undefined behaviour. The arguments that a recursive
  call leaves out have the default values \<^const>\<open>False\<close> and \<open>''ANY''\<close>.
\<close>

fun analyze :: "ASTNode \<Rightarrow> bool \<Rightarrow> string \<Rightarrow> analyzer \<Rightarrow> (bool \<times> analyzer) option"
  and analyze_all :: "ASTNode list \<Rightarrow> analyzer \<Rightarrow> (bool \<times> analyzer) option" where
  "analyze (ASTNode nt v es) canDefine type a =
    (if nt = ''VARIABLE'' \<and> canDefine then Some (checkVariableDeclarations (ASTNode nt v es) type a)
     else if nt = ''VARIABLE'' then Some (checkVariableUsage (ASTNode nt v es) type a, a)
     else if nt = ''AS'' then
       (case es of [] \<Rightarrow> None | e0 # rest \<Rightarrow>
          unless_false (analyze e0 False ''ANY'' a) (\<lambda>a.
          case rest of [] \<Rightarrow> None | e1 # _ \<Rightarrow>
            if nodeType e1 \<noteq> ''VARIABLE'' then Some (False, a) else analyze e1 True (alias_type e0) a))
     else if nt = ''YIELD'' then
       (case es of [] \<Rightarrow> None | e0 # _ \<Rightarrow>
          unless_false (if nodeType e0 = ''AS'' then analyze e0 False ''STRING'' a else Some (True, a))
            (\<lambda>a. analyze e0 True ''STRING'' a))
     else if nt = ''='' then
       (case es of [] \<Rightarrow> None | e0 # rest \<Rightarrow>
          unless_false (analyze e0 True (if nt = ''PATTERN_ELEMENTS'' then ''PATH_PATTERN'' else ''ANY'') a) (\<lambda>a.
          case rest of [] \<Rightarrow> None | e1 # _ \<Rightarrow> analyze e1 False ''ANY'' a))
     else if nt = ''NODE_PATTERN'' \<and> es \<noteq> [] then
       (case es of [] \<Rightarrow> None | e0 # rest \<Rightarrow>
          unless_false (if nodeType e0 = ''VARIABLE'' then analyze e0 True ''NODE'' a else Some (True, a))
            (\<lambda>a. analyze_all rest a))
     else if nt = ''RELATIONSHIP_DETAILS'' \<and> es \<noteq> [] then
       (case es of [] \<Rightarrow> None | e0 # rest \<Rightarrow>
          unless_false (if nodeType e0 = ''VARIABLE'' then analyze e0 True ''RELATIONSHIP'' a else Some (True, a))
            (\<lambda>a. analyze_all rest a))
     else if nt = ''LIST_ITERATE'' then
       (case es of [] \<Rightarrow> None | e0 # rest \<Rightarrow>
          unless_false (analyze e0 True ''ANY'' a) (\<lambda>a.
          case rest of [] \<Rightarrow> None | e1 # _ \<Rightarrow> analyze e1 False ''ANY'' a))
     else if nt = ''NON_ARITHMETIC_OPERATOR'' then
       (case es of [] \<Rightarrow> None | e0 # rest \<Rightarrow>
          if nodeType e0 = ''VARIABLE'' then
            (case rest of [] \<Rightarrow> None | e1 # _ \<Rightarrow>
               if nodeType e1 = ''LIST_INDEX_RANGE'' then analyze e0 False ''LIST'' a
               else if nodeType e1 = ''LIST_INDEX'' then
                 (case elements e1 of [] \<Rightarrow> None | i # _ \<Rightarrow>
                    if nodeType i = ''DECIMAL'' then analyze e0 False ''LIST'' a else Some (True, a))
               else if nodeType e1 = ''PROPERTY_LOOKUP'' then analyze e0 False ''LOOKUP'' a
               else Some (True, a))
          else analyze_all es a)
     else if nt = ''EXISTS'' then
       unless_false (analyze_all es (a\<lparr>scopeManager := enterScope (scopeManager a)\<rparr>))
         (\<lambda>a. Some (True, a\<lparr>scopeManager := exitScope (scopeManager a)\<rparr>))
     else if nt = ''WITH'' then unless_false (analyze_all es a) (with_clause es)
     else analyze_all es a)"
| "analyze_all [] a = Some (True, a)"
| "analyze_all (e # es) a = unless_false (analyze e False ''ANY'' a) (analyze_all es)"

declare analyze.simps [simp del]

subsection \<open>The children that are analysed\<close>

text \<open>
  Tools of the proofs. \<open>visited\<close> lists the children of a node that are analysed, in order and with the arguments of the call;
  \<open>occurrences\<close> the variables that are met outside existential subqueries, each with the flag whether
  it may be declared there and with the type asked for.
\<close>

abbreviation plain_children :: "ASTNode list \<Rightarrow> (ASTNode \<times> bool \<times> string) list" where
  "plain_children \<equiv> map (\<lambda>e. (e, False, ''ANY''))"

definition pattern_children :: "string \<Rightarrow> ASTNode list \<Rightarrow> (ASTNode \<times> bool \<times> string) list" where
  "pattern_children type es =
    (case es of [] \<Rightarrow> [] | e0 # rest \<Rightarrow>
      (if nodeType e0 = ''VARIABLE'' then [(e0, True, type)] else []) @ plain_children rest)"

definition operand_children :: "ASTNode list \<Rightarrow> (ASTNode \<times> bool \<times> string) list" where
  "operand_children es =
    (case es of e0 # e1 # _ \<Rightarrow>
       if nodeType e1 = ''LIST_INDEX_RANGE'' \<or>
         nodeType e1 = ''LIST_INDEX'' \<and> elements e1 \<noteq> [] \<and> nodeType (hd (elements e1)) = ''DECIMAL''
       then [(e0, False, ''LIST'')]
       else if nodeType e1 = ''PROPERTY_LOOKUP'' then [(e0, False, ''LOOKUP'')] else []
     | _ \<Rightarrow> [])"

definition visited :: "ASTNode \<Rightarrow> (ASTNode \<times> bool \<times> string) list" where
  "visited n =
    (let nt = nodeType n; es = elements n in
     if nt = ''AS'' then (case es of e0 # e1 # _ \<Rightarrow> [(e0, False, ''ANY''), (e1, True, alias_type e0)] | _ \<Rightarrow> [])
     else if nt = ''YIELD'' then
       (case es of [] \<Rightarrow> [] | e0 # _ \<Rightarrow>
         (if nodeType e0 = ''AS'' then [(e0, False, ''STRING'')] else []) @ [(e0, True, ''STRING'')])
     else if nt = ''='' \<or> nt = ''LIST_ITERATE'' then
       (case es of e0 # e1 # _ \<Rightarrow> [(e0, True, ''ANY''), (e1, False, ''ANY'')] | _ \<Rightarrow> [])
     else if nt = ''NODE_PATTERN'' then pattern_children ''NODE'' es
     else if nt = ''RELATIONSHIP_DETAILS'' then pattern_children ''RELATIONSHIP'' es
     else if nt = ''NON_ARITHMETIC_OPERATOR'' \<and> es \<noteq> [] \<and> nodeType (hd es) = ''VARIABLE'' then operand_children es
     else plain_children es)"

lemma visited_elements: "(c, d, t) \<in> set (visited n) \<Longrightarrow> c \<in> set (elements n)"
  by (auto simp: visited_def pattern_children_def operand_children_def Let_def
      split: list.splits if_splits)

lemma visited_smaller: "(c, d, t) \<in> set (visited n) \<Longrightarrow> size c < size n"
proof -
  assume "(c, d, t) \<in> set (visited n)"
  then have "c \<in> set (elements n)"
    by (rule visited_elements)
  then show "size c < size n"
    by (cases n) (simp add: less_Suc_eq_le size_list_estimation' [OF _ order_refl])
qed

function occurrences :: "ASTNode \<Rightarrow> bool \<Rightarrow> string \<Rightarrow> (string \<times> bool \<times> string) list" where
  "occurrences n d ty =
    (if nodeType n = ''VARIABLE'' then [(node_value n, d, ty)]
     else if nodeType n = ''EXISTS'' then []
     else concat (map (\<lambda>(c, d', ty'). occurrences c d' ty') (visited n)))"
  by pat_completeness auto
termination
  by (relation "measure (\<lambda>(n, d, ty). size n)") (auto dest: visited_smaller)

declare occurrences.simps [simp del]

fun visit :: "(ASTNode \<times> bool \<times> string) list \<Rightarrow> analyzer \<Rightarrow> (bool \<times> analyzer) option" where
  "visit [] a = Some (True, a)"
| "visit ((c, d, ty) # cs) a = unless_false (analyze c d ty a) (visit cs)"

lemma analyze_all_visit: "analyze_all es a = visit (plain_children es) a"
  by (induction es arbitrary: a) (simp_all add: unless_false_def split: option.splits)

lemma node_kinds:
  obtains "nt = ''AS''" | "nt = ''YIELD''" | "nt = ''=''" | "nt = ''LIST_ITERATE''" | "nt = ''NODE_PATTERN''"
    | "nt = ''RELATIONSHIP_DETAILS''" | "nt = ''NON_ARITHMETIC_OPERATOR''"
    | "nt \<notin> {''AS'', ''YIELD'', ''='', ''LIST_ITERATE'', ''NODE_PATTERN'', ''RELATIONSHIP_DETAILS'',
      ''NON_ARITHMETIC_OPERATOR''}"
  by (simp only: insert_iff empty_iff simp_thms de_Morgan_disj) blast

lemma analyze_visits:
  assumes "nt \<notin> {''VARIABLE'', ''EXISTS'', ''WITH''}"
    and "analyze (ASTNode nt v es) d ty a = Some (True, a')"
  shows "visit (visited (ASTNode nt v es)) a = Some (True, a')"
proof -
  note defs = analyze.simps visited_def pattern_children_def operand_children_def analyze_all_visit
    unless_false_True
  show ?thesis
  proof (cases nt rule: node_kinds)
    case 1 then show ?thesis using assms(2) by (auto simp: defs split: if_splits list.splits)
  next
    case 2 then show ?thesis using assms(2) by (auto simp: defs split: if_splits list.splits)
  next
    case 3 then show ?thesis using assms(2) by (auto simp: defs split: if_splits list.splits)
  next
    case 4 then show ?thesis using assms(2) by (auto simp: defs split: if_splits list.splits)
  next
    case 5 then show ?thesis using assms(2) by (cases es) (auto simp: defs split: if_splits)
  next
    case 6 then show ?thesis using assms(2) by (cases es) (auto simp: defs split: if_splits)
  next
    case 7 then show ?thesis using assms(2) by (auto simp: defs split: if_splits list.splits)
  next
    case 8 then show ?thesis using assms by (simp add: defs)
  qed
qed

subsection \<open>Consistent types\<close>

definition usable :: "string \<Rightarrow> string \<Rightarrow> bool" where
  "usable type t \<longleftrightarrow> type = ''ANY'' \<or> t = type \<or> type = ''LOOKUP'' \<and> t \<in> {''NODE'', ''RELATIONSHIP'', ''MAP''}"

definition typed_in :: "scope_stack \<Rightarrow> string \<times> bool \<times> string \<Rightarrow> bool" where
  "typed_in s = (\<lambda>(v, d, type). \<exists>t. Scope_lookup v s = Some t \<and> (if d then t = type else usable type t))"

definition grows :: "scope_stack \<Rightarrow> scope_stack \<Rightarrow> bool" where
  "grows s s' \<longleftrightarrow> s' \<noteq> [] \<and> tl s' = tl s \<and> (\<forall>v t. Scope_lookup v s = Some t \<longrightarrow> Scope_lookup v s' = Some t)"

text \<open>\<open>''LOOKUP''\<close> is asked for, but no variable is declared with it.\<close>

definition no_lookup_type :: "scope_stack \<Rightarrow> bool" where
  "no_lookup_type s \<longleftrightarrow> (\<forall>v. Scope_lookup v s \<noteq> Some ''LOOKUP'')"

primrec no_with :: "ASTNode \<Rightarrow> bool" where
  "no_with (ASTNode nt v es) = (nt \<noteq> ''WITH'' \<and> list_all (\<lambda>b. b) (map no_with es))"

lemma scope_grows_refl: "s \<noteq> [] \<Longrightarrow> grows s s"
  by (simp add: grows_def)

lemma scope_grows_trans: "grows s s' \<Longrightarrow> grows s' s'' \<Longrightarrow> grows s s''"
  by (simp add: grows_def)

lemma typed_grows: "typed_in s q \<Longrightarrow> grows s s' \<Longrightarrow> typed_in s' q"
  by (auto simp: typed_in_def grows_def split: prod.splits)

lemma addSymbol_map_of: "Scope_addSymbol n t tb = (if map_of tb n = None then tb @ [(n, t)] else tb)"
  by (simp add: Scope_addSymbol_def map_of_eq_None_iff)

lemma lookup_added:
  "s \<noteq> [] \<Longrightarrow> Scope_lookup v s = None \<Longrightarrow>
    Scope_lookup u (ScopeManager_addSymbol v t s) = (if u = v then Some t else Scope_lookup u s)"
  by (cases s) (auto simp: addSymbol_map_of map_add_def split: option.splits)

lemma addSymbol_tl: "tl (ScopeManager_addSymbol v t s) = tl s" "ScopeManager_addSymbol v t s = [] \<longleftrightarrow> s = []"
  by (cases s; simp)+

lemma declaration_typed:
  assumes "checkVariableDeclarations n type a = (True, a')" "scopeManager a \<noteq> []"
  shows "grows (scopeManager a) (scopeManager a') \<and> typed_in (scopeManager a') (node_value n, True, type) \<and>
    (type \<noteq> ''LOOKUP'' \<and> no_lookup_type (scopeManager a) \<longrightarrow> no_lookup_type (scopeManager a'))"
  using assms
  by (auto simp: checkVariableDeclarations_def ScopeManager_lookup_def grows_def typed_in_def lookup_added
      addSymbol_tl no_lookup_type_def split: option.splits if_splits)

lemma visited_declared: "(c, True, ty) \<in> set (visited n) \<Longrightarrow> ty \<noteq> ''LOOKUP''"
  by (auto simp: visited_def pattern_children_def operand_children_def Let_def alias_type_def split: list.splits if_splits)

lemma usage_typed:
  assumes "checkVariableUsage n type a" "scopeManager a \<noteq> []"
  shows "typed_in (scopeManager a) (node_value n, False, type)"
  using assms
  by (auto simp: checkVariableUsage_def ScopeManager_lookup_def typed_in_def usable_def split: option.splits)

text \<open>What an accepted call guarantees, and that it is enough to show it for the visited children.\<close>

definition sound_call :: "ASTNode \<Rightarrow> bool" where
  "sound_call n \<longleftrightarrow> (\<forall>d ty a a'. no_with n \<longrightarrow> scopeManager a \<noteq> [] \<longrightarrow> analyze n d ty a = Some (True, a') \<longrightarrow>
    grows (scopeManager a) (scopeManager a') \<and>
    (\<forall>q\<in>set (occurrences n d ty). typed_in (scopeManager a') q) \<and>
    ((d \<longrightarrow> ty \<noteq> ''LOOKUP'') \<and> no_lookup_type (scopeManager a) \<longrightarrow> no_lookup_type (scopeManager a')))"

lemma visit_sound:
  assumes "\<And>c d ty. (c, d, ty) \<in> set cs \<Longrightarrow> sound_call c \<and> no_with c" "scopeManager a \<noteq> []"
    and "visit cs a = Some (True, a')" "\<forall>(c, d, ty)\<in>set cs. d \<longrightarrow> ty \<noteq> ''LOOKUP''"
  shows "grows (scopeManager a) (scopeManager a') \<and>
    (\<forall>(c, d, ty)\<in>set cs. \<forall>q\<in>set (occurrences c d ty). typed_in (scopeManager a') q) \<and>
    (no_lookup_type (scopeManager a) \<longrightarrow> no_lookup_type (scopeManager a'))"
  using assms
proof (induction cs arbitrary: a)
  case Nil
  then show ?case by (simp add: scope_grows_refl)
next
  case (Cons x cs)
  obtain c d ty where x: "x = (c, d, ty)" by (cases x)
  obtain b where b: "analyze c d ty a = Some (True, b)" "visit cs b = Some (True, a')"
    using Cons.prems(3) by (auto simp: x unless_false_True)
  have ty: "d \<longrightarrow> ty \<noteq> ''LOOKUP''" "\<forall>(c, d, ty)\<in>set cs. d \<longrightarrow> ty \<noteq> ''LOOKUP''"
    using Cons.prems(4) by (simp_all add: x)
  have 1: "grows (scopeManager a) (scopeManager b)" "\<forall>q\<in>set (occurrences c d ty). typed_in (scopeManager b) q"
    "no_lookup_type (scopeManager a) \<longrightarrow> no_lookup_type (scopeManager b)"
    using Cons.prems(1) [of c d ty] Cons.prems(2) b(1) ty(1) by (auto simp: x sound_call_def)
  have "scopeManager b \<noteq> []"
    using 1(1) by (simp add: grows_def)
  then have 2: "grows (scopeManager b) (scopeManager a')"
    "\<forall>(c, d, ty)\<in>set cs. \<forall>q\<in>set (occurrences c d ty). typed_in (scopeManager a') q"
    "no_lookup_type (scopeManager b) \<longrightarrow> no_lookup_type (scopeManager a')"
    using Cons.IH [OF _ _ b(2) ty(2)] Cons.prems(1) list.set_intros(2) [of _ cs x] by blast+
  show ?case
    using 1 2 by (auto simp: x intro: scope_grows_trans typed_grows)
qed

lemma analyze_sound: "sound_call n"
proof (induction n)
  case (ASTNode nt v es)
  show ?case
    unfolding sound_call_def
  proof (intro allI impI)
    fix d ty a a'
    assume nw: "no_with (ASTNode nt v es)" and s: "scopeManager a \<noteq> []"
      and an: "analyze (ASTNode nt v es) d ty a = Some (True, a')"
    have sub: "sound_call e \<and> no_with e" if "e \<in> set es" for e
      using ASTNode that nw by (simp add: list_all_iff)
    show "grows (scopeManager a) (scopeManager a') \<and>
      (\<forall>q\<in>set (occurrences (ASTNode nt v es) d ty). typed_in (scopeManager a') q) \<and>
      ((d \<longrightarrow> ty \<noteq> ''LOOKUP'') \<and> no_lookup_type (scopeManager a) \<longrightarrow> no_lookup_type (scopeManager a'))"
    proof (cases "nt = ''VARIABLE'' \<or> nt = ''EXISTS''")
      case True
      then show ?thesis
      proof
        assume "nt = ''VARIABLE''"
        then show ?thesis
          using an s declaration_typed [of "ASTNode nt v es" ty a a'] usage_typed [of "ASTNode nt v es" ty a]
          by (auto simp: analyze.simps occurrences.simps scope_grows_refl split: if_splits)
      next
        assume nt: "nt = ''EXISTS''"
        let ?b = "a\<lparr>scopeManager := enterScope (scopeManager a)\<rparr>"
        obtain b where b: "analyze_all es ?b = Some (True, b)" "a' = b\<lparr>scopeManager := exitScope (scopeManager b)\<rparr>"
          using an by (auto simp: analyze.simps nt unless_false_True)
        have "grows (scopeManager ?b) (scopeManager b)"
          using visit_sound [of "plain_children es" ?b b] b(1) sub by (auto simp: analyze_all_visit enterScope_def)
        then have "scopeManager a' = scopeManager a"
          by (simp add: b(2) grows_def enterScope_def exitScope_def)
        then show ?thesis
          using s by (simp add: nt occurrences.simps scope_grows_refl)
      qed
    next
      case False
      let ?n = "ASTNode nt v es"
      have "visit (visited ?n) a = Some (True, a')"
        using analyze_visits [OF _ an] nw False by simp
      moreover have "\<forall>(c, d, ty)\<in>set (visited ?n). d \<longrightarrow> ty \<noteq> ''LOOKUP''"
        using visited_declared [of _ _ ?n] by fastforce
      moreover have "sound_call c \<and> no_with c" if "(c, d, ty) \<in> set (visited ?n)" for c d ty
        using visited_elements [OF that] sub by simp
      ultimately have "grows (scopeManager a) (scopeManager a') \<and>
          (\<forall>(c, d, ty)\<in>set (visited ?n). \<forall>q\<in>set (occurrences c d ty). typed_in (scopeManager a') q) \<and>
          (no_lookup_type (scopeManager a) \<longrightarrow> no_lookup_type (scopeManager a'))"
        using visit_sound [OF _ s, of "visited ?n" a'] by blast
      then show ?thesis
        using False by (auto simp: occurrences.simps [of ?n] split: prod.splits)
    qed
  qed
qed

lemma analyze_accepted:
  assumes "no_with n" "scopeManager a \<noteq> []" "analyze n d ty a = Some (True, a')"
  shows "grows (scopeManager a) (scopeManager a')" "\<forall>q\<in>set (occurrences n d ty). typed_in (scopeManager a') q"
    and "(d \<longrightarrow> ty \<noteq> ''LOOKUP'') \<Longrightarrow> no_lookup_type (scopeManager a) \<Longrightarrow> no_lookup_type (scopeManager a')"
  using analyze_sound [of n] assms unfolding sound_call_def by metis+

text \<open>
  A tree has the elements that the analyser accesses; this is the shape of the trees of \<^verbatim>\<open>ASTBuilder\<close>.
\<close>

definition arity :: "string \<Rightarrow> ASTNode list \<Rightarrow> bool" where
  "arity nt es \<longleftrightarrow>
    (nt \<in> {''AS'', ''='', ''LIST_ITERATE''} \<longrightarrow> 2 \<le> length es) \<and>
    (nt \<in> {''YIELD'', ''NON_ARITHMETIC_OPERATOR''} \<longrightarrow> es \<noteq> []) \<and>
    (nt = ''NON_ARITHMETIC_OPERATOR'' \<and> nodeType (hd es) = ''VARIABLE'' \<longrightarrow>
      2 \<le> length es \<and> (nodeType (es ! 1) = ''LIST_INDEX'' \<longrightarrow> elements (es ! 1) \<noteq> []))"

primrec shaped :: "ASTNode \<Rightarrow> bool" where
  "shaped (ASTNode nt v es) = (arity nt es \<and> list_all (\<lambda>b. b) (map shaped es))"

lemma unless_false_None:
  "unless_false m k = None \<longleftrightarrow> m = None \<or> (\<exists>s. m = Some (True, s) \<and> k s = None)"
  by (auto simp: unless_false_def split: option.splits)

lemma analyze_all_returns: "(\<And>e a. e \<in> set es \<Longrightarrow> analyze e False ''ANY'' a \<noteq> None) \<Longrightarrow> analyze_all es a \<noteq> None"
  by (induction es arbitrary: a) (auto simp: unless_false_None)

lemma analyze_returns_some: "shaped n \<Longrightarrow> no_with n \<Longrightarrow> analyze n d ty a \<noteq> None"
proof (induction n arbitrary: d ty a)
  case (ASTNode nt v es)
  have sub: "analyze e d ty a \<noteq> None" if "e \<in> set es" for e d ty a
    using ASTNode that by (auto simp: list_all_iff)
  have all: "analyze_all es' a \<noteq> None" if "set es' \<subseteq> set es" for es' a
    using that sub by (intro analyze_all_returns) blast
  have tails: "analyze_all (tl es) a \<noteq> None" for a
    by (rule all) (cases es, auto)
  have ar: "arity nt es" and nw: "nt \<noteq> ''WITH''"
    using ASTNode.prems by simp_all
  note not_None_eq [iff del]
  note defs = analyze.simps arity_def unless_false_None
  show ?case
  proof (cases nt rule: node_kinds)
    case 1 then show ?thesis using ar sub by (auto simp: defs split: list.splits)
  next
    case 2 then show ?thesis using ar sub by (auto simp: defs split: list.splits)
  next
    case 3 then show ?thesis using ar sub by (auto simp: defs split: list.splits)
  next
    case 4 then show ?thesis using ar sub by (auto simp: defs split: list.splits)
  next
    case 5 then show ?thesis using sub tails by (cases es) (auto simp: defs)
  next
    case 6 then show ?thesis using sub tails by (cases es) (auto simp: defs)
  next
    case 7 then show ?thesis using ar sub all [of es] by (auto simp: defs split: list.splits)
  next
    case 8 then show ?thesis using nw all [of es] by (auto simp: defs)
  qed
qed

subsection \<open>Properties\<close>

text \<open>A query in the notation of Cypher: \<^verbatim>\<open>MATCH (n)-[r]->() WHERE n.age AND EXISTS {(m)} RETURN r\<close>.\<close>

definition leaf :: "string \<Rightarrow> string \<Rightarrow> ASTNode" where
  "leaf nt v = ASTNode nt v []"

definition tree :: "string \<Rightarrow> ASTNode list \<Rightarrow> ASTNode" where
  "tree nt es = ASTNode nt '''' es"

definition sample_query :: ASTNode where
  "sample_query = tree ''SINGLE_QUERY''
    [tree ''MATCH''
      [tree ''PATTERN_ELEMENTS''
        [tree ''NODE_PATTERN'' [leaf ''VARIABLE'' ''n''],
         tree ''RELATIONSHIP_DETAILS'' [leaf ''VARIABLE'' ''r''],
         tree ''NODE_PATTERN'' []],
       tree ''WHERE''
         [tree ''AND''
           [tree ''NON_ARITHMETIC_OPERATOR'' [leaf ''VARIABLE'' ''n'', tree ''PROPERTY_LOOKUP'' [leaf ''RESERVED_WORD'' ''age'']],
            tree ''EXISTS'' [tree ''NODE_PATTERN'' [leaf ''VARIABLE'' ''m'']]]]],
     tree ''RETURN'' [tree ''RETURN_BODY'' [leaf ''VARIABLE'' ''r'']]]"

definition sample_end :: analyzer where
  "sample_end = \<lparr>scopeManager = [[(''n'', ''NODE''), (''r'', ''RELATIONSHIP'')]], temp = []\<rparr>"

lemma sample_query_accepted:
  "analyze sample_query False ''ANY'' SemanticAnalyzer_new = Some (True, sample_end)"
  "no_with sample_query" "shaped sample_query"
  by (simp_all add: sample_query_def tree_def leaf_def analyze.simps unless_false_def checkVariableDeclarations_def
      checkVariableUsage_def ScopeManager_lookup_def SemanticAnalyzer_new_def enterScope_def exitScope_def
      Scope_addSymbol_def sample_end_def arity_def)

text \<open>
  Typing, as a condition on every node of the tree by itself: the variable of a node pattern is a node, that of
  a relationship pattern a relationship, properties are read from nodes, relationships and maps, lists are
  indexed and sliced, aliases of lists and maps are lists and maps, and yielded variables are strings.
\<close>

definition node_typed :: "symbol_table \<Rightarrow> ASTNode \<Rightarrow> bool" where
  "node_typed table m \<longleftrightarrow>
    (nodeType m = ''VARIABLE'' \<longrightarrow> map_of table (node_value m) \<noteq> None) \<and>
    (case elements m of [] \<Rightarrow> True | x # rest \<Rightarrow>
      (let ty = map_of table (node_value x) in
       (nodeType x = ''VARIABLE'' \<longrightarrow>
         (nodeType m = ''NODE_PATTERN'' \<longrightarrow> ty = Some ''NODE'') \<and>
         (nodeType m = ''RELATIONSHIP_DETAILS'' \<longrightarrow> ty = Some ''RELATIONSHIP'') \<and>
         (nodeType m = ''YIELD'' \<longrightarrow> ty = Some ''STRING'')) \<and>
       (case rest of [] \<Rightarrow> True | y # _ \<Rightarrow>
         (nodeType m = ''NON_ARITHMETIC_OPERATOR'' \<and> nodeType x = ''VARIABLE'' \<longrightarrow>
           (nodeType y = ''PROPERTY_LOOKUP'' \<longrightarrow> ty \<in> {Some ''NODE'', Some ''RELATIONSHIP'', Some ''MAP''}) \<and>
           (nodeType y \<in> {''LIST_INDEX'', ''LIST_INDEX_RANGE''} \<longrightarrow> ty = Some ''LIST'')) \<and>
         (nodeType m = ''AS'' \<and> nodeType y = ''VARIABLE'' \<longrightarrow>
           (nodeType x \<in> {''LIST'', ''LIST_COMPREHENSION''} \<longrightarrow> map_of table (node_value y) = Some ''LIST'') \<and>
           (nodeType x = ''PROPERTIES_MAP'' \<longrightarrow> map_of table (node_value y) = Some ''MAP'')))))"

text \<open>The nodes of a tree outside existential subqueries.\<close>

primrec subnodes :: "ASTNode \<Rightarrow> ASTNode list" where
  "subnodes (ASTNode nt v es) = ASTNode nt v es # (if nt = ''EXISTS'' then [] else concat (map subnodes es))"

definition variable_free :: "ASTNode \<Rightarrow> bool" where
  "variable_free n \<longleftrightarrow> list_all (\<lambda>m. nodeType m \<noteq> ''VARIABLE'') (subnodes n)"

text \<open>
  The children of a node that the analysis does not look at. In \<^verbatim>\<open>x[i]\<close> with an index that is not a decimal
  literal, this includes \<^verbatim>\<open>x\<close>.
\<close>

definition skipped :: "ASTNode \<Rightarrow> ASTNode list" where
  "skipped n =
    (let nt = nodeType n; es = elements n in
     if nt = ''VARIABLE'' then es
     else if nt \<in> {''AS'', ''='', ''LIST_ITERATE''} then drop 2 es
     else if nt = ''YIELD'' then drop 1 es
     else if nt \<in> {''NODE_PATTERN'', ''RELATIONSHIP_DETAILS''} then filter (\<lambda>e. nodeType e \<noteq> ''VARIABLE'') (take 1 es)
     else if nt = ''NON_ARITHMETIC_OPERATOR'' then
       (case es of x # y # _ \<Rightarrow>
          if nodeType x \<noteq> ''VARIABLE'' then []
          else if nodeType y \<in> {''LIST_INDEX_RANGE'', ''PROPERTY_LOOKUP''} \<or>
            nodeType y = ''LIST_INDEX'' \<and> elements y \<noteq> [] \<and> nodeType (hd (elements y)) = ''DECIMAL''
          then drop 1 es else es
        | _ \<Rightarrow> [])
     else [])"

definition no_gaps :: "ASTNode \<Rightarrow> bool" where
  "no_gaps n \<longleftrightarrow> list_all (\<lambda>m. list_all variable_free (skipped m)) (subnodes n)"

lemma subnodes_self: "n \<in> set (subnodes n)"
  by (cases n) simp

lemma subnodes_trans: "m \<in> set (subnodes n) \<Longrightarrow> set (subnodes m) \<subseteq> set (subnodes n)"
  by (induction n) (auto split: if_splits)

lemma subnodes_child: "c \<in> set (elements n) \<Longrightarrow> nodeType n \<noteq> ''EXISTS'' \<Longrightarrow> set (subnodes c) \<subseteq> set (subnodes n)"
  by (cases n) auto

lemma variable_free_sub: "variable_free n \<Longrightarrow> m \<in> set (subnodes n) \<Longrightarrow> variable_free m"
  using subnodes_trans [of m n] by (auto simp: variable_free_def list_all_iff)

lemma not_skipped_visited:
  assumes "arity (nodeType n) (elements n)" "c \<in> set (elements n)" "c \<notin> set (skipped n)" "nodeType n \<noteq> ''VARIABLE''"
  shows "\<exists>d ty. (c, d, ty) \<in> set (visited n)"
proof -
  obtain nt v es where n: "n = ASTNode nt v es" by (cases n)
  note defs = visited_def skipped_def arity_def pattern_children_def operand_children_def Let_def
  note a = assms [unfolded n ASTNode.sel]
  show ?thesis unfolding n
    by (cases nt rule: node_kinds; cases es; cases "tl es") (use a in \<open>auto simp: defs split: if_splits\<close>)
qed

lemma occurrences_visited:
  assumes "(c, d', ty') \<in> set (visited n)" "nodeType n \<noteq> ''VARIABLE''" "nodeType n \<noteq> ''EXISTS''"
  shows "set (occurrences c d' ty') \<subseteq> set (occurrences n d ty)"
  using assms by (subst occurrences.simps [of n]) force

lemma subnode_occurrences:
  assumes "no_gaps n" "shaped n" "m \<in> set (subnodes n)" "\<not> variable_free m"
  shows "\<exists>d' ty'. set (occurrences m d' ty') \<subseteq> set (occurrences n d ty)"
  using assms
proof (induction n arbitrary: d ty)
  case (ASTNode nt v es)
  let ?n = "ASTNode nt v es"
  show ?case
  proof (cases "m = ?n")
    case False
    then obtain c where c: "c \<in> set es" "m \<in> set (subnodes c)" "nt \<noteq> ''EXISTS''"
      using ASTNode.prems(3) by (auto split: if_splits)
    have full: "\<not> variable_free c" using variable_free_sub [OF _ c(2)] ASTNode.prems(4) by blast
    have "list_all variable_free (skipped ?n)"
      using ASTNode.prems(1) by (simp add: no_gaps_def)
    with full have kept: "c \<notin> set (skipped ?n)" by (auto simp: list_all_iff)
    then have nt: "nt \<noteq> ''VARIABLE''" using c(1) by (auto simp: skipped_def)
    have sub: "no_gaps c" "shaped c" "arity nt es"
      using ASTNode.prems(1,2) subnodes_child [of c ?n] c(1,3) by (auto simp: no_gaps_def list_all_iff)
    obtain d1 ty1 where v: "(c, d1, ty1) \<in> set (visited ?n)"
      using not_skipped_visited [of ?n c] sub(3) c(1) kept nt by auto
    from ASTNode.IH [OF c(1) sub(1,2) c(2) ASTNode.prems(4)] obtain d' ty' where
        "set (occurrences m d' ty') \<subseteq> set (occurrences c d1 ty1)" by blast
    also have "\<dots> \<subseteq> set (occurrences ?n d ty)"
      by (rule occurrences_visited [OF v]) (simp_all add: nt c(3))
    finally show ?thesis by blast
  qed blast
qed

lemma subnodes_shaped: "shaped n \<Longrightarrow> m \<in> set (subnodes n) \<Longrightarrow> arity (nodeType m) (elements m)"
  by (induction n) (auto simp: list_all_iff split: if_splits)

lemma occurrences_variable:
  assumes "(x, d', ty') \<in> set (visited m)" "nodeType x = ''VARIABLE''" "nodeType m \<noteq> ''VARIABLE''" "nodeType m \<noteq> ''EXISTS''"
  shows "(node_value x, d', ty') \<in> set (occurrences m d ty)"
  using occurrences_visited [OF assms(1,3,4), of d ty] assms(2) by (simp add: occurrences.simps [of x])

lemma node_typed_free: "variable_free m \<Longrightarrow> node_typed table m"
proof -
  assume free: "variable_free m"
  then have m: "nodeType m \<noteq> ''VARIABLE''" using subnodes_self [of m] by (simp add: variable_free_def list_all_iff)
  have "nodeType c \<noteq> ''VARIABLE''" if "c \<in> set (elements m)" "nodeType m \<noteq> ''EXISTS''" for c
    using free subnodes_child [OF that] subnodes_self [of c] by (auto simp: variable_free_def list_all_iff)
  then show ?thesis using m by (cases "nodeType m = ''EXISTS''") (auto simp: node_typed_def Let_def split: list.splits)
qed

lemma typed_single: "typed_in [table] (v, d, type) \<longleftrightarrow> (\<exists>t. map_of table v = Some t \<and> (if d then t = type else usable type t))"
  by (auto simp: typed_in_def split: option.splits)

lemma no_lookup_single: "no_lookup_type [table] \<longleftrightarrow> (\<forall>v. map_of table v \<noteq> Some ''LOOKUP'')"
  by (auto simp: no_lookup_type_def split: option.splits)

lemma node_typed_occurrences:
  assumes typed: "\<forall>q\<in>set (occurrences m d ty). typed_in [table] q" and free: "list_all variable_free (skipped m)"
    and types: "no_lookup_type [table]"
  shows "node_typed table m"
proof -
  have self: "map_of table (node_value m) \<noteq> None" if "nodeType m = ''VARIABLE''"
    using typed that by (auto simp: occurrences.simps [of m] typed_in_def split: option.splits)
  have var: "\<not> variable_free x" if "nodeType x = ''VARIABLE''" for x
    using that subnodes_self [of x] by (auto simp: variable_free_def list_all_iff)
  have at: "typed_in [table] (node_value x, d', ty')"
    if "(x, d', ty') \<in> set (visited m)" "nodeType x = ''VARIABLE''" "nodeType m \<notin> {''VARIABLE'', ''EXISTS''}" for x d' ty'
    using typed occurrences_variable [OF that(1,2), of d ty] that(3) by blast
  show ?thesis
  proof (cases "elements m")
    case (Cons x rest)
    have pattern: "map_of table (node_value x) = Some t"
      if "nodeType x = ''VARIABLE''" "(nodeType m, t) \<in> {(''NODE_PATTERN'', ''NODE''), (''RELATIONSHIP_DETAILS'', ''RELATIONSHIP''), (''YIELD'', ''STRING'')}" for t
      using at [of x True t] that Cons by (auto simp: visited_def pattern_children_def typed_in_def split: option.splits)
    show ?thesis
    proof (cases rest)
      case Nil
      then show ?thesis using self pattern Cons by (simp add: node_typed_def)
    next
      case (Cons y more)
      note el = \<open>elements m = x # rest\<close> [unfolded Cons]
      have named: "map_of table (node_value y) = Some (alias_type x)" if "nodeType m = ''AS''" "nodeType y = ''VARIABLE''"
        using at [of y True "alias_type x"] that el by (auto simp: visited_def typed_in_def split: option.splits)
      have operand: "typed_in [table] (node_value x, False, t)"
        if "nodeType m = ''NON_ARITHMETIC_OPERATOR''" "nodeType x = ''VARIABLE''"
          "nodeType y = ''PROPERTY_LOOKUP'' \<and> t = ''LOOKUP'' \<or> nodeType y \<in> {''LIST_INDEX'', ''LIST_INDEX_RANGE''} \<and> t = ''LIST''" for t
        using at [of x False t] that el free var [of x] by (auto simp: visited_def operand_children_def skipped_def Let_def split: if_splits)
      have property: "map_of table (node_value x) \<in> {Some ''NODE'', Some ''RELATIONSHIP'', Some ''MAP''}"
        if "nodeType m = ''NON_ARITHMETIC_OPERATOR''" "nodeType x = ''VARIABLE''" "nodeType y = ''PROPERTY_LOOKUP''"
        using operand [of "''LOOKUP''"] that types by (auto simp: typed_single usable_def no_lookup_single)
      have indexed: "map_of table (node_value x) = Some ''LIST''"
        if "nodeType m = ''NON_ARITHMETIC_OPERATOR''" "nodeType x = ''VARIABLE''" "nodeType y \<in> {''LIST_INDEX'', ''LIST_INDEX_RANGE''}"
        using operand [of "''LIST''"] that by (auto simp: typed_single usable_def)
      show ?thesis
        using self pattern named property indexed unfolding node_typed_def el
        by (simp add: alias_type_def Let_def)
    qed
  qed (simp add: node_typed_def self)
qed

text \<open>
  C28. The semantic analysis returns for every query without \<^verbatim>\<open>WITH\<close> whose tree has the elements it accesses,
  and it accepts only queries that use their variables consistently: there is one table of types in which
  every variable outside existential subqueries has a type, and with which every node of the tree outside
  them is typed. A variable of a node pattern is a node and a variable of a relationship pattern is a
  relationship, wherever they stand; properties are read from nodes, relationships and maps only; what is
  indexed or sliced is a list. The scopes of existential subqueries are gone at the end. Queries with variables
  at positions that the analysis skips, such as \<^verbatim>\<open>x\<close> and \<^verbatim>\<open>i\<close> in \<^verbatim>\<open>x[i]\<close>, are excepted.
\<close>

theorem analyze_types_consistent:
  assumes "shaped query" "no_with query" "no_gaps query"
  shows "\<exists>ok a. analyze query False ''ANY'' SemanticAnalyzer_new = Some (ok, a) \<and>
    (ok \<longrightarrow> (\<exists>table. scopeManager a = [table] \<and> (\<forall>m\<in>set (subnodes query). node_typed table m)))"
proof -
  obtain ok a where a: "analyze query False ''ANY'' SemanticAnalyzer_new = Some (ok, a)"
    using analyze_returns_some [OF assms(1,2)] by fastforce
  have "\<exists>table. scopeManager a = [table] \<and> (\<forall>m\<in>set (subnodes query). node_typed table m)" if ok: ok
  proof -
    have acc: "grows [[]] (scopeManager a)" "\<forall>q\<in>set (occurrences query False ''ANY''). typed_in (scopeManager a) q"
      using analyze_accepted [OF assms(2), of SemanticAnalyzer_new False "''ANY''" a] a ok
      by (simp_all add: SemanticAnalyzer_new_def enterScope_def)
    have "no_lookup_type (scopeManager a)"
      using analyze_accepted(3) [OF assms(2), of SemanticAnalyzer_new False "''ANY''" a] a ok
      by (simp add: SemanticAnalyzer_new_def enterScope_def no_lookup_type_def)
    with acc obtain table where table: "scopeManager a = [table]" "no_lookup_type [table]" by (cases "scopeManager a") (auto simp: grows_def)
    have "node_typed table m" if m: "m \<in> set (subnodes query)" for m
    proof (cases "variable_free m")
      case False
      from subnode_occurrences [OF assms(3,1) m False] obtain d' ty' where
          "set (occurrences m d' ty') \<subseteq> set (occurrences query False ''ANY'')" by blast
      then have "\<forall>q\<in>set (occurrences m d' ty'). typed_in [table] q" using acc(2) table(1) by auto
      moreover have "list_all variable_free (skipped m)" using assms(3) m by (simp add: no_gaps_def list_all_iff)
      ultimately show ?thesis using table(2) by (rule node_typed_occurrences)
    qed (rule node_typed_free)
    with table(1) show ?thesis by blast
  qed
  with a show ?thesis by blast
qed

lemma sample_no_gaps: "no_gaps sample_query"
  by (simp add: sample_query_def tree_def leaf_def no_gaps_def skipped_def variable_free_def)

theorem analyze_types_consistent_witness:
  "\<exists>table. scopeManager sample_end = [table] \<and> (\<forall>m\<in>set (subnodes sample_query). node_typed table m)"
  using analyze_types_consistent [OF sample_query_accepted(3,2) sample_no_gaps] sample_query_accepted(1) by auto

text \<open>
  On a tree of the shape that \<^verbatim>\<open>ASTBuilder\<close> produces, without \<^verbatim>\<open>WITH\<close>, the analysis returns: it accesses
  no element that does not exist and no symbol that is missing.
\<close>

lemma analyze_returns:
  assumes "shaped query" "no_with query"
  shows "\<exists>ok a'. analyze query canDefine type a = Some (ok, a')"
  using analyze_returns_some [OF assms] by auto



text \<open>An indexed variable is not checked at all unless the index is a decimal literal.\<close>

lemma index_not_checked:
  "nodeType i \<noteq> ''DECIMAL'' \<Longrightarrow>
    analyze (tree ''NON_ARITHMETIC_OPERATOR'' [leaf ''VARIABLE'' v, tree ''LIST_INDEX'' [i]]) d type a = Some (True, a)"
  by (simp add: analyze.simps tree_def leaf_def)

text \<open>
  A list comprehension that \<^verbatim>\<open>WITH\<close> names is a list for \<^verbatim>\<open>AS\<close>, but is carried on with type \<open>''ANY''\<close>.
\<close>

lemma comprehension_loses_type:
  "alias_type (ASTNode ''LIST_COMPREHENSION'' x es) = ''LIST''"
  "item_type (ASTNode ''LIST_COMPREHENSION'' x es) a = Some ''ANY''"
  by (simp_all add: alias_type_def item_type_def)

end
