(* ===== verification/Spec2Isabelle.thy ===== *)
theory Spec2Isabelle
  imports Allocation_Filter Block_Roundtrips Sample_Store Stream_Greedy Triangle_Merge Triangle_Store
    Hash_Degrees Protocol_Schedules Metis_Spread Shared_Buffer Thread_Pool Semantic_Analysis
begin

text \<open>
  \<^bold>\<open>Verification of JasmineGraph.\<close> JasmineGraph (C++, under \<^verbatim>\<open>src/src\<close>) is a distributed graph
  database. A master streams or loads a graph and splits it into partitions; workers keep each
  partition in a native store on disk (streamed graphs) or in hash map stores (loaded graphs), and
  answer queries such as the number of triangles, partly with threads of their own. This theory
  imports all others and holds the properties of the native store as a whole.

  \<^bold>\<open>Conventions.\<close> A C++ function is an Isabelle function of the same name; a class is a record. State
  is passed explicitly, and a result of type \<^verbatim>\<open>option\<close> is \<^const>\<open>None\<close> where the source has undefined
  behaviour, an uncaught exception, a null dereference or a wait that never ends; where a property is about
  not ending (\<open>Edge_List\<close>), exceptions are values of their own and \<^const>\<open>None\<close> is left for endless loops.
  Mutexes that are global variables of the process are an argument of the constructor that finds them. Unsigned integers
  are words of their width, so arithmetic wraps. A file is a list of bytes with one position and one
  error state, as in \<^verbatim>\<open>std::fstream\<close>. A \<^verbatim>\<open>std::map\<close> is an association list sorted by key; the order
  in which a hash container is iterated is unspecified in C++ and is therefore an argument (\<open>it\<close> or
  \<open>enum\<close>), and theorems hold for all such arguments. Log messages are left out.

  \<^bold>\<open>Foundations.\<close> \<open>Prelude\<close> has the integer types and list lemmas, \<open>Cpp_Runtime\<close> streams, C strings and
  byte encodings, \<open>Cpp_Numbers\<close> \<^verbatim>\<open>to_string\<close>, \<^verbatim>\<open>stoul\<close>, \<^verbatim>\<open>stol\<close> and \<^verbatim>\<open>stoi\<close> with their exceptions.

  \<^bold>\<open>Native store\<close> (\<^verbatim>\<open>nativestore\<close>).
  \<^item> \<open>Property_Link\<close>: the classes \<^verbatim>\<open>PropertyLink\<close>, \<^verbatim>\<open>MetaPropertyLink\<close>, \<^verbatim>\<open>PropertyEdgeLink\<close> and
    \<^verbatim>\<open>MetaPropertyEdgeLink\<close>, linked lists of fixed-size blocks. \<open>Property_Chain\<close> gives a file its meaning;
    \<open>Property_Contract\<close> states the contract of such a class as a locale and interprets it four times;
    \<open>Property_Maps\<close> shows that the lists implement finite maps, and that \<^verbatim>\<open>addProperty\<close> moves the head
    of a list in memory.
  \<^item> \<open>Node_Block\<close>, \<open>Relation_Block\<close>, \<open>Node_Relations\<close>, \<open>Node_Manager\<close>: the classes \<^verbatim>\<open>NodeBlock\<close>,
    \<^verbatim>\<open>RelationBlock\<close> and \<^verbatim>\<open>NodeManager\<close>. An edge block is linked into the chains of both its end nodes.
  \<^item> \<open>File_Blocks\<close>, \<open>Block_Access\<close>, \<open>Graph_Chains\<close>, \<open>Graph_Update\<close>, \<open>Graph_Store\<close>: the representation
    invariant \<^const>\<open>store_inv\<close>, which relates the files and the index to an abstract graph (a list of
    identifiers and two lists of edges). \<open>Graph_Nodes\<close> and \<open>Graph_Edges\<close> prove that insertion refines
    insertion into the abstract graph; \<open>Graph_Query\<close> that the traversals return what the graph has;
    \<open>Graph_Recovery\<close> that a reopened partition represents the graph it was left with.
  \<^item> \<open>Block_Roundtrips\<close>: writing and reading single blocks, and properties that are added to a node and read
    back through its block; \<open>Sample_Store\<close>: concrete stores.

  \<^bold>\<open>Stream partitioner\<close> (\<^verbatim>\<open>partitioner/stream/Partition.cpp\<close>, \<^verbatim>\<open>Partitioner.cpp\<close>). \<open>Stream_Partition\<close> and
  \<open>Stream_Partitioner\<close> are the model; \<open>Stream_Hashing\<close> proves hash partitioning correct, with the counts
  of \<^verbatim>\<open>updateMetaDB\<close>; \<open>Stream_Greedy\<close> covers LDG and FENNEL for any arithmetic on \<^verbatim>\<open>double\<close>, which is a
  parameter record.

  \<^bold>\<open>Triangle counting\<close> (\<^verbatim>\<open>query/algorithms/triangles\<close>). \<open>Triangle_Count\<close> models \<^verbatim>\<open>Triangles.cpp\<close>,
  \<open>Streaming_Triangles\<close> models \<^verbatim>\<open>StreamingTriangles.cpp\<close>. \<open>Triangle_Exact\<close> proves the static count equal to
  the number of triangles, \<open>Triangle_Merge\<close> the count over three stores, \<open>Triangle_Increment\<close> the
  incremental formula with its \<^verbatim>\<open>long\<close> and \<^verbatim>\<open>double\<close> arithmetic, and \<open>Triangle_Store\<close> composes them with the native store.

  \<^bold>\<open>Workers.\<close> \<open>Hash_Stores\<close> models \<^verbatim>\<open>JasmineGraphHashMapLocalStore\<close>, \<^verbatim>\<open>JasmineGraphHashMapCentralStore\<close>
  and \<^verbatim>\<open>JasmineGraphHashMapDuplicateCentralStore\<close>; the FlatBuffers codec is a parameter. \<open>Hash_Contract\<close>
  states what a triangle count needs of a store as a locale, interpreted for the three classes;
  \<open>Hash_Degrees\<close> has the degree tables. \<open>Worker_Triangles\<close> models the functions of
  \<^verbatim>\<open>JasmineGraphInstanceService.cpp\<close> that load stores on demand and count triangles, and proves the counts.

  \<^bold>\<open>Threads\<close> (\<^verbatim>\<open>query/processor/cypher\<close>). \<open>Schedules\<close> has transition systems and a locale for invariants
  and bounded progress. \<open>Shared_Buffer\<close> models \<^verbatim>\<open>SharedBuffer\<close>, a critical section per step, and shows order,
  delivery, and a lost wake-up for every size of the buffer. \<open>Parallel_Executor\<close> models the chunks of \<^verbatim>\<open>IntraPartitionParallelExecutor\<close>
  and \<open>Thread_Pool\<close> its thread pool; processing in parallel is shown to equal sequential processing.

  \<^bold>\<open>Master.\<close> \<open>Partition_Allocation\<close> and \<open>Partition_Transfer\<close> model the functions of
  \<^verbatim>\<open>frontend/core/executor/impl/TriangleCountExecutor.cpp\<close> that choose a worker for every partition before a
  count, up to \<^verbatim>\<open>filter_partitions\<close>. \<open>Allocation_Optimal\<close> shows that the search of \<^verbatim>\<open>alloc_plan\<close> leaves as few
  partitions as possible, \<open>Allocation_Filter\<close> that every partition ends up with exactly one worker that has it
  or gets a copy, wherever the code is defined: a fully loaded worker that has a partition, or two workers with
  the same load of 3 or more in a sort, are undefined behaviour. The order of elements that a sort leaves open, the processor loads and the starting of
  workers are parameters. \<open>Ordered_Map\<close> has \<^verbatim>\<open>std::map\<close>.

  \<^bold>\<open>Conversations.\<close> \<open>Dialogue\<close> has processes that send and receive texts and the links between two of them,
  with \<^verbatim>\<open>read_str_wrapper\<close> of \<^verbatim>\<open>util/Utils.cpp\<close>; if the sides take turns, every schedule ends in the same way.
  \<open>Worker_Protocol\<close> models the session of a worker (\<^verbatim>\<open>instanceservicesession\<close>) and the commands that a
  triangle count uses, \<open>Master_Protocol\<close> the requests of \<^verbatim>\<open>TriangleCountExecutor.cpp\<close>; its lemmas give the end of
  each conversation, also where an empty text leaves both sides waiting. \<open>Combinations\<close> has \<^verbatim>\<open>getCombinations\<close>.
  Loops that wait for the other side have a number of rounds as an argument; the theorems hold for every
  number from a stated bound on, which the sizes of the texts determine.

  \<^bold>\<open>Distributed count.\<close> \<open>Master_Triangles\<close> is \<^verbatim>\<open>TriangleCountExecutor::execute\<close> and
  \<^verbatim>\<open>aggregateCentralStoreTriangles\<close> over a table of workers. \<open>Triangle_Split\<close> divides the triangles of a graph into
  those with an edge inside a partition and those between partitions, \<open>Triangle_Answers\<close> reads the texts
  of the workers, \<open>Distributed_Count\<close> follows the copies of central stores and the combinations of
  partitions, \<open>Distributed_Exact\<close> shows that the sum is the number of triangles of the graph, and
  \<open>Protocol_Schedules\<close> has the properties under every schedule.

  \<^bold>\<open>METIS partitioner.\<close> \<open>Edge_List\<close> reads the lines of an edge list, \<open>Metis_Graph\<close> has \<^verbatim>\<open>loadDataSet\<close>,
  \<^verbatim>\<open>constructMetisFormat\<close> and \<^verbatim>\<open>reformatDataSet\<close> of \<^verbatim>\<open>partitioner/local/MetisPartitioner.cpp\<close>, \<open>Metis_Load\<close> and
  \<open>Metis_Format\<close> show what is loaded (with counters that stay within 32 bits), written and renumbered. \<open>Metis_Stores\<close> has the splitting into stores and
  their files, for any assignment of vertices to partitions, and \<open>Metis_Spread\<close> shows that the stores are those
  that the distributed count needs.

  \<^bold>\<open>Queries.\<close> \<open>Semantic_Analysis\<close> models \<^verbatim>\<open>Scope\<close>, \<^verbatim>\<open>ScopeManager\<close> and \<^verbatim>\<open>SemanticAnalyzer\<close> of
  \<^verbatim>\<open>query/processor/cypher/semanticanalyzer\<close> on syntax trees and shows that every node of an accepted query is
  typed by one table of types, for queries without \<^verbatim>\<open>WITH\<close> and without variables at positions that are skipped.

  \<^bold>\<open>Bounds.\<close> Loops are total functions, except the walks along chains of blocks, which are
  \<^verbatim>\<open>partial_function (option)\<close> because a damaged file may have a cycle, and the reading of an edge list, which
  does not end without a last newline; on a store that satisfies the invariant, and on a file of complete
  lines, they are proved to return. The hypotheses \<^const>\<open>nodes_room\<close> and \<^const>\<open>edges_room\<close> say that block
  addresses fit into 32 bits.

  \<^bold>\<open>Not modelled.\<close> Socket protocols and process control of the servers and front ends, SQLite, Kafka,
  HDFS, Kubernetes, METIS, language models and vector indexes, telemetry: these parts send and
  receive, or call libraries, and have little state of their own. The Cypher parser is generated code.
\<close>

subsection \<open>Adding edges\<close>

text \<open>
  C1. \<^verbatim>\<open>NodeManager::addLocalEdge\<close> and \<^verbatim>\<open>addCentralEdge\<close> implement the insertion of an edge into
  an abstract graph: on a store that represents the graph, with the mutex free, identifiers that
  fit and room for two nodes and an edge, the call returns a new relation, gives the mutex back
  and leaves a store that represents the graph with the edge; properties are untouched, and only
  a local edge advances the edge counter.
\<close>

theorem addEdge_refines:
  assumes "store_inv g nm s" "\<not> lockEdgeAdd nm" "type_image img"
    and "valid_id (INDEX_KEY_SIZE nm) a" "valid_id (INDEX_KEY_SIZE nm) b"
    and "nodes_room 2 g" "edges_room sc 1 g"
  shows "\<exists>r nm' s'. addEdge sc (a, b) img nm s = Some (Added r, nm', s') \<and>
    store_inv (graph_add_edge sc (a, b) g) nm' s' \<and> \<not> lockEdgeAdd nm' \<and> props_same s s' \<and>
    rb_addr r = rel_addr sc (length (g_edges g sc)) \<and>
    nextEdgeIndex nm' = nextEdgeIndex nm + (if sc = Local then 1 else 0)"
  using addEdge_effect [OF assms] by metis

theorem addEdge_refines_witness:
  "\<exists>r nm' s'. addEdge Local (''1'', ''2'') blank_image fresh_manager fresh_store = Some (Added r, nm', s') \<and>
    store_inv (graph_add_edge Local (''1'', ''2'') empty_graph) nm' s' \<and> \<not> lockEdgeAdd nm' \<and>
    props_same fresh_store s' \<and> rb_addr r = 152 \<and> nextEdgeIndex nm' = 1"
  using addEdge_refines [OF fresh_store_inv _ blank_image_type, of "''1''" "''2''" Local]
    nodes_room_mono [OF rooms_empty(1), of empty_graph 2] edges_room_mono [OF rooms_empty(2), of empty_graph Local 1]
    valid_samples
  by (auto simp: fresh_manager_def empty_graph_def rel_addr_def RelationBlock_BLOCK_SIZE_def MAX_TYPE_SIZE_def)

text \<open>
  C2. A partition opened in truncating mode with no index file while the mutex of the edges is free, followed by any sequence of edge
  insertions (fewer than about 15 million) with identifiers that fit: every call returns, and
  the store represents exactly the inserted edges, in order, over the inserted identifiers.
\<close>

theorem edges_from_fresh_partition:
  assumes "cfg_openMode gc \<noteq> FILE_MODE" "pf_index pf = []" "\<not> pm_lockEdgeAdd pm"
    and "valid_edges (if maxLabelSize gc = 0 then 6 else maxLabelSize gc) es" "280 * length es < 2 ^ 32"
  shows "\<exists>nm s nm' s'. NodeManager_new pm gc pf = Some (nm, s) \<and> add_edges es nm s = Some (nm', s') \<and>
    store_inv (graph_add_edges es empty_graph) nm' s' \<and> \<not> lockEdgeAdd nm'"
proof -
  let ?K = "if maxLabelSize gc = 0 then 6 else maxLabelSize gc"
  obtain nm where nm: "NodeManager_new pm gc pf = Some (nm, open_store pm True pf)" "INDEX_KEY_SIZE nm = ?K"
      "indexDB nm = []" "nodeIndex nm = Map.empty" "nextNodeIndex nm = 0" "\<not> lockEdgeAdd nm"
    using assms(1-3) by (simp add: NodeManager_new_def Let_def setIndexKeySize_def)
  have "nodes_room (2 * length es) empty_graph" "edges_room sc (length es) empty_graph" for sc
    using assms(5) by (cases sc; simp add: nodes_room_def edges_room_def empty_graph_def NodeBlock_BLOCK_SIZE_def
        RelationBlock_BLOCK_SIZE_def RelationBlock_CENTRAL_BLOCK_SIZE_def MAX_TYPE_SIZE_def)+
  with add_edges_effect [OF store_inv_empty [OF nm(3-5), of pm pf] nm(6)] assms(4) nm(1,2)
  show ?thesis by fastforce
qed

theorem edges_from_fresh_partition_witness:
  "\<exists>nm s nm' s'. NodeManager_new free_mutexes \<lparr>maxLabelSize = 0, cfg_graphID = 1, cfg_partitionID = 0, cfg_openMode = ''trunc''\<rparr>
      no_files = Some (nm, s) \<and> add_edges sample_edges nm s = Some (nm', s') \<and>
    store_inv sample_graph nm' s' \<and> \<not> lockEdgeAdd nm'"
  using edges_from_fresh_partition [of "\<lparr>maxLabelSize = 0, cfg_graphID = 1, cfg_partitionID = 0, cfg_openMode = ''trunc''\<rparr>"
      no_files free_mutexes sample_edges]
  by (simp add: FILE_MODE_def no_files_def free_mutexes_def sample_graph_edges) (simp add: sample_edges_def valid_samples blank_image_type)

subsection \<open>Following the chains\<close>

lemma edges_at_map: "map (\<lambda>k. f (es ! k)) (edges_at es (length es) v) = rev (map f (filter (incident v) es))"
proof -
  have "map (\<lambda>k. f (es ! k)) (edges_at es n v) = rev (map f (filter (incident v) (take n es)))" if "n \<le> length es" for n
    using that by (induction n) (simp_all add: take_Suc_conv_app_nth)
  from this [of "length es"] show ?thesis by simp
qed

text \<open>
  C3. \<^verbatim>\<open>getLocalEdgeNodes\<close> and \<^verbatim>\<open>getCentralEdgeNodes\<close> on a node of a represented graph return: the
  nodes at the other ends of its edges in the scope, last inserted edge first, each edge once.
  Nothing stored changes.
\<close>

theorem getEdgeNodes_neighbours:
  assumes "store_inv g nm s" "i \<in> set (g_ids g)"
  shows "\<exists>nb s1 xs s2. get_node nm i s = Some (Some nb, s1) \<and> getEdgeNodes sc nb s1 = Some (xs, s2) \<and>
    map (\<lambda>x. nb_nodeId (fst x)) xs =
      rev (map (\<lambda>e. vertex_number (g_ids g ! other_end (position (g_ids g) i) e))
            (filter (incident (position (g_ids g) i)) (g_edges g sc))) \<and>
    rewind s2 = rewind s"
proof -
  let ?v = "position (g_ids g) i" and ?es = "g_edges g sc"
  obtain nb s1 where nb: "get_node nm i s = Some (Some nb, s1)" "rewind s1 = rewind s" "node_for g i nb"
    using node_of_stored [OF assms] by blast
  have "store_inv g nm s1" using assms(1) store_inv_rewind [OF nb(2)] by simp
  from getEdgeNodes_effect [OF this assms(2) nb(3)]
  obtain xs s2 where xs: "getEdgeNodes sc nb s1 = Some (xs, s2)" "rewind s2 = rewind s1"
    "list_all2 (neighbour_entry g sc ?v) (edges_at ?es (length ?es) ?v) xs" by blast
  have "map (\<lambda>x. nb_nodeId (fst x)) xs =
      map (\<lambda>k. vertex_number (g_ids g ! other_end ?v (?es ! k))) (edges_at ?es (length ?es) ?v)"
    using xs(3) by induction (auto simp: neighbour_entry_def)
  then show ?thesis
    using nb(1,2) xs(1,2) edges_at_map [of "\<lambda>e. vertex_number (g_ids g ! other_end ?v e)" ?es ?v] by auto
qed

theorem getEdgeNodes_neighbours_witness:
  "\<exists>nb s1 xs s2. get_node (fst sample_run) ''2'' (snd sample_run) = Some (Some nb, s1) \<and>
    getEdgeNodes Local nb s1 = Some (xs, s2) \<and> map (\<lambda>x. nb_nodeId (fst x)) xs = [3, 1]"
proof -
  have "vertex_number ''1'' = 1" "vertex_number ''3'' = 3"
    by (simp_all add: vertex_number_def stoul_def scan_number_def is_digit_def is_space_def digits_value_def)
  then show ?thesis
    using getEdgeNodes_neighbours [OF sample_run_inv(1), of "''2''" Local]
    by (auto simp: sample_graph_def position_def incident_def other_end_def)
qed

text \<open>
  C4. \<^verbatim>\<open>searchRelation\<close> between two nodes of a represented graph returns, and it finds a relation
  exactly if the graph has an edge between them, in either direction and in either scope.
\<close>

theorem searchRelation_correct:
  assumes "store_inv g nm s" "i \<in> set (g_ids g)" "node_for g i nb" "j \<in> set (g_ids g)" "node_for g j nb'"
  shows "\<exists>s'. searchRelation nb nb' s = Some (adjacent g Local i j \<or> adjacent g Central i j, s') \<and>
    rewind s' = rewind s"
proof -
  have found: "res \<noteq> None \<longleftrightarrow> adjacent g sc i j"
    if "rel_option (relation_for g sc)
       (find (\<lambda>k. other_end (position (g_ids g) i) (g_edges g sc ! k) = position (g_ids g) j)
         (edges_at (g_edges g sc) (length (g_edges g sc)) (position (g_ids g) i))) res" for sc res
    using that find_edge [of "position (g_ids g) i" "g_edges g sc" "position (g_ids g) j"]
    by (auto simp: adjacent_def option_rel_Some1 split: option.splits elim: option.rel_cases)
  from searchChain_effect [OF assms]
  obtain r1 s1 where r1: "searchChain Local nb nb' s = Some (r1, s1)" "rewind s1 = rewind s"
    "r1 \<noteq> None \<longleftrightarrow> adjacent g Local i j" using found by metis
  have "store_inv g nm s1" using assms(1) store_inv_rewind [OF r1(2)] by simp
  from searchChain_effect [OF this assms(2-5)]
  obtain r2 s2 where r2: "searchChain Central nb nb' s1 = Some (r2, s2)" "rewind s2 = rewind s1"
    "r2 \<noteq> None \<longleftrightarrow> adjacent g Central i j" using found by metis
  show ?thesis using r1 r2
    by (auto simp: searchRelation_def searchLocalRelation_def searchCentralRelation_def)
qed

theorem searchRelation_correct_witness:
  "\<exists>nb nb' s'. searchRelation nb nb' (snd sample_run) = Some (True, s') \<and> nb_id nb = ''1'' \<and> nb_id nb' = ''2''"
proof -
  have ids: "''1'' \<in> set (g_ids sample_graph)" "''2'' \<in> set (g_ids sample_graph)"
    by (simp_all add: sample_graph_def)
  obtain nb where nb: "node_for sample_graph ''1'' nb"
    using node_of_stored [OF sample_run_inv(1) ids(1)] by blast
  obtain nb' where nb': "node_for sample_graph ''2'' nb'"
    using node_of_stored [OF sample_run_inv(1) ids(2)] by blast
  have "adjacent sample_graph Local ''1'' ''2''"
    by (simp add: adjacent_def sample_graph_def position_def)
  then obtain s' where "searchRelation nb nb' (snd sample_run) = Some (True, s')"
    using searchRelation_correct [OF sample_run_inv(1) ids(1) nb ids(2) nb'] by auto
  then show ?thesis using nb nb' by (auto simp: node_for_def)
qed

lemma neighbour_numbers_filter:
  "neighbour_numbers g sc i =
     set (map (\<lambda>e. number (g_ids g ! other_end (position (g_ids g) i) e)) (filter (incident (position (g_ids g) i)) (g_edges g sc)))"
  unfolding neighbour_numbers_def Let_def set_map set_filter by blast

text \<open>
  C5. \<^verbatim>\<open>getAdjacencyList\<close> of a represented graph, for any order in which the index is enumerated: the
  vertex number of each node is mapped to the numbers of its neighbours over both scopes (for
  two nodes with the same number, the first one enumerated counts).
\<close>

theorem getAdjacencyList_correct:
  assumes "store_inv g nm s" "set it = set (g_ids g)"
  shows "\<exists>s'. getAdjacencyList it nm s =
    Some (map_of (map (\<lambda>i. (number i, neighbour_numbers g Local i \<union> neighbour_numbers g Central i)) it), s') \<and>
    rewind s' = rewind s"
  using adjacency_effect [OF assms(1), of it Map.empty] assms(2) by (simp add: getAdjacencyList_def)

theorem getAdjacencyList_correct_witness:
  "\<exists>adj s'. getAdjacencyList [''2'', ''1'', ''3''] (fst sample_run) (snd sample_run) = Some (adj, s') \<and>
    adj 1 = Some {2} \<and> adj 2 = Some {1, 3}"
proof -
  have n: "number ''1'' = 1" "number ''2'' = 2" "number ''3'' = 3"
    by (simp_all add: number_def vertex_number_def stoul_def scan_number_def is_digit_def is_space_def digits_value_def)
  have nb: "neighbour_numbers sample_graph Local ''1'' \<union> neighbour_numbers sample_graph Central ''1'' = {2}"
    "neighbour_numbers sample_graph Local ''2'' \<union> neighbour_numbers sample_graph Central ''2'' = {1, 3}"
    by (simp_all add: neighbour_numbers_filter sample_graph_def position_def incident_def other_end_def n insert_commute)
  have "set [''2'', ''1'', ''3''] = set (g_ids sample_graph)" by (auto simp: sample_graph_def)
  from getAdjacencyList_correct [OF sample_run_inv(1) this]
  show ?thesis by (elim exE conjE) (intro exI conjI, assumption, simp_all add: n nb)
qed

text \<open>
  C6. \<^verbatim>\<open>getAdjacencyList(bool)\<close> of a represented graph whose relation file is below 2 GiB: every source
  vertex of the scope is mapped to the set of its destinations, and nothing else is mapped.
\<close>

theorem getAdjacencyList_of_correct:
  assumes "store_inv g nm s" "length (content (relDB sc s)) < 2 ^ 31"
  shows "\<exists>s'. getAdjacencyList_of sc s =
    Some (\<lambda>x. if x \<in> (\<lambda>e. int (number (g_ids g ! fst e))) ` set (g_edges g sc)
              then Some ((\<lambda>e. int (number (g_ids g ! snd e))) `
                          {e \<in> set (g_edges g sc). int (number (g_ids g ! fst e)) = x})
              else None, s') \<and> rewind s' = rewind s"
  using assms by (rule getAdjacencyList_of_effect)

theorem getAdjacencyList_of_correct_witness:
  "\<exists>adj s'. getAdjacencyList_of Local (snd sample_run) = Some (adj, s') \<and>
    adj 1 = Some {2} \<and> adj 2 = Some {3} \<and> adj 3 = None"
proof -
  have n: "number ''1'' = 1" "number ''2'' = 2" "number ''3'' = 3"
    by (simp_all add: number_def vertex_number_def stoul_def scan_number_def is_digit_def is_space_def digits_value_def)
  have "rel_inv Local [(0, 1), (1, 2)] (snd sample_run)"
    using sample_run_inv(1) by (auto simp: store_inv_def sample_graph_def split: scope.splits)
  then have "length (content (relDB Local (snd sample_run))) < 2 ^ 31"
    by (simp add: rel_inv_def RelationBlock_BLOCK_SIZE_def MAX_TYPE_SIZE_def)
  note eq = getAdjacencyList_of_correct [OF sample_run_inv(1) this]
  have "{e \<in> set (g_edges sample_graph Local). int (number (g_ids sample_graph ! fst e)) = 1} = {(0, 1)}"
    "{e \<in> set (g_edges sample_graph Local). int (number (g_ids sample_graph ! fst e)) = 2} = {(1, 2)}"
    "(\<lambda>e. int (number (g_ids sample_graph ! fst e))) ` set (g_edges sample_graph Local) = {1, 2}"
    by (auto simp: sample_graph_def n)
  moreover have "g_ids sample_graph ! 1 = ''2''" "g_ids sample_graph ! 2 = ''3''" by (simp_all add: sample_graph_def)
  ultimately show ?thesis using eq by (elim exE conjE) (intro exI conjI, assumption, simp_all add: n)
qed

subsection \<open>Persistence\<close>

text \<open>
  C7. A partition reopened in append mode, with the same key size, on the files that a store leaves
  behind represents the same graph and has the same index. The mutex of the edges, which is global,
  stays as it is: a mutex that a failed insertion has left locked is still locked. (The index file
  is below 2 GiB and no edge index was written.)
\<close>

theorem reopen_represents:
  assumes "store_inv g nm s" "edgeIndexDB nm = []" "length (indexDB nm) < 2 ^ 31"
    and "cfg_openMode gc = FILE_MODE" "maxLabelSize gc = INDEX_KEY_SIZE nm" "INDEX_KEY_SIZE nm \<noteq> 0"
  shows "\<exists>nm' s'. NodeManager_new pm gc (files_of nm s) = Some (nm', s') \<and> store_inv g nm' s' \<and>
    lockEdgeAdd nm' = pm_lockEdgeAdd pm \<and> nodeIndex nm' = nodeIndex nm"
  using NodeManager_new_effect [OF assms] by metis

theorem reopen_represents_witness:
  "\<exists>nm' s'. NodeManager_new free_mutexes \<lparr>maxLabelSize = 6, cfg_graphID = 1, cfg_partitionID = 0, cfg_openMode = ''app''\<rparr>
      (files_of (fst sample_run) (snd sample_run)) = Some (nm', s') \<and> store_inv sample_graph nm' s'"
  using reopen_represents [OF sample_run_inv(1,3), of "\<lparr>maxLabelSize = 6, cfg_graphID = 1, cfg_partitionID = 0,
      cfg_openMode = ''app''\<rparr>" free_mutexes] sample_run_inv(2) sample_index_length
  by (auto simp: FILE_MODE_def)

text \<open>
  C8. \<^verbatim>\<open>persistNodeIndex\<close> followed by \<^verbatim>\<open>readNodeIndex\<close>, for any enumeration of the index: the keys shorter
  than the key size come back with their blocks, the others are gone, and the next node index is
  the number of keys that were written.
\<close>

theorem persist_read_index:
  assumes "map_of it = nodeIndex nm" "distinct (map fst it)" "\<forall>k\<in>fst ` set it. NUL \<notin> set k"
    and "length (indexDB (persistNodeIndex it nm)) < 2 ^ 31"
  shows "readIndex (INDEX_KEY_SIZE nm) (indexDB (persistNodeIndex it nm)) =
    Some (nodeIndex nm |` {k. length k < INDEX_KEY_SIZE nm}, card {k \<in> dom (nodeIndex nm). length k < INDEX_KEY_SIZE nm})"
proof -
  let ?K = "INDEX_KEY_SIZE nm" and ?f = "filter (\<lambda>p. length (fst p) < INDEX_KEY_SIZE nm) it"
  have short: "\<forall>p\<in>set ?f. short_key ?K (fst p)" using assms(3) by (auto simp: short_key_def)
  have "distinct (map fst ?f)" using assms(2) by (rule distinct_map_filter)
  then have "map_of (rev ?f) = nodeIndex nm |` {k. length k < ?K}"
    using map_of_filter_restrict [OF assms(2), of "\<lambda>k. length k < ?K"] assms(1) by (simp add: map_of_rev_distinct)
  moreover have "length ?f = card {k \<in> dom (nodeIndex nm). length k < ?K}"
  proof -
    have "length ?f = card (set (map fst ?f))"
      using distinct_card [OF \<open>distinct (map fst ?f)\<close>] by simp
    also have "set (map fst ?f) = {k \<in> dom (nodeIndex nm). length k < ?K}"
      using assms(1) [symmetric] by (auto simp: dom_map_of_conv_image_fst)
    finally show ?thesis .
  qed
  ultimately show ?thesis
    using readIndex_entries [OF short] assms(4) by (simp add: persistNodeIndex_entries)
qed

theorem persist_read_index_witness:
  "readIndex 6 (indexDB (persistNodeIndex [(''12'', 1), (''1234567'', 0)]
      (fresh_manager\<lparr>nodeIndex := [''12'' \<mapsto> 1, ''1234567'' \<mapsto> 0]\<rparr>))) = Some ([''12'' \<mapsto> 1], 1)"
proof -
  let ?it = "[(''12'', 1), (''1234567'', 0)] :: (string \<times> u32) list"
  let ?nm = "fresh_manager\<lparr>nodeIndex := [''12'' \<mapsto> 1, ''1234567'' \<mapsto> 0]\<rparr>"
  have k: "INDEX_KEY_SIZE ?nm = 6" by (simp add: fresh_manager_def)
  have m: "nodeIndex ?nm |` {k. length k < 6} = [''12'' \<mapsto> 1]"
    by (auto simp: restrict_map_def fun_eq_iff)
  have e: "{k \<in> dom (nodeIndex ?nm). length k < 6} = {''12''}" by (auto simp: dom_def split: if_splits)
  have c: "card {k \<in> dom (nodeIndex ?nm). length k < 6} = 1" unfolding e by simp
  have "length (indexDB (persistNodeIndex ?it ?nm)) < 2 ^ 31"
    by (simp add: persistNodeIndex_def fresh_manager_def index_entry_def)
  from persist_read_index [of ?it ?nm, OF _ _ _ this]
  show ?thesis unfolding k m c by (simp add: fun_eq_iff)
qed

text \<open>
  C36. An identifier that is not a number makes \<^verbatim>\<open>std::stoul\<close> throw inside \<^verbatim>\<open>addLocalEdge\<close> and \<^verbatim>\<open>addCentralEdge\<close>
  while the global mutex is held: the files do not change, but the mutex stays locked, and every
  later insertion of an edge, of any scope, waits forever.
\<close>

theorem bad_identifier_locks_store:
  assumes "\<not> lockEdgeAdd nm" "nodeIndex nm a = None" "stoul a = None"
  shows "\<exists>nm'. addEdge sc (a, b) img nm s = Some (Threw, nm', s) \<and>
    (\<forall>sc' e img' s'. addEdge sc' e img' nm' s' = None)"
  using assms by (simp add: addEdge_def addNode_def)

theorem bad_identifier_locks_store_witness:
  "\<exists>nm'. addEdge Local (''x'', ''1'') blank_image fresh_manager fresh_store = Some (Threw, nm', fresh_store) \<and>
    addEdge Local (''1'', ''2'') blank_image nm' fresh_store = None"
  using bad_identifier_locks_store [of fresh_manager "''x''" Local "''1''" blank_image fresh_store]
  by (auto simp: fresh_manager_def stoul_def scan_number_def is_digit_def is_space_def)

end
